(* ===== verification/Prelude.thy ===== *)
theory Prelude
  imports Main "HOL-Library.Word"
begin

text \<open>
  Shared vocabulary of the development: the fixed-width integer types of
  include/m68k_types.h, the theorem collections the component theories fill, and
  the generic facts about words (reading a bit, masking to an operand width,
  joining and splitting big-endian values, two's complement overflow) that
  several components use.
\<close>

unbundle bit_operations_syntax

subsection \<open>Integer types of m68k_types.h\<close>

type_synonym u8 = "8 word"
type_synonym u16 = "16 word"
type_synonym u32 = "32 word"
type_synonym u64 = "64 word"

subsection \<open>Theorem collections\<close>

named_theorems flag_simps \<open>reading and writing the condition code register\<close>
named_theorems mem_simps \<open>reading and writing the memory map\<close>
named_theorems inv_intros \<open>preservation of component invariants\<close>
named_theorems frame_simps \<open>what an operation leaves unchanged\<close>

subsection \<open>Sign extension casts of the C sources\<close>

abbreviation sx8 :: "u8 \<Rightarrow> u32" where "sx8 v \<equiv> scast v"
abbreviation sx16 :: "u16 \<Rightarrow> u32" where "sx16 v \<equiv> scast v"

text \<open>The cast \<open>(u8)b\<close> of a C truth value.\<close>

definition b2w :: "bool \<Rightarrow> 'a::len word" where
  "b2w b = (if b then 1 else 0)"

lemma b2w_simps [simp]: "b2w True = 1" "b2w False = 0"
  by (simp_all add: b2w_def)

subsection \<open>Reading bits\<close>

lemma and_push_bit_1_iff: "x AND push_bit n 1 \<noteq> 0 \<longleftrightarrow> bit x n" for x :: "'a::len word"
  by (simp add: and_exp_eq_0_iff_not_bit push_bit_of_1)

text \<open>Bit \<open>k\<close> of a nonnegative integer below \<open>2 ^ (k+1)\<close> is a comparison.\<close>

lemma bit_int_ge:
  assumes "0 \<le> x" "x < 2 * 2 ^ k"
  shows "bit (x::int) k \<longleftrightarrow> 2 ^ k \<le> x"
proof (cases "2 ^ k \<le> x")
  case True
  have "(x - 2 ^ k) div 2 ^ k = 0" using True assms by (simp add: zdiv_eq_0_iff)
  hence "x div 2 ^ k = 1" using div_add_self2 [of "2 ^ k" "x - 2 ^ k"] by simp
  thus ?thesis using True by (simp add: bit_iff_odd)
next
  case False
  thus ?thesis using assms by (simp add: bit_iff_odd)
qed

lemma bit_double: "bit (x * 2) i \<longleftrightarrow> 0 < i \<and> i < LENGTH('a) \<and> bit x (i - 1)" for x :: "'a::len word"
  using bit_push_bit_iff [of 1 x i] by (simp add: push_bit_eq_mult mult.commute) (cases i; simp)

text \<open>Equality of short words, bit by bit: decides identities between masks and shifts.\<close>

primrec bits_agree :: "nat \<Rightarrow> 'a::len word \<Rightarrow> 'a word \<Rightarrow> bool" where
  "bits_agree 0 x y = True"
| "bits_agree (Suc k) x y = (bit x k = bit y k \<and> bits_agree k x y)"

lemma bits_agree_numeral:
  "bits_agree (numeral k) x y = (bit x (pred_numeral k) = bit y (pred_numeral k) \<and> bits_agree (pred_numeral k) x y)"
  by (simp add: numeral_eq_Suc)

lemma bits_agree_iff: "bits_agree k x y \<longleftrightarrow> (\<forall>i < k. bit x i = bit y i)"
  by (induction k) (auto simp: less_Suc_eq)

lemma byte_eq_agree: "x = y \<longleftrightarrow> bits_agree 8 x y" for x y :: u8
  by (auto simp: bits_agree_iff intro: bit_word_eqI)

lemma halfword_eq_agree: "x = y \<longleftrightarrow> bits_agree 16 x y" for x y :: u16
  by (auto simp: bits_agree_iff intro: bit_word_eqI)

lemmas byte_eq_bits = byte_eq_agree bits_agree_numeral
lemmas halfword_eq_bits = halfword_eq_agree bits_agree_numeral

text \<open>The masks of the operand widths.\<close>

lemma and_masks:
  "x AND 0xFF = take_bit 8 x" "x AND 0xFFFF = take_bit 16 x" "x AND 0xFFFFFFFF = take_bit 32 x"
  "x AND 0xFFFFFF = take_bit 24 x" "x AND 0x1F = take_bit 5 x" "x AND 7 = take_bit 3 x"
  for x :: "'a::len word"
  by (simp_all add: take_bit_eq_mask mask_eq_exp_minus_1)

lemma unat_bound: "unat x < 2 ^ LENGTH('a)" for x :: "'a::len word"
  by (rule unsigned_less)

subsection \<open>Two's complement readings of a value of n bits\<close>

definition sgn_val :: "int \<Rightarrow> int \<Rightarrow> int" where
  "sgn_val K x = (if K \<le> x then x - 2 * K else x)"

lemma add_overflow_int:
  assumes "0 \<le> S" "S < 2 * K" "0 \<le> D" "D < 2 * K" "R = (S + D) mod (2 * K)"
  shows "((K \<le> S) \<noteq> (K \<le> R) \<and> (K \<le> D) \<noteq> (K \<le> R)) \<longleftrightarrow>
         \<not> (- K \<le> sgn_val K S + sgn_val K D \<and> sgn_val K S + sgn_val K D < K)"
proof -
  have "R = (if S + D < 2 * K then S + D else S + D - 2 * K)"
    using assms by (simp add: mod_add_if_z)
  thus ?thesis using assms(1-4) by (auto simp: sgn_val_def)
qed

lemma sub_overflow_int:
  assumes "0 \<le> S" "S < 2 * K" "0 \<le> D" "D < 2 * K" "R = (D - S) mod (2 * K)"
  shows "((K \<le> S) \<noteq> (K \<le> D) \<and> (K \<le> D) \<noteq> (K \<le> R)) \<longleftrightarrow>
         \<not> (- K \<le> sgn_val K D - sgn_val K S \<and> sgn_val K D - sgn_val K S < K)"
proof -
  have "R = (if S \<le> D then D - S else D - S + 2 * K)"
    using assms by (simp add: mod_sub_if_z)
  thus ?thesis using assms(1-4) by (auto simp: sgn_val_def)
qed

end
