(* ===== verification/M68kCpu.thy ===== *)
theory M68kCpu
  imports Prelude
begin

text \<open>
  The 68000 register file of core/m68k_cpu.h and the condition code arithmetic of
  core/m68k_interp.c: the status register accessors, the swap of the two stack
  pointers on a change of the S bit, the operand width helpers, the flag setters
  of the logic, add, subtract and compare instructions, the packed decimal bytes
  and the sixteen branch conditions. The arrays \<open>d[8]\<close> and \<open>a[8]\<close> are maps from a
  register number; every number the code uses is a three bit field.
\<close>

subsection \<open>The register file (m68k_cpu.h)\<close>

definition CCR_C :: u8 where "CCR_C = 0x01"
definition CCR_V :: u8 where "CCR_V = 0x02"
definition CCR_Z :: u8 where "CCR_Z = 0x04"
definition CCR_N :: u8 where "CCR_N = 0x08"
definition CCR_X :: u8 where "CCR_X = 0x10"

definition SR_S :: u16 where "SR_S = 0x2000"
definition SR_T :: u16 where "SR_T = 0x8000"
definition SR_IMASK :: u16 where "SR_IMASK = 0x0700"

lemmas ccr_bits = CCR_C_def CCR_V_def CCR_Z_def CCR_N_def CCR_X_def
lemmas sr_bits = SR_S_def SR_T_def SR_IMASK_def

definition M68K_RUN :: u8 where "M68K_RUN = 0"
definition M68K_HALT_RESET :: u8 where "M68K_HALT_RESET = 1"
definition M68K_HALT_DOUBLE_FAULT :: u8 where "M68K_HALT_DOUBLE_FAULT = 2"
definition M68K_HALT_ILLEGAL :: u8 where "M68K_HALT_ILLEGAL = 3"
definition M68K_HALT_GUEST_EXIT :: u8 where "M68K_HALT_GUEST_EXIT = 4"

text \<open>\<open>current_block\<close> is a pointer to a compiled block: None for NULL, else the
  number the dispatcher gives the block.\<close>

record m68k_cpu =
  dreg :: "nat \<Rightarrow> u32"
  areg :: "nat \<Rightarrow> u32"
  pc :: u32
  sr :: u16
  usp :: u32
  ssp :: u32
  cycles :: u64
  instrs :: u64
  stopped :: u8
  halted :: u8
  exit_code :: u8
  pending_irq :: u8
  jit_ret_pc :: u32
  jit_arg1 :: u32
  jit_arg2 :: u32
  current_block :: "nat option"
  chain_budget :: u32

definition m68k_get_ccr :: "m68k_cpu \<Rightarrow> u8" where
  "m68k_get_ccr c = ucast (sr c AND 0x1F)"

definition m68k_set_ccr :: "u8 \<Rightarrow> m68k_cpu \<Rightarrow> m68k_cpu" where
  "m68k_set_ccr v c = c\<lparr>sr := (sr c AND 0xFF00) OR ucast (v AND 0x1F)\<rparr>"

definition m68k_is_super :: "m68k_cpu \<Rightarrow> bool" where
  "m68k_is_super c \<longleftrightarrow> sr c AND SR_S \<noteq> 0"

definition m68k_sync_sp :: "bool \<Rightarrow> m68k_cpu \<Rightarrow> m68k_cpu" where
  "m68k_sync_sp was_super c =
     (let now_super = m68k_is_super c in
      if was_super = now_super then c
      else if was_super then c\<lparr>ssp := areg c 7, areg := (areg c)(7 := usp c)\<rparr>
      else c\<lparr>usp := areg c 7, areg := (areg c)(7 := ssp c)\<rparr>)"

text \<open>The register file after the \<open>memset\<close> of \<open>m68k_reset\<close>.\<close>

definition cpu_zero :: m68k_cpu where
  "cpu_zero = \<lparr>dreg = (\<lambda>_. 0), areg = (\<lambda>_. 0), pc = 0, sr = 0, usp = 0, ssp = 0, cycles = 0,
     instrs = 0, stopped = 0, halted = 0, exit_code = 0, pending_irq = 0, jit_ret_pc = 0,
     jit_arg1 = 0, jit_arg2 = 0, current_block = None, chain_budget = 0\<rparr>"

subsection \<open>Operand widths\<close>

definition size_mask :: "nat \<Rightarrow> u32" where
  "size_mask sz = (if sz = 1 then 0xFF else if sz = 2 then 0xFFFF else 0xFFFFFFFF)"

definition size_msb :: "nat \<Rightarrow> u32" where
  "size_msb sz = (if sz = 1 then 0x80 else if sz = 2 then 0x8000 else 0x80000000)"

definition sext :: "u32 \<Rightarrow> nat \<Rightarrow> u32" where
  "sext v sz = (if sz = 1 then sx8 (ucast (v AND 0xFF))
                else if sz = 2 then sx16 (ucast (v AND 0xFFFF)) else v)"

subsection \<open>Flag setters\<close>

definition set_nz :: "nat \<Rightarrow> u32 \<Rightarrow> m68k_cpu \<Rightarrow> m68k_cpu" where
  "set_nz sz res cpu =
     (let c = m68k_get_ccr cpu AND NOT (CCR_N OR CCR_Z);
          c = (if res AND size_mask sz \<noteq> 0
               then (if res AND size_msb sz \<noteq> 0 then c OR CCR_N else c)
               else c OR CCR_Z)
      in m68k_set_ccr c cpu)"

definition set_flags_logic :: "nat \<Rightarrow> u32 \<Rightarrow> m68k_cpu \<Rightarrow> m68k_cpu" where
  "set_flags_logic sz res cpu =
     (let c = m68k_get_ccr cpu AND CCR_X;
          c = (if res AND size_mask sz = 0 then c OR CCR_Z else c);
          c = (if res AND size_msb sz \<noteq> 0 then c OR CCR_N else c)
      in m68k_set_ccr c cpu)"

definition set_flags_add :: "nat \<Rightarrow> u32 \<Rightarrow> u32 \<Rightarrow> u32 \<Rightarrow> m68k_cpu \<Rightarrow> m68k_cpu" where
  "set_flags_add sz s d r cpu =
     (let mask = size_mask sz; msb = size_msb sz;
          s = s AND mask; d = d AND mask; r = r AND mask;
          c = 0;
          c = (if r = 0 then c OR CCR_Z else c);
          c = (if r AND msb \<noteq> 0 then c OR CCR_N else c);
          carry = (ucast s + ucast d > (ucast mask :: u64));
          c = (if carry then c OR (CCR_C OR CCR_X) else c);
          c = (if ((s XOR r) AND (d XOR r)) AND msb \<noteq> 0 then c OR CCR_V else c)
      in m68k_set_ccr c cpu)"

definition set_flags_sub :: "nat \<Rightarrow> u32 \<Rightarrow> u32 \<Rightarrow> u32 \<Rightarrow> m68k_cpu \<Rightarrow> m68k_cpu" where
  "set_flags_sub sz s d r cpu =
     (let mask = size_mask sz; msb = size_msb sz;
          s = s AND mask; d = d AND mask; r = r AND mask;
          c = 0;
          c = (if r = 0 then c OR CCR_Z else c);
          c = (if r AND msb \<noteq> 0 then c OR CCR_N else c);
          c = (if s > d then c OR (CCR_C OR CCR_X) else c);
          c = (if ((s XOR d) AND (d XOR r)) AND msb \<noteq> 0 then c OR CCR_V else c)
      in m68k_set_ccr c cpu)"

definition set_flags_cmp :: "nat \<Rightarrow> u32 \<Rightarrow> u32 \<Rightarrow> u32 \<Rightarrow> m68k_cpu \<Rightarrow> m68k_cpu" where
  "set_flags_cmp sz s d r cpu =
     (let mask = size_mask sz; msb = size_msb sz;
          s = s AND mask; d = d AND mask; r = r AND mask;
          c = m68k_get_ccr cpu AND CCR_X;
          c = (if r = 0 then c OR CCR_Z else c);
          c = (if r AND msb \<noteq> 0 then c OR CCR_N else c);
          c = (if s > d then c OR CCR_C else c);
          c = (if ((s XOR d) AND (d XOR r)) AND msb \<noteq> 0 then c OR CCR_V else c)
      in m68k_set_ccr c cpu)"

subsection \<open>Conditions\<close>

definition flag :: "m68k_cpu \<Rightarrow> u8 \<Rightarrow> bool" where
  "flag cpu f \<longleftrightarrow> m68k_get_ccr cpu AND f \<noteq> 0"

definition cond_true :: "m68k_cpu \<Rightarrow> nat \<Rightarrow> bool" where
  "cond_true cpu cc =
     (let C = flag cpu CCR_C; V = flag cpu CCR_V; Z = flag cpu CCR_Z; N = flag cpu CCR_N in
      if cc = 0 then True
      else if cc = 1 then False
      else if cc = 2 then \<not> C \<and> \<not> Z
      else if cc = 3 then C \<or> Z
      else if cc = 4 then \<not> C
      else if cc = 5 then C
      else if cc = 6 then \<not> Z
      else if cc = 7 then Z
      else if cc = 8 then \<not> V
      else if cc = 9 then V
      else if cc = 10 then \<not> N
      else if cc = 11 then N
      else if cc = 12 then N = V
      else if cc = 13 then N \<noteq> V
      else if cc = 14 then \<not> Z \<and> N = V
      else if cc = 15 then Z \<or> N \<noteq> V
      else False)"

subsection \<open>Reading the condition codes back\<close>

lemma get_set_ccr [flag_simps, simp]: "m68k_get_ccr (m68k_set_ccr v c) = v AND 0x1F"
proof -
  have "ucast (((x AND 0xFF00) OR ucast (v AND 0x1F)) AND 0x1F :: u16) = v AND 0x1F" for x :: u16
    by (simp add: byte_eq_bits bit_simps)
  thus ?thesis by (simp add: m68k_get_ccr_def m68k_set_ccr_def)
qed

lemma flag_bit [flag_simps]:
  "flag c CCR_C \<longleftrightarrow> bit (m68k_get_ccr c) 0" "flag c CCR_V \<longleftrightarrow> bit (m68k_get_ccr c) 1"
  "flag c CCR_Z \<longleftrightarrow> bit (m68k_get_ccr c) 2" "flag c CCR_N \<longleftrightarrow> bit (m68k_get_ccr c) 3"
  "flag c CCR_X \<longleftrightarrow> bit (m68k_get_ccr c) 4"
  using and_exp_eq_0_iff_not_bit [of "m68k_get_ccr c" 0] and_exp_eq_0_iff_not_bit [of "m68k_get_ccr c" 1]
    and_exp_eq_0_iff_not_bit [of "m68k_get_ccr c" 2] and_exp_eq_0_iff_not_bit [of "m68k_get_ccr c" 3]
    and_exp_eq_0_iff_not_bit [of "m68k_get_ccr c" 4]
  by (simp_all add: flag_def ccr_bits)

lemma set_ccr_frame [frame_simps, simp]:
  "dreg (m68k_set_ccr v c) = dreg c" "areg (m68k_set_ccr v c) = areg c" "pc (m68k_set_ccr v c) = pc c"
  "usp (m68k_set_ccr v c) = usp c" "ssp (m68k_set_ccr v c) = ssp c"
  "cycles (m68k_set_ccr v c) = cycles c" "halted (m68k_set_ccr v c) = halted c"
  "pending_irq (m68k_set_ccr v c) = pending_irq c" "stopped (m68k_set_ccr v c) = stopped c"
  by (simp_all add: m68k_set_ccr_def)

lemma set_ccr_super [simp]: "m68k_is_super (m68k_set_ccr v c) = m68k_is_super c"
proof -
  have "(x AND 0xFF00 OR ucast (v AND 0x1F)) AND 0x2000 = (x AND 0x2000)" for x :: u16
    by (simp add: halfword_eq_bits bit_simps)
  thus ?thesis by (simp add: m68k_is_super_def m68k_set_ccr_def SR_S_def)
qed

lemma set_set_ccr [flag_simps, simp]: "m68k_set_ccr v (m68k_set_ccr w c) = m68k_set_ccr v c"
proof -
  have "(x AND 0xFF00 OR ucast (w AND 0x1F)) AND 0xFF00 = (x AND 0xFF00 :: u16)" for x
    by (simp add: halfword_eq_bits bit_simps)
  thus ?thesis by (simp add: m68k_set_ccr_def)
qed

subsection \<open>Operands as integers\<close>

text \<open>The unsigned and the signed value of the low \<open>8 * sz\<close> bits of a register.\<close>

definition uval :: "nat \<Rightarrow> u32 \<Rightarrow> int" where
  "uval sz v = uint v mod 2 ^ (8 * sz)"

definition sval :: "nat \<Rightarrow> u32 \<Rightarrow> int" where
  "sval sz v = sgn_val (2 ^ (8 * sz - 1)) (uval sz v)"

definition op_size :: "nat \<Rightarrow> bool" where
  "op_size sz \<longleftrightarrow> sz = 1 \<or> sz = 2 \<or> sz = 4"

lemma uint_size_mask: "op_size sz \<Longrightarrow> uint (x AND size_mask sz) = uval sz x"
  by (auto simp: op_size_def size_mask_def uval_def and_masks unsigned_take_bit_eq
      simp flip: take_bit_eq_mod)

lemma msb_iff:
  assumes "op_size sz" shows "y AND size_msb sz \<noteq> 0 \<longleftrightarrow> bit y (8 * sz - 1)"
  using assms and_exp_eq_0_iff_not_bit [of y 7] and_exp_eq_0_iff_not_bit [of y 15]
    and_exp_eq_0_iff_not_bit [of y 31]
  by (auto simp: op_size_def size_msb_def)

lemma uval_bounds: "0 \<le> uval sz x" "uval sz x < 2 ^ (8 * sz)"
  by (simp_all add: uval_def)

lemma bit_uval: "op_size sz \<Longrightarrow> bit (x AND size_mask sz) (8 * sz - 1) \<longleftrightarrow> 2 ^ (8 * sz - 1) \<le> uval sz x"
  using bit_int_ge [of "uval sz x" "8 * sz - 1"] uval_bounds [of sz x]
  by (auto simp: bit_uint_iff op_size_def simp flip: uint_size_mask)

lemma uval_plus: "op_size sz \<Longrightarrow> uval sz (x + y) = (uval sz x + uval sz y) mod 2 ^ (8 * sz)"
  by (auto simp: op_size_def uval_def uint_word_ariths mod_mod_cancel mod_simps)

lemma uval_minus: "op_size sz \<Longrightarrow> uval sz (x - y) = (uval sz x - uval sz y) mod 2 ^ (8 * sz)"
  by (auto simp: op_size_def uval_def uint_word_ariths mod_mod_cancel mod_simps)

subsection \<open>What each flag setter computes\<close>

lemma bit_if_or: "bit (if P then c OR m else c) n \<longleftrightarrow> bit c n \<or> (P \<and> bit m n)" for c m :: u8
  by (simp add: bit_or_iff)

lemmas ccr_eval = flag_bit [unfolded ccr_bits] flag_bit bit_if_or ccr_bits Let_def

lemma add_flags:
  fixes s d r :: u32 and sz :: nat
  defines "s' \<equiv> s AND size_mask sz" and "d' \<equiv> d AND size_mask sz" and "r' \<equiv> r AND size_mask sz"
  shows "flag (set_flags_add sz s d r c) CCR_C \<longleftrightarrow> ucast s' + ucast d' > (ucast (size_mask sz) :: u64)"
    and "flag (set_flags_add sz s d r c) CCR_X \<longleftrightarrow> ucast s' + ucast d' > (ucast (size_mask sz) :: u64)"
    and "flag (set_flags_add sz s d r c) CCR_Z \<longleftrightarrow> r' = 0"
    and "flag (set_flags_add sz s d r c) CCR_N \<longleftrightarrow> r' AND size_msb sz \<noteq> 0"
    and "flag (set_flags_add sz s d r c) CCR_V \<longleftrightarrow> ((s' XOR r') AND (d' XOR r')) AND size_msb sz \<noteq> 0"
  unfolding s'_def d'_def r'_def by (simp_all add: set_flags_add_def ccr_eval)

lemma sub_flags:
  fixes s d r :: u32 and sz :: nat
  defines "s' \<equiv> s AND size_mask sz" and "d' \<equiv> d AND size_mask sz" and "r' \<equiv> r AND size_mask sz"
  shows "flag (set_flags_sub sz s d r c) CCR_C \<longleftrightarrow> s' > d'"
    and "flag (set_flags_sub sz s d r c) CCR_X \<longleftrightarrow> s' > d'"
    and "flag (set_flags_sub sz s d r c) CCR_Z \<longleftrightarrow> r' = 0"
    and "flag (set_flags_sub sz s d r c) CCR_N \<longleftrightarrow> r' AND size_msb sz \<noteq> 0"
    and "flag (set_flags_sub sz s d r c) CCR_V \<longleftrightarrow> ((s' XOR d') AND (d' XOR r')) AND size_msb sz \<noteq> 0"
  unfolding s'_def d'_def r'_def by (simp_all add: set_flags_sub_def ccr_eval)

lemma cmp_flags:
  fixes s d r :: u32 and sz :: nat
  defines "s' \<equiv> s AND size_mask sz" and "d' \<equiv> d AND size_mask sz" and "r' \<equiv> r AND size_mask sz"
  shows "flag (set_flags_cmp sz s d r c) CCR_C \<longleftrightarrow> s' > d'"
    and "flag (set_flags_cmp sz s d r c) CCR_X \<longleftrightarrow> flag c CCR_X"
    and "flag (set_flags_cmp sz s d r c) CCR_Z \<longleftrightarrow> r' = 0"
    and "flag (set_flags_cmp sz s d r c) CCR_N \<longleftrightarrow> r' AND size_msb sz \<noteq> 0"
    and "flag (set_flags_cmp sz s d r c) CCR_V \<longleftrightarrow> ((s' XOR d') AND (d' XOR r')) AND size_msb sz \<noteq> 0"
  unfolding s'_def d'_def r'_def by (simp_all add: set_flags_cmp_def ccr_eval bit_simps)

lemma logic_flags:
  "flag (set_flags_logic sz r c) CCR_C \<longleftrightarrow> False"
  "flag (set_flags_logic sz r c) CCR_V \<longleftrightarrow> False"
  "flag (set_flags_logic sz r c) CCR_X \<longleftrightarrow> flag c CCR_X"
  "flag (set_flags_logic sz r c) CCR_Z \<longleftrightarrow> r AND size_mask sz = 0"
  "flag (set_flags_logic sz r c) CCR_N \<longleftrightarrow> r AND size_msb sz \<noteq> 0"
  by (simp_all add: set_flags_logic_def ccr_eval bit_simps)

subsection \<open>The flags as integer arithmetic\<close>

lemma mask_eq_0: "op_size sz \<Longrightarrow> x AND size_mask sz = 0 \<longleftrightarrow> uval sz x = 0"
  by (metis uint_size_mask uint_0_iff)

lemma mask_less: "op_size sz \<Longrightarrow> x AND size_mask sz < y AND size_mask sz \<longleftrightarrow> uval sz x < uval sz y"
  by (simp add: word_less_def uint_size_mask)

lemma mask_neg: "op_size sz \<Longrightarrow> (x AND size_mask sz) AND size_msb sz \<noteq> 0 \<longleftrightarrow> 2 ^ (8 * sz - 1) \<le> uval sz x"
  using msb_iff [of sz "x AND size_mask sz"] bit_uval [of sz x] by simp

lemma msb_in_mask: "op_size sz \<Longrightarrow> x AND size_msb sz \<noteq> 0 \<longleftrightarrow> 2 ^ (8 * sz - 1) \<le> uval sz x"
proof -
  assume sz: "op_size sz"
  hence "x AND size_msb sz = (x AND size_mask sz) AND size_msb sz"
    by (auto simp: op_size_def size_mask_def size_msb_def and.assoc)
  thus ?thesis using mask_neg [OF sz, of x] by metis
qed

lemma mask_carry:
  assumes "op_size sz"
  shows "ucast (x AND size_mask sz) + ucast (y AND size_mask sz) > (ucast (size_mask sz) :: u64) \<longleftrightarrow>
         2 ^ (8 * sz) \<le> uval sz x + uval sz y"
proof -
  have b: "uval sz x < 2 ^ 32" "uval sz y < 2 ^ 32"
    using uval_bounds(2) [of sz x] uval_bounds(2) [of sz y] assms by (auto simp: op_size_def)
  have "uint (ucast (x AND size_mask sz) + ucast (y AND size_mask sz) :: u64) = uval sz x + uval sz y"
    using b uval_bounds(1) [of sz x] uval_bounds(1) [of sz y]
    by (simp add: uint_word_ariths uint_up_ucast is_up uint_size_mask [OF assms])
  moreover have "uint (ucast (size_mask sz) :: u64) = 2 ^ (8 * sz) - 1"
    using assms by (auto simp: op_size_def size_mask_def uint_up_ucast is_up)
  ultimately show ?thesis by (auto simp: word_less_def)
qed

lemma mask_xor_msb:
  assumes "op_size sz"
  shows "(((a AND size_mask sz) XOR (b AND size_mask sz)) AND
          ((e AND size_mask sz) XOR (f AND size_mask sz))) AND size_msb sz \<noteq> 0 \<longleftrightarrow>
         ((2 ^ (8 * sz - 1) \<le> uval sz a) \<noteq> (2 ^ (8 * sz - 1) \<le> uval sz b)) \<and>
         ((2 ^ (8 * sz - 1) \<le> uval sz e) \<noteq> (2 ^ (8 * sz - 1) \<le> uval sz f))"
  using msb_iff [OF assms, of "((a AND size_mask sz) XOR (b AND size_mask sz)) AND
          ((e AND size_mask sz) XOR (f AND size_mask sz))"]
  by (simp only: bit_and_iff [of "_ XOR _"] bit_xor_iff bit_uval [OF assms])

definition fits :: "nat \<Rightarrow> int \<Rightarrow> bool" where
  "fits sz v \<longleftrightarrow> - (2 ^ (8 * sz - 1)) \<le> v \<and> v < 2 ^ (8 * sz - 1)"

lemma add_v:
  assumes "op_size sz"
  shows "((2 ^ (8 * sz - 1) \<le> uval sz s) \<noteq> (2 ^ (8 * sz - 1) \<le> uval sz (s + d))) \<and>
         ((2 ^ (8 * sz - 1) \<le> uval sz d) \<noteq> (2 ^ (8 * sz - 1) \<le> uval sz (s + d))) \<longleftrightarrow>
         \<not> fits sz (sval sz s + sval sz d)"
  unfolding fits_def sval_def
  by (rule add_overflow_int)
    (use assms uval_bounds [of sz s] uval_bounds [of sz d] in \<open>auto simp: op_size_def uval_plus\<close>)

lemma sub_v:
  assumes "op_size sz"
  shows "((2 ^ (8 * sz - 1) \<le> uval sz s) \<noteq> (2 ^ (8 * sz - 1) \<le> uval sz d)) \<and>
         ((2 ^ (8 * sz - 1) \<le> uval sz d) \<noteq> (2 ^ (8 * sz - 1) \<le> uval sz (d - s))) \<longleftrightarrow>
         \<not> fits sz (sval sz d - sval sz s)"
  unfolding fits_def sval_def
  by (rule sub_overflow_int)
    (use assms uval_bounds [of sz s] uval_bounds [of sz d] in \<open>auto simp: op_size_def uval_minus\<close>)

lemma add_v_msb:
  assumes "op_size sz"
  shows "(((s AND size_mask sz) XOR ((s + d) AND size_mask sz)) AND
          ((d AND size_mask sz) XOR ((s + d) AND size_mask sz))) AND size_msb sz \<noteq> 0 \<longleftrightarrow>
         \<not> fits sz (sval sz s + sval sz d)"
  by (rule trans [OF mask_xor_msb [OF assms] add_v [OF assms]])

lemma sub_v_msb:
  assumes "op_size sz"
  shows "(((s AND size_mask sz) XOR (d AND size_mask sz)) AND
          ((d AND size_mask sz) XOR ((d - s) AND size_mask sz))) AND size_msb sz \<noteq> 0 \<longleftrightarrow>
         \<not> fits sz (sval sz d - sval sz s)"
  by (rule trans [OF mask_xor_msb [OF assms] sub_v [OF assms]])

lemma neg_sval: "op_size sz \<Longrightarrow> 2 ^ (8 * sz - 1) \<le> uval sz x \<longleftrightarrow> sval sz x < 0"
  using uval_bounds [of sz x] by (auto simp: sval_def sgn_val_def op_size_def)

subsection \<open>The flag setters are correct\<close>

text \<open>The rest of the processor is not touched by a flag setter, nor is the upper byte of SR.\<close>

definition same_but_ccr :: "m68k_cpu \<Rightarrow> m68k_cpu \<Rightarrow> bool" where
  "same_but_ccr c c' \<longleftrightarrow> (\<exists>v. c' = m68k_set_ccr v c)"

lemma same_but_ccr_setters:
  "same_but_ccr c (set_flags_add sz s d r c)" "same_but_ccr c (set_flags_sub sz s d r c)"
  "same_but_ccr c (set_flags_cmp sz s d r c)" "same_but_ccr c (set_flags_logic sz r c)"
  "same_but_ccr c (set_nz sz r c)"
  by (auto simp: same_but_ccr_def set_flags_add_def set_flags_sub_def set_flags_cmp_def
      set_flags_logic_def set_nz_def Let_def)

text \<open>C1: After an addition the five condition codes are those of the integers: C and X tell
  the unsigned carry out of the operand width, Z and N describe the truncated sum, V tells
  that the signed sum does not fit the width; nothing else in the processor changes.\<close>

theorem set_flags_add_correct:
  assumes "op_size sz"
  shows "(flag (set_flags_add sz s d (s + d) c) CCR_C \<longleftrightarrow> 2 ^ (8 * sz) \<le> uval sz s + uval sz d) \<and>
     (flag (set_flags_add sz s d (s + d) c) CCR_X \<longleftrightarrow> 2 ^ (8 * sz) \<le> uval sz s + uval sz d) \<and>
     (flag (set_flags_add sz s d (s + d) c) CCR_Z \<longleftrightarrow> (uval sz s + uval sz d) mod 2 ^ (8 * sz) = 0) \<and>
     (flag (set_flags_add sz s d (s + d) c) CCR_N \<longleftrightarrow> sval sz (s + d) < 0) \<and>
     (flag (set_flags_add sz s d (s + d) c) CCR_V \<longleftrightarrow> \<not> fits sz (sval sz s + sval sz d)) \<and>
     same_but_ccr c (set_flags_add sz s d (s + d) c)"
  using assms
  by (intro conjI; simp only: add_flags mask_carry mask_eq_0 mask_neg add_v_msb neg_sval [symmetric]
      uval_plus [symmetric]      same_but_ccr_setters simp_thms)

theorem set_flags_add_correct_witness:
  "op_size 1 \<and> flag (set_flags_add 1 0x80 0x80 (0x80 + 0x80) cpu_zero) CCR_V"
proof -
  have 1: "op_size 1" by (simp add: op_size_def)
  have "\<not> fits 1 (sval 1 0x80 + sval 1 0x80)" by (simp add: fits_def sval_def uval_def sgn_val_def)
  with 1 show ?thesis using set_flags_add_correct [of 1 "0x80" "0x80" cpu_zero] by blast
qed

text \<open>C2: After a subtraction C and X tell the unsigned borrow, Z and N describe the truncated
  difference and V tells that the signed difference does not fit the operand width.\<close>

theorem set_flags_sub_correct:
  assumes "op_size sz"
  shows "(flag (set_flags_sub sz s d (d - s) c) CCR_C \<longleftrightarrow> uval sz d < uval sz s) \<and>
     (flag (set_flags_sub sz s d (d - s) c) CCR_X \<longleftrightarrow> uval sz d < uval sz s) \<and>
     (flag (set_flags_sub sz s d (d - s) c) CCR_Z \<longleftrightarrow> (uval sz d - uval sz s) mod 2 ^ (8 * sz) = 0) \<and>
     (flag (set_flags_sub sz s d (d - s) c) CCR_N \<longleftrightarrow> sval sz (d - s) < 0) \<and>
     (flag (set_flags_sub sz s d (d - s) c) CCR_V \<longleftrightarrow> \<not> fits sz (sval sz d - sval sz s)) \<and>
     same_but_ccr c (set_flags_sub sz s d (d - s) c)"
  using assms
  by (intro conjI; simp only: sub_flags mask_less mask_eq_0 mask_neg sub_v_msb
      neg_sval [symmetric] uval_minus [symmetric]      same_but_ccr_setters simp_thms)

theorem set_flags_sub_correct_witness:
  "op_size 2 \<and> flag (set_flags_sub 2 1 0 (0 - 1) cpu_zero) CCR_C"
proof -
  have 1: "op_size 2" by (simp add: op_size_def)
  have "uval 2 0 < uval 2 1" by (simp add: uval_def)
  with 1 show ?thesis using set_flags_sub_correct [of 2 1 0 cpu_zero] by blast
qed

subsection \<open>Comparison and branch\<close>

lemma sgn_lt_iff:
  assumes "op_size sz"
  shows "((2 ^ (8 * sz - 1) \<le> uval sz (d - s)) \<noteq> (\<not> fits sz (sval sz d - sval sz s))) \<longleftrightarrow> sval sz d < sval sz s"
proof -
  let ?K = "2 ^ (8 * sz - 1) :: int"
  have K: "2 ^ (8 * sz) = 2 * ?K" using assms by (auto simp: op_size_def)
  have "uval sz (d - s) = (if uval sz s \<le> uval sz d then uval sz d - uval sz s
          else uval sz d - uval sz s + 2 * ?K)"
    using assms uval_bounds [of sz s] uval_bounds [of sz d] by (simp add: uval_minus K mod_sub_if_z)
  thus ?thesis using uval_bounds [of sz s] uval_bounds [of sz d]
    by (auto simp: fits_def sval_def sgn_val_def K)
qed

lemma eq_iff_diff_0:
  assumes "op_size sz"
  shows "uval sz (d - s) = 0 \<longleftrightarrow> uval sz d = uval sz s"
  using assms uval_bounds [of sz s] uval_bounds [of sz d] by (auto simp: uval_minus mod_sub_if_z)

lemma sval_inj: "sval sz d = sval sz s \<longleftrightarrow> uval sz d = uval sz s" if "op_size sz"
  using uval_bounds [of sz s] uval_bounds [of sz d] that by (auto simp: sval_def sgn_val_def op_size_def)

text \<open>C3: CMP followed by a conditional branch decides the comparison of the operands: the
  unsigned conditions HI, LS, CC, CS compare the unsigned values, NE and EQ test equality and
  GE, LT, GT, LE compare the two's complement values, at every operand width.\<close>

theorem cmp_then_branch:
  assumes "op_size sz"
  shows "let c' = set_flags_cmp sz s d (d - s) c in
     (cond_true c' 2 \<longleftrightarrow> uval sz s < uval sz d) \<and> (cond_true c' 3 \<longleftrightarrow> uval sz d \<le> uval sz s) \<and>
     (cond_true c' 4 \<longleftrightarrow> uval sz s \<le> uval sz d) \<and> (cond_true c' 5 \<longleftrightarrow> uval sz d < uval sz s) \<and>
     (cond_true c' 6 \<longleftrightarrow> uval sz d \<noteq> uval sz s) \<and> (cond_true c' 7 \<longleftrightarrow> uval sz d = uval sz s) \<and>
     (cond_true c' 12 \<longleftrightarrow> sval sz s \<le> sval sz d) \<and> (cond_true c' 13 \<longleftrightarrow> sval sz d < sval sz s) \<and>
     (cond_true c' 14 \<longleftrightarrow> sval sz s < sval sz d) \<and> (cond_true c' 15 \<longleftrightarrow> sval sz d \<le> sval sz s) \<and>
     (flag c' CCR_X \<longleftrightarrow> flag c CCR_X)"
proof -
  have cmp: "flag (set_flags_cmp sz s d (d - s) c) CCR_C \<longleftrightarrow> uval sz d < uval sz s"
    "flag (set_flags_cmp sz s d (d - s) c) CCR_Z \<longleftrightarrow> uval sz d = uval sz s"
    "(flag (set_flags_cmp sz s d (d - s) c) CCR_N \<noteq> flag (set_flags_cmp sz s d (d - s) c) CCR_V) \<longleftrightarrow>
       sval sz d < sval sz s"
    using assms by (simp_all only: cmp_flags mask_less mask_eq_0 mask_neg sub_v_msb
        eq_iff_diff_0 sgn_lt_iff)
  show ?thesis using cmp sval_inj [OF assms, of d s]
    by (auto simp: Let_def cond_true_def cmp_flags)
qed

theorem cmp_then_branch_witness:
  "op_size 1 \<and> cond_true (set_flags_cmp 1 1 0xFF (0xFF - 1) cpu_zero) 13"
proof -
  have 1: "op_size 1" by (simp add: op_size_def)
  have "sval 1 0xFF < sval 1 1" by (simp add: sval_def uval_def sgn_val_def)
  with 1 show ?thesis using cmp_then_branch [of 1 1 "0xFF" cpu_zero] by (simp only: Let_def simp_thms)
qed

subsection \<open>The stack pointer swap\<close>

text \<open>The user and system stack pointers, wherever they are kept.\<close>

definition usp_of :: "m68k_cpu \<Rightarrow> u32" where
  "usp_of c = (if m68k_is_super c then usp c else areg c 7)"

definition ssp_of :: "m68k_cpu \<Rightarrow> u32" where
  "ssp_of c = (if m68k_is_super c then areg c 7 else ssp c)"

text \<open>Writing any value to the status register and then synchronising the stack pointers
  keeps both stack pointers: a7 is exchanged with the right inactive copy exactly when the
  S bit changes, and no other register changes.\<close>

theorem sync_sp_keeps_stacks:
  "let c' = m68k_sync_sp (m68k_is_super c) (c\<lparr>sr := v\<rparr>) in
     usp_of c' = usp_of c \<and> ssp_of c' = ssp_of c \<and> sr c' = v \<and> pc c' = pc c \<and>
     dreg c' = dreg c \<and> (areg c')(7 := 0) = (areg c)(7 := 0)"
  by (auto simp: m68k_sync_sp_def usp_of_def ssp_of_def m68k_is_super_def Let_def)

end
