(* ===== verification/Rtc.thy ===== *)
theory Rtc
  imports Prelude
begin

text \<open>
  The serial clock chip of core/mac_iwm.c, which the guest drives bit by bit over VIA
  port B (bit 0 data, bit 1 clock, bit 2 enable, active low). The state machine takes
  a command byte, then shifts a data byte in or out. The lemmas clock whole bytes
  through it: what the guest reads back is what the chip holds.
\<close>

subsection \<open>State (mac_rtc of mac_mem.h)\<close>

record mac_rtc =
  rtc_state :: u8
  rtc_shift :: u8
  rtc_bit_count :: u8
  rtc_cmd :: u8
  rtc_data :: bool
  rtc_last_clk :: bool
  rtc_seconds :: u32
  rtc_pram :: "nat \<Rightarrow> u8"
  rtc_write_pending :: bool

definition rtc_data_out :: "mac_rtc \<Rightarrow> bool" where
  "rtc_data_out r = rtc_data r"

subsection \<open>Operation\<close>

text \<open>The value preloaded for a read command: the clock bytes, else parameter RAM.\<close>

definition rtc_preload :: "mac_rtc \<Rightarrow> u8 \<Rightarrow> u8" where
  "rtc_preload r cmd =
     (let k = cmd AND 0x7F in
      if k = 0x01 then ucast (rtc_seconds r)
      else if k = 0x05 then ucast (drop_bit 8 (rtc_seconds r))
      else if k = 0x09 then ucast (drop_bit 16 (rtc_seconds r))
      else if k = 0x0D then ucast (drop_bit 24 (rtc_seconds r))
      else rtc_pram r (unat (cmd AND 0x1F)))"

definition shift_bit_in :: "u8 \<Rightarrow> bool \<Rightarrow> u8" where
  "shift_bit_in s b = push_bit 1 s OR b2w b"

text \<open>The part of \<open>rtc_via_write\<close> after the test for a rising clock edge.\<close>

definition rtc_rising :: "bool \<Rightarrow> mac_rtc \<Rightarrow> mac_rtc" where
  "rtc_rising data r =
     (if rtc_state r = 0 then
        (let r = r\<lparr>rtc_shift := shift_bit_in (rtc_shift r) data,
                   rtc_bit_count := rtc_bit_count r + 1\<rparr> in
         if rtc_bit_count r = 8 then
           (let r = r\<lparr>rtc_cmd := rtc_shift r, rtc_bit_count := 0\<rparr>;
                r = r\<lparr>rtc_state := (if rtc_cmd r AND 0x80 \<noteq> 0 then 2 else 1)\<rparr> in
            if rtc_state r = 2 then r\<lparr>rtc_shift := rtc_preload r (rtc_cmd r)\<rparr> else r)
         else r)
      else if rtc_state r = 1 then
        (let r = r\<lparr>rtc_shift := shift_bit_in (rtc_shift r) data,
                   rtc_bit_count := rtc_bit_count r + 1\<rparr> in
         if rtc_bit_count r = 8 then
           r\<lparr>rtc_pram := (rtc_pram r)(unat (rtc_cmd r AND 0x1F) := rtc_shift r),
             rtc_bit_count := 0, rtc_state := 0\<rparr>
         else r)
      else
        (let r = r\<lparr>rtc_data := (rtc_shift r AND 0x80 \<noteq> 0),
                   rtc_shift := push_bit 1 (rtc_shift r),
                   rtc_bit_count := rtc_bit_count r + 1\<rparr> in
         if rtc_bit_count r = 8 then r\<lparr>rtc_bit_count := 0, rtc_state := 0\<rparr> else r))"

definition rtc_via_write :: "mac_rtc \<Rightarrow> u8 \<Rightarrow> mac_rtc" where
  "rtc_via_write r pb =
     (let enb = (pb AND 0x04 = 0); clk = (pb AND 0x02 \<noteq> 0); data = (pb AND 0x01 \<noteq> 0) in
      if \<not> enb then r\<lparr>rtc_state := 0, rtc_bit_count := 0, rtc_last_clk := clk\<rparr>
      else
        (let rising = (clk \<and> \<not> rtc_last_clk r); r = r\<lparr>rtc_last_clk := clk\<rparr> in
         if \<not> rising then r else rtc_rising data r))"

subsection \<open>Clocking bytes through the chip\<close>

text \<open>What the guest does for one bit: clock low, then high, with the data bit held.\<close>

definition rtc_clock_bit :: "bool \<Rightarrow> mac_rtc \<Rightarrow> mac_rtc" where
  "rtc_clock_bit b r = rtc_via_write (rtc_via_write r (b2w b)) (b2w b OR 0x02)"

definition rtc_send_byte :: "u8 \<Rightarrow> mac_rtc \<Rightarrow> mac_rtc" where
  "rtc_send_byte v r =
     rtc_clock_bit (bit v 0) (rtc_clock_bit (bit v 1) (rtc_clock_bit (bit v 2) (rtc_clock_bit (bit v 3)
      (rtc_clock_bit (bit v 4) (rtc_clock_bit (bit v 5) (rtc_clock_bit (bit v 6) (rtc_clock_bit (bit v 7) r)))))))"

text \<open>Clock \<open>n\<close> bits out, most significant first, collecting the values on the data line.\<close>

fun rtc_receive :: "nat \<Rightarrow> u8 \<Rightarrow> mac_rtc \<Rightarrow> u8 \<times> mac_rtc" where
  "rtc_receive 0 acc r = (acc, r)"
| "rtc_receive (Suc n) acc r =
     (let r = rtc_clock_bit False r in rtc_receive n (shift_bit_in acc (rtc_data_out r)) r)"

definition rtc_ready :: "mac_rtc \<Rightarrow> bool" where
  "rtc_ready r \<longleftrightarrow> rtc_state r = 0 \<and> rtc_bit_count r = 0"

lemma clock_bit_rising: "rtc_clock_bit b r = rtc_rising b (r\<lparr>rtc_last_clk := True\<rparr>)"
  by (cases b) (simp_all add: rtc_clock_bit_def rtc_via_write_def)

lemma bit_shift_bit_in: "bit (shift_bit_in s b) k \<longleftrightarrow> (if k = 0 then b else k < 8 \<and> bit s (k - 1))"
  by (cases b) (auto simp: shift_bit_in_def bit_simps b2w_def bit_double)

text \<open>Eight shifts replace the whole shift register.\<close>

lemma shift_in_byte:
  "shift_bit_in (shift_bit_in (shift_bit_in (shift_bit_in (shift_bit_in (shift_bit_in (shift_bit_in (shift_bit_in s
     (bit v 7)) (bit v 6)) (bit v 5)) (bit v 4)) (bit v 3)) (bit v 2)) (bit v 1)) (bit v 0) = v"
  by (simp add: byte_eq_bits bit_shift_bit_in)

lemma preload_frame [simp]:
  "rtc_preload (r\<lparr>rtc_shift := a\<rparr>) = rtc_preload r" "rtc_preload (r\<lparr>rtc_bit_count := b\<rparr>) = rtc_preload r"
  "rtc_preload (r\<lparr>rtc_cmd := c\<rparr>) = rtc_preload r" "rtc_preload (r\<lparr>rtc_state := d\<rparr>) = rtc_preload r"
  "rtc_preload (r\<lparr>rtc_last_clk := e\<rparr>) = rtc_preload r" "rtc_preload (r\<lparr>rtc_data := f\<rparr>) = rtc_preload r"
  by (simp_all add: rtc_preload_def fun_eq_iff Let_def)

lemma and_128: "x AND 0x80 = 0 \<longleftrightarrow> \<not> bit x 7" for x :: u8
  using and_exp_eq_0_iff_not_bit [of x 7] by simp

lemma send_command:
  assumes "rtc_ready r"
  shows "rtc_send_byte v r =
     r\<lparr>rtc_last_clk := True, rtc_cmd := v, rtc_bit_count := 0, rtc_state := (if bit v 7 then 2 else 1),
       rtc_shift := (if bit v 7 then rtc_preload r v else v)\<rparr>"
  using assms
  by (simp add: rtc_send_byte_def clock_bit_rising rtc_ready_def rtc_rising_def shift_in_byte [simplified] and_128 Let_def)

lemma send_data:
  assumes "rtc_state r = 1" "rtc_bit_count r = 0"
  shows "rtc_send_byte v r =
     r\<lparr>rtc_last_clk := True, rtc_bit_count := 0, rtc_state := 0, rtc_shift := v,
       rtc_pram := (rtc_pram r)(unat (rtc_cmd r AND 0x1F) := v)\<rparr>"
  using assms
  by (simp add: rtc_send_byte_def clock_bit_rising rtc_rising_def shift_in_byte [simplified] Let_def)

lemma clock_out:
  assumes "rtc_state r = 2"
  shows "rtc_clock_bit b r =
     (let c = rtc_bit_count r + 1 in
      r\<lparr>rtc_last_clk := True, rtc_data := bit (rtc_shift r) 7, rtc_shift := shift_bit_in (rtc_shift r) False,
        rtc_bit_count := (if c = 8 then 0 else c), rtc_state := (if c = 8 then 0 else 2)\<rparr>)"
  using assms by (simp add: clock_bit_rising rtc_rising_def Let_def and_128 shift_bit_in_def)

lemma receive_data:
  assumes "rtc_state r = 2" "rtc_bit_count r = 0"
  shows "rtc_receive 8 acc r =
     (rtc_shift r, r\<lparr>rtc_last_clk := True, rtc_bit_count := 0, rtc_state := 0, rtc_shift := 0,
       rtc_data := bit (rtc_shift r) 0\<rparr>)"
proof -
  define s where "s = rtc_shift r"
  have 8: "(8 :: nat) = Suc (Suc (Suc (Suc (Suc (Suc (Suc (Suc 0)))))))" by simp
  have z: "shift_bit_in (shift_bit_in (shift_bit_in (shift_bit_in (shift_bit_in (shift_bit_in (shift_bit_in (shift_bit_in s
     False) False) False) False) False) False) False) False = 0"
    using shift_in_byte [of s 0] by simp
  show ?thesis unfolding 8
    using assms shift_in_byte [of acc s] z
    by (simp add: clock_out Let_def rtc_data_out_def bit_shift_bit_in flip: s_def)
qed

text \<open>C7: Whatever byte the guest clocks into a parameter RAM cell it clocks out again: a write
  command followed by its data byte and then the read command of the same cell yields the
  byte, leaves every other cell and the clock alone and the chip ready for the next command.
  The four clock commands read the clock whatever was written under their number.\<close>

theorem rtc_round_trip:
  assumes "rtc_ready r" "\<not> bit c 7"
  shows "let r1 = rtc_send_byte v (rtc_send_byte c r); (b, r2) = rtc_receive 8 0 (rtc_send_byte (c OR 0x80) r1) in
     rtc_pram r2 = (rtc_pram r)(unat (c AND 0x1F) := v) \<and> rtc_seconds r2 = rtc_seconds r \<and>
     rtc_ready r1 \<and> rtc_ready r2 \<and>
     b = (if c = 0x01 then ucast (rtc_seconds r) else if c = 0x05 then ucast (drop_bit 8 (rtc_seconds r))
          else if c = 0x09 then ucast (drop_bit 16 (rtc_seconds r))
          else if c = 0x0D then ucast (drop_bit 24 (rtc_seconds r)) else v)"
proof -
  have m: "(c OR 0x80) AND 0x7F = c" "(c OR 0x80) AND 0x1F = c AND 0x1F" "bit (c OR 0x80) 7"
    using assms(2) by (simp_all add: byte_eq_bits bit_simps)
  define r1 where "r1 = rtc_send_byte v (rtc_send_byte c r)"
  have r1: "r1 = r\<lparr>rtc_last_clk := True, rtc_cmd := c, rtc_bit_count := 0, rtc_state := 0, rtc_shift := v,
      rtc_pram := (rtc_pram r)(unat (c AND 0x1F) := v)\<rparr>"
    using assms(1,2) by (simp add: r1_def send_command send_data)
  have "rtc_ready r1" by (simp add: r1 rtc_ready_def)
  thus ?thesis unfolding r1_def [symmetric]
    by (simp add: Let_def send_command receive_data m) (simp add: r1 rtc_preload_def m Let_def rtc_ready_def)
qed

definition rtc_idle :: mac_rtc where
  "rtc_idle = \<lparr>rtc_state = 0, rtc_shift = 0, rtc_bit_count = 0, rtc_cmd = 0, rtc_data = False,
     rtc_last_clk = False, rtc_seconds = 0xB0000000, rtc_pram = (\<lambda>_. 0), rtc_write_pending = False\<rparr>"

theorem rtc_round_trip_witness:
  "rtc_ready rtc_idle \<and>
   fst (rtc_receive 8 0 (rtc_send_byte (0x12 OR 0x80) (rtc_send_byte 0xA5 (rtc_send_byte 0x12 rtc_idle)))) = 0xA5"
proof -
  have r: "rtc_ready rtc_idle" by (simp add: rtc_ready_def rtc_idle_def)
  show ?thesis using rtc_round_trip [OF r, of "0x12" "0xA5"] r by (simp add: case_prod_beta Let_def)
qed

end
