(* ===== verification/Gcr.thy ===== *)
theory Gcr
  imports Prelude
begin

text \<open>
  The disk encoding of core/mac_iwm.c: the geometry of the 800 KB disk, the table of
  disk nibbles, the nibblized data field of a sector with its three rolling checksums,
  and the nibble stream of a whole track. A decoder, which the program does not have,
  states what the stream means: the lemmas decode every encoded sector.
\<close>

subsection \<open>Geometry\<close>

definition sectors_in_track :: "nat \<Rightarrow> nat" where
  "sectors_in_track track =
     (if track < 16 then 12 else if track < 32 then 11 else if track < 48 then 10
      else if track < 64 then 9 else 8)"

definition logical_block :: "nat \<Rightarrow> nat \<Rightarrow> nat \<Rightarrow> nat" where
  "logical_block track side sector =
     fold (\<lambda>t blk. blk + sectors_in_track t * 2) [0..<track] 0 + side * sectors_in_track track + sector"

subsection \<open>Nibbles\<close>

definition gcr6_table :: "u8 list" where
  "gcr6_table =
    [0x96,0x97,0x9A,0x9B,0x9D,0x9E,0x9F,0xA6,0xA7,0xAB,0xAC,0xAD,0xAE,0xAF,0xB2,0xB3,
     0xB4,0xB5,0xB6,0xB7,0xB9,0xBA,0xBB,0xBC,0xBD,0xBE,0xBF,0xCB,0xCD,0xCE,0xCF,0xD3,
     0xD6,0xD7,0xD9,0xDA,0xDB,0xDC,0xDD,0xDE,0xDF,0xE5,0xE6,0xE7,0xE9,0xEA,0xEB,0xEC,
     0xED,0xEE,0xEF,0xF2,0xF3,0xF4,0xF5,0xF6,0xF7,0xF9,0xFA,0xFB,0xFC,0xFD,0xFE,0xFF]"

text \<open>\<open>gcr6[v & 0x3F]\<close>, the form of every use of the table.\<close>

definition gcr6 :: "u8 \<Rightarrow> u8" where
  "gcr6 v = gcr6_table ! unat (v AND 0x3F)"

subsection \<open>The data field of a sector\<close>

text \<open>The checksum accumulators are the \<open>u32\<close> locals a, b, c of the C loop; one call encodes one
  group of three bytes, or the final group of two.\<close>

definition gcr_rotate :: "u32 \<Rightarrow> u32 \<times> u32" where
  "gcr_rotate c = (let carry = drop_bit 7 c AND 1 in ((push_bit 1 c OR carry) AND 0xFF, carry))"

definition gcr_twos :: "u8 \<Rightarrow> u8 \<Rightarrow> u8 \<Rightarrow> u8" where
  "gcr_twos w1 w2 w3 =
     push_bit 4 (drop_bit 6 w1 AND 3) OR push_bit 2 (drop_bit 6 w2 AND 3) OR (drop_bit 6 w3 AND 3)"

definition gcr_pair :: "u32 \<times> u32 \<times> u32 \<Rightarrow> u8 \<Rightarrow> u8 \<Rightarrow> u8 \<times> u8 \<times> (u32 \<times> u32 \<times> u32) \<times> u32" where
  "gcr_pair st v1 v2 =
     (let (a, b, c) = st;
          (c, carry) = gcr_rotate c;
          a = a + ucast v1 + carry; carry = (if a > 0xFF then 1 else 0); a = a AND 0xFF;
          w1 = v1 XOR ucast c;
          b = b + ucast v2 + carry; carry = (if b > 0xFF then 1 else 0); b = b AND 0xFF;
          w2 = v2 XOR ucast a
      in (w1, w2, (a, b, c), carry))"

fun gcr_groups :: "u32 \<times> u32 \<times> u32 \<Rightarrow> u8 list \<Rightarrow> u8 list \<times> (u32 \<times> u32 \<times> u32)" where
  "gcr_groups st (v1 # v2 # v3 # rest) =
     (let (w1, w2, (a, b, c), carry) = gcr_pair st v1 v2;
          c = (c + ucast v3 + carry) AND 0xFF;
          w3 = v3 XOR ucast b;
          w4 = gcr_twos w1 w2 w3;
          (out, st') = gcr_groups (a, b, c) rest
      in (gcr6 w4 # gcr6 w1 # gcr6 w2 # gcr6 w3 # out, st'))"
| "gcr_groups st [v1, v2] =
     (let (w1, w2, st', carry) = gcr_pair st v1 v2;
          w4 = gcr_twos w1 w2 0
      in ([gcr6 w4, gcr6 w1, gcr6 w2], st'))"
| "gcr_groups st _ = ([], st)"

definition gcr_checksum :: "u32 \<times> u32 \<times> u32 \<Rightarrow> u8 list" where
  "gcr_checksum st =
     (let (a, b, c) = st;
          (c, _) = gcr_rotate c;
          w4 = ucast (drop_bit 2 (a AND 0xC0) OR drop_bit 4 (b AND 0xC0) OR drop_bit 6 (c AND 0xC0)) :: u8
      in [gcr6 w4, gcr6 (ucast a), gcr6 (ucast b), gcr6 (ucast c)])"

definition gcr_encode_data :: "u8 list \<Rightarrow> u8 list" where
  "gcr_encode_data src = (let (out, st) = gcr_groups (0, 0, 0) src in out @ gcr_checksum st)"

subsection \<open>The nibble stream of a track\<close>

text \<open>\<open>disk\<close> is None for a NULL image pointer; \<open>disk_size\<close> is the size field kept beside it.\<close>

definition sector_payload :: "u8 list option \<Rightarrow> u32 \<Rightarrow> nat \<Rightarrow> u8 list" where
  "sector_payload disk disk_size blk =
     replicate 12 0 @
     (case disk of
        Some d \<Rightarrow> if (word_of_nat (blk + 1) :: u32) * 512 \<le> disk_size
                  then take 512 (drop (blk * 512) d) else replicate 512 0
      | None \<Rightarrow> replicate 512 0)"

definition build_sector :: "u8 list option \<Rightarrow> u32 \<Rightarrow> nat \<Rightarrow> nat \<Rightarrow> nat \<Rightarrow> u8 list" where
  "build_sector disk disk_size track side s =
     (let fmt = 0x22;
          tk = word_of_nat track AND 0x3F;
          sd = (if side \<noteq> 0 then 0x20 else 0) OR (drop_bit 6 (word_of_nat track) AND 1);
          ck = tk XOR word_of_nat s XOR sd XOR fmt
      in replicate 36 0xFF
         @ [0xD5, 0xAA, 0x96, gcr6 tk, gcr6 (word_of_nat s), gcr6 sd, gcr6 fmt, gcr6 ck, 0xDE, 0xAA, 0xFF]
         @ replicate 6 0xFF
         @ [0xD5, 0xAA, 0xAD, gcr6 (word_of_nat s)]
         @ gcr_encode_data (sector_payload disk disk_size (logical_block track side s))
         @ [0xDE, 0xAA, 0xFF])"

definition track_stream :: "u8 list option \<Rightarrow> u32 \<Rightarrow> nat \<Rightarrow> nat \<Rightarrow> u8 list" where
  "track_stream disk disk_size track side =
     concat (map (build_sector disk disk_size track side) [0..<sectors_in_track track])"

subsection \<open>Geometry is a numbering of the blocks\<close>

definition track_base :: "nat \<Rightarrow> nat" where
  "track_base track = fold (\<lambda>t blk. blk + sectors_in_track t * 2) [0..<track] 0"

lemma logical_block_base: "logical_block track side s = track_base track + side * sectors_in_track track + s"
  by (simp add: logical_block_def track_base_def)

lemma track_base_Suc: "track_base (Suc t) = track_base t + 2 * sectors_in_track t"
  by (simp add: track_base_def)

lemma track_base_mono: "t \<le> t' \<Longrightarrow> track_base t \<le> track_base t'"
  by (induction rule: dec_induct) (auto simp: track_base_Suc)

lemma sectors_pos: "8 \<le> sectors_in_track t" "sectors_in_track t \<le> 12"
  by (auto simp: sectors_in_track_def)

lemma track_base_80: "track_base 80 = 1600"
  by (simp add: track_base_def sectors_in_track_def upt_conv_Cons)

lemma block_in_track:
  assumes "side < 2" "s < sectors_in_track t"
  shows "track_base t \<le> logical_block t side s" "logical_block t side s < track_base (Suc t)"
  using assms by (auto simp: logical_block_base track_base_Suc less_Suc_eq numeral_2_eq_2)

lemma logical_block_inj:
  assumes "side < 2" "s < sectors_in_track t" "side' < 2" "s' < sectors_in_track t'"
    "logical_block t side s = logical_block t' side' s'"
  shows "t = t' \<and> side = side' \<and> s = s'"
proof -
  have "t = t'"
  proof (rule ccontr)
    assume "t \<noteq> t'"
    then consider "Suc t \<le> t'" | "Suc t' \<le> t" by arith
    thus False
      using block_in_track [OF assms(1,2)] block_in_track [OF assms(3,4)] assms(5)
        track_base_mono [of "Suc t" t'] track_base_mono [of "Suc t'" t] by cases auto
  qed
  thus ?thesis using assms by (auto simp: logical_block_base less_Suc_eq numeral_2_eq_2)
qed

text \<open>The block numbers of the 80 tracks, two sides and 8 to 12 sectors are exactly the 1600
  blocks of the 800 KB image: no two places of the disk share a block and none is missing.\<close>

theorem geometry_bijective:
  "bij_betw (\<lambda>(t, side, s). logical_block t side s)
     {(t, side, s). t < 80 \<and> side < 2 \<and> s < sectors_in_track t} {..<1600}"
proof -
  let ?D = "{(t, side, s). t < 80 \<and> side < (2::nat) \<and> s < sectors_in_track t}"
  let ?f = "\<lambda>(t, side, s). logical_block t side s"
  have inj: "inj_on ?f ?D"
    by (rule inj_onI) (clarsimp, use logical_block_inj in blast)
  have "?f ` ?D \<subseteq> {..<1600}"
  proof clarsimp
    fix t side s assume a: "t < 80" "side < (2::nat)" "s < sectors_in_track t"
    have "logical_block t side s < track_base (Suc t)" using block_in_track [OF a(2,3)] by simp
    also have "\<dots> \<le> track_base 80" using a(1) by (intro track_base_mono) simp
    finally show "logical_block t side s < 1600" by (simp add: track_base_80)
  qed
  moreover have "{..<1600} \<subseteq> ?f ` ?D"
  proof
    fix n assume "n \<in> {..<1600::nat}"
    hence "\<exists>t. n < track_base (Suc t) \<and> t < 80" using track_base_80 by (intro exI [of _ 79]) simp
    then obtain t where t: "n < track_base (Suc t)" "t < 80" and least: "\<And>u. u < t \<Longrightarrow> \<not> n < track_base (Suc u)"
      using exists_least_iff [of "\<lambda>t. n < track_base (Suc t) \<and> t < 80"] by auto
    have lo: "track_base t \<le> n"
    proof (cases t)
      case 0 thus ?thesis by (simp add: track_base_def)
    next
      case (Suc u) thus ?thesis using least [of u] by simp
    qed
    let ?d = "n - track_base t" and ?k = "sectors_in_track t"
    have "?d < 2 * ?k" using t lo by (simp add: track_base_Suc)
    hence "?d div ?k < 2" "?d mod ?k < ?k" using sectors_pos [of t]
      by (auto simp: less_mult_imp_div_less intro!: mod_less_divisor)
    moreover have "logical_block t (?d div ?k) (?d mod ?k) = n" using lo by (simp add: logical_block_base)
    ultimately show "n \<in> ?f ` ?D" using t(2) by force
  qed
  ultimately show ?thesis using inj by (auto simp: bij_betw_def)
qed

subsection \<open>Decoding\<close>

text \<open>The six bits a disk nibble stands for.\<close>

definition gcr6_value :: "u8 \<Rightarrow> u8" where
  "gcr6_value n = word_of_nat (length (takeWhile (\<lambda>x. x \<noteq> n) gcr6_table))"

definition gcr_join :: "u8 \<Rightarrow> u8 \<Rightarrow> nat \<Rightarrow> u8" where
  "gcr_join w4 w k = push_bit 6 (drop_bit k w4 AND 3) OR w"

definition gcr_unpair :: "u32 \<times> u32 \<times> u32 \<Rightarrow> u8 \<Rightarrow> u8 \<Rightarrow> u8 \<times> u8 \<times> (u32 \<times> u32 \<times> u32) \<times> u32" where
  "gcr_unpair st w1 w2 =
     (let (a, b, c) = st;
          (c, carry) = gcr_rotate c;
          v1 = w1 XOR ucast c;
          a = a + ucast v1 + carry; carry = (if a > 0xFF then 1 else 0); a = a AND 0xFF;
          v2 = w2 XOR ucast a;
          b = b + ucast v2 + carry; carry = (if b > 0xFF then 1 else 0); b = b AND 0xFF
      in (v1, v2, (a, b, c), carry))"

fun gcr_decode_groups :: "u32 \<times> u32 \<times> u32 \<Rightarrow> u8 list \<Rightarrow> u8 list \<times> (u32 \<times> u32 \<times> u32)" where
  "gcr_decode_groups st (n4 # n1 # n2 # n3 # rest) =
     (let w4 = gcr6_value n4;
          (v1, v2, (a, b, c), carry) = gcr_unpair st (gcr_join w4 (gcr6_value n1) 4) (gcr_join w4 (gcr6_value n2) 2);
          v3 = gcr_join w4 (gcr6_value n3) 0 XOR ucast b;
          c = (c + ucast v3 + carry) AND 0xFF;
          (out, st') = gcr_decode_groups (a, b, c) rest
      in (v1 # v2 # v3 # out, st'))"
| "gcr_decode_groups st [n4, n1, n2] =
     (let w4 = gcr6_value n4;
          (v1, v2, st', carry) = gcr_unpair st (gcr_join w4 (gcr6_value n1) 4) (gcr_join w4 (gcr6_value n2) 2)
      in ([v1, v2], st'))"
| "gcr_decode_groups st _ = ([], st)"

definition gcr_decode_data :: "u8 list \<Rightarrow> u8 list option" where
  "gcr_decode_data ns =
     (let k = length ns - 4; (out, st) = gcr_decode_groups (0, 0, 0) (take k ns)
      in if drop k ns = gcr_checksum st then Some out else None)"

lemma gcr6_table_facts: "length gcr6_table = 64" "distinct gcr6_table"
  "\<forall>n \<in> set gcr6_table. n \<noteq> 0xD5 \<and> n \<noteq> 0xAA \<and> 0x96 \<le> n"
  by (simp_all add: gcr6_table_def)

lemma takeWhile_nth: "distinct xs \<Longrightarrow> i < length xs \<Longrightarrow> length (takeWhile (\<lambda>x. x \<noteq> xs ! i) xs) = i"
proof (induction xs arbitrary: i)
  case (Cons x xs)
  thus ?case by (cases i) auto
qed simp

lemma six_bits: "unat (v AND 0x3F) < 64" for v :: u8
proof -
  have "v AND 0x3F \<le> 0x3F" by (rule word_and_le1)
  thus ?thesis by (simp add: word_le_nat_alt)
qed

lemma gcr6_value [simp]: "gcr6_value (gcr6 v) = v AND 0x3F"
  using six_bits [of v] by (simp add: gcr6_value_def gcr6_def takeWhile_nth gcr6_table_facts)

lemma gcr6_range: "gcr6 v \<noteq> 0xD5" "gcr6 v \<noteq> 0xAA" "0x96 \<le> gcr6 v"
proof -
  have "gcr6 v \<in> set gcr6_table" using six_bits [of v] by (simp add: gcr6_def gcr6_table_facts)
  thus "gcr6 v \<noteq> 0xD5" "gcr6 v \<noteq> 0xAA" "0x96 \<le> gcr6 v" using gcr6_table_facts(3) by blast+
qed

lemma gcr_join_twos [simp]:
  "gcr_join (gcr_twos w1 w2 w3 AND 0x3F) (w1 AND 0x3F) 4 = w1"
  "gcr_join (gcr_twos w1 w2 w3 AND 0x3F) (w2 AND 0x3F) 2 = w2"
  "gcr_join (gcr_twos w1 w2 w3 AND 0x3F) (w3 AND 0x3F) 0 = w3"
  by (simp_all add: gcr_join_def gcr_twos_def byte_eq_bits bit_simps)

lemma xor_twice [simp]: "(x XOR y) XOR y = x" for x y :: "'a::len word"
  by (simp add: xor.assoc)

lemma gcr_unpair: "gcr_pair st v1 v2 = (w1, w2, st', k) \<Longrightarrow> gcr_unpair st w1 w2 = (v1, v2, st', k)"
  by (auto simp: gcr_pair_def gcr_unpair_def Let_def split: prod.splits)

lemma gcr_decode_groups:
  "length src mod 3 = 2 \<Longrightarrow> gcr_groups st src = (ns, st') \<Longrightarrow> gcr_decode_groups st ns = (src, st')"
proof (induction st src arbitrary: ns st' rule: gcr_groups.induct)
  case (1 st v1 v2 v3 rest)
  obtain w1 w2 a b c k where p: "gcr_pair st v1 v2 = (w1, w2, (a, b, c), k)" by (metis surj_pair)
  obtain ns' st2 where r: "gcr_groups (a, b, (c + ucast v3 + k) AND 0xFF) rest = (ns', st2)" by (metis surj_pair)
  have l: "length rest mod 3 = 2" using "1.prems"(1) by (simp add: mod_Suc split: if_splits)
  have "gcr_decode_groups (a, b, (c + ucast v3 + k) AND 0xFF) ns' = (rest, st2)"
    using "1.IH" [OF p [symmetric]] l r by auto
  thus ?case using "1.prems"(2) p r by (auto simp: Let_def gcr_unpair [OF p])
next
  case (2 st v1 v2)
  obtain w1 w2 st1 k where p: "gcr_pair st v1 v2 = (w1, w2, st1, k)" by (metis surj_pair)
  thus ?case using "2.prems"(2) by (auto simp: Let_def gcr_unpair [OF p])
qed auto

lemma length_gcr_groups:
  "length src mod 3 = 2 \<Longrightarrow> gcr_groups st src = (ns, st') \<Longrightarrow> 3 * length ns = 4 * length src + 1"
proof (induction st src arbitrary: ns st' rule: gcr_groups.induct)
  case (1 st v1 v2 v3 rest)
  obtain w1 w2 a b c k where p: "gcr_pair st v1 v2 = (w1, w2, (a, b, c), k)" by (metis surj_pair)
  obtain ns' st2 where r: "gcr_groups (a, b, (c + ucast v3 + k) AND 0xFF) rest = (ns', st2)" by (metis surj_pair)
  have l: "length rest mod 3 = 2" using "1.prems"(1) by (simp add: mod_Suc split: if_splits)
  have "3 * length ns' = 4 * length rest + 1" using "1.IH" [OF p [symmetric]] l r by auto
  thus ?case using "1.prems"(2) p r by (auto simp: Let_def)
next
  case (2 st v1 v2)
  thus ?case by (auto simp: Let_def split: prod.splits)
qed auto

lemma gcr_groups_nibbles: "n \<in> set (fst (gcr_groups st src)) \<Longrightarrow> \<exists>v. n = gcr6 v"
proof (induction st src rule: gcr_groups.induct)
  case (1 st v1 v2 v3 rest)
  obtain w1 w2 a b c k where p: "gcr_pair st v1 v2 = (w1, w2, (a, b, c), k)" by (metis surj_pair)
  have "n \<in> set (fst (gcr_groups (a, b, (c + ucast v3 + k) AND 0xFF) rest)) \<Longrightarrow> \<exists>v. n = gcr6 v"
    using "1.IH" [OF p [symmetric]] by auto
  thus ?case using "1.prems" p by (auto simp: Let_def split: prod.splits)
next
  case (2 st v1 v2)
  thus ?case by (auto simp: Let_def split: prod.splits)
qed auto

lemma length_checksum [simp]: "length (gcr_checksum st) = 4"
  by (simp add: gcr_checksum_def Let_def split: prod.split)

lemma checksum_nibbles: "n \<in> set (gcr_checksum st) \<Longrightarrow> \<exists>v. n = gcr6 v"
  by (auto simp: gcr_checksum_def Let_def split: prod.splits)

lemma length_encode [simp]: "length src = 524 \<Longrightarrow> length (gcr_encode_data src) = 703"
  using length_gcr_groups [of src "(0, 0, 0)"] by (auto simp: gcr_encode_data_def split: prod.split)

text \<open>C8: The data field of a sector decodes to the sector: from the 703 nibbles of any 524 byte
  payload the decoder recovers the payload and confirms the checksum, and no nibble of the
  field is one of the bytes D5 and AA that mark the fields of the track, or below 96.\<close>

theorem gcr_round_trip:
  assumes "length src = 524"
  shows "gcr_decode_data (gcr_encode_data src) = Some src \<and> length (gcr_encode_data src) = 703 \<and>
     list_all (\<lambda>n. n \<noteq> 0xD5 \<and> n \<noteq> 0xAA \<and> 0x96 \<le> n) (gcr_encode_data src)"
proof -
  obtain ns st where g: "gcr_groups (0, 0, 0) src = (ns, st)" by (metis surj_pair)
  have d: "gcr_decode_groups (0, 0, 0) ns = (src, st)"
    using gcr_decode_groups [OF _ g] assms by simp
  have "n \<in> set (gcr_encode_data src) \<Longrightarrow> \<exists>v. n = gcr6 v" for n
    using gcr_groups_nibbles [of n "(0, 0, 0)" src] checksum_nibbles [of n st]
    by (auto simp: gcr_encode_data_def g)
  hence "list_all (\<lambda>n. n \<noteq> 0xD5 \<and> n \<noteq> 0xAA \<and> 0x96 \<le> n) (gcr_encode_data src)"
    using gcr6_range by (fastforce simp: list_all_iff)
  moreover have "gcr_decode_data (gcr_encode_data src) = Some src"
    by (simp add: gcr_decode_data_def gcr_encode_data_def g d)
  ultimately show ?thesis using assms by simp
qed

theorem gcr_round_trip_witness:
  "length (replicate 524 (7::u8)) = 524 \<and>
   gcr_decode_data (gcr_encode_data (replicate 524 7)) = Some (replicate 524 7)"
  using gcr_round_trip [of "replicate 524 7"] by simp

subsection \<open>Reading a sector back from the track\<close>

definition image_ok :: "u8 list option \<Rightarrow> u32 \<Rightarrow> bool" where
  "image_ok disk disk_size \<longleftrightarrow> (case disk of Some d \<Rightarrow> length d = unat disk_size | None \<Rightarrow> True)"

lemma block_word: "blk < 1600 \<Longrightarrow> (word_of_nat (blk + 1) :: u32) * 512 \<le> sz \<longleftrightarrow> (blk + 1) * 512 \<le> unat sz"
  by (simp add: word_le_nat_alt unat_word_ariths unat_of_nat take_bit_eq_mod)

lemma length_payload [simp]:
  "image_ok disk sz \<Longrightarrow> blk < 1600 \<Longrightarrow> length (sector_payload disk sz blk) = 524"
  using block_word [of blk sz] by (auto simp: sector_payload_def image_ok_def min_def split: option.split)

lemma length_build_sector:
  assumes "image_ok disk sz" "logical_block t side s < 1600"
  shows "length (build_sector disk sz t side s) = 763"
  using assms by (simp add: build_sector_def Let_def)

lemma sector_data_field:
  assumes "image_ok disk sz" "logical_block t side s < 1600"
  shows "take 703 (drop 57 (build_sector disk sz t side s @ rest)) =
         gcr_encode_data (sector_payload disk sz (logical_block t side s))"
  using assms by (simp add: build_sector_def Let_def)

lemma block_bound: "t < 80 \<Longrightarrow> side < 2 \<Longrightarrow> s < sectors_in_track t \<Longrightarrow> logical_block t side s < 1600"
  using block_in_track(2) [of side s t] track_base_mono [of "Suc t" 80] by (simp add: track_base_80)

lemma concat_at:
  assumes "\<And>i. i < n \<Longrightarrow> length (f i) = k" "s < n"
  shows "drop (k * s) (concat (map f [0..<n])) = f s @ concat (map f [Suc s..<n])"
    and "length (concat (map f [0..<n])) = k * n"
proof -
  have pre: "length (concat (map f [0..<m])) = k * m" if "m \<le> n" for m
    using that assms(1) by (induction m) auto
  have "[0..<n] = [0..<s] @ s # [Suc s..<n]"
    using upt_add_eq_append [of 0 s "n - s"] assms(2) by (simp add: upt_conv_Cons)
  thus "drop (k * s) (concat (map f [0..<n])) = f s @ concat (map f [Suc s..<n])"
    using pre [of s] assms(2) by simp
  show "length (concat (map f [0..<n])) = k * n" using pre [of n] by simp
qed

text \<open>C9: The stream under the head holds the disk: a track is 763 nibbles for each of its
  sectors, it fits the 16384 byte track buffer, and the data field at a sector's place decodes
  to twelve zero tag bytes and the 512 bytes of the image block of that track, side and sector.\<close>

theorem track_holds_sectors:
  assumes "t < 80" "side < 2" "s < sectors_in_track t" "length d = unat sz"
    "(logical_block t side s + 1) * 512 \<le> length d"
  shows "let stream = track_stream (Some d) sz t side; blk = logical_block t side s in
     length stream = 763 * sectors_in_track t \<and> length stream \<le> 16384 \<and>
     gcr_decode_data (take 703 (drop (763 * s + 57) stream)) =
       Some (replicate 12 0 @ take 512 (drop (blk * 512) d))"
proof -
  have ok: "image_ok (Some d) sz" using assms(4) by (simp add: image_ok_def)
  have len: "length (build_sector (Some d) sz t side i) = 763" if "i < sectors_in_track t" for i
    using length_build_sector [OF ok] block_bound [OF assms(1,2) that] by blast
  note c = concat_at [OF len assms(3)]
  have b: "logical_block t side s < 1600" by (rule block_bound [OF assms(1-3)])
  have "drop (763 * s + 57) (track_stream (Some d) sz t side) =
      drop 57 (drop (763 * s) (track_stream (Some d) sz t side))" by (simp add: add.commute)
  hence "take 703 (drop (763 * s + 57) (track_stream (Some d) sz t side)) =
      gcr_encode_data (sector_payload (Some d) sz (logical_block t side s))"
    by (simp only: track_stream_def c(1) sector_data_field [OF ok b])
  moreover have "sector_payload (Some d) sz (logical_block t side s) =
      replicate 12 0 @ take 512 (drop (logical_block t side s * 512) d)"
    using block_word [OF b, of sz] assms(4,5) by (simp add: sector_payload_def)
  moreover have "length (sector_payload (Some d) sz (logical_block t side s)) = 524" using ok b by simp
  ultimately show ?thesis
    using c(2) gcr_round_trip sectors_pos(2) [of t] by (simp add: Let_def track_stream_def)
qed

theorem track_holds_sectors_witness:
  "logical_block 0 0 1 = 1 \<and>
   gcr_decode_data (take 703 (drop (763 * 1 + 57) (track_stream (Some (replicate 1024 9)) 1024 0 0))) =
     Some (replicate 12 0 @ replicate 512 9)"
proof -
  have "1 < sectors_in_track 0" "logical_block 0 0 1 = 1"
    by (simp_all add: sectors_in_track_def logical_block_def)
  thus ?thesis using track_holds_sectors [of 0 0 1 "replicate 1024 9" 1024] by (simp add: Let_def)
qed

end
