(* ===== verification/Iwm.thy ===== *)
theory Iwm
  imports Gcr
begin

text \<open>
  The floppy controller of core/mac_iwm.c: its control lines and latches, the sense
  line of the drive, head stepping, and the data register that streams the nibbles
  of the track under the head. The C integers drive, step_dir, cur_track, track and
  side are kept as integers; track is -1 when the buffer holds no track.
\<close>

subsection \<open>State (mac_iwm of mac_mem.h)\<close>

record mac_iwm =
  iwm_lines :: u8
  iwm_q6 :: u8
  iwm_q7 :: u8
  iwm_mode :: u8
  iwm_motor_on :: bool
  iwm_drive :: int
  iwm_sel :: u8
  iwm_step_dir :: int
  iwm_cur_track :: int
  iwm_tach :: u8
  iwm_disk :: "u8 list option"
  iwm_disk_size :: u32
  iwm_disk_present :: bool
  iwm_disk_wprot :: bool
  iwm_trackbuf :: "nat \<Rightarrow> u8"
  iwm_track_len :: u32
  iwm_track :: int
  iwm_side :: int
  iwm_nib_pos :: u32
  iwm_dbg_data_reads :: u64

definition iwm_init :: mac_iwm where
  "iwm_init = \<lparr>iwm_lines = 0, iwm_q6 = 0, iwm_q7 = 0, iwm_mode = 0, iwm_motor_on = False, iwm_drive = 0,
     iwm_sel = 0, iwm_step_dir = 0, iwm_cur_track = 0, iwm_tach = 0, iwm_disk = None, iwm_disk_size = 0,
     iwm_disk_present = False, iwm_disk_wprot = False, iwm_trackbuf = (\<lambda>_. 0), iwm_track_len = 0,
     iwm_track = 0, iwm_side = 0, iwm_nib_pos = 0, iwm_dbg_data_reads = 0\<rparr>"

text \<open>The allocation succeeds: its failure is the host's.\<close>

definition iwm_insert :: "mac_iwm \<Rightarrow> u8 list \<Rightarrow> bool \<Rightarrow> mac_iwm" where
  "iwm_insert iwm img wprot =
     iwm\<lparr>iwm_disk := Some img, iwm_disk_size := word_of_nat (length img), iwm_disk_present := True,
         iwm_disk_wprot := wprot, iwm_track := -1\<rparr>"

text \<open>\<open>build_track\<close>: the stream is stored from the start of the buffer.\<close>

definition build_track :: "mac_iwm \<Rightarrow> int \<Rightarrow> int \<Rightarrow> mac_iwm" where
  "build_track iwm track side =
     (let t = track_stream (iwm_disk iwm) (iwm_disk_size iwm) (nat track) (nat side) in
      iwm\<lparr>iwm_trackbuf := (\<lambda>i. if i < length t then t ! i else iwm_trackbuf iwm i),
          iwm_track_len := word_of_nat (length t), iwm_track := track, iwm_side := side, iwm_nib_pos := 0\<rparr>)"

subsection \<open>Control lines\<close>

text \<open>The number on the lines ca2, ca1, ca0, as both \<open>iwm_sense\<close> and \<open>iwm_set_line\<close> compute it.\<close>

definition iwm_ca :: "u8 \<Rightarrow> u8" where
  "iwm_ca lines = (lines AND 1) OR push_bit 1 (drop_bit 1 lines AND 1) OR push_bit 2 (drop_bit 2 lines AND 1)"

definition iwm_sense :: "mac_iwm \<Rightarrow> int \<times> mac_iwm" where
  "iwm_sense iwm =
     (let reg = iwm_ca (iwm_lines iwm) OR (if iwm_sel iwm \<noteq> 0 then 8 else 0) in
      if reg = 0x0 then (iwm_step_dir iwm, iwm)
      else if reg = 0x1 then (if iwm_disk_present iwm then 0 else 1, iwm)
      else if reg = 0x2 then (1, iwm)
      else if reg = 0x3 then (if iwm_disk_wprot iwm then 0 else 1, iwm)
      else if reg = 0x4 then (if iwm_motor_on iwm then 0 else 1, iwm)
      else if reg = 0x5 then (if iwm_cur_track iwm = 0 then 0 else 1, iwm)
      else if reg = 0x6 then (0, iwm)
      else if reg = 0x7 then (let t = iwm_tach iwm XOR 1 in (uint t, iwm\<lparr>iwm_tach := t\<rparr>))
      else if reg = 0x8 then (0, iwm)
      else if reg = 0x9 then (0, iwm)
      else if reg = 0xB then (1, iwm)
      else if reg = 0xC then (0, iwm)
      else if reg = 0xD then (if iwm_disk_present iwm then 0 else 1, iwm)
      else if reg = 0xF then (1, iwm)
      else (0, iwm))"

definition iwm_set_line :: "mac_iwm \<Rightarrow> nat \<Rightarrow> int \<Rightarrow> mac_iwm" where
  "iwm_set_line iwm line val =
     (let b = push_bit line 1; old = iwm_lines iwm;
          iwm = iwm\<lparr>iwm_lines := (if val \<noteq> 0 then iwm_lines iwm OR b else iwm_lines iwm AND NOT b)\<rparr> in
      if line = 4 then iwm\<lparr>iwm_motor_on := (val \<noteq> 0)\<rparr>
      else if line = 5 then iwm\<lparr>iwm_drive := val\<rparr>
      else if line = 3 then
        (if val \<noteq> 0 \<and> old AND push_bit 3 1 = 0 then
           (let cmd = iwm_ca (iwm_lines iwm) in
            if cmd = 1 then
              (let iwm = (if iwm_step_dir iwm \<noteq> 0
                          then (if iwm_cur_track iwm > 0 then iwm\<lparr>iwm_cur_track := iwm_cur_track iwm - 1\<rparr> else iwm)
                          else (if iwm_cur_track iwm < 79 then iwm\<lparr>iwm_cur_track := iwm_cur_track iwm + 1\<rparr> else iwm))
               in iwm\<lparr>iwm_track := -1\<rparr>)
            else if cmd = 0 then iwm\<lparr>iwm_step_dir := (if iwm_lines iwm AND 2 \<noteq> 0 then 1 else 0)\<rparr>
            else iwm)
         else iwm)
      else iwm)"

text \<open>The line access every register access makes first: address bits 9 to 12 give the line
  and its new level.\<close>

definition iwm_access :: "mac_iwm \<Rightarrow> u32 \<Rightarrow> mac_iwm" where
  "iwm_access iwm addr =
     (let n = unat (drop_bit 9 addr AND 0xF); line = n div 2; val = n mod 2 in
      if line = 6 then iwm\<lparr>iwm_q6 := word_of_nat val\<rparr>
      else if line = 7 then iwm\<lparr>iwm_q7 := word_of_nat val\<rparr>
      else iwm_set_line iwm line (int val))"

subsection \<open>Register access\<close>

text \<open>The data register branch of \<open>iwm_read\<close>.\<close>

definition iwm_data :: "mac_iwm \<Rightarrow> u8 \<times> mac_iwm" where
  "iwm_data iwm =
     (if \<not> iwm_motor_on iwm \<or> \<not> iwm_disk_present iwm then (0, iwm)
      else
        (let iwm = (if iwm_track iwm \<noteq> iwm_cur_track iwm \<or> iwm_side iwm \<noteq> iwm_drive iwm
                    then build_track iwm (iwm_cur_track iwm) (iwm_drive iwm) else iwm) in
         if iwm_track_len iwm = 0 then (0, iwm)
         else
           (let b = iwm_trackbuf iwm (unat (iwm_nib_pos iwm)) in
            (b, iwm\<lparr>iwm_nib_pos := (iwm_nib_pos iwm + 1) mod iwm_track_len iwm,
                    iwm_dbg_data_reads := iwm_dbg_data_reads iwm + 1\<rparr>))))"

definition iwm_read :: "mac_iwm \<Rightarrow> u32 \<Rightarrow> u8 \<times> mac_iwm" where
  "iwm_read iwm addr =
     (let iwm = iwm_access iwm addr in
      if iwm_q7 iwm = 0 \<and> iwm_q6 iwm = 0 then iwm_data iwm
      else if iwm_q7 iwm = 0 \<and> iwm_q6 iwm = 1 then
        (let st = iwm_mode iwm AND 0x1F;
             st = (if iwm_motor_on iwm then st OR 0x20 else st);
             (sense, iwm) = iwm_sense iwm
         in (if sense \<noteq> 0 then st OR 0x80 else st, iwm))
      else if iwm_q7 iwm = 1 \<and> iwm_q6 iwm = 0 then (0x80, iwm)
      else (0, iwm))"

definition iwm_write :: "mac_iwm \<Rightarrow> u32 \<Rightarrow> u8 \<Rightarrow> mac_iwm" where
  "iwm_write iwm addr val =
     (let iwm = iwm_access iwm addr in
      if iwm_q6 iwm \<noteq> 0 \<and> iwm_q7 iwm \<noteq> 0 \<and> \<not> iwm_motor_on iwm then iwm\<lparr>iwm_mode := val\<rparr> else iwm)"

subsection \<open>Invariant\<close>

definition holds_track :: "mac_iwm \<Rightarrow> bool" where
  "holds_track iwm \<longleftrightarrow>
     (let t = track_stream (iwm_disk iwm) (iwm_disk_size iwm) (nat (iwm_track iwm)) (nat (iwm_side iwm)) in
      unat (iwm_track_len iwm) = length t \<and> (\<forall>i < length t. iwm_trackbuf iwm i = t ! i))"

definition iwm_inv :: "mac_iwm \<Rightarrow> bool" where
  "iwm_inv iwm \<longleftrightarrow>
     0 \<le> iwm_cur_track iwm \<and> iwm_cur_track iwm \<le> 79 \<and> 0 \<le> iwm_drive iwm \<and> iwm_drive iwm \<le> 1 \<and>
     iwm_step_dir iwm = 0 \<and> image_ok (iwm_disk iwm) (iwm_disk_size iwm) \<and>
     iwm_track_len iwm \<le> 16384 \<and> (iwm_track_len iwm \<noteq> 0 \<longrightarrow> iwm_nib_pos iwm < iwm_track_len iwm) \<and>
     (iwm_disk_present iwm \<and> iwm_track iwm \<noteq> -1 \<longrightarrow> holds_track iwm)"

lemma length_track_stream:
  assumes "image_ok disk sz" "t < 80" "side < 2"
  shows "length (track_stream disk sz t side) = 763 * sectors_in_track t"
proof -
  have len: "length (build_sector disk sz t side i) = 763" if "i < sectors_in_track t" for i
    using length_build_sector [OF assms(1)] block_bound [OF assms(2,3) that] by blast
  show ?thesis unfolding track_stream_def
    using concat_at(2) [of "sectors_in_track t" "build_sector disk sz t side" 763 0] len sectors_pos(1) [of t]
    by simp
qed

lemma length_track_stream_bounds:
  assumes "image_ok disk sz" "t < 80" "side < 2"
  shows "0 < length (track_stream disk sz t side)" "length (track_stream disk sz t side) \<le> 16384"
  using length_track_stream [OF assms] sectors_pos [of t] by auto

lemma holds_build_track:
  assumes "image_ok (iwm_disk iwm) (iwm_disk_size iwm)" "0 \<le> t" "t < 80" "0 \<le> side" "side < 2"
  shows "holds_track (build_track iwm t side)"
proof -
  have "nat t < 80" "nat side < 2" using assms by linarith+
  hence "length (track_stream (iwm_disk iwm) (iwm_disk_size iwm) (nat t) (nat side)) < 4294967296"
    using length_track_stream_bounds(2) [OF assms(1), of "nat t" "nat side"] by linarith
  thus ?thesis by (simp add: holds_track_def build_track_def Let_def unat_of_nat take_bit_eq_mod)
qed

lemma build_track_frame [simp]:
  "iwm_disk (build_track iwm t s) = iwm_disk iwm" "iwm_disk_size (build_track iwm t s) = iwm_disk_size iwm"
  "iwm_cur_track (build_track iwm t s) = iwm_cur_track iwm" "iwm_drive (build_track iwm t s) = iwm_drive iwm"
  "iwm_step_dir (build_track iwm t s) = iwm_step_dir iwm" "iwm_track (build_track iwm t s) = t"
  "iwm_side (build_track iwm t s) = s" "iwm_nib_pos (build_track iwm t s) = 0"
  "iwm_disk_present (build_track iwm t s) = iwm_disk_present iwm" "iwm_motor_on (build_track iwm t s) = iwm_motor_on iwm"
  by (simp_all add: build_track_def Let_def)

lemma holds_track_cong:
  assumes "iwm_disk b = iwm_disk a" "iwm_disk_size b = iwm_disk_size a" "iwm_track b = iwm_track a"
    "iwm_side b = iwm_side a" "iwm_track_len b = iwm_track_len a" "iwm_trackbuf b = iwm_trackbuf a"
  shows "holds_track b = holds_track a"
  by (simp add: holds_track_def assms)

text \<open>Stepping in the other direction needs ca1 high in a command that has ca1 low.\<close>

lemma cmd_0_bit: "iwm_ca l = 0 \<Longrightarrow> l AND 2 = 0"
  by (simp add: iwm_ca_def byte_eq_bits bit_simps bit_double)

lemma inv_init: "iwm_inv iwm_init"
  by (simp add: iwm_inv_def iwm_init_def image_ok_def)

lemma inv_set_line [inv_intros]:
  assumes "iwm_inv iwm" "0 \<le> val" "val \<le> 1" shows "iwm_inv (iwm_set_line iwm line val)"
proof -
  have h: "holds_track (iwm\<lparr>iwm_lines := l, iwm_motor_on := m\<rparr>) = holds_track iwm"
    "holds_track (iwm\<lparr>iwm_lines := l, iwm_drive := v\<rparr>) = holds_track iwm"
    "holds_track (iwm\<lparr>iwm_lines := l, iwm_step_dir := v\<rparr>) = holds_track iwm"
    "holds_track (iwm\<lparr>iwm_lines := l\<rparr>) = holds_track iwm" for l m v
    by (rule holds_track_cong; simp)+
  show ?thesis using assms
    by (auto simp: iwm_set_line_def iwm_inv_def Let_def h dest: cmd_0_bit)
qed

lemma inv_access [inv_intros]: assumes "iwm_inv iwm" shows "iwm_inv (iwm_access iwm addr)"
proof -
  have h: "holds_track (iwm\<lparr>iwm_q6 := v\<rparr>) = holds_track iwm" "holds_track (iwm\<lparr>iwm_q7 := v\<rparr>) = holds_track iwm" for v
    by (rule holds_track_cong; simp)+
  have "iwm_inv (iwm_set_line iwm l (int (n mod 2)))" for l n
    by (rule inv_set_line [OF assms]) auto
  thus ?thesis using assms
    by (auto simp: iwm_access_def Let_def) (auto simp: iwm_inv_def h)
qed

lemma inv_data [inv_intros]: assumes "iwm_inv iwm" shows "iwm_inv (snd (iwm_data iwm))"
proof -
  have h: "holds_track (i\<lparr>iwm_nib_pos := p, iwm_dbg_data_reads := c\<rparr>) = holds_track i" for i p c
    by (rule holds_track_cong; simp)
  let ?b = "build_track iwm (iwm_cur_track iwm) (iwm_drive iwm)"
  have hb: "holds_track ?b" using assms by (intro holds_build_track) (auto simp: iwm_inv_def)
  have "nat (iwm_cur_track iwm) < 80" "nat (iwm_drive iwm) < 2" using assms by (auto simp: iwm_inv_def)
  hence lb: "iwm_track_len ?b \<le> 16384"
    using hb length_track_stream_bounds(2) [of "iwm_disk iwm" "iwm_disk_size iwm" "nat (iwm_cur_track iwm)" "nat (iwm_drive iwm)"] assms
    by (simp add: holds_track_def Let_def word_le_nat_alt iwm_inv_def)
  have "iwm_inv ?b" using assms hb lb by (simp add: iwm_inv_def word_gt_0)
  hence "iwm_inv i \<Longrightarrow> iwm_inv (i\<lparr>iwm_nib_pos := (iwm_nib_pos i + 1) mod iwm_track_len i, iwm_dbg_data_reads := c\<rparr>)" for i c
    by (auto simp: iwm_inv_def h word_gt_0 intro!: word_mod_less_divisor)
  thus ?thesis using assms \<open>iwm_inv ?b\<close> by (auto simp: iwm_data_def Let_def)
qed

lemma sense_state:
  "snd (iwm_sense iwm) =
     (if iwm_ca (iwm_lines iwm) OR (if iwm_sel iwm \<noteq> 0 then 8 else 0) = 7
      then iwm\<lparr>iwm_tach := iwm_tach iwm XOR 1\<rparr> else iwm)"
proof -
  define reg where "reg = iwm_ca (iwm_lines iwm) OR (if iwm_sel iwm \<noteq> 0 then 8 else 0)"
  show ?thesis unfolding iwm_sense_def reg_def [symmetric] Let_def
    by (simp only: if_distrib [of snd] snd_conv) simp
qed

lemma inv_sense [inv_intros]: assumes "iwm_inv iwm" shows "iwm_inv (snd (iwm_sense iwm))"
proof -
  have "holds_track (iwm\<lparr>iwm_tach := v\<rparr>) = holds_track iwm" for v by (rule holds_track_cong; simp)
  hence "iwm_inv (iwm\<lparr>iwm_tach := v\<rparr>)" for v using assms by (simp add: iwm_inv_def)
  thus ?thesis using assms by (simp add: sense_state)
qed

lemma inv_read: assumes "iwm_inv iwm" shows "iwm_inv (snd (iwm_read iwm addr))"
proof -
  have i: "iwm_inv (iwm_access iwm addr)" by (rule inv_access [OF assms])
  show ?thesis using i inv_data [OF i] inv_sense [OF i]
    by (simp add: iwm_read_def Let_def case_prod_beta)
qed

lemma inv_write: assumes "iwm_inv iwm" shows "iwm_inv (iwm_write iwm addr v)"
proof -
  have i: "iwm_inv (iwm_access iwm addr)" by (rule inv_access [OF assms])
  have "holds_track (i\<lparr>iwm_mode := v\<rparr>) = holds_track i" for i by (rule holds_track_cong; simp)
  thus ?thesis using i by (simp add: iwm_write_def Let_def iwm_inv_def)
qed

lemma inv_insert:
  assumes "iwm_inv iwm" "length img < 2 ^ 32" shows "iwm_inv (iwm_insert iwm img wp)"
  using assms by (simp add: iwm_insert_def iwm_inv_def image_ok_def unat_of_nat take_bit_eq_mod)

text \<open>C10: Every access to the controller keeps its state well formed: the head is over one of the
  tracks 0 to 79, the drive number is 0 or 1, the read position is inside the track stream, the
  stream fits the buffer, and a buffer that is marked valid holds exactly the encoding of the
  inserted image for its track and side.\<close>

theorem iwm_inv_preserved:
  assumes "iwm_inv iwm"
  shows "iwm_inv (snd (iwm_read iwm addr)) \<and> iwm_inv (iwm_write iwm addr v) \<and>
     (length img < 2 ^ 32 \<longrightarrow> iwm_inv (iwm_insert iwm img wp))"
  using inv_read [OF assms] inv_write [OF assms] inv_insert [OF assms] by blast

theorem iwm_inv_preserved_witness:
  "iwm_inv (snd (iwm_read iwm_init 0xDFE1FF)) \<and> iwm_inv (iwm_insert iwm_init [1, 2, 3] True)"
  using iwm_inv_preserved [OF inv_init, of "0xDFE1FF" 0 "[1, 2, 3]" True] by simp

subsection \<open>The head\<close>

lemma data_cur_track: "iwm_cur_track (snd (iwm_data iwm)) = iwm_cur_track iwm"
  by (simp add: iwm_data_def Let_def)

lemma sense_cur_track: "iwm_cur_track (snd (iwm_sense iwm)) = iwm_cur_track iwm"
  by (simp add: sense_state)

lemma set_line_cur_track:
  "iwm_step_dir iwm = 0 \<Longrightarrow> iwm_cur_track iwm \<le> iwm_cur_track (iwm_set_line iwm line val)"
  by (simp add: iwm_set_line_def Let_def)

lemma access_cur_track: "iwm_step_dir iwm = 0 \<Longrightarrow> iwm_cur_track iwm \<le> iwm_cur_track (iwm_access iwm addr)"
  by (simp add: iwm_access_def Let_def set_line_cur_track)

text \<open>The head never moves toward track 0: the direction command is recognised only while line
  ca1 is low and takes the direction from that same line, so the step direction stays 0 and no
  access to the controller decreases the track number.\<close>

theorem iwm_head_only_inward:
  assumes "iwm_inv iwm"
  shows "iwm_step_dir (snd (iwm_read iwm addr)) = 0 \<and> iwm_step_dir (iwm_write iwm addr v) = 0 \<and>
     iwm_cur_track iwm \<le> iwm_cur_track (snd (iwm_read iwm addr)) \<and>
     iwm_cur_track iwm \<le> iwm_cur_track (iwm_write iwm addr v)"
proof -
  have s: "iwm_step_dir iwm = 0" using assms by (simp add: iwm_inv_def)
  have "iwm_step_dir (snd (iwm_read iwm addr)) = 0" "iwm_step_dir (iwm_write iwm addr v) = 0"
    using inv_read [OF assms] inv_write [OF assms] by (simp_all add: iwm_inv_def)
  thus ?thesis using access_cur_track [OF s, of addr]
    by (simp add: iwm_read_def iwm_write_def Let_def case_prod_beta data_cur_track sense_cur_track)
qed

theorem iwm_head_only_inward_witness:
  "iwm_inv iwm_init \<and> iwm_cur_track (iwm_write iwm_init 0xC00E00 0) \<ge> 0"
proof -
  have "iwm_cur_track iwm_init = 0" by (simp add: iwm_init_def)
  thus ?thesis using iwm_head_only_inward [OF inv_init, of "0xC00E00" 0] inv_init by metis
qed

subsection \<open>Streaming\<close>

fun iwm_read_n :: "nat \<Rightarrow> u32 \<Rightarrow> mac_iwm \<Rightarrow> u8 list \<times> mac_iwm" where
  "iwm_read_n 0 addr iwm = ([], iwm)"
| "iwm_read_n (Suc n) addr iwm =
     (let (b, iwm) = iwm_read iwm addr; (bs, iwm) = iwm_read_n n addr iwm in (b # bs, iwm))"

definition head_stream :: "mac_iwm \<Rightarrow> u8 list" where
  "head_stream iwm = track_stream (iwm_disk iwm) (iwm_disk_size iwm) (nat (iwm_cur_track iwm)) (nat (iwm_drive iwm))"

definition head_pos :: "mac_iwm \<Rightarrow> nat" where
  "head_pos iwm = (if iwm_track iwm = iwm_cur_track iwm \<and> iwm_side iwm = iwm_drive iwm
                   then unat (iwm_nib_pos iwm) else 0)"

definition data_mode :: "mac_iwm \<Rightarrow> bool" where
  "data_mode iwm \<longleftrightarrow> iwm_motor_on iwm \<and> iwm_disk_present iwm \<and> iwm_q6 iwm = 0"

text \<open>Address bits 9 to 12 select the line Q7 and its low level.\<close>

definition q7l :: "u32 \<Rightarrow> bool" where
  "q7l addr \<longleftrightarrow> drop_bit 9 addr AND 0xF = 14"

lemma read_q7l:
  "q7l addr \<Longrightarrow> iwm_q6 iwm = 0 \<Longrightarrow> iwm_read iwm addr = iwm_data (iwm\<lparr>iwm_q7 := 0\<rparr>)"
  by (simp add: iwm_read_def iwm_access_def q7l_def Let_def)

lemma one_nibble:
  assumes inv: "iwm_inv iwm" and m: "data_mode iwm" and a: "q7l addr"
  shows "fst (iwm_read iwm addr) = head_stream iwm ! head_pos iwm"
    and "head_stream (snd (iwm_read iwm addr)) = head_stream iwm"
    and "head_pos (snd (iwm_read iwm addr)) = (head_pos iwm + 1) mod length (head_stream iwm)"
    and "data_mode (snd (iwm_read iwm addr))"
    and "head_pos iwm < length (head_stream iwm)"
proof -
  have t: "nat (iwm_cur_track iwm) < 80" "nat (iwm_drive iwm) < 2" and ok: "image_ok (iwm_disk iwm) (iwm_disk_size iwm)"
    and z: "0 \<le> iwm_cur_track iwm" "iwm_cur_track iwm < 80" "0 \<le> iwm_drive iwm" "iwm_drive iwm < 2"
    using inv by (auto simp: iwm_inv_def)
  note L = length_track_stream_bounds [OF ok t, folded head_stream_def]
  define i where "i = (if iwm_track iwm \<noteq> iwm_cur_track iwm \<or> iwm_side iwm \<noteq> iwm_drive iwm
      then build_track (iwm\<lparr>iwm_q7 := 0\<rparr>) (iwm_cur_track iwm) (iwm_drive iwm) else iwm\<lparr>iwm_q7 := 0\<rparr>)"
  have "holds_track (iwm\<lparr>iwm_q7 := 0\<rparr>) = holds_track iwm" by (rule holds_track_cong; simp)
  hence h: "holds_track i"
    using inv m z holds_build_track [of "iwm\<lparr>iwm_q7 := 0\<rparr>", OF _ z] ok
    by (auto simp: i_def iwm_inv_def data_mode_def)
  have f: "iwm_track i = iwm_cur_track iwm" "iwm_side i = iwm_drive iwm" "iwm_disk i = iwm_disk iwm"
    "iwm_disk_size i = iwm_disk_size iwm" "iwm_cur_track i = iwm_cur_track iwm" "iwm_drive i = iwm_drive iwm"
    "unat (iwm_nib_pos i) = head_pos iwm" "iwm_motor_on i = iwm_motor_on iwm"
    "iwm_disk_present i = iwm_disk_present iwm" "iwm_q6 i = iwm_q6 iwm"
    by (auto simp: i_def head_pos_def build_track_def Let_def)
  have len: "unat (iwm_track_len i) = length (head_stream iwm)"
    and buf: "\<And>k. k < length (head_stream iwm) \<Longrightarrow> iwm_trackbuf i k = head_stream iwm ! k"
    using h by (simp_all add: holds_track_def Let_def f head_stream_def)
  have "iwm_track_len i \<noteq> 0" using len L(1) by auto
  hence r: "iwm_read iwm addr = (iwm_trackbuf i (unat (iwm_nib_pos i)),
      i\<lparr>iwm_nib_pos := (iwm_nib_pos i + 1) mod iwm_track_len i, iwm_dbg_data_reads := iwm_dbg_data_reads i + 1\<rparr>)"
  proof -
    have d: "(if iwm_track (iwm\<lparr>iwm_q7 := 0\<rparr>) \<noteq> iwm_cur_track (iwm\<lparr>iwm_q7 := 0\<rparr>) \<or>
          iwm_side (iwm\<lparr>iwm_q7 := 0\<rparr>) \<noteq> iwm_drive (iwm\<lparr>iwm_q7 := 0\<rparr>)
        then build_track (iwm\<lparr>iwm_q7 := 0\<rparr>) (iwm_cur_track (iwm\<lparr>iwm_q7 := 0\<rparr>)) (iwm_drive (iwm\<lparr>iwm_q7 := 0\<rparr>))
        else iwm\<lparr>iwm_q7 := 0\<rparr>) = i" by (simp add: i_def)
    have q: "iwm_q6 iwm = 0" "iwm_motor_on iwm" "iwm_disk_present iwm" using m by (auto simp: data_mode_def)
    show ?thesis unfolding read_q7l [OF a q(1)] iwm_data_def d
      using q \<open>iwm_track_len i \<noteq> 0\<close> by (simp add: Let_def)
  qed
  show p: "head_pos iwm < length (head_stream iwm)"
  proof (cases "iwm_track iwm = iwm_cur_track iwm \<and> iwm_side iwm = iwm_drive iwm")
    case True
    hence "i = iwm\<lparr>iwm_q7 := 0\<rparr>" by (simp add: i_def)
    thus ?thesis using inv len \<open>iwm_track_len i \<noteq> 0\<close> True
      by (simp add: iwm_inv_def head_pos_def word_less_nat_alt)
  next
    case False thus ?thesis using L(1) by (auto simp: head_pos_def)
  qed
  show "fst (iwm_read iwm addr) = head_stream iwm ! head_pos iwm" using buf [OF p] by (simp add: r f)
  show "head_stream (snd (iwm_read iwm addr)) = head_stream iwm" by (simp add: r f head_stream_def)
  show "data_mode (snd (iwm_read iwm addr))" using m by (simp add: r f data_mode_def)
  have "unat (iwm_nib_pos i + 1) = head_pos iwm + 1"
    using p L(2) by (simp add: unat_word_ariths f)
  thus "head_pos (snd (iwm_read iwm addr)) = (head_pos iwm + 1) mod length (head_stream iwm)"
    by (simp add: r head_pos_def [of "_\<lparr>iwm_nib_pos := _, iwm_dbg_data_reads := _\<rparr>"] f unat_mod_distrib len)
qed

text \<open>C11: With the motor on and a disk in the drive, any number of reads of the data register
  returns the consecutive nibbles of the track under the head, starting at the head position
  and wrapping around at the end of the track.\<close>

theorem iwm_streams_track:
  assumes "iwm_inv iwm" "data_mode iwm" "q7l addr"
  shows "fst (iwm_read_n n addr iwm) =
     map (\<lambda>k. head_stream iwm ! ((head_pos iwm + k) mod length (head_stream iwm))) [0..<n]"
  using assms
proof (induction n arbitrary: iwm)
  case (Suc n)
  note o = one_nibble [OF Suc.prems]
  have "head_pos iwm mod length (head_stream iwm) = head_pos iwm"
    using o(5) by simp
  have IH: "fst (iwm_read_n n addr (snd (iwm_read iwm addr))) =
     map (\<lambda>k. head_stream iwm ! ((head_pos iwm + 1 + k) mod length (head_stream iwm))) [0..<n]"
    using Suc.IH [OF inv_read [OF Suc.prems(1)] o(4) Suc.prems(3)] by (simp add: o(2,3) mod_simps)
  have "[0..<Suc n] = 0 # map Suc [0..<n]" by (simp add: map_Suc_upt upt_conv_Cons)
  thus ?case using IH o(1,5) by (simp add: case_prod_beta Let_def)
qed simp

theorem iwm_streams_track_witness:
  "let iwm = (iwm_insert iwm_init (replicate 1024 9) False)\<lparr>iwm_motor_on := True\<rparr> in
   iwm_inv iwm \<and> data_mode iwm \<and> q7l 0xC01C00 \<and> fst (iwm_read_n 2 0xC01C00 iwm) = [0xFF, 0xFF]"
proof -
  define iwm where "iwm = (iwm_insert iwm_init (replicate 1024 9) False)\<lparr>iwm_motor_on := True\<rparr>"
  have "iwm_inv (iwm_insert iwm_init (replicate 1024 9) False)" by (rule inv_insert [OF inv_init]) simp
  hence i: "iwm_inv iwm" by (simp add: iwm_def iwm_inv_def iwm_insert_def)
  have d: "data_mode iwm" by (simp add: iwm_def data_mode_def iwm_insert_def iwm_init_def)
  have q: "q7l 0xC01C00" by (simp add: q7l_def)
  have t: "head_pos iwm = 0" "nat (iwm_cur_track iwm) = 0" "nat (iwm_drive iwm) = 0"
    "image_ok (iwm_disk iwm) (iwm_disk_size iwm)"
    using i by (simp_all add: iwm_def head_pos_def iwm_insert_def iwm_init_def iwm_inv_def)
  have l: "length (head_stream iwm) = 9156"
    using length_track_stream [OF t(4), of 0 0] by (simp add: head_stream_def t sectors_in_track_def)
  have "head_stream iwm ! 0 = 0xFF" "head_stream iwm ! 1 = 0xFF"
    by (simp_all add: head_stream_def t track_stream_def sectors_in_track_def upt_conv_Cons build_sector_def
        Let_def nth_append)
  hence "fst (iwm_read_n 2 0xC01C00 iwm) = [0xFF, 0xFF]"
    using iwm_streams_track [OF i d q, of 2] by (simp add: t l upt_conv_Cons)
  thus ?thesis using i d q by (simp add: iwm_def)
qed

end
