(* ===== verification/Scsi.thy ===== *)
theory Scsi
  imports Prelude
begin

text \<open>
  The NCR 5380 controller with its disk targets, core/mac_scsi.c: selection, the
  command bytes, the command set, and the data, status and message phases as the
  guest drives them through the eight registers. The data pointer of the C structure
  is a place: a target's image from a byte offset, a target's inquiry block, the reply
  buffer, or NULL.
\<close>

subsection \<open>State (mac_scsi.h)\<close>

record scsi_target =
  tg_present :: bool
  tg_write_protect :: bool
  tg_image :: "u8 list"
  tg_bytes :: u32
  tg_blocks :: u32
  tg_inquiry :: "u8 list"

datatype scsi_place = NoData | ReplyBuf | Inquiry nat | ImageAt nat u32

record mac_scsi =
  scsi_odr :: u8
  scsi_icr :: u8
  scsi_mr :: u8
  scsi_tcr :: u8
  scsi_ser :: u8
  scsi_phase :: u8
  scsi_target_id :: int
  scsi_cdb :: "nat \<Rightarrow> u8"
  scsi_cdb_len :: u8
  scsi_cdb_pos :: u8
  scsi_data :: scsi_place
  scsi_data_len :: u32
  scsi_data_pos :: u32
  scsi_data_to_initiator :: bool
  scsi_status :: u8
  scsi_message :: u8
  scsi_reply_buf :: "nat \<Rightarrow> u8"
  scsi_targets :: "nat \<Rightarrow> scsi_target"

definition MAC_SCSI_NUM_TARGETS :: nat where "MAC_SCSI_NUM_TARGETS = 7"

definition PH_BUS_FREE :: u8 where "PH_BUS_FREE = 0"
definition PH_ARBITRATION :: u8 where "PH_ARBITRATION = 1"
definition PH_SELECTION :: u8 where "PH_SELECTION = 2"
definition PH_COMMAND :: u8 where "PH_COMMAND = 3"
definition PH_DATA_IN :: u8 where "PH_DATA_IN = 4"
definition PH_DATA_OUT :: u8 where "PH_DATA_OUT = 5"
definition PH_STATUS :: u8 where "PH_STATUS = 6"
definition PH_MSG_IN :: u8 where "PH_MSG_IN = 7"
definition PH_MSG_OUT :: u8 where "PH_MSG_OUT = 8"

lemmas scsi_phases = PH_BUS_FREE_def PH_ARBITRATION_def PH_SELECTION_def PH_COMMAND_def PH_DATA_IN_def
  PH_DATA_OUT_def PH_STATUS_def PH_MSG_IN_def PH_MSG_OUT_def

definition no_target :: scsi_target where
  "no_target = \<lparr>tg_present = False, tg_write_protect = False, tg_image = [], tg_bytes = 0, tg_blocks = 0,
     tg_inquiry = replicate 36 0\<rparr>"

definition mac_scsi_init :: mac_scsi where
  "mac_scsi_init = \<lparr>scsi_odr = 0, scsi_icr = 0, scsi_mr = 0, scsi_tcr = 0, scsi_ser = 0,
     scsi_phase = PH_BUS_FREE, scsi_target_id = -1, scsi_cdb = (\<lambda>_. 0), scsi_cdb_len = 0, scsi_cdb_pos = 0,
     scsi_data = NoData, scsi_data_len = 0, scsi_data_pos = 0, scsi_data_to_initiator = False,
     scsi_status = 0, scsi_message = 0, scsi_reply_buf = (\<lambda>_. 0), scsi_targets = (\<lambda>_. no_target)\<rparr>"

text \<open>The inquiry template: a direct access device, vendor MAC68K, product HD Image, revision 1.0.\<close>

definition inq_template :: "u8 list" where
  "inq_template = [0x00, 0x00, 0x02, 0x02, 31, 0x00, 0x00, 0x00]
     @ map (\<lambda>c. word_of_nat (of_char c)) (''MAC68K  '' @ ''HD Image        '' @ ''1.0 '')"

definition mac_scsi_attach_disk :: "mac_scsi \<Rightarrow> int \<Rightarrow> u8 list \<Rightarrow> u32 \<Rightarrow> bool \<Rightarrow> bool \<times> mac_scsi" where
  "mac_scsi_attach_disk s tid img len write_protect =
     (if tid < 0 \<or> tid \<ge> int MAC_SCSI_NUM_TARGETS then (False, s)
      else if tg_present (scsi_targets s (nat tid)) then (False, s)
      else if len = 0 \<or> len AND 0x1FF \<noteq> 0 then (False, s)
      else (True, s\<lparr>scsi_targets := (scsi_targets s)(nat tid :=
             \<lparr>tg_present = True, tg_write_protect = write_protect, tg_image = img, tg_bytes = len,
              tg_blocks = len div 512, tg_inquiry = inq_template\<rparr>)\<rparr>))"

subsection \<open>Phases\<close>

definition scsi_set_data_in :: "scsi_place \<Rightarrow> u32 \<Rightarrow> mac_scsi \<Rightarrow> mac_scsi" where
  "scsi_set_data_in buf len s =
     s\<lparr>scsi_phase := PH_DATA_IN, scsi_data := buf, scsi_data_len := len, scsi_data_pos := 0,
       scsi_data_to_initiator := True, scsi_tcr := 0x04\<rparr>"

definition scsi_set_data_out :: "scsi_place \<Rightarrow> u32 \<Rightarrow> mac_scsi \<Rightarrow> mac_scsi" where
  "scsi_set_data_out buf len s =
     s\<lparr>scsi_phase := PH_DATA_OUT, scsi_data := buf, scsi_data_len := len, scsi_data_pos := 0,
       scsi_data_to_initiator := False, scsi_tcr := 0\<rparr>"

definition scsi_finish :: "u8 \<Rightarrow> mac_scsi \<Rightarrow> mac_scsi" where
  "scsi_finish status s =
     s\<lparr>scsi_status := status, scsi_message := 0, scsi_phase := PH_STATUS, scsi_tcr := 0x08 OR 0x04\<rparr>"

subsection \<open>Commands\<close>

definition cdb_lba6 :: "(nat \<Rightarrow> u8) \<Rightarrow> u32" where
  "cdb_lba6 c = push_bit 16 (ucast (c 1 AND 0x1F)) OR push_bit 8 (ucast (c 2)) OR ucast (c 3)"

definition cdb_len6 :: "(nat \<Rightarrow> u8) \<Rightarrow> u32" where
  "cdb_len6 c = (if c 4 \<noteq> 0 then ucast (c 4) else 256)"

definition cdb_lba10 :: "(nat \<Rightarrow> u8) \<Rightarrow> u32" where
  "cdb_lba10 c = push_bit 24 (ucast (c 2)) OR push_bit 16 (ucast (c 3)) OR push_bit 8 (ucast (c 4)) OR ucast (c 5)"

definition cdb_len10 :: "(nat \<Rightarrow> u8) \<Rightarrow> u32" where
  "cdb_len10 c = push_bit 8 (ucast (c 7)) OR ucast (c 8)"

definition scsi_execute :: "mac_scsi \<Rightarrow> mac_scsi" where
  "scsi_execute s =
     (let tid = nat (scsi_target_id s); t = scsi_targets s tid in
      if \<not> (0 \<le> scsi_target_id s \<and> scsi_target_id s < int MAC_SCSI_NUM_TARGETS) \<or> \<not> tg_present t
      then scsi_finish 0x02 s
      else
        (let op = scsi_cdb s 0 in
         if op = 0x00 then scsi_finish 0x00 s
         else if op = 0x03 then
           scsi_set_data_in ReplyBuf 18
             (s\<lparr>scsi_reply_buf := (\<lambda>i. if i < 18 then 0 else scsi_reply_buf s i)(0 := 0x70, 7 := 10)\<rparr>)
         else if op = 0x08 then
           (let lba = cdb_lba6 (scsi_cdb s); n = cdb_len6 (scsi_cdb s) in
            if (ucast lba :: u64) + ucast n > ucast (tg_blocks t) then scsi_finish 0x02 s
            else scsi_set_data_in (ImageAt tid (lba * 512)) (n * 512) s)
         else if op = 0x0A then
           (let lba = cdb_lba6 (scsi_cdb s); n = cdb_len6 (scsi_cdb s) in
            if (ucast lba :: u64) + ucast n > ucast (tg_blocks t) then scsi_finish 0x02 s
            else if tg_write_protect t then scsi_finish 0x02 s
            else scsi_set_data_out (ImageAt tid (lba * 512)) (n * 512) s)
         else if op = 0x12 then scsi_set_data_in (Inquiry tid) 36 s
         else if op = 0x15 then scsi_finish 0x00 s
         else if op = 0x1A then
           scsi_set_data_in ReplyBuf 4
             (s\<lparr>scsi_reply_buf := (\<lambda>i. if i < 4 then 0 else scsi_reply_buf s i)(0 := 3)\<rparr>)
         else if op = 0x1B \<or> op = 0x1E \<or> op = 0x35 then scsi_finish 0x00 s
         else if op = 0x25 then
           (let last = tg_blocks t - 1 in
            scsi_set_data_in ReplyBuf 8
              (s\<lparr>scsi_reply_buf := (scsi_reply_buf s)(0 := ucast (drop_bit 24 last), 1 := ucast (drop_bit 16 last),
                 2 := ucast (drop_bit 8 last), 3 := ucast last, 4 := 0, 5 := 0, 6 := 2, 7 := 0)\<rparr>))
         else if op = 0x28 then
           (let lba = cdb_lba10 (scsi_cdb s); n = cdb_len10 (scsi_cdb s) in
            if n = 0 then scsi_finish 0x00 s
            else if (ucast lba :: u64) + ucast n > ucast (tg_blocks t) then scsi_finish 0x02 s
            else scsi_set_data_in (ImageAt tid (lba * 512)) (n * 512) s)
         else if op = 0x2A then
           (let lba = cdb_lba10 (scsi_cdb s); n = cdb_len10 (scsi_cdb s) in
            if n = 0 then scsi_finish 0x00 s
            else if (ucast lba :: u64) + ucast n > ucast (tg_blocks t) then scsi_finish 0x02 s
            else if tg_write_protect t then scsi_finish 0x02 s
            else scsi_set_data_out (ImageAt tid (lba * 512)) (n * 512) s)
         else scsi_finish 0x02 s))"

subsection \<open>Selection and command bytes\<close>

text \<open>The loop over the target numbers 0 to 6 keeps the first match.\<close>

definition scsi_find_target :: "mac_scsi \<Rightarrow> nat option" where
  "scsi_find_target s =
     List.find (\<lambda>tid. scsi_odr s AND push_bit tid 1 \<noteq> 0 \<and> tg_present (scsi_targets s tid)) [0..<MAC_SCSI_NUM_TARGETS]"

definition scsi_select :: "mac_scsi \<Rightarrow> mac_scsi" where
  "scsi_select s =
     (case scsi_find_target s of
        None \<Rightarrow> s\<lparr>scsi_phase := PH_BUS_FREE, scsi_target_id := -1\<rparr>
      | Some sel \<Rightarrow> s\<lparr>scsi_target_id := int sel, scsi_phase := PH_COMMAND, scsi_tcr := 0x08,
                      scsi_cdb_pos := 0, scsi_cdb_len := 0\<rparr>)"

definition cdb_length_for :: "u8 \<Rightarrow> u8" where
  "cdb_length_for op =
     (let grp = drop_bit 5 op AND 7 in
      if grp = 0 then 6 else if grp = 1 \<or> grp = 2 then 10 else if grp = 5 then 12 else 6)"

definition scsi_recv_cdb_byte :: "u8 \<Rightarrow> mac_scsi \<Rightarrow> mac_scsi" where
  "scsi_recv_cdb_byte v s =
     (let s = (if scsi_cdb_pos s < 12
               then s\<lparr>scsi_cdb := (scsi_cdb s)(unat (scsi_cdb_pos s) := v), scsi_cdb_pos := scsi_cdb_pos s + 1\<rparr>
               else s);
          s = (if scsi_cdb_pos s = 1 then s\<lparr>scsi_cdb_len := cdb_length_for v\<rparr> else s)
      in if scsi_cdb_pos s \<ge> scsi_cdb_len s then scsi_execute s else s)"

subsection \<open>Registers\<close>

definition scsi_bus_status :: "mac_scsi \<Rightarrow> u8" where
  "scsi_bus_status s =
     (if scsi_phase s = PH_COMMAND then 0x40 OR 0x08 OR 0x20
      else if scsi_phase s = PH_DATA_IN then 0x40 OR 0x04 OR 0x20
      else if scsi_phase s = PH_DATA_OUT then 0x40 OR 0x20
      else if scsi_phase s = PH_STATUS then 0x40 OR 0x08 OR 0x04 OR 0x20
      else if scsi_phase s = PH_MSG_IN then 0x40 OR 0x08 OR 0x04 OR 0x10 OR 0x20
      else 0)"

text \<open>\<open>s->data[pos]\<close>, read and written.\<close>

definition scsi_data_get :: "mac_scsi \<Rightarrow> u32 \<Rightarrow> u8" where
  "scsi_data_get s pos =
     (case scsi_data s of
        NoData \<Rightarrow> 0
      | ReplyBuf \<Rightarrow> scsi_reply_buf s (unat pos)
      | Inquiry tid \<Rightarrow> tg_inquiry (scsi_targets s tid) ! unat pos
      | ImageAt tid off \<Rightarrow> tg_image (scsi_targets s tid) ! (unat off + unat pos))"

definition scsi_data_put :: "u32 \<Rightarrow> u8 \<Rightarrow> mac_scsi \<Rightarrow> mac_scsi" where
  "scsi_data_put pos v s =
     (case scsi_data s of
        NoData \<Rightarrow> s
      | ReplyBuf \<Rightarrow> s\<lparr>scsi_reply_buf := (scsi_reply_buf s)(unat pos := v)\<rparr>
      | Inquiry tid \<Rightarrow> s\<lparr>scsi_targets := (scsi_targets s)(tid := (scsi_targets s tid)
           \<lparr>tg_inquiry := (tg_inquiry (scsi_targets s tid))[unat pos := v]\<rparr>)\<rparr>
      | ImageAt tid off \<Rightarrow> s\<lparr>scsi_targets := (scsi_targets s)(tid := (scsi_targets s tid)
           \<lparr>tg_image := (tg_image (scsi_targets s tid))[unat off + unat pos := v]\<rparr>)\<rparr>)"

definition scsi_current_data :: "mac_scsi \<Rightarrow> u8 \<times> mac_scsi" where
  "scsi_current_data s =
     (if scsi_phase s = PH_DATA_IN \<and> scsi_data s \<noteq> NoData \<and> scsi_data_pos s < scsi_data_len s then
        (let v = scsi_data_get s (scsi_data_pos s);
             s = s\<lparr>scsi_data_pos := scsi_data_pos s + 1\<rparr>
         in (v, if scsi_data_pos s \<ge> scsi_data_len s then scsi_finish 0x00 s else s))
      else if scsi_phase s = PH_STATUS then (scsi_status s, s\<lparr>scsi_phase := PH_MSG_IN\<rparr>)
      else if scsi_phase s = PH_MSG_IN then
        (scsi_message s, s\<lparr>scsi_phase := PH_BUS_FREE, scsi_target_id := -1, scsi_tcr := 0\<rparr>)
      else (0, s))"

definition mac_scsi_reg_read :: "mac_scsi \<Rightarrow> u32 \<Rightarrow> u8 \<times> mac_scsi" where
  "mac_scsi_reg_read s reg =
     (let r = reg AND 7 in
      if r = 0 then scsi_current_data s
      else if r = 1 then (scsi_icr s, s)
      else if r = 2 then (scsi_mr s, s)
      else if r = 3 then (scsi_tcr s, s)
      else if r = 4 then (scsi_bus_status s, s)
      else if r = 5 then (if scsi_phase s \<noteq> PH_BUS_FREE then 0x08 else 0, s)
      else if r = 6 then scsi_current_data s
      else (0, s))"

definition mac_scsi_reg_write :: "mac_scsi \<Rightarrow> u32 \<Rightarrow> u8 \<Rightarrow> mac_scsi" where
  "mac_scsi_reg_write s reg val =
     (let r = reg AND 7 in
      if r = 0 then
        (let s = s\<lparr>scsi_odr := val\<rparr> in
         if scsi_phase s = PH_DATA_OUT \<and> scsi_data s \<noteq> NoData \<and> scsi_data_pos s < scsi_data_len s then
           (let s = scsi_data_put (scsi_data_pos s) val s; s = s\<lparr>scsi_data_pos := scsi_data_pos s + 1\<rparr>
            in if scsi_data_pos s \<ge> scsi_data_len s then scsi_finish 0x00 s else s)
         else if scsi_phase s = PH_COMMAND then scsi_recv_cdb_byte val s
         else s)
      else if r = 1 then
        (let old = scsi_icr s; s = s\<lparr>scsi_icr := val\<rparr>;
             s = (if val AND 0x04 \<noteq> 0 \<and> old AND 0x04 = 0 \<and> val AND 0x08 = 0
                  then scsi_select (s\<lparr>scsi_phase := PH_SELECTION\<rparr>) else s)
         in if val AND 0x80 \<noteq> 0
            then s\<lparr>scsi_phase := PH_BUS_FREE, scsi_target_id := -1, scsi_tcr := 0\<rparr> else s)
      else if r = 2 then s\<lparr>scsi_mr := val\<rparr>
      else if r = 3 then s\<lparr>scsi_tcr := val\<rparr>
      else if r = 4 then s\<lparr>scsi_ser := val\<rparr>
      else s)"

subsection \<open>Invariant\<close>

definition target_ok :: "scsi_target \<Rightarrow> bool" where
  "target_ok t \<longleftrightarrow> tg_present t \<longrightarrow>
     unat (tg_bytes t) = length (tg_image t) \<and> tg_blocks t = tg_bytes t div 512 \<and>
     512 dvd length (tg_image t) \<and> length (tg_inquiry t) = 36"

definition window_fits :: "(nat \<Rightarrow> scsi_target) \<Rightarrow> scsi_place \<Rightarrow> u32 \<Rightarrow> bool" where
  "window_fits ts p len \<longleftrightarrow>
     (case p of
        NoData \<Rightarrow> True
      | ReplyBuf \<Rightarrow> unat len \<le> 64
      | Inquiry tid \<Rightarrow> tg_present (ts tid) \<and> unat len \<le> 36
      | ImageAt tid off \<Rightarrow> tg_present (ts tid) \<and> unat off + unat len \<le> length (tg_image (ts tid)))"

definition scsi_inv :: "mac_scsi \<Rightarrow> bool" where
  "scsi_inv s \<longleftrightarrow> (\<forall>tid. target_ok (scsi_targets s tid)) \<and> window_fits (scsi_targets s) (scsi_data s) (scsi_data_len s) \<and> scsi_cdb_pos s \<le> 12"

lemma scsi_inv_init: "scsi_inv mac_scsi_init"
  by (simp add: scsi_inv_def target_ok_def window_fits_def mac_scsi_init_def no_target_def)

lemma inv_finish [inv_intros]: "scsi_inv s \<Longrightarrow> scsi_inv (scsi_finish st s)"
  by (simp add: scsi_inv_def scsi_finish_def)

lemma inv_set_data [inv_intros]:
  assumes "scsi_inv s" "window_fits (scsi_targets s) p len"
  shows "scsi_inv (scsi_set_data_in p len s)" "scsi_inv (scsi_set_data_out p len s)"
  using assms by (simp_all add: scsi_inv_def scsi_set_data_in_def scsi_set_data_out_def)

lemma inv_if: "(c \<Longrightarrow> scsi_inv a) \<Longrightarrow> (\<not> c \<Longrightarrow> scsi_inv b) \<Longrightarrow> scsi_inv (if c then a else b)"
  by simp

lemma inv_reply [inv_intros]: "scsi_inv s \<Longrightarrow> scsi_inv (s\<lparr>scsi_reply_buf := b\<rparr>)"
  by (simp add: scsi_inv_def)

lemma block_window:
  fixes lba n :: u32
  assumes "target_ok t" "tg_present t" "\<not> (ucast lba :: u64) + ucast n > ucast (tg_blocks t)"
  shows "unat lba + unat n \<le> unat (tg_blocks t)" "unat (lba * 512) = unat lba * 512"
    "unat (n * 512) = unat n * 512" "unat (lba * 512) + unat (n * 512) \<le> length (tg_image t)"
proof -
  have l: "unat lba < 2 ^ 32" "unat n < 2 ^ 32" using unat_bound [of lba] unat_bound [of n] by simp_all
  have "unat ((ucast lba :: u64) + ucast n) = unat lba + unat n"
    using l by (simp add: unat_word_ariths unsigned_ucast_eq take_bit_eq_mod)
  moreover have "unat (ucast (tg_blocks t) :: u64) = unat (tg_blocks t)"
    using unat_bound [of "tg_blocks t"] by (simp add: unsigned_ucast_eq take_bit_eq_mod)
  ultimately show b: "unat lba + unat n \<le> unat (tg_blocks t)" using assms(3) by (simp add: word_less_nat_alt)
  have "unat (tg_blocks t) = length (tg_image t) div 512" using assms by (simp add: target_ok_def unat_div_distrib)
  hence k: "unat lba * 512 + unat n * 512 \<le> length (tg_image t)" using b by simp
  have "length (tg_image t) < 2 ^ 32" using assms unat_bound [of "tg_bytes t"] by (simp add: target_ok_def)
  hence "unat lba * 512 < 2 ^ 32" "unat n * 512 < 2 ^ 32" using k by linarith+
  thus "unat (lba * 512) = unat lba * 512" "unat (n * 512) = unat n * 512" by (simp_all add: unat_word_ariths)
  thus "unat (lba * 512) + unat (n * 512) \<le> length (tg_image t)" using k by simp
qed

lemma inv_execute [inv_intros]: assumes "scsi_inv s" shows "scsi_inv (scsi_execute s)"
proof (cases "tg_present (scsi_targets s (nat (scsi_target_id s)))")
  case True
  have ok: "target_ok (scsi_targets s (nat (scsi_target_id s)))" using assms by (simp add: scsi_inv_def)
  have w: "scsi_inv (scsi_set_data_in (ImageAt (nat (scsi_target_id s)) (lba * 512)) (n * 512) s)"
      "scsi_inv (scsi_set_data_out (ImageAt (nat (scsi_target_id s)) (lba * 512)) (n * 512) s)"
    if "\<not> (ucast lba :: u64) + ucast n > ucast (tg_blocks (scsi_targets s (nat (scsi_target_id s))))" for lba n
    using inv_set_data [OF assms, of "ImageAt (nat (scsi_target_id s)) (lba * 512)" "n * 512"]
      block_window [OF ok True that] True by (simp_all add: window_fits_def)
  have r: "scsi_inv (scsi_set_data_in ReplyBuf 18 (s\<lparr>scsi_reply_buf := b\<rparr>))"
    "scsi_inv (scsi_set_data_in ReplyBuf 4 (s\<lparr>scsi_reply_buf := b\<rparr>))"
    "scsi_inv (scsi_set_data_in ReplyBuf 8 (s\<lparr>scsi_reply_buf := b\<rparr>))" for b
    by (intro inv_set_data(1) inv_reply assms; simp add: window_fits_def)+
  have i: "scsi_inv (scsi_set_data_in (Inquiry (nat (scsi_target_id s))) 36 s)"
    using inv_set_data(1) [OF assms, of "Inquiry (nat (scsi_target_id s))" 36] True by (simp add: window_fits_def)
  note f = inv_finish [OF assms]
  show ?thesis unfolding scsi_execute_def Let_def by (intro inv_if f r i w; assumption)
next
  case False
  thus ?thesis using inv_finish [OF assms] by (simp add: scsi_execute_def Let_def)
qed

lemma inv_select [inv_intros]: "scsi_inv s \<Longrightarrow> scsi_inv (scsi_select s)"
  by (simp add: scsi_select_def scsi_inv_def split: option.split)

lemma inv_recv_cdb [inv_intros]: assumes "scsi_inv s" shows "scsi_inv (scsi_recv_cdb_byte v s)"
proof -
  have u: "scsi_inv (s\<lparr>scsi_cdb := c, scsi_cdb_pos := scsi_cdb_pos s + 1\<rparr>)" if "scsi_cdb_pos s < 12" for c
    using assms that by (simp add: scsi_inv_def inc_le)
  have l: "scsi_inv (s\<lparr>scsi_cdb_len := k\<rparr>)" if "scsi_inv s" for s k
    using that by (simp add: scsi_inv_def)
  show ?thesis using assms u l inv_execute by (simp add: scsi_recv_cdb_byte_def Let_def)
qed

lemma inv_put [inv_intros]: "scsi_inv s \<Longrightarrow> scsi_inv (scsi_data_put p v s)"
  by (auto simp: scsi_data_put_def scsi_inv_def target_ok_def window_fits_def split: scsi_place.splits)

lemma inv_minor [inv_intros]:
  "scsi_inv s \<Longrightarrow> scsi_inv (s\<lparr>scsi_odr := v\<rparr>)" "scsi_inv s \<Longrightarrow> scsi_inv (s\<lparr>scsi_icr := v\<rparr>)"
  "scsi_inv s \<Longrightarrow> scsi_inv (s\<lparr>scsi_mr := v\<rparr>)" "scsi_inv s \<Longrightarrow> scsi_inv (s\<lparr>scsi_tcr := v\<rparr>)"
  "scsi_inv s \<Longrightarrow> scsi_inv (s\<lparr>scsi_ser := v\<rparr>)" "scsi_inv s \<Longrightarrow> scsi_inv (s\<lparr>scsi_phase := v\<rparr>)"
  "scsi_inv s \<Longrightarrow> scsi_inv (s\<lparr>scsi_target_id := i\<rparr>)" "scsi_inv s \<Longrightarrow> scsi_inv (s\<lparr>scsi_data_pos := w\<rparr>)"
  by (simp_all add: scsi_inv_def)

lemma inv_current [inv_intros]: assumes "scsi_inv s" shows "scsi_inv (snd (scsi_current_data s))"
  unfolding scsi_current_data_def Let_def if_distrib [of snd] snd_conv
  by (intro inv_if inv_finish inv_minor assms)

lemma inv_attach [inv_intros]:
  assumes "scsi_inv s" "length img = unat len"
  shows "scsi_inv (snd (mac_scsi_attach_disk s i img len wp))"
proof -
  have "512 dvd length img" if "len AND 0x1FF = 0"
  proof -
    have "take_bit 9 len = 0" using that by (simp add: take_bit_eq_mask mask_eq_exp_minus_1)
    hence "unat len mod 512 = 0" using unsigned_take_bit_eq [of 9 len, where 'a = nat] by (simp add: take_bit_eq_mod)
    thus ?thesis using assms(2) by (simp add: mod_eq_0_iff_dvd)
  qed
  moreover have "length inq_template = 36" by (simp add: inq_template_def)
  ultimately show ?thesis using assms
    by (auto simp: mac_scsi_attach_disk_def scsi_inv_def target_ok_def window_fits_def split: scsi_place.splits)
qed

lemma scsi_inv_step:
  assumes "scsi_inv s"
  shows "scsi_inv (snd (mac_scsi_reg_read s reg))" "scsi_inv (mac_scsi_reg_write s reg v)"
proof -
  show "scsi_inv (snd (mac_scsi_reg_read s reg))"
    using inv_current [OF assms] assms by (simp add: mac_scsi_reg_read_def Let_def)
  show "scsi_inv (mac_scsi_reg_write s reg v)" unfolding mac_scsi_reg_write_def Let_def
    by (intro inv_if inv_intros assms)
qed

text \<open>C12: No register access, and no attached image, breaks the controller's memory safety: the
  data window always lies inside the image, the inquiry block or the reply buffer it points
  into, the number of command bytes stored never exceeds the twelve the buffer holds, and a
  present target's block count matches its image.\<close>

theorem scsi_inv_preserved:
  assumes "scsi_inv s"
  shows "scsi_inv (snd (mac_scsi_reg_read s reg)) \<and> scsi_inv (mac_scsi_reg_write s reg v) \<and>
    (length img = unat len \<longrightarrow> scsi_inv (snd (mac_scsi_attach_disk s i img len wp)))"
  using scsi_inv_step [OF assms] inv_attach [OF assms] by blast

theorem scsi_inv_preserved_witness:
  "scsi_inv (mac_scsi_reg_write mac_scsi_init 1 0x04) \<and>
   scsi_inv (snd (mac_scsi_attach_disk mac_scsi_init 0 (replicate 1024 0) 1024 False))"
  using scsi_inv_preserved [OF scsi_inv_init, of 1 "0x04" "replicate 1024 0" 1024 0 False] by simp

subsection \<open>Transactions of the guest\<close>

text \<open>The guest drives a transaction through the data and control registers: selection, the
  command bytes, the data bytes, then the status and the message byte.\<close>

definition scsi_put :: "u8 list \<Rightarrow> mac_scsi \<Rightarrow> mac_scsi" where
  "scsi_put vs s = fold (\<lambda>v s. mac_scsi_reg_write s 0 v) vs s"

fun scsi_get :: "nat \<Rightarrow> mac_scsi \<Rightarrow> u8 list \<times> mac_scsi" where
  "scsi_get 0 s = ([], s)"
| "scsi_get (Suc n) s = (let (v, s) = mac_scsi_reg_read s 0; (vs, s) = scsi_get n s in (v # vs, s))"

definition scsi_begin :: "nat \<Rightarrow> mac_scsi \<Rightarrow> mac_scsi" where
  "scsi_begin tid s =
     mac_scsi_reg_write (mac_scsi_reg_write (mac_scsi_reg_write s 1 0) 0 (push_bit tid 1)) 1 0x04"

definition cdb10 :: "u8 \<Rightarrow> u32 \<Rightarrow> u32 \<Rightarrow> u8 list" where
  "cdb10 op lba n = [op, 0, ucast (drop_bit 24 lba), ucast (drop_bit 16 lba), ucast (drop_bit 8 lba), ucast lba,
     0, ucast (drop_bit 8 n), ucast n, 0]"

text \<open>Both return the data read (none for a write), the status byte and the state.\<close>

definition scsi_write10 :: "nat \<Rightarrow> u32 \<Rightarrow> u32 \<Rightarrow> u8 list \<Rightarrow> mac_scsi \<Rightarrow> u8 \<times> mac_scsi" where
  "scsi_write10 tid lba n vs s =
     (let (st, s) = scsi_get 2 (scsi_put vs (scsi_put (cdb10 0x2A lba n) (scsi_begin tid s))) in (hd st, s))"

definition scsi_read10 :: "nat \<Rightarrow> u32 \<Rightarrow> u32 \<Rightarrow> nat \<Rightarrow> mac_scsi \<Rightarrow> u8 list \<times> u8 \<times> mac_scsi" where
  "scsi_read10 tid lba n k s =
     (let (vs, s) = scsi_get k (scsi_put (cdb10 0x28 lba n) (scsi_begin tid s)); (st, s) = scsi_get 2 s
      in (vs, hd st, s))"

definition overwrite :: "'a list \<Rightarrow> nat \<Rightarrow> 'a list \<Rightarrow> 'a list" where
  "overwrite xs k vs = take k xs @ vs @ drop (k + length vs) xs"

lemma overwrite_Nil [simp]: "overwrite xs k [] = xs"
  by (simp add: overwrite_def)

lemma overwrite_Cons:
  "k < length xs \<Longrightarrow> overwrite xs k (v # vs) = overwrite (xs[k := v]) (Suc k) vs"
  by (simp add: overwrite_def take_Suc_conv_app_nth take_update_swap drop_update_cancel list_update_append)

lemma take_drop_overwrite:
  "k + length vs \<le> length xs \<Longrightarrow> take (length vs) (drop k (overwrite xs k vs)) = vs"
  by (simp add: overwrite_def)

lemma length_overwrite [simp]: "k + length vs \<le> length xs \<Longrightarrow> length (overwrite xs k vs) = length xs"
  by (simp add: overwrite_def)

lemma cdb10_fields:
  "cdb_lba10 c = lba" if "c 2 = ucast (drop_bit 24 lba)" "c 3 = ucast (drop_bit 16 lba)"
    "c 4 = ucast (drop_bit 8 lba)" "c 5 = ucast lba" for lba :: u32
  unfolding cdb_lba10_def that
proof (rule bit_word_eqI)
  fix i assume "i < LENGTH(32)"
  then consider "i < 8" | "8 \<le> i" "i < 16" | "16 \<le> i" "i < 24" | "24 \<le> i" "i < 32" by fastforce
  thus "bit (push_bit 24 (ucast (ucast (drop_bit 24 lba) :: u8)) OR push_bit 16 (ucast (ucast (drop_bit 16 lba) :: u8))
       OR push_bit 8 (ucast (ucast (drop_bit 8 lba) :: u8)) OR ucast (ucast lba :: u8) :: u32) i = bit lba i"
    by cases (auto simp: bit_simps less_diff_conv2)
qed

lemma cdb10_len:
  "cdb_len10 c = n" if "c 7 = ucast (drop_bit 8 n)" "c 8 = ucast n" "n < 0x10000" for n :: u32
proof -
  have "unat (take_bit 16 n) = take_bit 16 (unat n)" by (simp only: unsigned_take_bit_eq)
  also have "\<dots> = unat n" using that(3) by (simp add: word_less_nat_alt take_bit_nat_eq_self)
  finally have t: "take_bit 16 n = n" by (simp only: word_unat_eq_iff)
  have "bit n i \<Longrightarrow> i < 16" for i using t bit_take_bit_iff [of 16 n i] by metis
  thus ?thesis unfolding cdb_len10_def that(1,2) by (intro bit_word_eqI) (auto simp: bit_simps not_less less_diff_conv2)
qed

text \<open>Selection.\<close>

definition bus_free :: "mac_scsi \<Rightarrow> bool" where
  "bus_free s \<longleftrightarrow> scsi_phase s = PH_BUS_FREE"

lemma find_one:
  assumes "tid < 7" "tg_present (scsi_targets s tid)" "scsi_odr s = push_bit tid 1"
  shows "scsi_find_target s = Some tid"
proof -
  have f: "scsi_odr s AND push_bit i 1 \<noteq> 0 \<longleftrightarrow> i = tid" if "i < 7" for i
    using assms(1,3) that by (simp only: and_push_bit_1_iff) (auto simp: bit_exp_iff)
  show ?thesis using assms(1,2) f [OF assms(1)] f
    unfolding scsi_find_target_def MAC_SCSI_NUM_TARGETS_def find_Some_iff
    by (intro exI [of _ tid]) auto
qed

lemma begin_state:
  assumes "tid < 7" "tg_present (scsi_targets s tid)" "bus_free s"
  shows "scsi_begin tid s = s\<lparr>scsi_odr := push_bit tid 1, scsi_icr := 0x04, scsi_target_id := int tid,
     scsi_phase := PH_COMMAND, scsi_tcr := 0x08, scsi_cdb_pos := 0, scsi_cdb_len := 0\<rparr>"
  using assms find_one [of tid "s\<lparr>scsi_odr := push_bit tid 1, scsi_icr := 4, scsi_phase := PH_SELECTION\<rparr>"]
  by (simp add: scsi_begin_def mac_scsi_reg_write_def Let_def bus_free_def scsi_select_def scsi_phases)


lemma put_Cons: "scsi_put (v # vs) s = scsi_put vs (mac_scsi_reg_write s 0 v)"
  by (simp add: scsi_put_def)

lemma put_Nil: "scsi_put [] s = s"
  by (simp add: scsi_put_def)

lemma put_command:
  assumes "scsi_phase s = PH_COMMAND" "scsi_cdb_pos s < 12"
  shows "mac_scsi_reg_write s 0 v = scsi_recv_cdb_byte v (s\<lparr>scsi_odr := v\<rparr>)"
  using assms by (simp add: mac_scsi_reg_write_def Let_def scsi_phases)

lemma recv_first:
  assumes "scsi_cdb_pos s = 0" "1 < cdb_length_for v"
  shows "scsi_recv_cdb_byte v s =
    s\<lparr>scsi_cdb := (scsi_cdb s)(0 := v), scsi_cdb_pos := 1, scsi_cdb_len := cdb_length_for v\<rparr>"
  using assms by (simp add: scsi_recv_cdb_byte_def not_le Let_def)

lemma recv_next:
  assumes "scsi_cdb_pos s = p" "0 < p" "p < 11" "p + 1 < scsi_cdb_len s"
  shows "scsi_recv_cdb_byte v s = s\<lparr>scsi_cdb := (scsi_cdb s)(unat p := v), scsi_cdb_pos := p + 1\<rparr>"
proof -
  have "p < 12" "p + 1 \<noteq> 1" using assms(2,3) by (auto simp: word_less_nat_alt)
  thus ?thesis using assms by (simp add: scsi_recv_cdb_byte_def not_le Let_def)
qed

lemma recv_last:
  assumes "scsi_cdb_pos s = p" "0 < p" "p < 11" "p + 1 = scsi_cdb_len s"
  shows "scsi_recv_cdb_byte v s = scsi_execute (s\<lparr>scsi_cdb := (scsi_cdb s)(unat p := v), scsi_cdb_pos := p + 1\<rparr>)"
proof -
  have "p < 12" "p + 1 \<noteq> 1" using assms(2,3) by (auto simp: word_less_nat_alt)
  thus ?thesis using assms by (simp add: scsi_recv_cdb_byte_def)
qed

lemma cdb10_done:
  assumes "scsi_phase s = PH_COMMAND" "scsi_cdb_pos s = 0" "cdb_length_for op = 10"
  shows "\<exists>c. scsi_put (cdb10 op lba n) s =
      scsi_execute (s\<lparr>scsi_odr := 0, scsi_cdb := c, scsi_cdb_pos := 10, scsi_cdb_len := 10\<rparr>) \<and>
      c 0 = op \<and> cdb_lba10 c = lba \<and> (n < 0x10000 \<longrightarrow> cdb_len10 c = n)"
  using assms
  by (intro exI [of _ "(scsi_cdb s)(0 := op, Suc 0 := 0, 2 := ucast (drop_bit 24 lba), 3 := ucast (drop_bit 16 lba),
      4 := ucast (drop_bit 8 lba), 5 := ucast lba, 6 := 0, 7 := ucast (drop_bit 8 n), 8 := ucast n, 9 := 0)"])
    (simp add: cdb10_def put_Cons put_Nil put_command recv_first recv_next recv_last cdb10_fields cdb10_len;
     rule arg_cong [where f = scsi_execute]; simp)

definition set_image :: "nat \<Rightarrow> u8 list \<Rightarrow> (nat \<Rightarrow> scsi_target) \<Rightarrow> nat \<Rightarrow> scsi_target" where
  "set_image tid img ts = ts(tid := (ts tid)\<lparr>tg_image := img\<rparr>)"

lemma set_image_simps [simp]:
  "tg_image (set_image tid img ts tid) = img" "set_image tid a (set_image tid b ts) = set_image tid a ts"
  "tid' \<noteq> tid \<Longrightarrow> set_image tid img ts tid' = ts tid'"
  "tg_present (set_image tid img ts i) = tg_present (ts i)" "tg_blocks (set_image tid img ts i) = tg_blocks (ts i)"
  "tg_bytes (set_image tid img ts i) = tg_bytes (ts i)" "tg_inquiry (set_image tid img ts i) = tg_inquiry (ts i)"
  "tg_write_protect (set_image tid img ts i) = tg_write_protect (ts i)"
  by (simp_all add: set_image_def fun_eq_iff)

lemma data_put_image:
  "scsi_data s = ImageAt tid off \<Longrightarrow> scsi_data_put p v s =
     s\<lparr>scsi_targets := set_image tid ((tg_image (scsi_targets s tid))[unat off + unat p := v]) (scsi_targets s)\<rparr>"
  by (simp add: scsi_data_put_def set_image_def)

lemma put_data:
  assumes "scsi_phase s = PH_DATA_OUT" "scsi_data s = ImageAt tid off"
    "unat (scsi_data_pos s) + length vs = unat (scsi_data_len s)" "vs \<noteq> []"
    "unat off + unat (scsi_data_len s) \<le> length (tg_image (scsi_targets s tid))"
  shows "\<exists>odr. scsi_put vs s = scsi_finish 0 (s\<lparr>scsi_odr := odr,
     scsi_targets := set_image tid (overwrite (tg_image (scsi_targets s tid)) (unat off + unat (scsi_data_pos s)) vs)
       (scsi_targets s), scsi_data_pos := scsi_data_len s\<rparr>)"
  using assms
proof (induction vs arbitrary: s)
  case (Cons v vs)
  have lt: "scsi_data_pos s < scsi_data_len s" using Cons.prems(3) by (simp add: word_less_nat_alt)
  have p1: "unat (scsi_data_pos s + 1) = unat (scsi_data_pos s) + 1"
    using lt unat_bound [of "scsi_data_len s"] by (simp add: unat_word_ariths word_less_nat_alt)
  let ?img = "tg_image (scsi_targets s tid)" and ?k = "unat off + unat (scsi_data_pos s)"
  define s1 where "s1 = s\<lparr>scsi_odr := v, scsi_targets := set_image tid (?img[?k := v]) (scsi_targets s),
     scsi_data_pos := scsi_data_pos s + 1\<rparr>"
  have ne: "unat (scsi_data_len s) \<le> Suc (unat (scsi_data_pos s)) \<longleftrightarrow> vs = []"
    using Cons.prems(3) by (cases vs) auto
  have w: "mac_scsi_reg_write s 0 v = (if vs = [] then scsi_finish 0 s1 else s1)"
    using Cons.prems lt p1 ne
    by (auto simp: mac_scsi_reg_write_def Let_def data_put_image s1_def word_le_nat_alt)
  have k: "?k < length ?img" using Cons.prems(3,5) by simp
  show ?case
  proof (cases "vs = []")
    case True
    have "scsi_data_pos s + 1 = scsi_data_len s" using Cons.prems(3) True p1 by (simp add: word_unat_eq_iff)
    thus ?thesis using True w k by (intro exI [of _ v]) (simp add: put_Cons put_Nil s1_def overwrite_Cons)
  next
    case False
    have "\<exists>odr. scsi_put vs s1 = scsi_finish 0 (s1\<lparr>scsi_odr := odr,
     scsi_targets := set_image tid (overwrite (tg_image (scsi_targets s1 tid)) (unat off + unat (scsi_data_pos s1)) vs)
       (scsi_targets s1), scsi_data_pos := scsi_data_len s1\<rparr>)"
      using Cons.prems False p1 by (intro Cons.IH) (auto simp: s1_def)
    thus ?thesis using w False k p1 by (simp add: put_Cons s1_def overwrite_Cons)
  qed
qed simp

lemma get_data:
  assumes "scsi_phase s = PH_DATA_IN" "scsi_data s = ImageAt tid off"
    "unat (scsi_data_pos s) + n = unat (scsi_data_len s)" "0 < n"
    "unat off + unat (scsi_data_len s) \<le> length (tg_image (scsi_targets s tid))"
  shows "scsi_get n s =
     (take n (drop (unat off + unat (scsi_data_pos s)) (tg_image (scsi_targets s tid))),
      scsi_finish 0 (s\<lparr>scsi_data_pos := scsi_data_len s\<rparr>))"
  using assms
proof (induction n arbitrary: s)
  case (Suc n)
  have lt: "scsi_data_pos s < scsi_data_len s" using Suc.prems(3) by (simp add: word_less_nat_alt)
  have p1: "unat (scsi_data_pos s + 1) = unat (scsi_data_pos s) + 1"
    using lt unat_bound [of "scsi_data_len s"] by (simp add: unat_word_ariths word_less_nat_alt)
  define s1 where "s1 = s\<lparr>scsi_data_pos := scsi_data_pos s + 1\<rparr>"
  let ?img = "tg_image (scsi_targets s tid)" and ?k = "unat off + unat (scsi_data_pos s)"
  have e: "unat (scsi_data_len s) \<le> Suc (unat (scsi_data_pos s)) \<longleftrightarrow> n = 0" using Suc.prems(3) by auto
  have r: "mac_scsi_reg_read s 0 = (?img ! ?k, if n = 0 then scsi_finish 0 s1 else s1)"
    using Suc.prems lt p1 e
    by (auto simp: mac_scsi_reg_read_def scsi_current_data_def Let_def scsi_data_get_def s1_def word_le_nat_alt)
  have k: "?k < length ?img" using Suc.prems(3,5) by simp
  have td: "take (Suc n) (drop ?k ?img) = ?img ! ?k # take n (drop (Suc ?k) ?img)"
    using k by (simp add: Cons_nth_drop_Suc [symmetric])
  show ?case
  proof (cases "n = 0")
    case True
    have "scsi_data_pos s + 1 = scsi_data_len s" using Suc.prems(3) True p1 by (simp add: word_unat_eq_iff)
    thus ?thesis using True td by (simp add: r s1_def)
  next
    case False
    have "scsi_get n s1 = (take n (drop (unat off + unat (scsi_data_pos s1)) (tg_image (scsi_targets s1 tid))),
      scsi_finish 0 (s1\<lparr>scsi_data_pos := scsi_data_len s1\<rparr>))"
      using Suc.prems False p1 by (intro Suc.IH) (auto simp: s1_def)
    thus ?thesis using False td p1 by (simp add: r s1_def)
  qed
qed simp

lemma get_status:
  assumes "scsi_phase s = PH_STATUS"
  shows "scsi_get 2 s = ([scsi_status s, scsi_message s],
     s\<lparr>scsi_phase := PH_BUS_FREE, scsi_target_id := -1, scsi_tcr := 0\<rparr>)"
proof -
  have 2: "(2 :: nat) = Suc (Suc 0)" by simp
  show ?thesis unfolding 2
    using assms by (simp add: mac_scsi_reg_read_def scsi_current_data_def scsi_phases Let_def)
qed

definition disk_at :: "mac_scsi \<Rightarrow> nat \<Rightarrow> u8 list" where
  "disk_at s tid = tg_image (scsi_targets s tid)"

definition disk_ready :: "mac_scsi \<Rightarrow> nat \<Rightarrow> u32 \<Rightarrow> u32 \<Rightarrow> bool" where
  "disk_ready s tid lba n \<longleftrightarrow> scsi_inv s \<and> bus_free s \<and> tid < 7 \<and> tg_present (scsi_targets s tid) \<and>
     0 < n \<and> n < 0x10000 \<and> unat lba + unat n \<le> unat (tg_blocks (scsi_targets s tid))"

lemma begin10:
  assumes "disk_ready s tid lba n" "cdb_length_for op = 10"
  obtains c s' where "scsi_put (cdb10 op lba n) (scsi_begin tid s) = scsi_execute s'"
    "s' = s\<lparr>scsi_odr := 0, scsi_icr := 0x04, scsi_target_id := int tid,
     scsi_phase := PH_COMMAND, scsi_tcr := 0x08, scsi_cdb := c, scsi_cdb_pos := 10, scsi_cdb_len := 10\<rparr>"
    "c 0 = op" "cdb_lba10 c = lba" "cdb_len10 c = n"
proof -
  have b: "scsi_begin tid s = s\<lparr>scsi_odr := push_bit tid 1, scsi_icr := 0x04, scsi_target_id := int tid,
     scsi_phase := PH_COMMAND, scsi_tcr := 0x08, scsi_cdb_pos := 0, scsi_cdb_len := 0\<rparr>"
    using assms by (intro begin_state) (auto simp: disk_ready_def)
  obtain c where c: "scsi_put (cdb10 op lba n) (scsi_begin tid s) =
      scsi_execute ((scsi_begin tid s)\<lparr>scsi_odr := 0, scsi_cdb := c, scsi_cdb_pos := 10, scsi_cdb_len := 10\<rparr>)"
    "c 0 = op" "cdb_lba10 c = lba" "n < 0x10000 \<longrightarrow> cdb_len10 c = n"
    using cdb10_done [of "scsi_begin tid s" op lba n] assms(2) by (auto simp: b)
  show ?thesis using that [OF c(1) _ c(2,3)] c(4) assms(1) by (simp add: b disk_ready_def)
qed

lemma ready_window:
  assumes "disk_ready s tid lba n"
  shows "\<not> (ucast lba :: u64) + ucast n > ucast (tg_blocks (scsi_targets s tid))"
    "unat (lba * 512) = unat lba * 512" "unat (n * 512) = unat n * 512"
    "unat lba * 512 + unat n * 512 \<le> length (disk_at s tid)"
proof -
  have t: "target_ok (scsi_targets s tid)" "tg_present (scsi_targets s tid)"
    using assms by (auto simp: disk_ready_def scsi_inv_def)
  have l: "unat lba < 2 ^ 32" "unat n < 2 ^ 32" using unat_bound [of lba] unat_bound [of n] by simp_all
  have "unat ((ucast lba :: u64) + ucast n) = unat lba + unat n"
    using l by (simp add: unat_word_ariths unsigned_ucast_eq take_bit_eq_mod)
  moreover have "unat (ucast (tg_blocks (scsi_targets s tid)) :: u64) = unat (tg_blocks (scsi_targets s tid))"
    using unat_bound [of "tg_blocks (scsi_targets s tid)"] by (simp add: unsigned_ucast_eq take_bit_eq_mod)
  ultimately show w: "\<not> (ucast lba :: u64) + ucast n > ucast (tg_blocks (scsi_targets s tid))"
    using assms by (simp add: disk_ready_def word_less_nat_alt)
  show "unat (lba * 512) = unat lba * 512" "unat (n * 512) = unat n * 512"
    "unat lba * 512 + unat n * 512 \<le> length (disk_at s tid)"
    using block_window [OF t w] by (simp_all add: disk_at_def)
qed

lemma read10_result:
  assumes "disk_ready s tid lba n"
  shows "\<exists>s'. scsi_read10 tid lba n (512 * unat n) s = (take (512 * unat n) (drop (512 * unat lba) (disk_at s tid)), 0, s')
     \<and> scsi_targets s' = scsi_targets s \<and> bus_free s'"
proof -
  obtain c s1 where p: "scsi_put (cdb10 0x28 lba n) (scsi_begin tid s) = scsi_execute s1"
    "s1 = s\<lparr>scsi_odr := 0, scsi_icr := 0x04, scsi_target_id := int tid,
     scsi_phase := PH_COMMAND, scsi_tcr := 0x08, scsi_cdb := c, scsi_cdb_pos := 10, scsi_cdb_len := 10\<rparr>"
    "c 0 = 0x28" "cdb_lba10 c = lba" "cdb_len10 c = n"
    by (rule begin10 [OF assms, of "0x28"]) (simp_all add: cdb_length_for_def)
  note w = ready_window [OF assms]
  have n0: "n \<noteq> 0" "0 < unat n" "tid < 7" using assms by (auto simp: disk_ready_def word_less_nat_alt)
  have e: "scsi_execute s1 = scsi_set_data_in (ImageAt tid (lba * 512)) (n * 512) s1"
    using assms w(1) n0 p(3-5) by (simp add: scsi_execute_def p(2) disk_ready_def MAC_SCSI_NUM_TARGETS_def Let_def)
  define s2 where "s2 = scsi_set_data_in (ImageAt tid (lba * 512)) (n * 512) s1"
  have "scsi_get (512 * unat n) s2 = (take (512 * unat n) (drop (512 * unat lba) (disk_at s tid)),
      scsi_finish 0 (s2\<lparr>scsi_data_pos := scsi_data_len s2\<rparr>))"
    using get_data [of s2 tid "lba * 512" "512 * unat n"] w n0
    by (simp add: s2_def scsi_set_data_in_def p(2) disk_at_def mult.commute)
  thus ?thesis using get_status [of "scsi_finish 0 (s2\<lparr>scsi_data_pos := scsi_data_len s2\<rparr>)"]
    by (simp add: scsi_read10_def p(1) e s2_def [symmetric] scsi_finish_def)
      (simp add: s2_def scsi_set_data_in_def p(2) bus_free_def)
qed

lemma write10_result:
  assumes "disk_ready s tid lba n" "\<not> tg_write_protect (scsi_targets s tid)" "length vs = 512 * unat n"
  shows "\<exists>s'. scsi_write10 tid lba n vs s = (0, s') \<and> bus_free s' \<and>
     scsi_targets s' = set_image tid (overwrite (disk_at s tid) (512 * unat lba) vs) (scsi_targets s)"
proof -
  obtain c s1 where p: "scsi_put (cdb10 0x2A lba n) (scsi_begin tid s) = scsi_execute s1"
    "s1 = s\<lparr>scsi_odr := 0, scsi_icr := 0x04, scsi_target_id := int tid,
     scsi_phase := PH_COMMAND, scsi_tcr := 0x08, scsi_cdb := c, scsi_cdb_pos := 10, scsi_cdb_len := 10\<rparr>"
    "c 0 = 0x2A" "cdb_lba10 c = lba" "cdb_len10 c = n"
    by (rule begin10 [OF assms(1), of "0x2A"]) (simp_all add: cdb_length_for_def)
  note w = ready_window [OF assms(1)]
  have n0: "n \<noteq> 0" "0 < unat n" "tid < 7" using assms by (auto simp: disk_ready_def word_less_nat_alt)
  have e: "scsi_execute s1 = scsi_set_data_out (ImageAt tid (lba * 512)) (n * 512) s1"
    using assms w(1) n0 p(3-5) by (simp add: scsi_execute_def p(2) disk_ready_def MAC_SCSI_NUM_TARGETS_def Let_def)
  define s2 where "s2 = scsi_set_data_out (ImageAt tid (lba * 512)) (n * 512) s1"
  have "vs \<noteq> []" using assms(3) n0 by auto
  then obtain odr where "scsi_put vs s2 = scsi_finish 0 (s2\<lparr>scsi_odr := odr,
     scsi_targets := set_image tid (overwrite (disk_at s tid) (512 * unat lba) vs) (scsi_targets s),
     scsi_data_pos := scsi_data_len s2\<rparr>)"
    using put_data [of s2 tid "lba * 512" vs] w assms(3)
    by (auto simp add: s2_def scsi_set_data_out_def p(2) disk_at_def mult.commute)
  thus ?thesis
    by (simp add: scsi_write10_def p(1) e s2_def [symmetric] get_status scsi_finish_def bus_free_def)
qed

text \<open>C13: The drive stores what is written to it: after a WRITE(10) transaction the guest reads, with
  READ(10) of the same blocks, exactly the bytes it wrote, both transactions end with status
  GOOD on a free bus, and neither changes another block of the image or another drive.\<close>

theorem scsi_read_after_write:
  assumes "disk_ready s tid lba n" "\<not> tg_write_protect (scsi_targets s tid)" "length vs = 512 * unat n"
  shows "\<exists>s1 s2. scsi_write10 tid lba n vs s = (0, s1) \<and>
     scsi_read10 tid lba n (512 * unat n) s1 = (vs, 0, s2) \<and> bus_free s1 \<and> bus_free s2 \<and>
     scsi_targets s2 = scsi_targets s1 \<and> (\<forall>i. i \<noteq> tid \<longrightarrow> scsi_targets s1 i = scsi_targets s i) \<and>
     disk_at s1 tid = take (512 * unat lba) (disk_at s tid) @ vs @ drop (512 * (unat lba + unat n)) (disk_at s tid)"
proof -
  obtain s1 where s1: "scsi_write10 tid lba n vs s = (0, s1)" "bus_free s1"
    "scsi_targets s1 = set_image tid (overwrite (disk_at s tid) (512 * unat lba) vs) (scsi_targets s)"
    using write10_result [OF assms] by blast
  have inv: "scsi_inv s1"
  proof -
    have put: "scsi_inv (scsi_put xs t)" if "scsi_inv t" for xs t
      using that by (induction xs arbitrary: t) (auto simp: put_Nil put_Cons dest: scsi_inv_step)
    have get: "scsi_inv (snd (scsi_get k t))" if "scsi_inv t" for k t
      using that by (induction k arbitrary: t) (auto simp: Let_def case_prod_beta dest: scsi_inv_step)
    have "scsi_inv (scsi_begin tid s)"
      using assms(1) scsi_inv_step by (simp add: scsi_begin_def disk_ready_def)
    thus ?thesis using s1(1) get [OF put [OF put]]
      by (auto simp: scsi_write10_def case_prod_beta)
  qed
  have b: "512 * unat lba + length vs \<le> length (disk_at s tid)"
    using ready_window(4) [OF assms(1)] assms(3) by simp
  have "disk_ready s1 tid lba n" using assms(1) inv s1(2,3) by (simp add: disk_ready_def)
  then obtain s2 where "scsi_read10 tid lba n (512 * unat n) s1 = (take (512 * unat n) (drop (512 * unat lba) (disk_at s1 tid)), 0, s2)"
    "scsi_targets s2 = scsi_targets s1" "bus_free s2" using read10_result by blast
  moreover have "disk_at s1 tid = overwrite (disk_at s tid) (512 * unat lba) vs" by (simp add: disk_at_def s1(3))
  ultimately show ?thesis using s1 take_drop_overwrite [OF b] assms(3)
    by (auto simp: overwrite_def distrib_left)
qed

definition one_disk :: mac_scsi where
  "one_disk = snd (mac_scsi_attach_disk mac_scsi_init 0 (replicate 1024 0) 1024 False)"

lemma one_disk_facts:
  "scsi_inv one_disk" "bus_free one_disk" "tg_present (scsi_targets one_disk 0)"
  "tg_blocks (scsi_targets one_disk 0) = 2" "\<not> tg_write_protect (scsi_targets one_disk 0)"
proof -
  show "scsi_inv one_disk" unfolding one_disk_def by (rule inv_attach [OF scsi_inv_init]) simp
qed (simp_all add: one_disk_def mac_scsi_attach_disk_def MAC_SCSI_NUM_TARGETS_def mac_scsi_init_def no_target_def
    bus_free_def)

theorem scsi_read_after_write_witness:
  "\<exists>s1 s2. scsi_write10 0 1 1 (replicate 512 7) one_disk = (0, s1) \<and>
     scsi_read10 0 1 1 512 s1 = (replicate 512 7, 0, s2)"
proof -
  have "disk_ready one_disk 0 1 1" by (simp add: disk_ready_def one_disk_facts)
  thus ?thesis using scsi_read_after_write [of one_disk 0 1 1 "replicate 512 7"] one_disk_facts(5) by fastforce
qed



end
