(* ===== verification/Machine.thy ===== *)
theory Machine
  imports M68kCpu Rtc Iwm Scsi
begin

text \<open>
  The state of the whole machine: the processor, the \<open>mac_mem\<close> structure of
  core/mac_mem.h with its peripherals, and the module variables \<open>K\<close> of
  core/mac_input.c and \<open>S\<close> of core/sony.c. The pointers that tie them together in C
  (\<open>m->cpu\<close>, \<open>cpu->mem\<close>, \<open>K.vm\<close>, \<open>S.vm\<close>) all point at the one machine of the model.
  Calls into the host (the serial, SCC and sound sinks and the write watch of the
  dispatcher) are recorded in order in lists.
\<close>

subsection \<open>Peripheral records (mac_mem.h)\<close>

record via6522 =
  via_ora :: u8
  via_orb :: u8
  via_ddra :: u8
  via_ddrb :: u8
  via_acr :: u8
  via_pcr :: u8
  via_ifr :: u8
  via_ier :: u8
  via_sr :: u8
  via_icb2 :: u8
  via_t1c :: u16
  via_t1l :: u16
  via_t2c :: u16
  via_t2l_lo :: u8
  via_t1_irq_armed :: bool
  via_t2_irq_armed :: bool
  via_last_cycle :: u64
  via_tick_rem :: u32
  via_next_vbl :: u64

definition VIA_IRQ_CA2 :: u8 where "VIA_IRQ_CA2 = 0x01"
definition VIA_IRQ_CA1 :: u8 where "VIA_IRQ_CA1 = 0x02"
definition VIA_IRQ_SR :: u8 where "VIA_IRQ_SR = 0x04"
definition VIA_IRQ_CB2 :: u8 where "VIA_IRQ_CB2 = 0x08"
definition VIA_IRQ_CB1 :: u8 where "VIA_IRQ_CB1 = 0x10"
definition VIA_IRQ_T2 :: u8 where "VIA_IRQ_T2 = 0x20"
definition VIA_IRQ_T1 :: u8 where "VIA_IRQ_T1 = 0x40"
definition VIA_IRQ_ANY :: u8 where "VIA_IRQ_ANY = 0x80"

lemmas via_irqs = VIA_IRQ_CA2_def VIA_IRQ_CA1_def VIA_IRQ_SR_def VIA_IRQ_CB2_def VIA_IRQ_CB1_def
  VIA_IRQ_T2_def VIA_IRQ_T1_def VIA_IRQ_ANY_def

record mac_scc_chan =
  scc_wr :: "nat \<Rightarrow> u8"
  scc_rr :: "nat \<Rightarrow> u8"
  scc_rx_byte :: u8
  scc_tx_byte :: u8
  scc_rx_avail :: bool
  scc_tx_pending :: bool

record mac_scc =
  scc_wr_ptr :: u8
  scc_irq_on :: bool
  scc_ch :: "nat \<Rightarrow> mac_scc_chan"

text \<open>The keyboard variables of mac_input.c; the states KBD_IDLE, KBD_RX_CMD, KBD_GOT_CMD and
  KBD_RX_END are 0 to 3.\<close>

record kbd_state =
  kbd_st :: nat
  kbd_have_result :: bool
  kbd_result :: u8
  kbd_instant_cmd :: u8
  kbd_inquiry_pending :: bool
  kbd_inquiry_deadline :: u64
  kbd_timed_action :: nat
  kbd_timed_deadline :: u64
  kbd_keyq :: "nat \<Rightarrow> u8 \<times> u8"
  kbd_head :: nat
  kbd_tail :: nat

text \<open>The driver variables of sony.c; an image pointer that is NULL is None.\<close>

record sony_state =
  sony_image :: "nat \<Rightarrow> u8 list option"
  sony_size :: "nat \<Rightarrow> u32"
  sony_inserted :: "nat \<Rightarrow> bool"
  sony_mounted :: "nat \<Rightarrow> bool"
  sony_wprot :: "nat \<Rightarrow> bool"
  sony_mount_callback :: u32
  sony_param_addr_hi :: u32
  sony_disk_icon_addr :: u32
  sony_insert_delay :: int

definition sony_init :: sony_state where
  "sony_init = \<lparr>sony_image = (\<lambda>_. None), sony_size = (\<lambda>_. 0), sony_inserted = (\<lambda>_. False),
     sony_mounted = (\<lambda>_. False), sony_wprot = (\<lambda>_. False), sony_mount_callback = 0,
     sony_param_addr_hi = 0, sony_disk_icon_addr = 0, sony_insert_delay = 0\<rparr>"

subsection \<open>The machine\<close>

text \<open>RAM and ROM are maps from byte offsets, used below their sizes; \<open>m_rom\<close> is None when no
  ROM is loaded. \<open>m_watch\<close> collects the addresses given to the write watch.
  \<open>m_nested_out\<close> is a ghost: it is set when extension-trap calls nest deeper than the model
  follows (Sony.thy).\<close>

record machine =
  m_cpu :: m68k_cpu
  m_ram :: "nat \<Rightarrow> u8"
  m_ram_size :: u32
  m_rom :: "(nat \<Rightarrow> u8) option"
  m_rom_size :: u32
  m_overlay :: bool
  m_via :: via6522
  m_rtc :: mac_rtc
  m_iwm :: mac_iwm
  m_scc :: mac_scc
  m_scsi :: mac_scsi
  m_fb_base :: u32
  m_mouse_btn :: u8
  m_reads :: u64
  m_writes :: u64
  m_kbd :: kbd_state
  m_sony :: sony_state
  m_serial_out :: "u8 list"
  m_scc_out :: "(nat \<times> u8) list"
  m_watch :: "u32 list"
  m_snd_calls :: nat
  m_nested_out :: bool

abbreviation upd_cpu :: "(m68k_cpu \<Rightarrow> m68k_cpu) \<Rightarrow> machine \<Rightarrow> machine" where
  "upd_cpu f m \<equiv> m\<lparr>m_cpu := f (m_cpu m)\<rparr>"

abbreviation upd_via :: "(via6522 \<Rightarrow> via6522) \<Rightarrow> machine \<Rightarrow> machine" where
  "upd_via f m \<equiv> m\<lparr>m_via := f (m_via m)\<rparr>"

abbreviation upd_kbd :: "(kbd_state \<Rightarrow> kbd_state) \<Rightarrow> machine \<Rightarrow> machine" where
  "upd_kbd f m \<equiv> m\<lparr>m_kbd := f (m_kbd m)\<rparr>"

abbreviation upd_sony :: "(sony_state \<Rightarrow> sony_state) \<Rightarrow> machine \<Rightarrow> machine" where
  "upd_sony f m \<equiv> m\<lparr>m_sony := f (m_sony m)\<rparr>"

subsection \<open>The interrupt line (mac_via_recalc_irq)\<close>

definition via_active :: "via6522 \<Rightarrow> bool" where
  "via_active v \<longleftrightarrow> (via_ifr v AND via_ier v) AND 0x7F \<noteq> 0"

definition mac_via_recalc_irq :: "machine \<Rightarrow> machine" where
  "mac_via_recalc_irq m =
     (let active = via_active (m_via m) in
      m\<lparr>m_via := (m_via m)\<lparr>via_ifr := (if active then via_ifr (m_via m) OR VIA_IRQ_ANY
                                      else via_ifr (m_via m) AND NOT VIA_IRQ_ANY)\<rparr>,
        m_cpu := (m_cpu m)\<lparr>pending_irq := (if active then 1 else 0)\<rparr>\<rparr>)"

text \<open>The interrupt line is consistent: IFR bit 7 and the processor's pending level both tell
  whether some enabled source is flagged.\<close>

definition irq_ok :: "machine \<Rightarrow> bool" where
  "irq_ok m \<longleftrightarrow> (bit (via_ifr (m_via m)) 7 \<longleftrightarrow> via_active (m_via m)) \<and>
     pending_irq (m_cpu m) = (if via_active (m_via m) then 1 else 0)"

lemma active_ifr_any [simp]:
  "via_active (v\<lparr>via_ifr := via_ifr v OR VIA_IRQ_ANY\<rparr>) = via_active v"
  "via_active (v\<lparr>via_ifr := via_ifr v AND NOT VIA_IRQ_ANY\<rparr>) = via_active v"
proof -
  have "((x OR 0x80) AND y) AND 0x7F = (x AND y) AND 0x7F" "((x AND NOT 0x80) AND y) AND 0x7F = (x AND y) AND 0x7F"
    for x y :: u8 by (simp_all add: byte_eq_bits bit_simps)
  thus "via_active (v\<lparr>via_ifr := via_ifr v OR VIA_IRQ_ANY\<rparr>) = via_active v"
    "via_active (v\<lparr>via_ifr := via_ifr v AND NOT VIA_IRQ_ANY\<rparr>) = via_active v"
    by (simp_all add: via_active_def VIA_IRQ_ANY_def)
qed

lemma recalc_irq_ok [simp, inv_intros]: "irq_ok (mac_via_recalc_irq m)"
  by (simp add: irq_ok_def mac_via_recalc_irq_def Let_def) (simp add: VIA_IRQ_ANY_def bit_simps)

lemma recalc_frame [frame_simps, simp]:
  "m_ram (mac_via_recalc_irq m) = m_ram m" "m_rom (mac_via_recalc_irq m) = m_rom m"
  "m_kbd (mac_via_recalc_irq m) = m_kbd m" "m_overlay (mac_via_recalc_irq m) = m_overlay m"
  "m_ram_size (mac_via_recalc_irq m) = m_ram_size m" "m_rom_size (mac_via_recalc_irq m) = m_rom_size m"
  "m_rtc (mac_via_recalc_irq m) = m_rtc m" "m_iwm (mac_via_recalc_irq m) = m_iwm m"
  "m_scsi (mac_via_recalc_irq m) = m_scsi m" "m_scc (mac_via_recalc_irq m) = m_scc m"
  "m_fb_base (mac_via_recalc_irq m) = m_fb_base m" "m_nested_out (mac_via_recalc_irq m) = m_nested_out m"
  "m_reads (mac_via_recalc_irq m) = m_reads m" "m_writes (mac_via_recalc_irq m) = m_writes m"
  "m_snd_calls (mac_via_recalc_irq m) = m_snd_calls m" "m_scc_out (mac_via_recalc_irq m) = m_scc_out m"
  "m_mouse_btn (mac_via_recalc_irq m) = m_mouse_btn m" "m_serial_out (mac_via_recalc_irq m) = m_serial_out m"
  "m_sony (mac_via_recalc_irq m) = m_sony m" "m_watch (mac_via_recalc_irq m) = m_watch m"
  by (simp_all add: mac_via_recalc_irq_def Let_def)

lemma recalc_via [frame_simps, simp]:
  "via_acr (m_via (mac_via_recalc_irq m)) = via_acr (m_via m)"
  "via_sr (m_via (mac_via_recalc_irq m)) = via_sr (m_via m)"
  "via_icb2 (m_via (mac_via_recalc_irq m)) = via_icb2 (m_via m)"
  "via_ier (m_via (mac_via_recalc_irq m)) = via_ier (m_via m)"
  "via_next_vbl (m_via (mac_via_recalc_irq m)) = via_next_vbl (m_via m)"
  "cycles (m_cpu (mac_via_recalc_irq m)) = cycles (m_cpu m)"
  by (simp_all add: mac_via_recalc_irq_def Let_def)

end
