(* ===== verification/Keyboard.thy ===== *)
theory Keyboard
  imports Machine
begin

text \<open>
  The keyboard half of core/mac_input.c: the ring of key events, the report bytes,
  and the state machine on the VIA shift register with its two deadlines. The ring is
  an instance of the bounded queue interface below.
\<close>

subsection \<open>The key event ring\<close>

definition mac_key_event :: "int \<Rightarrow> bool \<Rightarrow> kbd_state \<Rightarrow> kbd_state" where
  "mac_key_event mac_keycode down k =
     (let next = (kbd_tail k + 1) AND 63 in
      if next = kbd_head k then k
      else k\<lparr>kbd_keyq := (kbd_keyq k)(kbd_tail k := (word_of_int (mac_keycode AND 0x7F), if down then 1 else 0)),
             kbd_tail := next\<rparr>)"

definition find_key_event :: "kbd_state \<Rightarrow> ((u8 \<times> bool) \<times> kbd_state) option" where
  "find_key_event k =
     (if kbd_head k = kbd_tail k then None
      else let (code, down) = kbd_keyq k (kbd_head k) in
           Some ((code, down \<noteq> 0), k\<lparr>kbd_head := (kbd_head k + 1) AND 63\<rparr>))"

subsection \<open>Shift register glue\<close>

definition shift_mode :: "machine \<Rightarrow> u8" where
  "shift_mode m = drop_bit 2 (via_acr (m_via m) AND 0x1C)"

definition via_set_irq :: "u8 \<Rightarrow> machine \<Rightarrow> machine" where
  "via_set_irq b m = mac_via_recalc_irq (upd_via (\<lambda>v. v\<lparr>via_ifr := via_ifr v OR b\<rparr>) m)"

definition via_shift_out_data :: "machine \<Rightarrow> u8 \<times> machine" where
  "via_shift_out_data m =
     (let m = via_set_irq (VIA_IRQ_SR OR VIA_IRQ_CB1) m;
          m = upd_via (\<lambda>v. v\<lparr>via_icb2 := via_sr v AND 1\<rparr>) m
      in (via_sr (m_via m), m))"

definition via_shift_in_data :: "u8 \<Rightarrow> machine \<Rightarrow> machine" where
  "via_shift_in_data v m = via_set_irq (VIA_IRQ_SR OR VIA_IRQ_CB1) (upd_via (\<lambda>w. w\<lparr>via_sr := v\<rparr>) m)"

subsection \<open>The keyboard\<close>

definition KBD_DELAY_CYCLES :: u64 where "KBD_DELAY_CYCLES = 8000"
definition KBD_INQUIRY_CYCLES :: u64 where "KBD_INQUIRY_CYCLES = 2000000"

definition got_keyboard_data :: "u8 \<Rightarrow> machine \<Rightarrow> machine" where
  "got_keyboard_data v m =
     (if kbd_st (m_kbd m) \<noteq> 0 then upd_kbd (\<lambda>k. k\<lparr>kbd_have_result := True, kbd_result := v\<rparr>) m
      else upd_via (\<lambda>w. w\<lparr>via_icb2 := 1\<rparr>) (via_shift_in_data v m))"

text \<open>The report byte of a key event, and the instant reply of a keypad key.\<close>

definition key_report :: "u8 \<Rightarrow> bool \<Rightarrow> u8" where
  "key_report code down =
     (if code < 64 then (if \<not> down then push_bit 1 code + 128 else push_bit 1 code) else 121)"

definition key_instant :: "u8 \<Rightarrow> bool \<Rightarrow> u8" where
  "key_instant code down =
     (if \<not> down then push_bit 1 (code - 64) + 128 else push_bit 1 (code - 64))"

definition attempt_finish_inquiry :: "machine \<Rightarrow> bool \<times> machine" where
  "attempt_finish_inquiry m =
     (case find_key_event (m_kbd m) of
        None \<Rightarrow> (False, m)
      | Some ((code, down), k) \<Rightarrow>
          (let k = (if code < 64 then k else k\<lparr>kbd_instant_cmd := key_instant code down\<rparr>)
           in (True, got_keyboard_data (key_report code down) (m\<lparr>m_kbd := k\<rparr>))))"

definition do_receive_command :: "machine \<Rightarrow> machine" where
  "do_receive_command m =
     (let (cmd, m) = via_shift_out_data m; m = upd_kbd (\<lambda>k. k\<lparr>kbd_st := 2\<rparr>) m in
      if cmd = 0x10 then
        (let (done, m) = attempt_finish_inquiry m in
         if \<not> done then upd_kbd (\<lambda>k. k\<lparr>kbd_inquiry_pending := True,
             kbd_inquiry_deadline := cycles (m_cpu m) + KBD_INQUIRY_CYCLES\<rparr>) m
         else m)
      else if cmd = 0x14 then
        upd_kbd (\<lambda>k. k\<lparr>kbd_instant_cmd := 0x7B\<rparr>) (got_keyboard_data (kbd_instant_cmd (m_kbd m)) m)
      else if cmd = 0x16 then got_keyboard_data 0x0B m
      else if cmd = 0x36 then got_keyboard_data 0x7D m
      else got_keyboard_data 0 m)"

definition do_receive_end_command :: "machine \<Rightarrow> machine" where
  "do_receive_end_command m =
     (let m = upd_kbd (\<lambda>k. k\<lparr>kbd_st := 0\<rparr>) m in
      if kbd_have_result (m_kbd m) then
        (let m = upd_kbd (\<lambda>k. k\<lparr>kbd_have_result := False\<rparr>) m in
         upd_via (\<lambda>w. w\<lparr>via_icb2 := 1\<rparr>) (via_shift_in_data (kbd_result (m_kbd m)) m))
      else m)"

definition kbd_cb2_changed :: "machine \<Rightarrow> machine" where
  "kbd_cb2_changed m =
     (if kbd_st (m_kbd m) = 0 then
        (if via_icb2 (m_via m) = 0 then
           upd_kbd (\<lambda>k. k\<lparr>kbd_st := 1, kbd_timed_action := 1,
             kbd_timed_deadline := cycles (m_cpu m) + KBD_DELAY_CYCLES, kbd_inquiry_pending := False\<rparr>) m
         else m)
      else if kbd_st (m_kbd m) = 2 then
        (if via_icb2 (m_via m) = 1 then
           upd_kbd (\<lambda>k. k\<lparr>kbd_st := 3, kbd_timed_action := 2,
             kbd_timed_deadline := cycles (m_cpu m) + KBD_DELAY_CYCLES\<rparr>) m
         else m)
      else m)"

subsection \<open>Hooks called from the memory map\<close>

definition mac_kbd_sr_written :: "machine \<Rightarrow> machine" where
  "mac_kbd_sr_written m =
     (let m = mac_via_recalc_irq (upd_via (\<lambda>v. v\<lparr>via_ifr := via_ifr v AND NOT VIA_IRQ_SR\<rparr>) m) in
      if shift_mode m = 6 \<and> via_sr (m_via m) = 0 then
        (if via_icb2 (m_via m) \<noteq> 0 then kbd_cb2_changed (upd_via (\<lambda>v. v\<lparr>via_icb2 := 0\<rparr>) m) else m)
      else m)"

definition mac_kbd_acr_written :: "u8 \<Rightarrow> machine \<Rightarrow> machine" where
  "mac_kbd_acr_written old_acr m =
     (if old_acr AND 0x10 \<noteq> via_acr (m_via m) AND 0x10 \<and> via_acr (m_via m) AND 0x10 = 0 then
        (if via_icb2 (m_via m) = 0 then kbd_cb2_changed (upd_via (\<lambda>v. v\<lparr>via_icb2 := 1\<rparr>) m) else m)
      else m)"

definition mac_kbd_tick :: "u64 \<Rightarrow> machine \<Rightarrow> machine" where
  "mac_kbd_tick cyc m =
     (let m = (if kbd_timed_action (m_kbd m) \<noteq> 0 \<and> cyc \<ge> kbd_timed_deadline (m_kbd m) then
                 (let act = kbd_timed_action (m_kbd m); m = upd_kbd (\<lambda>k. k\<lparr>kbd_timed_action := 0\<rparr>) m in
                  if act = 1 then do_receive_command m else do_receive_end_command m)
               else m)
      in if kbd_inquiry_pending (m_kbd m) then
           (let (done, m) = attempt_finish_inquiry m in
            if done then upd_kbd (\<lambda>k. k\<lparr>kbd_inquiry_pending := False\<rparr>) m
            else if cyc \<ge> kbd_inquiry_deadline (m_kbd m) then
              got_keyboard_data 0x7B (upd_kbd (\<lambda>k. k\<lparr>kbd_inquiry_pending := False\<rparr>) m)
            else m)
         else m)"

subsection \<open>Bounded queues\<close>

text \<open>Take up to n elements out of a queue.\<close>

fun drain :: "('s \<Rightarrow> ('a \<times> 's) option) \<Rightarrow> nat \<Rightarrow> 's \<Rightarrow> 'a list" where
  "drain deq 0 s = []"
| "drain deq (Suc n) s = (case deq s of None \<Rightarrow> [] | Some (a, s') \<Rightarrow> a # drain deq n s')"

locale bounded_queue =
  fixes items :: "'s \<Rightarrow> 'a list"
    and enq :: "'a \<Rightarrow> 's \<Rightarrow> 's"
    and deq :: "'s \<Rightarrow> ('a \<times> 's) option"
    and ok :: "'s \<Rightarrow> bool"
    and cap :: nat
  assumes enq_ok: "ok s \<Longrightarrow> ok (enq a s)"
    and enq_items: "ok s \<Longrightarrow> items (enq a s) = (if length (items s) < cap then items s @ [a] else items s)"
    and deq_None: "ok s \<Longrightarrow> deq s = None \<longleftrightarrow> items s = []"
    and deq_Some: "ok s \<Longrightarrow> deq s = Some (a, s') \<Longrightarrow> items s = a # items s' \<and> ok s'"
begin

lemma enq_all:
  "ok s \<Longrightarrow> length (items s) \<le> cap \<Longrightarrow>
     ok (fold enq xs s) \<and> items (fold enq xs s) = take cap (items s @ xs)"
proof (induction xs arbitrary: s)
  case (Cons x xs)
  have "length (items (enq x s)) \<le> cap" using Cons.prems by (simp add: enq_items)
  hence "ok (fold enq xs (enq x s)) \<and> items (fold enq xs (enq x s)) = take cap (items (enq x s) @ xs)"
    using Cons.IH [OF enq_ok [OF Cons.prems(1)]] by blast
  thus ?case using Cons.prems by (simp add: enq_items) (simp add: take_Cons')
qed simp

lemma drain_items: "ok s \<Longrightarrow> drain deq n s = take n (items s)"
proof (induction n arbitrary: s)
  case (Suc n)
  show ?case
  proof (cases "deq s")
    case None thus ?thesis using deq_None [OF Suc.prems] by simp
  next
    case (Some p)
    obtain a s' where p: "p = (a, s')" by (cases p)
    thus ?thesis using deq_Some [OF Suc.prems, of a s'] Some Suc.IH [of s'] by simp
  qed
qed simp

lemma fifo:
  "ok s \<Longrightarrow> items s = [] \<Longrightarrow> length xs \<le> n \<Longrightarrow> drain deq n (fold enq xs s) = take cap xs"
  using enq_all [of s xs] drain_items [of "fold enq xs s" n] by (simp add: min_def)

end

subsection \<open>The ring is a bounded queue\<close>

text \<open>A key is its seven bit code and whether it went down.\<close>

type_synonym key = "7 word \<times> bool"

definition ring_enq :: "key \<Rightarrow> kbd_state \<Rightarrow> kbd_state" where
  "ring_enq a k = mac_key_event (uint (fst a)) (snd a) k"

definition ring_deq :: "kbd_state \<Rightarrow> (key \<times> kbd_state) option" where
  "ring_deq k = map_option (\<lambda>((code, down), k). ((ucast code, down), k)) (find_key_event k)"

definition ring_ok :: "kbd_state \<Rightarrow> bool" where
  "ring_ok k \<longleftrightarrow> kbd_head k < 64 \<and> kbd_tail k < 64"

definition ring_len :: "kbd_state \<Rightarrow> nat" where
  "ring_len k = (kbd_tail k + 64 - kbd_head k) mod 64"

definition ring_items :: "kbd_state \<Rightarrow> key list" where
  "ring_items k = map (\<lambda>i. let (c, d) = kbd_keyq k ((kbd_head k + i) mod 64) in (ucast c, d \<noteq> 0)) [0..<ring_len k]"

lemma and_63: "n AND 63 = n mod 64" for n :: nat
proof -
  have "n AND mask 6 = n mod 2 ^ 6" by (simp only: take_bit_eq_mask [symmetric] take_bit_eq_mod)
  thus ?thesis by (simp add: mask_eq_exp_minus_1)
qed

lemma code_round: "ucast (word_of_int (uint c AND 0x7F) :: u8) = c" for c :: "7 word"
proof -
  have "uint c AND 0x7F = uint c mod 2 ^ 7"
    using take_bit_eq_mask [of 7 "uint c"] by (simp add: mask_eq_exp_minus_1 take_bit_eq_mod)
  also have "\<dots> = uint c" using uint_lt2p [of c] by simp
  finally have a: "uint c AND 0x7F = uint c" .
  have "word_of_int (uint c) = (ucast c :: u8)" by simp
  moreover have "ucast (ucast c :: u8) = c" by (rule bit_word_eqI) (auto simp: bit_simps)
  ultimately show ?thesis by (simp add: a)
qed

lemma mod_64: "x < 128 \<Longrightarrow> x mod 64 = (if x < 64 then x else x - 64)" for x :: nat
  by (simp add: mod_if)

lemma ring_len: "ring_ok k \<Longrightarrow>
   ring_len k = (if kbd_head k \<le> kbd_tail k then kbd_tail k - kbd_head k else kbd_tail k + 64 - kbd_head k)"
  by (auto simp: ring_ok_def ring_len_def mod_64)

lemma ring_facts:
  assumes "ring_ok k"
  shows "(kbd_tail k + 1) mod 64 = kbd_head k \<longleftrightarrow> \<not> ring_len k < 63"
    "(kbd_head k + ring_len k) mod 64 = kbd_tail k"
    "i < ring_len k \<Longrightarrow> (kbd_head k + i) mod 64 \<noteq> kbd_tail k"
    "ring_len k = 0 \<longleftrightarrow> kbd_head k = kbd_tail k"
  using assms by (auto simp: ring_len ring_ok_def mod_64 split: if_splits)

lemma ring_len_enq:
  assumes "ring_ok k" "ring_len k < 63"
  shows "ring_len (k\<lparr>kbd_keyq := q, kbd_tail := (kbd_tail k + 1) mod 64\<rparr>) = Suc (ring_len k)"
proof -
  have "ring_ok (k\<lparr>kbd_keyq := q, kbd_tail := (kbd_tail k + 1) mod 64\<rparr>)" using assms(1) by (simp add: ring_ok_def)
  thus ?thesis using assms by (auto simp: ring_len ring_ok_def mod_64 split: if_splits)
qed

lemma ring_len_deq:
  assumes "ring_ok k" "kbd_head k \<noteq> kbd_tail k"
  shows "ring_len k = Suc (ring_len (k\<lparr>kbd_head := (kbd_head k + 1) mod 64\<rparr>))"
proof -
  have "ring_ok (k\<lparr>kbd_head := (kbd_head k + 1) mod 64\<rparr>)" using assms(1) by (simp add: ring_ok_def)
  thus ?thesis using assms by (auto simp: ring_len ring_ok_def mod_64 split: if_splits)
qed

lemma ring_enq_items:
  assumes "ring_ok k"
  shows "ring_ok (ring_enq a k)"
    "ring_items (ring_enq a k) = (if length (ring_items k) < 63 then ring_items k @ [a] else ring_items k)"
proof -
  show "ring_ok (ring_enq a k)" using assms by (simp add: ring_enq_def mac_key_event_def Let_def ring_ok_def and_63)
  show "ring_items (ring_enq a k) = (if length (ring_items k) < 63 then ring_items k @ [a] else ring_items k)"
  proof (cases "ring_len k < 63")
    case True
    define k' where "k' = k\<lparr>kbd_keyq := (kbd_keyq k)(kbd_tail k := (word_of_int (uint (fst a) AND 0x7F),
        if snd a then 1 else 0)), kbd_tail := (kbd_tail k + 1) mod 64\<rparr>"
    have e: "ring_enq a k = k'"
      using True ring_facts(1) [OF assms] by (simp add: ring_enq_def mac_key_event_def Let_def and_63 k'_def)
    have l: "ring_len k' = Suc (ring_len k)" unfolding k'_def by (rule ring_len_enq [OF assms True])
    have f: "kbd_head k' = kbd_head k" "kbd_keyq k' = (kbd_keyq k)(kbd_tail k := (word_of_int (uint (fst a) AND 0x7F),
        if snd a then 1 else 0))" by (simp_all add: k'_def)
    have "ring_items k' = ring_items k @ [a]"
      using ring_facts(2,3) [OF assms] by (cases a) (auto simp: ring_items_def l f code_round)
    thus ?thesis using True by (simp add: e ring_items_def)
  next
    case False
    thus ?thesis using ring_facts(1) [OF assms]
      by (simp add: ring_enq_def mac_key_event_def Let_def and_63 ring_items_def)
  qed
qed

lemma ring_deq_items:
  assumes "ring_ok k"
  shows "ring_deq k = None \<longleftrightarrow> ring_items k = []"
    "ring_deq k = Some (a, k') \<Longrightarrow> ring_items k = a # ring_items k' \<and> ring_ok k'"
proof -
  show "ring_deq k = None \<longleftrightarrow> ring_items k = []"
    using ring_facts(4) [OF assms] by (simp add: ring_deq_def find_key_event_def ring_items_def case_prod_beta)
  assume d: "ring_deq k = Some (a, k')"
  hence ne: "kbd_head k \<noteq> kbd_tail k" and k': "k' = k\<lparr>kbd_head := (kbd_head k + 1) mod 64\<rparr>"
    and a: "a = (case kbd_keyq k (kbd_head k) of (c, dn) \<Rightarrow> (ucast c, dn \<noteq> 0))"
    by (auto simp: ring_deq_def find_key_event_def and_63 case_prod_beta split: if_splits)
  have l: "ring_len k = Suc (ring_len k')" unfolding k' by (rule ring_len_deq [OF assms ne])
  have h: "kbd_head k mod 64 = kbd_head k" using assms by (simp add: ring_ok_def)
  have "[0..<Suc (ring_len k')] = 0 # map Suc [0..<ring_len k']" by (simp add: map_Suc_upt upt_conv_Cons)
  hence "ring_items k = a # ring_items k'"
    unfolding ring_items_def l by (simp add: a h k' mod_simps)
  thus "ring_items k = a # ring_items k' \<and> ring_ok k'" using assms by (simp add: k' ring_ok_def)
qed

interpretation keyq: bounded_queue ring_items ring_enq ring_deq ring_ok 63
  using ring_enq_items ring_deq_items by unfold_locales blast+

text \<open>C15: The key ring is a queue that holds 63 events: the keys pressed since it was empty come out
  in the order they went in, with their code and direction, and only those after the 63rd are
  dropped.\<close>

theorem key_ring_fifo:
  assumes "ring_ok k" "ring_items k = []" "length keys \<le> n"
  shows "drain ring_deq n (fold ring_enq keys k) = take 63 keys"
  using assms by (rule keyq.fifo)

definition mac_input_init :: kbd_state where
  "mac_input_init = \<lparr>kbd_st = 0, kbd_have_result = False, kbd_result = 0, kbd_instant_cmd = 0x7B,
     kbd_inquiry_pending = False, kbd_inquiry_deadline = 0, kbd_timed_action = 0, kbd_timed_deadline = 0,
     kbd_keyq = (\<lambda>_. (0, 0)), kbd_head = 0, kbd_tail = 0\<rparr>"

theorem key_ring_fifo_witness:
  "ring_ok mac_input_init \<and> drain ring_deq 2 (fold ring_enq [(5, True), (5, False)] mac_input_init) = [(5, True), (5, False)]"
proof -
  have "ring_ok mac_input_init" "ring_items mac_input_init = []"
    by (simp_all add: ring_ok_def mac_input_init_def ring_items_def ring_len_def)
  thus ?thesis using key_ring_fifo [of mac_input_init "[(5, True), (5, False)]" 2] by simp
qed

subsection \<open>Key reports decode\<close>

text \<open>What the Mac reads out of a report: its key and direction, taken from the instant reply when the
  report is the keypad escape 0x79.\<close>

definition report_key :: "u8 \<Rightarrow> u8 \<Rightarrow> u8 \<times> bool" where
  "report_key report instant =
     (if report = 0x79 then (64 OR drop_bit 1 (instant AND 0x7F), \<not> bit instant 7)
      else (drop_bit 1 (report AND 0x7F), \<not> bit report 7))"

lemma code_bits:
  fixes code :: u8
  shows "code < 64 \<Longrightarrow> \<not> bit code 6" "code < 64 \<Longrightarrow> \<not> bit code 7" "code < 128 \<Longrightarrow> \<not> bit code 7"
proof -
  have b: "bit code n \<longleftrightarrow> odd (unat code div 2 ^ n)" for n by (simp add: bit_iff_odd [of "unat code", symmetric] bit_unsigned_iff)
  show "code < 64 \<Longrightarrow> \<not> bit code 6" "code < 64 \<Longrightarrow> \<not> bit code 7" "code < 128 \<Longrightarrow> \<not> bit code 7"
    by (simp_all add: b word_less_nat_alt)
qed

lemma add_128: "\<not> bit x 7 \<Longrightarrow> x + 128 = x OR 128" for x :: u8
  by (rule disjunctive_add_eq_or) (simp add: byte_eq_bits bit_simps)

lemma key_code_bits:
  fixes code :: u8
  assumes "code < 128" "\<not> code < 64"
  shows "bit code 6" "code - 64 = code AND 0x3F"
proof -
  show 6: "bit code 6"
  proof (rule ccontr)
    assume n: "\<not> bit code 6"
    have "code = code AND 0x3F" using n code_bits(3) [OF assms(1)] by (simp add: byte_eq_bits bit_simps)
    also have "\<dots> \<le> 0x3F" by (rule word_and_le1)
    finally show False using assms(2) by (simp add: word_less_nat_alt word_le_nat_alt)
  qed
  have "(code AND 0x3F) + 64 = (code AND 0x3F) OR 64"
    by (rule disjunctive_add_eq_or) (simp add: byte_eq_bits bit_simps)
  also have "\<dots> = code" using 6 code_bits(3) [OF assms(1)] by (simp add: byte_eq_bits bit_simps)
  finally show "code - 64 = code AND 0x3F" by (simp add: algebra_simps)
qed

lemma report_decodes_short:
  assumes "code < 64"
  shows "report_key (key_report code down) i = (code, down)"
proof -
  note b = code_bits(1,2) [OF assms]
  have x: "push_bit 1 code + 128 = push_bit 1 code OR 128" using b by (intro add_128) (simp only: bit_push_bit_iff, simp)
  have n: "(push_bit 1 code OR 128) \<noteq> 0x79" "push_bit 1 code \<noteq> 0x79" by (auto simp: byte_eq_bits bit_simps bit_0)
  show ?thesis using assms b n unfolding report_key_def key_report_def x
    by (simp add: byte_eq_bits bit_simps bit_double numeral_2_eq_2)
qed

lemma report_decodes:
  assumes "code < 128"
  shows "report_key (key_report code down) (key_instant code down) = (code, down)"
proof (cases "code < 64")
  case True
  thus ?thesis by (rule report_decodes_short)
next
  case False
  note b = key_code_bits [OF assms False] code_bits(3) [OF assms]
  have x: "push_bit 1 (code AND 0x3F) + 128 = push_bit 1 (code AND 0x3F) OR 128" by (intro add_128) (simp only: bit_push_bit_iff bit_and_iff, simp)
  show ?thesis using False b(1,3) unfolding report_key_def key_report_def key_instant_def b(2) x
    by (simp add: byte_eq_bits bit_simps bit_double numeral_2_eq_2)
qed

subsection \<open>The interrupt line stays consistent\<close>

lemma irq_ok_upd_kbd [simp]: "irq_ok (upd_kbd f m) = irq_ok m" by (simp add: irq_ok_def)

lemma irq_ok_icb2 [simp]: "irq_ok (upd_via (\<lambda>v. v\<lparr>via_icb2 := x\<rparr>) m) = irq_ok m"
  by (simp add: irq_ok_def via_active_def)

lemma irq_ok_icb2' [simp]: "irq_ok (m\<lparr>m_via := (m_via m)\<lparr>via_icb2 := x\<rparr>\<rparr>) = irq_ok m"
  by (simp add: irq_ok_def via_active_def)

lemma irq_ok_kbd' [simp]: "irq_ok (m\<lparr>m_kbd := k\<rparr>) = irq_ok m" by (simp add: irq_ok_def)

lemma kbd_irq_ok [inv_intros]:
  "irq_ok (via_set_irq b m)" "irq_ok (via_shift_in_data v m)" "irq_ok (snd (via_shift_out_data m))"
  "irq_ok m \<Longrightarrow> irq_ok (got_keyboard_data v m)"
  "irq_ok m \<Longrightarrow> irq_ok (snd (attempt_finish_inquiry m))"
  "irq_ok m \<Longrightarrow> irq_ok (do_receive_end_command m)"
  "irq_ok m \<Longrightarrow> irq_ok (kbd_cb2_changed m)"
  by (auto simp: via_set_irq_def via_shift_in_data_def via_shift_out_data_def got_keyboard_data_def Let_def
      attempt_finish_inquiry_def do_receive_end_command_def kbd_cb2_changed_def split: option.splits prod.splits)

lemma kbd_irq_ok2 [inv_intros]:
  "irq_ok (do_receive_command m)"
  "irq_ok (mac_kbd_sr_written m)"
  "irq_ok m \<Longrightarrow> irq_ok (mac_kbd_acr_written a m)"
  using kbd_irq_ok(3)[of m]
  by (auto simp: do_receive_command_def mac_kbd_sr_written_def mac_kbd_acr_written_def case_prod_beta Let_def
      intro!: kbd_irq_ok)

lemma kbd_tick_irq_ok [inv_intros]: "irq_ok m \<Longrightarrow> irq_ok (mac_kbd_tick c m)"
  by (auto simp: mac_kbd_tick_def case_prod_beta Let_def intro!: kbd_irq_ok kbd_irq_ok2)

lemma find_key_items:
  assumes "ring_ok k"
  shows "find_key_event k = None \<longleftrightarrow> ring_items k = []"
    "find_key_event k = Some ((c, d), k') \<Longrightarrow> ring_items k = (ucast c, d) # ring_items k' \<and> ring_ok k'"
  using ring_deq_items [OF assms] by (auto simp: ring_deq_def)


definition kbd_wf :: "kbd_state \<Rightarrow> bool" where
  "kbd_wf k \<longleftrightarrow> ring_ok k \<and> (\<forall>i<64. fst (kbd_keyq k i) < 128)"

lemma kbd_wf_init: "kbd_wf mac_input_init"
  by (simp add: kbd_wf_def mac_input_init_def ring_ok_def)

lemma code_7bit: "word_of_int (c AND 0x7F) < (128 :: u8)"
proof -
  have "0 \<le> c AND 0x7F" "c AND 0x7F < 128"
    using take_bit_eq_mask [of 7 c] take_bit_int_less_exp [of 7 c] by (auto simp: mask_eq_exp_minus_1)
  thus ?thesis by (simp add: word_less_def uint_word_of_int_eq take_bit_int_eq_self_iff take_bit_int_eq_self)
qed

lemma kbd_wf_key: "kbd_wf k \<Longrightarrow> kbd_wf (mac_key_event c d k)"
  by (auto simp: kbd_wf_def mac_key_event_def Let_def ring_ok_def and_63 code_7bit)

lemma find_key_code: "kbd_wf k \<Longrightarrow> find_key_event k = Some ((c, d), k') \<Longrightarrow> c < 128 \<and> kbd_wf k'"
  by (auto simp: kbd_wf_def find_key_event_def case_prod_beta ring_ok_def and_63 split: if_splits)

lemma find_key_frame:
  "find_key_event k = Some (e, k') \<Longrightarrow> kbd_st k' = kbd_st k \<and> kbd_inquiry_pending k' = kbd_inquiry_pending k
     \<and> kbd_instant_cmd k' = kbd_instant_cmd k \<and> kbd_timed_action k' = kbd_timed_action k"
  by (auto simp: find_key_event_def case_prod_beta split: if_splits)

text \<open>A reply has been shifted into the Mac: the byte is in the shift register, its flag is up, the data
  line is high and the interrupt line tells of it.\<close>

definition kbd_replied :: "u8 \<Rightarrow> machine \<Rightarrow> bool" where
  "kbd_replied v m \<longleftrightarrow> via_sr (m_via m) = v \<and> bit (via_ifr (m_via m)) 2 \<and> via_icb2 (m_via m) = 1 \<and>
     \<not> kbd_inquiry_pending (m_kbd m) \<and> irq_ok m"

lemma recalc_ifr: "bit (via_ifr (m_via (mac_via_recalc_irq m))) 2 = bit (via_ifr (m_via m)) 2"
  by (simp add: mac_via_recalc_irq_def Let_def VIA_IRQ_ANY_def bit_simps) 

lemma got_data_idle:
  assumes "kbd_st (m_kbd m) = 0" "\<not> kbd_inquiry_pending (m_kbd m)"
  shows "kbd_replied v (got_keyboard_data v m)" "m_kbd (got_keyboard_data v m) = m_kbd m"
  using assms by (simp_all add: kbd_replied_def got_keyboard_data_def via_shift_in_data_def via_set_irq_def
      recalc_ifr via_irqs bit_simps)


lemma tick_inquiry:
  assumes "kbd_inquiry_pending (m_kbd m)" "\<not> (kbd_timed_action (m_kbd m) \<noteq> 0 \<and> kbd_timed_deadline (m_kbd m) \<le> cyc)"
  shows "mac_kbd_tick cyc m =
    (if fst (attempt_finish_inquiry m) then upd_kbd (\<lambda>k. k\<lparr>kbd_inquiry_pending := False\<rparr>) (snd (attempt_finish_inquiry m))
     else if kbd_inquiry_deadline (m_kbd (snd (attempt_finish_inquiry m))) \<le> cyc
     then got_keyboard_data 0x7B (upd_kbd (\<lambda>k. k\<lparr>kbd_inquiry_pending := False\<rparr>) (snd (attempt_finish_inquiry m)))
     else snd (attempt_finish_inquiry m))"
  using assms by (simp only: mac_kbd_tick_def Let_def case_prod_beta if_False if_True simp_thms)

lemma tick_delivers:
  assumes p: "kbd_inquiry_pending (m_kbd m)" and st: "kbd_st (m_kbd m) = 0"
    and t: "\<not> (kbd_timed_action (m_kbd m) \<noteq> 0 \<and> kbd_timed_deadline (m_kbd m) \<le> cyc)"
    and f: "find_key_event (m_kbd m) = Some ((c, d), k)"
  shows "kbd_replied (key_report c d) (mac_kbd_tick cyc m)"
    "m_kbd (mac_kbd_tick cyc m) =
       (if c < 64 then k else k\<lparr>kbd_instant_cmd := key_instant c d\<rparr>)\<lparr>kbd_inquiry_pending := False\<rparr>"
proof -
  define k2 where "k2 = (if c < 64 then k else k\<lparr>kbd_instant_cmd := key_instant c d\<rparr>)"
  have a: "attempt_finish_inquiry m = (True, got_keyboard_data (key_report c d) (m\<lparr>m_kbd := k2\<rparr>))"
    by (simp add: attempt_finish_inquiry_def f k2_def Let_def)
  have st2: "kbd_st k2 = 0" using find_key_frame [OF f] st by (simp add: k2_def)
  have g: "got_keyboard_data v (m\<lparr>m_kbd := k2\<rparr>)\<lparr>m_kbd := k2\<lparr>kbd_inquiry_pending := False\<rparr>\<rparr>
      = got_keyboard_data v (m\<lparr>m_kbd := k2\<lparr>kbd_inquiry_pending := False\<rparr>\<rparr>)"
    "m_kbd (got_keyboard_data v (m\<lparr>m_kbd := k2\<rparr>)) = k2" for v
    using st2 by (simp_all add: got_keyboard_data_def via_shift_in_data_def via_set_irq_def mac_via_recalc_irq_def Let_def)
  have e: "mac_kbd_tick cyc m = got_keyboard_data (key_report c d) (m\<lparr>m_kbd := k2\<lparr>kbd_inquiry_pending := False\<rparr>\<rparr>)"
    by (simp add: tick_inquiry [OF p t] a g)
  show "kbd_replied (key_report c d) (mac_kbd_tick cyc m)"
    unfolding e by (rule got_data_idle(1)) (simp_all add: st2)
  show "m_kbd (mac_kbd_tick cyc m) = (if c < 64 then k else k\<lparr>kbd_instant_cmd := key_instant c d\<rparr>)\<lparr>kbd_inquiry_pending := False\<rparr>"
    unfolding e k2_def [symmetric] by (subst got_data_idle(2)) (simp_all add: st2)
qed

lemma ring_items_other [simp]: "ring_items (k\<lparr>kbd_inquiry_pending := b\<rparr>) = ring_items k"
  "ring_items (k\<lparr>kbd_instant_cmd := i\<rparr>) = ring_items k"
  by (simp_all add: ring_items_def ring_len_def)

subsection \<open>Power-on state of the machine (mac_mem_init)\<close>

definition MAC_RAM_SIZE_DEFAULT :: u32 where "MAC_RAM_SIZE_DEFAULT = 0x100000"
definition MAC_FB_OFFSET :: u32 where "MAC_FB_OFFSET = 0x5900"
definition MAC_VBL_CYCLES :: u64 where "MAC_VBL_CYCLES = 7833600 div 60"

definition via_init :: via6522 where
  "via_init = \<lparr>via_ora = 0x7F, via_orb = 0x87, via_ddra = 0, via_ddrb = 0, via_acr = 0, via_pcr = 0,
     via_ifr = 0, via_ier = 0, via_sr = 0, via_icb2 = 0, via_t1c = 0xFFFF, via_t1l = 0, via_t2c = 0xFFFF,
     via_t2l_lo = 0, via_t1_irq_armed = False, via_t2_irq_armed = False, via_last_cycle = 0,
     via_tick_rem = 0, via_next_vbl = MAC_VBL_CYCLES\<rparr>"

definition scc_init :: mac_scc where
  "scc_init = \<lparr>scc_wr_ptr = 0, scc_irq_on = False, scc_ch = (\<lambda>_. \<lparr>scc_wr = (\<lambda>_. 0), scc_rr = (\<lambda>_. 0),
     scc_rx_byte = 0, scc_tx_byte = 0, scc_rx_avail = False, scc_tx_pending = False\<rparr>)\<rparr>"

definition mac_mem_init :: "m68k_cpu \<Rightarrow> u32 \<Rightarrow> machine" where
  "mac_mem_init cpu ram_size =
     (let ram_size = (if ram_size = 0 then MAC_RAM_SIZE_DEFAULT else ram_size) in
      \<lparr>m_cpu = cpu, m_ram = (\<lambda>_. 0), m_ram_size = ram_size, m_rom = None, m_rom_size = 0, m_overlay = True,
       m_via = via_init, m_rtc = rtc_idle, m_iwm = iwm_init, m_scc = scc_init, m_scsi = mac_scsi_init,
       m_fb_base = ram_size - MAC_FB_OFFSET, m_mouse_btn = 1, m_reads = 0, m_writes = 0,
       m_kbd = mac_input_init, m_sony = sony_init, m_serial_out = [], m_scc_out = [], m_watch = [],
       m_snd_calls = 0, m_nested_out = False\<rparr>)"

text \<open>C16: A pending inquiry is answered: when a key is in the ring the next tick delivers its report,
  from which the Mac reads the key and its direction, and takes it out of the ring; with no key the
  null reply 0x7B goes out once the deadline has passed, and nothing happens before.\<close>

theorem kbd_inquiry_answered:
  assumes "kbd_wf (m_kbd m)" "kbd_st (m_kbd m) = 0" "kbd_inquiry_pending (m_kbd m)"
    "kbd_timed_action (m_kbd m) = 0 \<or> cyc < kbd_timed_deadline (m_kbd m)"
  shows "case ring_items (m_kbd m) of
      [] \<Rightarrow> (if cyc < kbd_inquiry_deadline (m_kbd m) then mac_kbd_tick cyc m = m
            else kbd_replied 0x7B (mac_kbd_tick cyc m))
    | (code, down) # rest \<Rightarrow>
        (let m' = mac_kbd_tick cyc m in
         kbd_replied (via_sr (m_via m')) m' \<and> ring_items (m_kbd m') = rest \<and>
         report_key (via_sr (m_via m')) (kbd_instant_cmd (m_kbd m')) = (ucast code, down))"
proof -
  have ok: "ring_ok (m_kbd m)" using assms(1) by (simp add: kbd_wf_def)
  have t: "\<not> (kbd_timed_action (m_kbd m) \<noteq> 0 \<and> cyc \<ge> kbd_timed_deadline (m_kbd m))" using assms(4) by auto
  show ?thesis
  proof (cases "ring_items (m_kbd m)")
    case Nil
    hence "find_key_event (m_kbd m) = None" using find_key_items(1) [OF ok] by simp
    hence a: "attempt_finish_inquiry m = (False, m)" by (simp add: attempt_finish_inquiry_def)
    have "kbd_replied 0x7B (got_keyboard_data 0x7B (m\<lparr>m_kbd := (m_kbd m)\<lparr>kbd_inquiry_pending := False\<rparr>\<rparr>))"
      by (rule got_data_idle) (simp_all add: assms(2))
    thus ?thesis using tick_inquiry [OF assms(3) t] unfolding Nil a by (simp add: not_less)
  next
    case (Cons e rest)
    obtain c d where e: "e = (c, d)" by (cases e)
    have "find_key_event (m_kbd m) \<noteq> None" using find_key_items(1) [OF ok] Cons by simp
    then obtain c8 d' k where f: "find_key_event (m_kbd m) = Some ((c8, d'), k)" by (metis not_None_eq prod.exhaust)
    have c: "ucast c8 = c" "d' = d" "ring_items k = rest" "c8 < 128"
      using find_key_items(2) [OF ok f] find_key_code [OF assms(1) f] Cons e by auto
    have r: "c8 = ucast c" unfolding c(1) [symmetric] using code_bits(3) [OF c(4)] by (simp add: byte_eq_bits bit_simps)
    note D = tick_delivers [OF assms(3,2) _ f, of cyc] 
    have D1: "kbd_replied (key_report c8 d) (mac_kbd_tick cyc m)" using D(1) t c(2) by auto
    have D2: "m_kbd (mac_kbd_tick cyc m) = (if c8 < 64 then k else k\<lparr>kbd_instant_cmd := key_instant c8 d\<rparr>)\<lparr>kbd_inquiry_pending := False\<rparr>"
      using D(2) t c(2) by auto
    have v: "via_sr (m_via (mac_kbd_tick cyc m)) = key_report c8 d" using D1 by (simp add: kbd_replied_def)
    have "report_key (key_report c8 d) (kbd_instant_cmd (m_kbd (mac_kbd_tick cyc m))) = (c8, d)"
      unfolding D2 using report_decodes_short [of c8 d] report_decodes [OF c(4), of d] by simp
    thus ?thesis using D1 v c(3) r unfolding Cons e by (simp add: D2)
  qed
qed

text \<open>A released keypad key 0x41 waiting for an inquiry.\<close>

definition keypad_waiting :: machine where
  "keypad_waiting = upd_kbd (\<lambda>k. (mac_key_event 0x41 False k)\<lparr>kbd_inquiry_pending := True\<rparr>) (mac_mem_init cpu_zero 0)"

theorem kbd_inquiry_answered_witness:
  "let m' = mac_kbd_tick 0 keypad_waiting in
   kbd_replied (via_sr (m_via m')) m' \<and> report_key (via_sr (m_via m')) (kbd_instant_cmd (m_kbd m')) = (0x41, False)"
proof -
  let ?k = "m_kbd keypad_waiting"
  have k: "?k = (mac_key_event 0x41 False mac_input_init)\<lparr>kbd_inquiry_pending := True\<rparr>"
    by (simp add: keypad_waiting_def mac_mem_init_def Let_def)
  have "ring_items (ring_enq (0x41, False) mac_input_init) = [(0x41, False)]"
    using ring_enq_items(2) [of mac_input_init "(0x41, False)"]
    by (simp add: ring_ok_def ring_items_def ring_len_def mac_input_init_def)
  hence items: "ring_items ?k = [(0x41, False)]" by (simp add: k ring_enq_def)
  have w: "kbd_wf ?k" unfolding k using kbd_wf_key [OF kbd_wf_init, of "0x41" False]
    by (simp add: kbd_wf_def ring_ok_def)
  have s: "kbd_st ?k = 0" "kbd_inquiry_pending ?k" "kbd_timed_action ?k = 0"
    by (simp_all add: k mac_key_event_def mac_input_init_def Let_def)
  show ?thesis using kbd_inquiry_answered [OF w s(1,2), of 0] s(3) by (simp add: items Let_def)
qed

end
