(* ===== verification/MacMem.thy ===== *)
theory MacMem
  imports Keyboard
begin

text \<open>
  core/mac_mem.c: the register file of the 6522 VIA, the Zilog 8530 SCC, the address
  decoder and the bus accesses of the 68000, and the periodic tick of the peripherals.
  A word write to the extension trap window goes to a handler that is a parameter here;
  Sony.thy ties the knot with the driver of core/sony.c.
\<close>

subsection \<open>VIA registers\<close>

definition via_reg :: "u32 \<Rightarrow> nat" where
  "via_reg addr = unat (drop_bit 9 addr AND 0x0F)"

definition via_read_pb :: "machine \<Rightarrow> u8" where
  "via_read_pb m =
     (let v = m_via m;
          i0 = (if rtc_data_out (m_rtc m) then 0x01 else 0);
          i1 = (if m_mouse_btn m \<noteq> 0 then i0 OR 0x08 else i0);
          i2 = (if cycles (m_cpu m) AND 0x80 \<noteq> 0 then i1 OR 0x40 else i1)
      in (via_orb v AND via_ddrb v) OR (i2 AND NOT (via_ddrb v)))"

definition via_read_pa :: "machine \<Rightarrow> u8" where
  "via_read_pa m = (via_ora (m_via m) AND via_ddra (m_via m)) OR (0x80 AND NOT (via_ddra (m_via m)))"

definition via_clear_irq :: "u8 \<Rightarrow> machine \<Rightarrow> machine" where
  "via_clear_irq b m = mac_via_recalc_irq (upd_via (\<lambda>v. v\<lparr>via_ifr := via_ifr v AND NOT b\<rparr>) m)"

definition via_read :: "machine \<Rightarrow> u32 \<Rightarrow> u8 \<times> machine" where
  "via_read m addr =
     (let r = via_reg addr; v = m_via m in
      if r = 0 then let m = via_clear_irq (VIA_IRQ_CB1 OR VIA_IRQ_CB2) m in (via_read_pb m, m)
      else if r = 1 then let m = via_clear_irq (VIA_IRQ_CA1 OR VIA_IRQ_CA2) m in (via_read_pa m, m)
      else if r = 15 then (via_read_pa m, m)
      else if r = 2 then (via_ddrb v, m)
      else if r = 3 then (via_ddra v, m)
      else if r = 4 then (ucast (via_t1c v AND 0xFF), via_clear_irq VIA_IRQ_T1 m)
      else if r = 5 then (ucast (drop_bit 8 (via_t1c v)), m)
      else if r = 6 then (ucast (via_t1l v AND 0xFF), m)
      else if r = 7 then (ucast (drop_bit 8 (via_t1l v)), m)
      else if r = 8 then (ucast (via_t2c v AND 0xFF), via_clear_irq VIA_IRQ_T2 m)
      else if r = 9 then (ucast (drop_bit 8 (via_t2c v)), m)
      else if r = 10 then (via_sr v, via_clear_irq VIA_IRQ_SR m)
      else if r = 11 then (via_acr v, m)
      else if r = 12 then (via_pcr v, m)
      else if r = 13 then (via_ifr v, m)
      else (via_ier v OR 0x80, m))"

definition via_write_ora :: "nat \<Rightarrow> u8 \<Rightarrow> machine \<Rightarrow> machine" where
  "via_write_ora r val m =
     (let m = upd_via (\<lambda>v. v\<lparr>via_ora := val\<rparr>) m;
          m = (if r = 1 then via_clear_irq (VIA_IRQ_CA1 OR VIA_IRQ_CA2) m else m)
      in m\<lparr>m_overlay := (val AND 0x10 \<noteq> 0),
           m_iwm := (m_iwm m)\<lparr>iwm_sel := (if val AND 0x20 \<noteq> 0 then 1 else 0)\<rparr>,
           m_fb_base := (if val AND 0x40 \<noteq> 0 then m_ram_size m - MAC_FB_OFFSET
                         else m_ram_size m - 0x8000 - MAC_FB_OFFSET)\<rparr>)"

definition via_write :: "machine \<Rightarrow> u32 \<Rightarrow> u8 \<Rightarrow> machine" where
  "via_write m addr val =
     (let r = via_reg addr; hi = (\<lambda>old :: u16. (old AND 0x00FF) OR push_bit 8 (ucast val));
          lo = (\<lambda>old :: u16. (old AND 0xFF00) OR ucast val) in
      if r = 0 then
        (let m = via_clear_irq (VIA_IRQ_CB1 OR VIA_IRQ_CB2) m;
             m = m\<lparr>m_rtc := rtc_via_write (m_rtc m) val\<rparr>
         in upd_via (\<lambda>v. v\<lparr>via_orb := val\<rparr>) m)
      else if r = 1 \<or> r = 15 then via_write_ora r val m
      else if r = 2 then upd_via (\<lambda>v. v\<lparr>via_ddrb := val\<rparr>) m
      else if r = 3 then upd_via (\<lambda>v. v\<lparr>via_ddra := val\<rparr>) m
      else if r = 4 then upd_via (\<lambda>v. v\<lparr>via_t1l := lo (via_t1l v)\<rparr>) m
      else if r = 5 then
        via_clear_irq VIA_IRQ_T1 (upd_via (\<lambda>v. v\<lparr>via_t1l := hi (via_t1l v), via_t1c := hi (via_t1l v),
                                                via_t1_irq_armed := True\<rparr>) m)
      else if r = 6 then upd_via (\<lambda>v. v\<lparr>via_t1l := lo (via_t1l v)\<rparr>) m
      else if r = 7 then upd_via (\<lambda>v. v\<lparr>via_t1l := hi (via_t1l v)\<rparr>) m
      else if r = 8 then upd_via (\<lambda>v. v\<lparr>via_t2l_lo := val\<rparr>) m
      else if r = 9 then
        via_clear_irq VIA_IRQ_T2 (upd_via (\<lambda>v. v\<lparr>via_t2c := ucast (via_t2l_lo v) OR push_bit 8 (ucast val),
                                                via_t2_irq_armed := True\<rparr>) m)
      else if r = 10 then mac_kbd_sr_written (upd_via (\<lambda>v. v\<lparr>via_sr := val\<rparr>) m)
      else if r = 11 then mac_kbd_acr_written (via_acr (m_via m)) (upd_via (\<lambda>v. v\<lparr>via_acr := val\<rparr>) m)
      else if r = 12 then upd_via (\<lambda>v. v\<lparr>via_pcr := val\<rparr>) m
      else if r = 13 then via_clear_irq (val AND 0x7F) m
      else mac_via_recalc_irq (upd_via (\<lambda>v. v\<lparr>via_ier :=
             (if val AND 0x80 \<noteq> 0 then via_ier v OR (val AND 0x7F) else via_ier v AND NOT (val AND 0x7F))\<rparr>) m))"

subsection \<open>SCC\<close>

definition scc_chan :: "u32 \<Rightarrow> nat" where
  "scc_chan addr = unat (drop_bit 1 addr AND 1)"

definition scc_is_data :: "u32 \<Rightarrow> bool" where
  "scc_is_data addr \<longleftrightarrow> drop_bit 2 addr AND 1 \<noteq> 0"

abbreviation upd_chan :: "nat \<Rightarrow> (mac_scc_chan \<Rightarrow> mac_scc_chan) \<Rightarrow> machine \<Rightarrow> machine" where
  "upd_chan i f m \<equiv> m\<lparr>m_scc := (m_scc m)\<lparr>scc_ch := (scc_ch (m_scc m))(i := f (scc_ch (m_scc m) i))\<rparr>\<rparr>"

definition mac_scc_rx :: "machine \<Rightarrow> int \<Rightarrow> u8 \<Rightarrow> machine" where
  "mac_scc_rx m channel byte =
     (if channel < 0 \<or> channel > 1 then m
      else upd_chan (nat channel) (\<lambda>c. c\<lparr>scc_rx_byte := byte, scc_rx_avail := True,
             scc_rr := (scc_rr c)(0 := scc_rr c 0 OR 0x01)\<rparr>) m)"

definition scc_read :: "machine \<Rightarrow> u32 \<Rightarrow> u8 \<times> machine" where
  "scc_read m addr =
     (let i = scc_chan addr; c = scc_ch (m_scc m) i in
      if scc_is_data addr then
        (scc_rx_byte c, upd_chan i (\<lambda>c. c\<lparr>scc_rx_avail := False, scc_rr := (scc_rr c)(0 := scc_rr c 0 AND NOT 0x01)\<rparr>) m)
      else
        (let ptr = unat (scc_wr_ptr (m_scc m) AND 0xF); m = m\<lparr>m_scc := (m_scc m)\<lparr>scc_wr_ptr := 0\<rparr>\<rparr> in
         if ptr = 0 then ((if scc_rx_avail c then 0x04 OR 0x08 OR (0x01 OR 0x20) else 0x04 OR 0x08), m)
         else (scc_rr c ptr, m)))"

definition scc_write :: "machine \<Rightarrow> u32 \<Rightarrow> u8 \<Rightarrow> machine" where
  "scc_write m addr v =
     (let i = scc_chan addr in
      if scc_is_data addr then
        (upd_chan i (\<lambda>c. c\<lparr>scc_tx_byte := v, scc_tx_pending := False, scc_rr := (scc_rr c)(0 := scc_rr c 0 OR 0x04)\<rparr>) m)
          \<lparr>m_scc_out := m_scc_out m @ [(i, v)]\<rparr>
      else if scc_wr_ptr (m_scc m) = 0 then
        (let m = m\<lparr>m_scc := (m_scc m)\<lparr>scc_wr_ptr := v AND 0x0F\<rparr>\<rparr>
         in upd_chan i (\<lambda>c. c\<lparr>scc_wr := (scc_wr c)(0 := v)\<rparr>) m)
      else
        (let ptr = unat (scc_wr_ptr (m_scc m) AND 0xF);
             m = upd_chan i (\<lambda>c. c\<lparr>scc_wr := (scc_wr c)(ptr := v)\<rparr>) m
         in m\<lparr>m_scc := (m_scc m)\<lparr>scc_irq_on := (scc_irq_on (m_scc m) \<or> ptr = 9 \<and> v AND 0x08 \<noteq> 0), scc_wr_ptr := 0\<rparr>\<rparr>))"

subsection \<open>SCSI window\<close>

definition scsi_read :: "machine \<Rightarrow> u32 \<Rightarrow> u8 \<times> machine" where
  "scsi_read m addr = (let (v, s) = mac_scsi_reg_read (m_scsi m) (drop_bit 4 addr AND 7) in (v, m\<lparr>m_scsi := s\<rparr>))"

definition scsi_write :: "machine \<Rightarrow> u32 \<Rightarrow> u8 \<Rightarrow> machine" where
  "scsi_write m addr v = m\<lparr>m_scsi := mac_scsi_reg_write (m_scsi m) (drop_bit 4 addr AND 7) v\<rparr>"

subsection \<open>Address decode\<close>

definition MAC_ROM_BASE :: u32 where "MAC_ROM_BASE = 0x400000"
definition MAC_OVL_RAM_BASE :: u32 where "MAC_OVL_RAM_BASE = 0x600000"
definition MAC_SCSI_BASE :: u32 where "MAC_SCSI_BASE = 0x580000"
definition MAC_SCC_RD_BASE :: u32 where "MAC_SCC_RD_BASE = 0x900000"
definition MAC_SCC_WR_BASE :: u32 where "MAC_SCC_WR_BASE = 0xB00000"
definition MAC_IWM_BASE :: u32 where "MAC_IWM_BASE = 0xC00000"
definition MAC_VIA_BASE :: u32 where "MAC_VIA_BASE = 0xE80000"
definition MAC_DEBUG_BASE :: u32 where "MAC_DEBUG_BASE = 0xF00000"
definition SONY_EXTN_BASE :: u32 where "SONY_EXTN_BASE = 0xF40000"

lemmas bases = MAC_ROM_BASE_def MAC_OVL_RAM_BASE_def MAC_SCSI_BASE_def MAC_SCC_RD_BASE_def
  MAC_SCC_WR_BASE_def MAC_IWM_BASE_def MAC_VIA_BASE_def MAC_DEBUG_BASE_def SONY_EXTN_BASE_def

text \<open>A pointer into RAM or ROM is the array and the offset.\<close>

datatype mem_place = RamAt nat | RomAt nat

definition rom_at :: "machine \<Rightarrow> u32 \<Rightarrow> mem_place option" where
  "rom_at m off = (if m_rom m = None then None else Some (RomAt (unat (off mod m_rom_size m))))"

definition ram_at :: "machine \<Rightarrow> u32 \<Rightarrow> mem_place option" where
  "ram_at m off = (if m_ram_size m = 0 then None else Some (RamAt (unat (off mod m_ram_size m))))"

definition mem_ptr :: "machine \<Rightarrow> u32 \<Rightarrow> mem_place option" where
  "mem_ptr m addr =
     (if m_overlay m then
        if addr < 0x100000 then rom_at m addr
        else if addr \<ge> MAC_ROM_BASE \<and> addr < MAC_ROM_BASE + 0x100000 then rom_at m (addr - MAC_ROM_BASE)
        else if addr \<ge> MAC_OVL_RAM_BASE \<and> addr < MAC_OVL_RAM_BASE + 0x100000
          then ram_at m (addr - MAC_OVL_RAM_BASE)
        else None
      else if addr < MAC_ROM_BASE then ram_at m addr
      else if addr \<ge> MAC_ROM_BASE \<and> addr < MAC_ROM_BASE + 0x100000 then rom_at m (addr - MAC_ROM_BASE)
      else None)"

datatype region = RGN_NONE | RGN_VIA | RGN_IWM | RGN_SCC_RD | RGN_SCC_WR | RGN_SCSI | RGN_DEBUG

definition region_of :: "u32 \<Rightarrow> region" where
  "region_of addr =
     (if addr \<ge> MAC_DEBUG_BASE \<and> addr < MAC_DEBUG_BASE + 0x10 then RGN_DEBUG
      else if addr \<ge> MAC_VIA_BASE \<and> addr < 0xF00000 then RGN_VIA
      else if addr \<ge> MAC_IWM_BASE \<and> addr < MAC_VIA_BASE then RGN_IWM
      else if addr \<ge> MAC_SCC_WR_BASE \<and> addr < MAC_IWM_BASE then RGN_SCC_WR
      else if addr \<ge> MAC_SCC_RD_BASE \<and> addr < 0xA00000 then RGN_SCC_RD
      else if addr \<ge> 0x800000 \<and> addr < MAC_SCC_RD_BASE then RGN_SCC_RD
      else if addr \<ge> 0xA00000 \<and> addr < MAC_SCC_WR_BASE then RGN_SCC_WR
      else if addr \<ge> MAC_SCSI_BASE \<and> addr < 0x600000 then RGN_SCSI
      else RGN_NONE)"

text \<open>The byte a pointer designates, \<open>k\<close> bytes further on.\<close>

definition place_byte :: "machine \<Rightarrow> mem_place \<Rightarrow> nat \<Rightarrow> u8" where
  "place_byte m p k = (case p of RamAt i \<Rightarrow> m_ram m (i + k)
     | RomAt i \<Rightarrow> (case m_rom m of None \<Rightarrow> 0 | Some r \<Rightarrow> r (i + k)))"

subsection \<open>Byte access\<close>

definition debug_read :: "machine \<Rightarrow> u32 \<Rightarrow> u8" where
  "debug_read m off =
     (if off \<ge> 4 \<and> off < 4 + 4 then ucast (drop_bit (unat (8 * (3 - (off - 4)))) (ucast (cycles (m_cpu m)) :: u32))
      else 0)"

definition debug_write :: "machine \<Rightarrow> u32 \<Rightarrow> u8 \<Rightarrow> machine" where
  "debug_write m off v =
     (if off = 0 then m\<lparr>m_serial_out := m_serial_out m @ [v]\<rparr>
      else if off = 2 then upd_cpu (\<lambda>c. c\<lparr>exit_code := ucast v, halted := M68K_HALT_GUEST_EXIT, chain_budget := 0\<rparr>) m
      else m)"

definition mmio_read :: "machine \<Rightarrow> u32 \<Rightarrow> u8 \<times> machine" where
  "mmio_read m addr =
     (case region_of addr of
        RGN_VIA \<Rightarrow> via_read m addr
      | RGN_IWM \<Rightarrow> (let (v, i) = iwm_read (m_iwm m) addr in (v, m\<lparr>m_iwm := i\<rparr>))
      | RGN_SCC_RD \<Rightarrow> scc_read m addr
      | RGN_SCC_WR \<Rightarrow> scc_read m addr
      | RGN_SCSI \<Rightarrow> scsi_read m addr
      | RGN_DEBUG \<Rightarrow> (debug_read m (addr - MAC_DEBUG_BASE), m)
      | RGN_NONE \<Rightarrow> (0, m))"

definition mmio_write :: "machine \<Rightarrow> u32 \<Rightarrow> u8 \<Rightarrow> machine" where
  "mmio_write m addr v =
     (case region_of addr of
        RGN_VIA \<Rightarrow> via_write m addr v
      | RGN_IWM \<Rightarrow> m\<lparr>m_iwm := iwm_write (m_iwm m) addr v\<rparr>
      | RGN_SCC_RD \<Rightarrow> scc_write m addr v
      | RGN_SCC_WR \<Rightarrow> scc_write m addr v
      | RGN_SCSI \<Rightarrow> scsi_write m addr v
      | RGN_DEBUG \<Rightarrow> debug_write m (addr - MAC_DEBUG_BASE) v
      | RGN_NONE \<Rightarrow> m)"

definition mac_read8 :: "machine \<Rightarrow> u32 \<Rightarrow> u8 \<times> machine" where
  "mac_read8 m addr =
     (let addr = addr AND 0xFFFFFF; m = m\<lparr>m_reads := m_reads m + 1\<rparr> in
      case mem_ptr m addr of Some p \<Rightarrow> (place_byte m p 0, m) | None \<Rightarrow> mmio_read m addr)"

definition ram_store :: "nat \<Rightarrow> u8 \<Rightarrow> u32 \<Rightarrow> machine \<Rightarrow> machine" where
  "ram_store i v watched m = m\<lparr>m_ram := (m_ram m)(i := v), m_watch := m_watch m @ [watched]\<rparr>"

definition mac_write8 :: "machine \<Rightarrow> u32 \<Rightarrow> u8 \<Rightarrow> machine" where
  "mac_write8 m addr v =
     (let addr = addr AND 0xFFFFFF; m = m\<lparr>m_writes := m_writes m + 1\<rparr> in
      if m_overlay m \<and> addr \<ge> MAC_OVL_RAM_BASE \<and> addr < MAC_OVL_RAM_BASE + 0x100000 \<and> m_ram_size m \<noteq> 0 then
        (let ra = (addr - MAC_OVL_RAM_BASE) mod m_ram_size m in ram_store (unat ra) v ra m)
      else if \<not> m_overlay m \<and> addr < MAC_ROM_BASE \<and> m_ram_size m \<noteq> 0 then
        ram_store (unat (addr mod m_ram_size m)) v addr m
      else mmio_write m addr v)"

subsection \<open>Word and longword access, big endian\<close>

definition mac_read16 :: "machine \<Rightarrow> u32 \<Rightarrow> u16 \<times> machine" where
  "mac_read16 m addr =
     (let addr = addr AND 0xFFFFFF in
      case mem_ptr m addr of
        Some p \<Rightarrow> (push_bit 8 (ucast (place_byte m p 0)) OR ucast (place_byte m p 1), m\<lparr>m_reads := m_reads m + 2\<rparr>)
      | None \<Rightarrow> (let (h, m) = mac_read8 m addr; (l, m) = mac_read8 m (addr + 1)
                in (push_bit 8 (ucast h) OR ucast l, m)))"

definition mac_read32 :: "machine \<Rightarrow> u32 \<Rightarrow> u32 \<times> machine" where
  "mac_read32 m addr =
     (let (h, m) = mac_read16 m addr; (l, m) = mac_read16 m (addr + 2)
      in (push_bit 16 (ucast h) OR ucast l, m))"

definition in_extn :: "u32 \<Rightarrow> bool" where
  "in_extn addr \<longleftrightarrow> addr AND 0xFFFFFF \<ge> SONY_EXTN_BASE \<and> addr AND 0xFFFFFF < SONY_EXTN_BASE + 0x20"

type_synonym extn = "u32 \<Rightarrow> u32 \<Rightarrow> machine \<Rightarrow> machine"

definition mac_write16_with :: "extn \<Rightarrow> machine \<Rightarrow> u32 \<Rightarrow> u16 \<Rightarrow> machine" where
  "mac_write16_with ext m addr v =
     (let addr = addr AND 0xFFFFFF in
      if in_extn addr then ext (addr - SONY_EXTN_BASE) (ucast v) m
      else mac_write8 (mac_write8 m addr (ucast (drop_bit 8 v))) (addr + 1) (ucast (v AND 0xFF)))"

definition mac_write32_with :: "extn \<Rightarrow> machine \<Rightarrow> u32 \<Rightarrow> u32 \<Rightarrow> machine" where
  "mac_write32_with ext m addr v =
     mac_write16_with ext (mac_write16_with ext m addr (ucast (drop_bit 16 v))) (addr + 2) (ucast (v AND 0xFFFF))"

subsection \<open>Periodic tick\<close>

definition sony_tick :: "machine \<Rightarrow> machine" where
  "sony_tick m = upd_sony (\<lambda>s. if sony_insert_delay s > 0 then s\<lparr>sony_insert_delay := sony_insert_delay s - 1\<rparr> else s) m"

definition via_timers :: "u32 \<Rightarrow> via6522 \<Rightarrow> via6522 \<times> bool" where
  "via_timers elapsed v =
     (let (v, ch) =
        (if elapsed \<ge> ucast (via_t1c v) then
           let ch = via_t1_irq_armed v;
               t1c = (if via_t1l v \<noteq> 0 then ucast ((elapsed - ucast (via_t1c v)) mod (ucast (via_t1l v) + 1)) else 0)
           in (v\<lparr>via_ifr := (if ch then via_ifr v OR VIA_IRQ_T1 else via_ifr v),
                 via_t1_irq_armed := (ch \<and> via_acr v AND 0x40 \<noteq> 0), via_t1c := t1c\<rparr>, ch)
         else (v\<lparr>via_t1c := ucast (ucast (via_t1c v) - elapsed)\<rparr>, False))
      in let fire = via_t2_irq_armed v \<and> elapsed \<ge> ucast (via_t2c v)
         in (v\<lparr>via_ifr := (if fire then via_ifr v OR VIA_IRQ_T2 else via_ifr v),
               via_t2_irq_armed := (via_t2_irq_armed v \<and> \<not> fire),
               via_t2c := ucast (ucast (via_t2c v) - elapsed)\<rparr>, ch \<or> fire))"

definition via_clock :: "u64 \<Rightarrow> via6522 \<Rightarrow> via6522 \<times> bool" where
  "via_clock cyc v =
     (let last = (if via_last_cycle v = 0 then cyc else via_last_cycle v);
          total = via_tick_rem v + ucast (cyc - last);
          elapsed = total div 10;
          v = v\<lparr>via_last_cycle := cyc, via_tick_rem := total mod 10\<rparr>
      in if elapsed > 0 then via_timers elapsed v else (v, False))"

definition vbl_edge :: "machine \<Rightarrow> machine" where
  "vbl_edge m =
     (let m = upd_via (\<lambda>v. v\<lparr>via_ifr := via_ifr v OR VIA_IRQ_CA1, via_next_vbl := via_next_vbl v + MAC_VBL_CYCLES\<rparr>) m;
          m = sony_tick m
      in m\<lparr>m_snd_calls := m_snd_calls m + 1\<rparr>)"

text \<open>The loop over the vertical blanks that have passed; the bound on its turns is given by its caller.\<close>

fun vbl_loop :: "nat \<Rightarrow> u64 \<Rightarrow> machine \<times> bool \<Rightarrow> machine \<times> bool" where
  "vbl_loop 0 cyc s = s"
| "vbl_loop (Suc n) cyc s =
     (if cyc \<ge> via_next_vbl (m_via (fst s)) then vbl_loop n cyc (vbl_edge (fst s), True) else s)"

definition vbl_turns :: "u64 \<Rightarrow> nat" where
  "vbl_turns cyc = Suc (unat cyc div 130560)"

definition mac_mem_tick :: "u64 \<Rightarrow> machine \<Rightarrow> machine" where
  "mac_mem_tick cyc m =
     (let (v, ch) = via_clock cyc (m_via m);
          (m, ch) = vbl_loop (vbl_turns cyc) cyc (m\<lparr>m_via := v\<rparr>, ch);
          m = (if ch then mac_via_recalc_irq m else m)
      in mac_kbd_tick cyc m)"

subsection \<open>Images\<close>

definition mac_load_ram_image :: "machine \<Rightarrow> u32 \<Rightarrow> u8 list \<Rightarrow> machine" where
  "mac_load_ram_image m addr img =
     (if addr \<ge> m_ram_size m then m
      else let len = word_of_nat (length img);
               n = (if addr + len > m_ram_size m then m_ram_size m - addr else len)
           in m\<lparr>m_ram := (\<lambda>i. if unat addr \<le> i \<and> i < unat addr + unat n then img ! (i - unat addr) else m_ram m i),
                m_overlay := False\<rparr>)"

subsection \<open>The interrupt line stays consistent\<close>

definition irq_line :: "u8 \<Rightarrow> u8 \<Rightarrow> u8 \<Rightarrow> bool" where
  "irq_line ifr ier pend \<longleftrightarrow> (bit ifr 7 \<longleftrightarrow> (ifr AND ier) AND 0x7F \<noteq> 0) \<and>
     pend = (if (ifr AND ier) AND 0x7F \<noteq> 0 then 1 else 0)"

lemma irq_ok_line: "irq_ok m = irq_line (via_ifr (m_via m)) (via_ier (m_via m)) (pending_irq (m_cpu m))"
  by (simp add: irq_ok_def irq_line_def via_active_def)

lemma clear_irq_ok [simp]: "irq_ok (via_clear_irq b m)" by (simp add: via_clear_irq_def)

lemma irq_ok_other [simp]:
  "irq_ok (m\<lparr>m_rtc := r\<rparr>) = irq_ok m" "irq_ok (m\<lparr>m_iwm := i\<rparr>) = irq_ok m"
  "irq_ok (m\<lparr>m_scc := c\<rparr>) = irq_ok m" "irq_ok (m\<lparr>m_scsi := sc\<rparr>) = irq_ok m"
  "irq_ok (m\<lparr>m_reads := n\<rparr>) = irq_ok m" "irq_ok (m\<lparr>m_writes := n\<rparr>) = irq_ok m"
  "irq_ok (m\<lparr>m_overlay := b\<rparr>) = irq_ok m" "irq_ok (m\<lparr>m_fb_base := n32\<rparr>) = irq_ok m"
  "irq_ok (m\<lparr>m_ram := ra\<rparr>) = irq_ok m" "irq_ok (m\<lparr>m_watch := w\<rparr>) = irq_ok m"
  "irq_ok (m\<lparr>m_serial_out := so\<rparr>) = irq_ok m" "irq_ok (m\<lparr>m_scc_out := co\<rparr>) = irq_ok m"
  "irq_ok (m\<lparr>m_snd_calls := k\<rparr>) = irq_ok m" "irq_ok (m\<lparr>m_sony := sy\<rparr>) = irq_ok m"
  by (simp_all add: irq_ok_line)

lemma via_irq_ok: "irq_ok m \<Longrightarrow> irq_ok (snd (via_read m addr))" "irq_ok m \<Longrightarrow> irq_ok (via_write m addr val)"
proof -
  assume m: "irq_ok m"
  show "irq_ok (snd (via_read m addr))" using m by (simp add: via_read_def Let_def)
  have ora: "irq_ok (via_write_ora r val m)" for r
    using m clear_irq_ok [of "VIA_IRQ_CA1 OR VIA_IRQ_CA2" "upd_via (\<lambda>v. v\<lparr>via_ora := val\<rparr>) m"]
    by (simp add: via_write_ora_def Let_def irq_ok_line)
  have b: "irq_ok (upd_via (\<lambda>v. v\<lparr>via_orb := val\<rparr>) m')" if "irq_ok m'" for m' using that by (simp add: irq_ok_line)
  have acr: "irq_ok (mac_kbd_acr_written (via_acr (m_via m)) (upd_via (\<lambda>v. v\<lparr>via_acr := val\<rparr>) m))"
    by (rule kbd_irq_ok2) (use m in \<open>simp add: irq_ok_line\<close>)
  have plain: "irq_ok (upd_via (\<lambda>v. v\<lparr>via_ddrb := x\<rparr>) m)" "irq_ok (upd_via (\<lambda>v. v\<lparr>via_ddra := x\<rparr>) m)"
    "irq_ok (upd_via (\<lambda>v. v\<lparr>via_t1l := x16\<rparr>) m)" "irq_ok (upd_via (\<lambda>v. v\<lparr>via_t2l_lo := x\<rparr>) m)"
    "irq_ok (upd_via (\<lambda>v. v\<lparr>via_pcr := x\<rparr>) m)" for x x16 using m by (simp_all add: irq_ok_line)
  show "irq_ok (via_write m addr val)"
    unfolding via_write_def Let_def using plain acr kbd_irq_ok2(2)
    by (simp only: ora clear_irq_ok recalc_irq_ok if_split if_cancel irq_ok_other b) (simp add: b)
qed

lemma bus_irq_ok [inv_intros]:
  assumes "irq_ok m"
  shows "irq_ok (snd (mac_read8 m addr))" "irq_ok (mac_write8 m addr v)"
proof -
  have rd: "irq_ok (snd (mmio_read m addr))" if "irq_ok m" for m addr
    using that via_irq_ok(1) [OF that]
    by (auto simp: mmio_read_def scc_read_def scsi_read_def Let_def split: region.splits prod.splits)
  have cpu: "irq_ok (upd_cpu (\<lambda>c. c\<lparr>exit_code := x, halted := h, chain_budget := b\<rparr>) m)" if "irq_ok m" for m x h b
    using that by (simp add: irq_ok_line)
  have wr: "irq_ok (mmio_write m addr v)" if "irq_ok m" for m addr
    using that via_irq_ok(2) [OF that] cpu [OF that]
    by (auto simp: mmio_write_def scc_write_def scsi_write_def debug_write_def Let_def split: region.splits)
  show "irq_ok (snd (mac_read8 m addr))" using assms rd by (simp add: mac_read8_def Let_def split: option.splits)
  show "irq_ok (mac_write8 m addr v)" using assms wr by (simp add: mac_write8_def Let_def ram_store_def)
qed

lemma bus16_irq_ok [inv_intros]:
  assumes "irq_ok m"
  shows "irq_ok (snd (mac_read16 m addr))"
  using assms by (auto simp: mac_read16_def case_prod_beta Let_def bus_irq_ok split: option.splits)

lemma bus32_irq_ok [inv_intros]: "irq_ok m \<Longrightarrow> irq_ok (snd (mac_read32 m addr))"
  by (simp add: mac_read32_def case_prod_beta bus16_irq_ok)

lemma write_with_irq_ok:
  assumes "irq_ok m" "\<And>off d m. irq_ok m \<Longrightarrow> irq_ok (ext off d m)"
  shows "irq_ok (mac_write16_with ext m a v)" "irq_ok (mac_write32_with ext m a v32)"
proof -
  have w: "irq_ok (mac_write16_with ext m a v)" if "irq_ok m" for m a v
    using that assms(2) by (simp add: mac_write16_with_def Let_def bus_irq_ok)
  show "irq_ok (mac_write16_with ext m a v)" "irq_ok (mac_write32_with ext m a v32)"
    using assms(1) by (simp_all add: w mac_write32_with_def)
qed

subsection \<open>The vertical blank\<close>

lemma timers_quiet: "via_timers e v = (v', False) \<Longrightarrow> via_ifr v' = via_ifr v \<and> via_ier v' = via_ier v"
  by (auto simp: via_timers_def Let_def split: if_splits)

lemma clock_quiet: "via_clock c v = (v', False) \<Longrightarrow> via_ifr v' = via_ifr v \<and> via_ier v' = via_ier v"
  by (auto simp: via_clock_def Let_def split: if_splits dest: timers_quiet)

lemma clock_next_vbl [simp]: "via_next_vbl (fst (via_clock c v)) = via_next_vbl v"
  by (simp add: via_clock_def via_timers_def Let_def)

definition vbl_due :: "u64 \<Rightarrow> u64 \<Rightarrow> nat" where
  "vbl_due cyc next = (if next \<le> cyc then Suc ((unat cyc - unat next) div 130560) else 0)"

lemma vbl_due_rec:
  assumes "next \<le> cyc" "unat cyc + 130560 < 2 ^ 64"
  shows "vbl_due cyc next = Suc (vbl_due cyc (next + MAC_VBL_CYCLES))"
    "unat (next + MAC_VBL_CYCLES) = unat next + 130560"
proof -
  have le: "unat next \<le> unat cyc" using assms(1) by (simp add: word_le_nat_alt)
  show n: "unat (next + MAC_VBL_CYCLES) = unat next + 130560"
    using le assms(2) by (subst unat_add_lem [THEN iffD1]) (simp_all add: MAC_VBL_CYCLES_def)
  show "vbl_due cyc next = Suc (vbl_due cyc (next + MAC_VBL_CYCLES))"
  proof (cases "unat cyc < unat next + 130560")
    case True thus ?thesis using le by (simp add: vbl_due_def word_le_nat_alt n)
  next
    case False
    hence "unat cyc - unat next = (unat cyc - (unat next + 130560)) + 130560" by simp
    hence "(unat cyc - unat next) div 130560 = Suc ((unat cyc - (unat next + 130560)) div 130560)"
      by (metis div_add_self2 add_Suc_right add_0_right One_nat_def zero_neq_numeral)
    thus ?thesis using le False by (simp add: vbl_due_def word_le_nat_alt n)
  qed
qed

lemma edge_next [simp]: "via_next_vbl (m_via (vbl_edge m)) = via_next_vbl (m_via m) + MAC_VBL_CYCLES"
  by (simp add: vbl_edge_def Let_def sony_tick_def)

lemma edge_other [simp]:
  "m_snd_calls (vbl_edge m) = Suc (m_snd_calls m)"
  "sony_insert_delay (m_sony (vbl_edge m)) =
     (if sony_insert_delay (m_sony m) > 0 then sony_insert_delay (m_sony m) - 1 else sony_insert_delay (m_sony m))"
  by (simp_all add: vbl_edge_def Let_def sony_tick_def)

lemma vbl_loop_due:
  assumes "unat cyc + 130560 < 2 ^ 64" "vbl_due cyc (via_next_vbl (m_via m)) \<le> n"
  shows "vbl_loop n cyc (m, ch) = ((vbl_edge ^^ vbl_due cyc (via_next_vbl (m_via m))) m,
           ch \<or> 0 < vbl_due cyc (via_next_vbl (m_via m)))"
  using assms(2)
proof (induction n arbitrary: m ch)
  case (Suc n)
  show ?case
  proof (cases "via_next_vbl (m_via m) \<le> cyc")
    case True
    have d: "vbl_due cyc (via_next_vbl (m_via m)) = Suc (vbl_due cyc (via_next_vbl (m_via (vbl_edge m))))"
      using vbl_due_rec(1) [OF True assms(1)] by simp
    show ?thesis using True Suc.IH [of "vbl_edge m" True] Suc.prems unfolding d by (simp add: funpow_swap1)
  qed (simp add: vbl_due_def)
qed (simp add: vbl_due_def)

lemma vbl_turns_enough: "vbl_due cyc next \<le> vbl_turns cyc"
  by (auto simp: vbl_due_def vbl_turns_def intro: div_le_mono)

lemma edges_state:
  assumes "unat cyc + 130560 < 2 ^ 64" "k \<le> vbl_due cyc (via_next_vbl (m_via m))"
  shows "unat (via_next_vbl (m_via ((vbl_edge ^^ k) m))) = unat (via_next_vbl (m_via m)) + k * 130560 \<and>
    m_snd_calls ((vbl_edge ^^ k) m) = m_snd_calls m + k \<and>
    sony_insert_delay (m_sony ((vbl_edge ^^ k) m)) =
       (if sony_insert_delay (m_sony m) \<le> 0 then sony_insert_delay (m_sony m) else max 0 (sony_insert_delay (m_sony m) - int k))"
  using assms(2)
proof (induction k)
  case (Suc k)
  let ?n = "via_next_vbl (m_via ((vbl_edge ^^ k) m))"
  have "k * 130560 \<le> unat cyc - unat (via_next_vbl (m_via m))" "via_next_vbl (m_via m) \<le> cyc"
    using Suc.prems by (auto simp: vbl_due_def less_eq_div_iff_mult_less_eq split: if_splits)
  hence "?n \<le> cyc" using Suc.IH Suc.prems by (simp add: word_le_nat_alt)
  hence "unat (?n + MAC_VBL_CYCLES) = unat ?n + 130560" by (rule vbl_due_rec(2) [OF _ assms(1)])
  thus ?case using Suc by auto
qed simp

text \<open>The keyboard touches only its own variables, the shift register, CB2, the flags and the
  interrupt line.\<close>

definition kbd_touches :: "machine \<Rightarrow> machine \<Rightarrow> bool" where
  "kbd_touches m m' \<longleftrightarrow> m_ram m' = m_ram m \<and> m_ram_size m' = m_ram_size m \<and> m_rom m' = m_rom m \<and>
     m_rom_size m' = m_rom_size m \<and> m_overlay m' = m_overlay m \<and> m_sony m' = m_sony m \<and> m_rtc m' = m_rtc m \<and>
     m_iwm m' = m_iwm m \<and> m_scsi m' = m_scsi m \<and> m_scc m' = m_scc m \<and> m_snd_calls m' = m_snd_calls m \<and>
     m_fb_base m' = m_fb_base m \<and> m_watch m' = m_watch m \<and> m_nested_out m' = m_nested_out m \<and>
     (m_cpu m')\<lparr>pending_irq := 0\<rparr> = (m_cpu m)\<lparr>pending_irq := 0\<rparr> \<and>
     (m_via m')\<lparr>via_ifr := 0, via_sr := 0, via_icb2 := 0\<rparr> = (m_via m)\<lparr>via_ifr := 0, via_sr := 0, via_icb2 := 0\<rparr>"

lemma kbd_touches_trans [trans]: "kbd_touches a b \<Longrightarrow> kbd_touches b c \<Longrightarrow> kbd_touches a c"
  by (simp add: kbd_touches_def)

lemma kbd_touches_refl [simp]: "kbd_touches m m" by (simp add: kbd_touches_def)

lemma kbd_touches_upd [simp]:
  "kbd_touches m (m'\<lparr>m_kbd := k\<rparr>) = kbd_touches m m'"
  "kbd_touches (m\<lparr>m_kbd := k\<rparr>) m' = kbd_touches m m'"
  "kbd_touches m (m'\<lparr>m_via := (m_via m')\<lparr>via_icb2 := b\<rparr>\<rparr>) = kbd_touches m m'"
  "kbd_touches m (m'\<lparr>m_via := (m_via m')\<lparr>via_sr := b\<rparr>\<rparr>) = kbd_touches m m'"
  "kbd_touches m (m'\<lparr>m_via := (m_via m')\<lparr>via_ifr := b\<rparr>\<rparr>) = kbd_touches m m'"
  "kbd_touches m (m'\<lparr>m_via := (m_via m')\<lparr>via_sr := v, via_ifr := b\<rparr>\<rparr>) = kbd_touches m m'"
  "kbd_touches m (m'\<lparr>m_kbd := k, m_via := w\<rparr>) = kbd_touches m (m'\<lparr>m_via := w\<rparr>)"
  by (simp_all add: kbd_touches_def)

lemma kbd_touches_recalc [simp]: "kbd_touches m (mac_via_recalc_irq m') = kbd_touches m m'"
  by (simp add: kbd_touches_def) (simp add: mac_via_recalc_irq_def Let_def)

lemma kbd_ops_touch [simp]:
  "kbd_touches m (via_set_irq b m') = kbd_touches m m'" "kbd_touches m (via_shift_in_data v m') = kbd_touches m m'"
  "kbd_touches m (snd (via_shift_out_data m')) = kbd_touches m m'"
  "kbd_touches m (got_keyboard_data v m') = kbd_touches m m'"
  "kbd_touches m (do_receive_end_command m') = kbd_touches m m'"
  "kbd_touches m (kbd_cb2_changed m') = kbd_touches m m'"
  by (simp_all add: via_set_irq_def via_shift_in_data_def via_shift_out_data_def Let_def
      got_keyboard_data_def do_receive_end_command_def kbd_cb2_changed_def)

lemma kbd_inquiry_touch [simp]: "kbd_touches m (snd (attempt_finish_inquiry m')) = kbd_touches m m'"
  by (simp add: attempt_finish_inquiry_def Let_def split: option.splits prod.splits)

lemma kbd_hooks_touch [simp]:
  "kbd_touches m (do_receive_command m') = kbd_touches m m'"
  "kbd_touches m (mac_kbd_sr_written m') = kbd_touches m m'"
  "kbd_touches m (mac_kbd_acr_written a m') = kbd_touches m m'"
  by (simp_all add: do_receive_command_def mac_kbd_sr_written_def mac_kbd_acr_written_def case_prod_beta Let_def)

lemma kbd_tick_touch [simp]: "kbd_touches m (mac_kbd_tick c m') = kbd_touches m m'"
  by (simp add: mac_kbd_tick_def case_prod_beta Let_def)

lemma kbd_tick_frame [simp]:
  "m_ram (mac_kbd_tick c m) = m_ram m" "m_rom (mac_kbd_tick c m) = m_rom m" "m_sony (mac_kbd_tick c m) = m_sony m"
  "m_snd_calls (mac_kbd_tick c m) = m_snd_calls m"
  "via_next_vbl (m_via (mac_kbd_tick c m)) = via_next_vbl (m_via m)"
proof -
  have t: "kbd_touches m (mac_kbd_tick c m)" by simp
  thus "m_ram (mac_kbd_tick c m) = m_ram m" "m_rom (mac_kbd_tick c m) = m_rom m" "m_sony (mac_kbd_tick c m) = m_sony m"
    "m_snd_calls (mac_kbd_tick c m) = m_snd_calls m" by (simp_all add: kbd_touches_def)
  have "(m_via (mac_kbd_tick c m))\<lparr>via_ifr := 0, via_sr := 0, via_icb2 := 0\<rparr> = (m_via m)\<lparr>via_ifr := 0, via_sr := 0, via_icb2 := 0\<rparr>"
    using t by (simp add: kbd_touches_def)
  from arg_cong [OF this, of via_next_vbl] show "via_next_vbl (m_via (mac_kbd_tick c m)) = via_next_vbl (m_via m)" by simp
qed

lemma tick_irq_ok [inv_intros]:
  assumes "irq_ok m" "unat cyc + 130560 < 2 ^ 64"
  shows "irq_ok (mac_mem_tick cyc m)"
proof -
  obtain v ch where c: "via_clock cyc (m_via m) = (v, ch)" by (cases "via_clock cyc (m_via m)")
  let ?m = "m\<lparr>m_via := v\<rparr>" and ?d = "vbl_due cyc (via_next_vbl v)"
  have l: "vbl_loop (vbl_turns cyc) cyc (?m, ch) = ((vbl_edge ^^ ?d) ?m, ch \<or> 0 < ?d)"
    using vbl_loop_due [OF assms(2), of ?m "vbl_turns cyc" ch] vbl_turns_enough by simp
  have "irq_ok (if ch \<or> 0 < ?d then mac_via_recalc_irq ((vbl_edge ^^ ?d) ?m) else (vbl_edge ^^ ?d) ?m)"
  proof (cases "ch \<or> 0 < ?d")
    case False
    thus ?thesis using assms(1) clock_quiet [of cyc "m_via m" v] c by (simp add: irq_ok_line)
  qed (simp only: if_True recalc_irq_ok)
  thus ?thesis unfolding mac_mem_tick_def by (simp add: c l kbd_tick_irq_ok)
qed

text \<open>The tick raises exactly the vertical blanks that have passed: afterwards the next edge is the
  first one after the current cycle, the disk-insert timer has counted down once per edge, the sound
  output has been fed once per edge, and the interrupt line stays consistent with the VIA flags.\<close>

theorem vbl_edges:
  assumes "unat cyc + 130560 < 2 ^ 64"
  shows "let n = vbl_due cyc (via_next_vbl (m_via m)); m' = mac_mem_tick cyc m in
    unat (via_next_vbl (m_via m')) = unat (via_next_vbl (m_via m)) + n * 130560 \<and>
    unat cyc < unat (via_next_vbl (m_via m')) \<and> (n = 0 \<or> unat (via_next_vbl (m_via m')) \<le> unat cyc + 130560) \<and>
    m_snd_calls m' = m_snd_calls m + n \<and>
    sony_insert_delay (m_sony m') =
      (if sony_insert_delay (m_sony m) \<le> 0 then sony_insert_delay (m_sony m) else max 0 (sony_insert_delay (m_sony m) - int n)) \<and>
    (irq_ok m \<longrightarrow> irq_ok m')"
proof -
  obtain v ch where c: "via_clock cyc (m_via m) = (v, ch)" by (cases "via_clock cyc (m_via m)")
  hence nx: "via_next_vbl v = via_next_vbl (m_via m)" using clock_next_vbl [of cyc "m_via m"] by simp
  let ?m = "m\<lparr>m_via := v\<rparr>" and ?n = "vbl_due cyc (via_next_vbl (m_via m))"
  have l: "vbl_loop (vbl_turns cyc) cyc (?m, ch) = ((vbl_edge ^^ ?n) ?m, ch \<or> 0 < ?n)"
    using vbl_loop_due [OF assms, of ?m "vbl_turns cyc" ch] vbl_turns_enough nx by simp
  define e where "e = (vbl_edge ^^ ?n) ?m"
  have e: "unat (via_next_vbl (m_via e)) = unat (via_next_vbl (m_via m)) + ?n * 130560"
    "m_snd_calls e = m_snd_calls m + ?n" "sony_insert_delay (m_sony e) =
       (if sony_insert_delay (m_sony m) \<le> 0 then sony_insert_delay (m_sony m) else max 0 (sony_insert_delay (m_sony m) - int ?n))"
    using edges_state [OF assms, of ?n ?m] by (simp_all add: nx e_def)
  have t: "mac_mem_tick cyc m = mac_kbd_tick cyc (if ch \<or> 0 < ?n then mac_via_recalc_irq e else e)"
    by (simp add: mac_mem_tick_def c l e_def)
  have q: "?n = 0 \<and> cyc < via_next_vbl (m_via m) \<or>
      unat cyc < unat (via_next_vbl (m_via m)) + ?n * 130560 \<and> unat (via_next_vbl (m_via m)) + ?n * 130560 \<le> unat cyc + 130560"
  proof (cases "via_next_vbl (m_via m) \<le> cyc")
    case True
    let ?x = "unat cyc - unat (via_next_vbl (m_via m))"
    have "?x div 130560 * 130560 \<le> ?x" "?x < ?x div 130560 * 130560 + 130560"
      using div_mult_mod_eq [of ?x 130560] mod_less_divisor [of 130560 ?x] by linarith+
    thus ?thesis using True by (simp add: vbl_due_def word_le_nat_alt) linarith
  qed (auto simp: vbl_due_def not_le)
  show ?thesis using e q tick_irq_ok [OF _ assms, of m] unfolding t Let_def by (simp add: word_less_nat_alt) linarith
qed

theorem vbl_edges_witness:
  "let m = mac_mem_init cpu_zero 0; m' = mac_mem_tick 300000 m in
   unat (via_next_vbl (m_via m')) = 391680 \<and> m_snd_calls m' = 2 \<and> irq_ok m'"
proof -
  have i: "irq_ok (mac_mem_init cpu_zero 0)"
    by (simp add: irq_ok_line irq_line_def mac_mem_init_def via_init_def cpu_zero_def Let_def)
  have n: "via_next_vbl (m_via (mac_mem_init cpu_zero 0)) = 130560" "m_snd_calls (mac_mem_init cpu_zero 0) = 0"
    by (simp_all add: mac_mem_init_def via_init_def MAC_VBL_CYCLES_def Let_def)
  have d: "vbl_due 300000 130560 = 2" by (simp add: vbl_due_def)
  show ?thesis using vbl_edges [of 300000 "mac_mem_init cpu_zero 0"] i by (simp add: n d Let_def)
qed

subsection \<open>The byte store interface\<close>

fun put_bytes :: "('s \<Rightarrow> u32 \<Rightarrow> 'b \<Rightarrow> 's) \<Rightarrow> 's \<Rightarrow> u32 \<Rightarrow> 'b list \<Rightarrow> 's" where
  "put_bytes wr s a [] = s"
| "put_bytes wr s a (b # bs) = put_bytes wr (wr s a b) (a + 1) bs"

definition get_bytes :: "('s \<Rightarrow> u32 \<Rightarrow> 'b) \<Rightarrow> 's \<Rightarrow> u32 \<Rightarrow> nat \<Rightarrow> 'b list" where
  "get_bytes rd s a n = map (\<lambda>k. rd s (a + of_nat k)) [0..<n]"

locale byte_store =
  fixes rd :: "'s \<Rightarrow> u32 \<Rightarrow> 'b" and wr :: "'s \<Rightarrow> u32 \<Rightarrow> 'b \<Rightarrow> 's" and cell :: "'s \<Rightarrow> u32 \<Rightarrow> nat option"
  assumes cell_wr: "cell s a = Some i \<Longrightarrow> cell (wr s a v) b = cell s b"
    and rd_same: "cell s a = Some i \<Longrightarrow> cell s b = Some i \<Longrightarrow> rd (wr s a v) b = v"
    and rd_other: "cell s a = Some i \<Longrightarrow> cell s b = Some j \<Longrightarrow> i \<noteq> j \<Longrightarrow> rd (wr s a v) b = rd s b"
begin

definition run_at :: "'s \<Rightarrow> u32 \<Rightarrow> nat \<Rightarrow> nat \<Rightarrow> bool" where
  "run_at s a i n \<longleftrightarrow> (\<forall>k<n. cell s (a + of_nat k) = Some (i + k))"

lemma run_Suc: "run_at s a i (Suc n) \<longleftrightarrow> cell s a = Some i \<and> run_at s (a + 1) (Suc i) n"
proof
  assume r: "run_at s a i (Suc n)"
  show "cell s a = Some i \<and> run_at s (a + 1) (Suc i) n"
    using r [unfolded run_at_def, rule_format, of 0] r [unfolded run_at_def, rule_format, of "Suc _"]
    by (auto simp: run_at_def algebra_simps)
next
  assume r: "cell s a = Some i \<and> run_at s (a + 1) (Suc i) n"
  show "run_at s a i (Suc n)" unfolding run_at_def
  proof (intro allI impI)
    fix k assume "k < Suc n"
    thus "cell s (a + of_nat k) = Some (i + k)"
      using r by (cases k) (auto simp: run_at_def algebra_simps)
  qed
qed

lemma put_cell: "run_at s a i (length bs) \<Longrightarrow> cell (put_bytes wr s a bs) b = cell s b"
proof (induction bs arbitrary: s a i)
  case (Cons v bs)
  have c: "cell s a = Some i" "run_at s (a + 1) (Suc i) (length bs)" using Cons.prems by (simp_all add: run_Suc)
  have "run_at (wr s a v) (a + 1) (Suc i) (length bs)" using c cell_wr [OF c(1)] by (simp add: run_at_def)
  thus ?case using Cons.IH [of "wr s a v" "a + 1" "Suc i"] cell_wr [OF c(1)] by simp
qed simp

lemma put_other:
  "run_at s a i (length bs) \<Longrightarrow> cell s b = Some j \<Longrightarrow> j < i \<or> i + length bs \<le> j \<Longrightarrow>
     rd (put_bytes wr s a bs) b = rd s b"
proof (induction bs arbitrary: s a i)
  case (Cons v bs)
  have c: "cell s a = Some i" "run_at s (a + 1) (Suc i) (length bs)" using Cons.prems by (simp_all add: run_Suc)
  have r: "run_at (wr s a v) (a + 1) (Suc i) (length bs)" using c cell_wr [OF c(1)] by (simp add: run_at_def)
  have "rd (put_bytes wr (wr s a v) (a + 1) bs) b = rd (wr s a v) b"
    using Cons.IH [OF r] Cons.prems(2,3) cell_wr [OF c(1)] by auto
  also have "\<dots> = rd s b" using Cons.prems(2,3) by (intro rd_other [OF c(1)]) auto
  finally show ?case by simp
qed simp

lemma put_get: "run_at s a i (length bs) \<Longrightarrow> get_bytes rd (put_bytes wr s a bs) a (length bs) = bs"
proof (induction bs arbitrary: s a i)
  case (Cons v bs)
  have c: "cell s a = Some i" "run_at s (a + 1) (Suc i) (length bs)" using Cons.prems by (simp_all add: run_Suc)
  have r: "run_at (wr s a v) (a + 1) (Suc i) (length bs)" using c cell_wr [OF c(1)] by (simp add: run_at_def)
  have h: "rd (put_bytes wr (wr s a v) (a + 1) bs) a = v"
    using put_other [OF r, of a i] cell_wr [OF c(1)] c(1) rd_same [OF c(1) c(1)] by simp
  have "[0..<Suc (length bs)] = 0 # map Suc [0..<length bs]" by (simp add: map_Suc_upt upt_conv_Cons del: upt_Suc)
  hence g: "get_bytes rd s' a (Suc (length bs)) = rd s' a # get_bytes rd s' (a + 1) (length bs)" for s'
    by (simp add: get_bytes_def algebra_simps)
  show ?case using Cons.IH [OF r] h by (simp only: put_bytes.simps list.size add_Suc_right add_0_right g)
qed (simp add: get_bytes_def)

end

subsection \<open>RAM is a byte store\<close>

definition ram_cell :: "machine \<Rightarrow> u32 \<Rightarrow> nat option" where
  "ram_cell m a = (case mem_ptr m (a AND 0xFFFFFF) of Some (RamAt i) \<Rightarrow> Some i | _ \<Rightarrow> None)"

lemma ram_cell_Some: "ram_cell m a = Some i \<longleftrightarrow> mem_ptr m (a AND 0xFFFFFF) = Some (RamAt i)"
  by (auto simp: ram_cell_def split: option.splits mem_place.splits)

lemma at_upd [simp]:
  "ram_at (m\<lparr>m_reads := n\<rparr>) a = ram_at m a" "ram_at (m\<lparr>m_writes := n\<rparr>) a = ram_at m a"
  "ram_at (m\<lparr>m_ram := r\<rparr>) a = ram_at m a" "ram_at (m\<lparr>m_watch := w\<rparr>) a = ram_at m a"
  "rom_at (m\<lparr>m_reads := n\<rparr>) a = rom_at m a" "rom_at (m\<lparr>m_writes := n\<rparr>) a = rom_at m a"
  "rom_at (m\<lparr>m_ram := r\<rparr>) a = rom_at m a" "rom_at (m\<lparr>m_watch := w\<rparr>) a = rom_at m a"
  "ram_at (m\<lparr>m_sony := sy\<rparr>) a = ram_at m a" "ram_at (m\<lparr>m_cpu := c\<rparr>) a = ram_at m a"
  "rom_at (m\<lparr>m_sony := sy\<rparr>) a = rom_at m a" "rom_at (m\<lparr>m_cpu := c\<rparr>) a = rom_at m a"
  by (simp_all add: ram_at_def rom_at_def)

lemma mem_ptr_upd [simp]:
  "mem_ptr (m\<lparr>m_reads := n\<rparr>) a = mem_ptr m a" "mem_ptr (m\<lparr>m_writes := n\<rparr>) a = mem_ptr m a"
  "mem_ptr (m\<lparr>m_ram := r\<rparr>) a = mem_ptr m a" "mem_ptr (m\<lparr>m_watch := w\<rparr>) a = mem_ptr m a"
  "mem_ptr (m\<lparr>m_sony := sy\<rparr>) a = mem_ptr m a" "mem_ptr (m\<lparr>m_cpu := c\<rparr>) a = mem_ptr m a"
  by (simp_all add: mem_ptr_def)

lemma rom_at_not_ram [simp]: "rom_at m a \<noteq> Some (RamAt i)" by (simp add: rom_at_def)

lemma ram_at_Some: "ram_at m a = Some (RamAt i) \<longleftrightarrow> m_ram_size m \<noteq> 0 \<and> i = unat (a mod m_ram_size m)"
  by (auto simp: ram_at_def)

lemma window_order:
  "MAC_OVL_RAM_BASE \<le> a \<Longrightarrow> \<not> a < 0x100000" "MAC_OVL_RAM_BASE \<le> a \<Longrightarrow> \<not> a < MAC_ROM_BASE + 0x100000"
  "MAC_ROM_BASE \<le> a \<Longrightarrow> \<not> a < 0x100000" "a < MAC_ROM_BASE \<Longrightarrow> \<not> MAC_ROM_BASE \<le> a"
  by (simp_all add: bases word_less_nat_alt word_le_nat_alt)

lemma mem_ptr_ram:
  "mem_ptr m a = Some (RamAt i) \<longleftrightarrow> m_ram_size m \<noteq> 0 \<and>
     (if m_overlay m then MAC_OVL_RAM_BASE \<le> a \<and> a < MAC_OVL_RAM_BASE + 0x100000 \<and> i = unat ((a - MAC_OVL_RAM_BASE) mod m_ram_size m)
      else a < MAC_ROM_BASE \<and> i = unat (a mod m_ram_size m))"
  using window_order [of a] by (auto simp: mem_ptr_def ram_at_Some)

lemma read8_ram: "ram_cell m a = Some i \<Longrightarrow> mac_read8 m a = (m_ram m i, m\<lparr>m_reads := m_reads m + 1\<rparr>)"
  by (simp add: ram_cell_Some mac_read8_def Let_def place_byte_def)

lemma write8_ram:
  assumes "ram_cell m a = Some i"
  shows "\<exists>w. mac_write8 m a v = m\<lparr>m_writes := m_writes m + 1, m_ram := (m_ram m)(i := v), m_watch := w\<rparr>"
proof -
  have p: "mem_ptr m (a AND 0xFFFFFF) = Some (RamAt i)" using assms by (simp add: ram_cell_Some)
  show ?thesis
    using p [unfolded mem_ptr_ram] by (cases "m_overlay m") (auto simp: mac_write8_def Let_def ram_store_def)
qed

lemma ram_store_laws:
  assumes "ram_cell m a = Some i"
  shows "ram_cell (mac_write8 m a v) b = ram_cell m b"
    "ram_cell m b = Some j \<Longrightarrow> fst (mac_read8 (mac_write8 m a v) b) = (if i = j then v else fst (mac_read8 m b))"
proof -
  obtain w where w: "mac_write8 m a v = m\<lparr>m_writes := m_writes m + 1, m_ram := (m_ram m)(i := v), m_watch := w\<rparr>"
    using write8_ram [OF assms] by blast
  show c: "ram_cell (mac_write8 m a v) b = ram_cell m b" by (simp add: ram_cell_def w)
  assume j: "ram_cell m b = Some j"
  show "fst (mac_read8 (mac_write8 m a v) b) = (if i = j then v else fst (mac_read8 m b))"
    using read8_ram [of "mac_write8 m a v" b j] read8_ram [OF j] j c by (simp add: w)
qed

interpretation ram: byte_store "\<lambda>m a. fst (mac_read8 m a)" mac_write8 ram_cell
  by unfold_locales (simp_all add: ram_store_laws)

subsection \<open>Words and longwords\<close>

lemma mask24: "unat (a AND 0xFFFFFF) = unat a mod 2 ^ 24" for a :: u32
proof -
  have "unat (take_bit 24 a) = take_bit 24 (unat a)" by (rule unsigned_take_bit_eq)
  thus ?thesis unfolding and_masks take_bit_eq_mod [of 24 "unat a"] .
qed

lemma mask24_add: "((a AND 0xFFFFFF) + b) AND 0xFFFFFF = (a + b) AND 0xFFFFFF" for a b :: u32
proof -
  have "(2::nat) ^ 24 dvd 2 ^ 32" by (rule le_imp_power_dvd) simp
  hence m: "x mod 2 ^ 32 mod 2 ^ 24 = x mod 2 ^ 24" for x :: nat by (rule mod_mod_cancel)
  have "unat (((a AND 0xFFFFFF) + b) AND 0xFFFFFF) = (unat a mod 2 ^ 24 + unat b) mod 2 ^ 24"
    unfolding mask24 unat_word_ariths using m [of "unat a mod 2 ^ 24 + unat b"] by simp
  moreover have "unat ((a + b) AND 0xFFFFFF) = (unat a + unat b) mod 2 ^ 24"
    unfolding mask24 unat_word_ariths using m [of "unat a + unat b"] by simp
  ultimately show ?thesis unfolding word_unat_eq_iff by (simp add: mod_add_left_eq)
qed

lemma mask24_idem [simp]: "(a AND 0xFFFFFF) AND 0xFFFFFF = a AND 0xFFFFFF" for a :: u32
  by (simp add: and.assoc)

lemma ram_cell_mask [simp]: "ram_cell m (a AND 0xFFFFFF) = ram_cell m a" by (simp add: ram_cell_def)

lemma ram_cell_mask_add [simp]: "ram_cell m ((a AND 0xFFFFFF) + b) = ram_cell m (a + b)"
  unfolding ram_cell_def mask24_add ..

lemma access8_mask: "mac_write8 m ((a AND 0xFFFFFF) + b) v = mac_write8 m (a + b) v"
  "mac_write8 m (a AND 0xFFFFFF) v = mac_write8 m a v" "mac_read8 m (a AND 0xFFFFFF) = mac_read8 m a"
  "mac_read8 m ((a AND 0xFFFFFF) + b) = mac_read8 m (a + b)"
  unfolding mac_write8_def mac_read8_def mask24_add mask24_idem by (rule refl)+

lemma ram_not_extn: "ram_cell m a = Some i \<Longrightarrow> \<not> in_extn a"
proof -
  assume "ram_cell m a = Some i"
  hence "mem_ptr m (a AND 0xFFFFFF) = Some (RamAt i)" by (simp add: ram_cell_Some)
  hence "a AND 0xFFFFFF < 0x700000"
    unfolding mem_ptr_ram by (auto simp: bases word_less_nat_alt split: if_splits)
  thus "\<not> in_extn a" by (simp add: in_extn_def bases word_less_nat_alt word_le_nat_alt)
qed

lemma in_extn_mask [simp]: "in_extn (a AND 0xFFFFFF) = in_extn a" by (simp add: in_extn_def)

lemma write16_ram:
  "ram_cell m a = Some i \<Longrightarrow> mac_write16_with ext m a v = put_bytes mac_write8 m a [ucast (drop_bit 8 v), ucast (v AND 0xFF)]"
  using ram_not_extn [of m a i] by (simp add: mac_write16_with_def Let_def access8_mask)

lemma read16_ram:
  assumes "ram_cell m a = Some i" "ram_cell m (a + 1) = Some (Suc i)"
  shows "fst (mac_read16 m a) = push_bit 8 (ucast (fst (mac_read8 m a))) OR ucast (fst (mac_read8 m (a + 1)))"
  using assms read8_ram [OF assms(1)] read8_ram [OF assms(2)]
  by (simp add: mac_read16_def Let_def ram_cell_Some place_byte_def)

lemma read16_frame:
  assumes "ram_cell m a = Some i"
  shows "snd (mac_read16 m a) = m\<lparr>m_reads := m_reads m + 2\<rparr>"
  using assms by (simp add: mac_read16_def Let_def ram_cell_Some place_byte_def)

lemma read8_reads: "ram_cell m a = Some i \<Longrightarrow> fst (mac_read8 (m\<lparr>m_reads := n\<rparr>) a) = fst (mac_read8 m a)"
  using read8_ram [of m a i] read8_ram [of "m\<lparr>m_reads := n\<rparr>" a i] by (simp add: ram_cell_def)

lemma ram_cell_reads [simp]: "ram_cell (m\<lparr>m_reads := n\<rparr>) a = ram_cell m a" by (simp add: ram_cell_def)

lemma bytes_join16: "push_bit 8 (ucast (ucast (drop_bit 8 v) :: u8)) OR ucast (ucast (v AND 0xFF) :: u8) = v" for v :: u16
  by (rule bit_word_eqI) (auto simp: bit_simps and_masks)

lemma words_join32: "push_bit 16 (ucast (ucast (drop_bit 16 v) :: u16)) OR ucast (ucast (v AND 0xFFFF) :: u16) = v" for v :: u32
  by (rule bit_word_eqI) (auto simp: bit_simps and_masks)

definition ram_run :: "machine \<Rightarrow> u32 \<Rightarrow> nat \<Rightarrow> nat \<Rightarrow> bool" where
  "ram_run m a i n \<longleftrightarrow> (\<forall>k<n. ram_cell m (a + of_nat k) = Some (i + k))"

lemma ram_run_at: "ram_run m a i n = ram.run_at m a i n" by (simp add: ram_run_def ram.run_at_def)

lemma read16_put:
  assumes "ram_run m a i 2"
  shows "fst (mac_read16 (put_bytes mac_write8 m a [ucast (drop_bit 8 v), ucast (v AND 0xFF)]) a) = v"
proof -
  let ?bs = "[ucast (drop_bit 8 v), ucast (v AND 0xFF)] :: u8 list"
  let ?m = "put_bytes mac_write8 m a ?bs"
  have r: "ram.run_at m a i (length ?bs)" using assms by (simp add: ram_run_at numeral_2_eq_2)
  have c: "ram_cell ?m b = ram_cell m b" for b by (rule ram.put_cell [OF r])
  have "get_bytes (\<lambda>m a. fst (mac_read8 m a)) ?m a (length ?bs) = ?bs" by (rule ram.put_get [OF r])
  hence b: "fst (mac_read8 ?m a) = ucast (drop_bit 8 v)" "fst (mac_read8 ?m (a + 1)) = ucast (v AND 0xFF)"
    by (simp_all add: get_bytes_def)
  have a: "ram_cell m a = Some i" "ram_cell m (a + 1) = Some (Suc i)"
    using assms [unfolded ram_run_def, rule_format, of 0] assms [unfolded ram_run_def, rule_format, of 1] by simp_all
  show ?thesis using read16_ram [of ?m a i] a b c bytes_join16 [of v] by (simp del: put_bytes.simps)
qed

lemma put_bytes_append: "put_bytes wr m a (xs @ ys) = put_bytes wr (put_bytes wr m a xs) (a + of_nat (length xs)) ys"
  by (induction xs arbitrary: m a) (simp_all add: algebra_simps)

lemma ram_run_split: "ram_run m a i (n + k) \<longleftrightarrow> ram_run m a i n \<and> ram_run m (a + of_nat n) (i + n) k"
proof
  assume r: "ram_run m a i (n + k)"
  show "ram_run m a i n \<and> ram_run m (a + of_nat n) (i + n) k"
    using r r [unfolded ram_run_def, rule_format, of "n + _"] by (auto simp: ram_run_def add.assoc)
next
  assume r: "ram_run m a i n \<and> ram_run m (a + of_nat n) (i + n) k"
  show "ram_run m a i (n + k)" unfolding ram_run_def
  proof (intro allI impI)
    fix j assume j: "j < n + k"
    show "ram_cell m (a + of_nat j) = Some (i + j)"
    proof (cases "j < n")
      case False
      then obtain d where "j = n + d" using le_Suc_ex not_less by blast
      thus ?thesis using r j by (simp add: ram_run_def add.assoc)
    qed (use r in \<open>simp add: ram_run_def\<close>)
  qed
qed

lemma ram_run_0: "ram_run m a i (Suc n) \<Longrightarrow> ram_cell m a = Some i"
  by (drule ram_run_def [THEN iffD1, rule_format, of m a i "Suc n" 0]) simp_all

definition be16 :: "u16 \<Rightarrow> u8 list" where "be16 v = [ucast (drop_bit 8 v), ucast (v AND 0xFF)]"

definition be32 :: "u32 \<Rightarrow> u8 list" where "be32 v = be16 (ucast (drop_bit 16 v)) @ be16 (ucast (v AND 0xFFFF))"

lemma write32_ram:
  assumes "ram_run m a i 4"
  shows "mac_write32_with ext m a v = put_bytes mac_write8 m a (be32 v)"
proof -
  have r: "ram_run m a i 2" "ram_run m (a + 2) (i + 2) 2" using assms ram_run_split [of m a i 2 2] by simp_all
  have c: "ram_cell m a = Some i" "ram_cell m (a + 2) = Some (i + 2)"
    using r by (simp_all add: ram_run_0 numeral_2_eq_2)
  let ?h = "be16 (ucast (drop_bit 16 v))"
  have "ram_cell (put_bytes mac_write8 m a ?h) (a + 2) = Some (i + 2)"
    using ram.put_cell [of m a i ?h "a + 2"] r(1) c by (simp add: ram_run_at be16_def numeral_2_eq_2)
  thus ?thesis unfolding mac_write32_with_def be32_def put_bytes_append
    using write16_ram [OF c(1), of ext "ucast (drop_bit 16 v)"] write16_ram [of _ "a + 2" "i + 2" ext]
    by (simp add: be16_def)
qed

lemma ram_round_trip32:
  assumes "ram_run m a i 4"
  shows "fst (mac_read32 (put_bytes mac_write8 m a (be32 v)) a) = v"
proof -
  have r: "ram_run m a i 2" "ram_run m (a + 2) (i + 2) 2" using assms ram_run_split [of m a i 2 2] by simp_all
  let ?h = "be16 (ucast (drop_bit 16 v))" and ?l = "be16 (ucast (v AND 0xFFFF))"
  let ?m1 = "put_bytes mac_write8 m a ?h"
  let ?m2 = "put_bytes mac_write8 ?m1 (a + 2) ?l"
  have e: "put_bytes mac_write8 m a (be32 v) = ?m2" by (simp add: be32_def put_bytes_append) (simp add: be16_def)
  have r': "ram.run_at m a i (length ?h)" "ram.run_at m (a + 2) (i + 2) (length ?l)"
    using r by (simp_all add: ram_run_at be16_def numeral_2_eq_2)
  have c1: "ram_cell ?m1 b = ram_cell m b" for b by (rule ram.put_cell [OF r'(1)])
  hence r1: "ram_run ?m1 a i 2" "ram_run ?m1 (a + 2) (i + 2) 2" using r by (simp_all add: ram_run_def)
  hence r1': "ram.run_at ?m1 (a + 2) (i + 2) (length ?l)" by (simp add: ram_run_at be16_def numeral_2_eq_2)
  have c2: "ram_cell ?m2 b = ram_cell m b" for b using ram.put_cell [OF r1'] c1 by simp
  have c: "ram_cell m a = Some i" "ram_cell m (a + 1) = Some (Suc i)" "ram_cell m (a + 2) = Some (i + 2)"
    using r(1) [unfolded ram_run_def, rule_format, of 0] r(1) [unfolded ram_run_def, rule_format, of 1] r(2)
    by (simp_all add: ram_run_0 numeral_2_eq_2)
  have h: "fst (mac_read16 ?m1 a) = ucast (drop_bit 16 v)" using read16_put [OF r(1)] by (simp add: be16_def)
  have "fst (mac_read8 ?m2 a) = fst (mac_read8 ?m1 a)" "fst (mac_read8 ?m2 (a + 1)) = fst (mac_read8 ?m1 (a + 1))"
    using ram.put_other [OF r1', of a i] ram.put_other [OF r1', of "a + 1" "Suc i"] c c1 by simp_all
  hence hi: "fst (mac_read16 ?m2 a) = ucast (drop_bit 16 v)"
    using h read16_ram [of ?m1 a i] read16_ram [of ?m2 a i] c c1 c2 by simp
  have lo: "fst (mac_read16 ?m2 (a + 2)) = ucast (v AND 0xFFFF)" using read16_put [OF r1(2)] by (simp add: be16_def)
  have rd: "fst (mac_read16 (m'\<lparr>m_reads := n\<rparr>) (a + 2)) = fst (mac_read16 m' (a + 2))" if "ram_cell m' (a + 2) = Some j" for m' n j
    using that by (simp add: mac_read16_def Let_def ram_cell_Some place_byte_def)
  show ?thesis unfolding e mac_read32_def case_prod_beta Let_def fst_conv
    using hi lo rd [of ?m2 "i + 2"] read16_frame [of ?m2 a i] c c2 words_join32 [of v] by simp
qed

lemma ram_put_frame:
  assumes "ram_run m a i (length bs)" "ram_cell m b = Some j" "j < i \<or> i + length bs \<le> j"
  shows "fst (mac_read8 (put_bytes mac_write8 m a bs) b) = fst (mac_read8 m b)"
  using ram.put_other [of m a i bs b j] assms by (simp add: ram_run_at)

lemma ram_run_normal:
  assumes "\<not> m_overlay m" "unat a + n \<le> unat (m_ram_size m)" "unat a + n \<le> 0x400000"
  shows "ram_run m a (unat a) n"
  unfolding ram_run_def
proof (intro allI impI)
  fix k assume k: "k < n"
  have u: "unat (a + of_nat k) = unat a + k"
    using k assms(3) by (simp add: unat_word_ariths unat_of_nat)
  have m: "unat ((a + of_nat k) AND 0xFFFFFF) = unat a + k" unfolding mask24 u using k assms(3) by simp
  have s: "m_ram_size m \<noteq> 0" using k assms(2) by auto
  have l: "unat a + k < unat (m_ram_size m)" using k assms(2) by simp
  have "(a + of_nat k) AND 0xFFFFFF < MAC_ROM_BASE" using m k assms(3) by (simp add: bases word_less_nat_alt)
  moreover have "unat (((a + of_nat k) AND 0xFFFFFF) mod m_ram_size m) = unat a + k"
    using m l by (simp add: unat_mod)
  ultimately show "ram_cell m (a + of_nat k) = Some (unat a + k)"
    using assms(1) s by (simp add: ram_cell_Some mem_ptr_ram)
qed

subsection \<open>The address decoder\<close>

lemma region_bases:
  "region_of a \<noteq> RGN_NONE \<Longrightarrow> MAC_SCSI_BASE \<le> a \<and> a < MAC_OVL_RAM_BASE \<or> 0x800000 \<le> a"
  by (auto simp: region_of_def bases word_less_nat_alt word_le_nat_alt split: if_splits)

lemma mem_ptr_windows:
  assumes "mem_ptr m a = Some p"
  shows "a < MAC_ROM_BASE + 0x100000 \<or> MAC_OVL_RAM_BASE \<le> a \<and> a < MAC_OVL_RAM_BASE + 0x100000"
proof (rule ccontr)
  assume n: "\<not> ?thesis"
  have "\<not> a < 0x100000" "\<not> a < MAC_ROM_BASE" using n by (auto simp: bases word_less_nat_alt word_le_nat_alt)
  thus False using n assms by (auto simp: mem_ptr_def split: if_splits)
qed

text \<open>C17: The address decoder is sound: a pointer lies inside its array, no device address is plain memory,
  and with the overlay off every address below the RAM size and below 4 MB is its own byte of RAM.\<close>

theorem address_decode:
  "(\<forall>i. mem_ptr m a = Some (RamAt i) \<longrightarrow> i < unat (m_ram_size m)) \<and>
   (\<forall>i. mem_ptr m a = Some (RomAt i) \<longrightarrow> m_rom m \<noteq> None \<and> (m_rom_size m \<noteq> 0 \<longrightarrow> i < unat (m_rom_size m))) \<and>
   (region_of a \<noteq> RGN_NONE \<longrightarrow> mem_ptr m a = None) \<and>
   (\<not> m_overlay m \<and> a < m_ram_size m \<and> a < 0x400000 \<longrightarrow> mem_ptr m a = Some (RamAt (unat a)))"
proof (intro conjI allI impI)
  have md: "unat (x mod n) < unat n" if "n \<noteq> 0" for x n :: u32
    using that by (simp add: unat_mod unat_gt_0)
  show "i < unat (m_ram_size m)" if "mem_ptr m a = Some (RamAt i)" for i
    using that md by (auto simp: mem_ptr_ram split: if_splits)
  have rom: "mem_ptr m a = Some (RomAt i) \<Longrightarrow> \<exists>x. rom_at m x = Some (RomAt i)" for i
    by (auto simp: mem_ptr_def ram_at_def split: if_splits)
  show "m_rom m \<noteq> None" if "mem_ptr m a = Some (RomAt i)" for i
    using rom [OF that] by (auto simp: rom_at_def split: if_splits)
  show "i < unat (m_rom_size m)" if "mem_ptr m a = Some (RomAt i)" "m_rom_size m \<noteq> 0" for i
    using rom [OF that(1)] md [OF that(2)] by (auto simp: rom_at_def split: if_splits)
  show "mem_ptr m a = None" if r: "region_of a \<noteq> RGN_NONE"
  proof (rule ccontr)
    assume "mem_ptr m a \<noteq> None"
    then obtain p where "mem_ptr m a = Some p" by blast
    from mem_ptr_windows [OF this] region_bases [OF r] show False
      by (auto simp: bases word_less_nat_alt word_le_nat_alt)
  qed
  show "mem_ptr m a = Some (RamAt (unat a))" if "\<not> m_overlay m \<and> a < m_ram_size m \<and> a < 0x400000"
    using that by (auto simp: mem_ptr_ram bases unat_mod word_less_nat_alt)
qed

theorem address_decode_witness:
  "mem_ptr (mac_load_ram_image (mac_mem_init cpu_zero 0) 0 []) 0x1234 = Some (RamAt 0x1234) \<and>
   mem_ptr (mac_mem_init cpu_zero 0) 0xEFE1FE = None"
  using address_decode [where m = "mac_load_ram_image (mac_mem_init cpu_zero 0) 0 []" and a = "0x1234"]
    address_decode [where m = "mac_mem_init cpu_zero 0" and a = "0xEFE1FE"]
  by (simp add: mac_load_ram_image_def mac_mem_init_def MAC_RAM_SIZE_DEFAULT_def region_of_def bases Let_def)

end
