(* ===== verification/Sony.thy ===== *)
theory Sony
  imports MacMem
begin

text \<open>
  core/sony.c: the replacement .Sony floppy driver, reached through word writes to the
  extension trap window. A handler stores its answers with the bus accesses of
  MacMem.thy, and such a store may itself hit the window: the handlers take the
  extension handler \<open>ext\<close> they may re-enter as an argument, and \<open>sony_extn_write n\<close> follows
  calls nested up to n deep, setting the ghost flag \<open>m_nested_out\<close> beyond.
\<close>

subsection \<open>The driver code and icon copied into the ROM\<close>

definition sony_driver :: "u8 list" where
  "sony_driver =
    [0x4F, 0x00, 0x00, 0x00, 0x00, 0x00, 0x00, 0x00, 0x00, 0xF4, 0x00, 0x18, 0x00, 0x24,
     0x00, 0x4A, 0x00, 0x8A, 0x05, 0x2E, 0x53, 0x6F, 0x6E, 0x79, 0x48, 0xE7, 0x00, 0xC0,
     0x55, 0x4F, 0x3F, 0x3C, 0x00, 0x01, 0x60, 0x30, 0x48, 0xE7, 0x00, 0xC0, 0x55, 0x4F,
     0x3F, 0x3C, 0x00, 0x02, 0x41, 0xFA, 0x01, 0xA4, 0x2F, 0x18, 0x20, 0x50, 0x20, 0x8F,
     0x5C, 0x4F, 0x30, 0x1F, 0x4C, 0xDF, 0x03, 0x00, 0x0C, 0x68, 0x00, 0x01, 0x00, 0x1A,
     0x66, 0x1E, 0x4E, 0x75, 0x48, 0xE7, 0x00, 0xC0, 0x55, 0x4F, 0x3F, 0x3C, 0x00, 0x03,
     0x41, 0xFA, 0x01, 0x7E, 0x2F, 0x18, 0x20, 0x50, 0x20, 0x8F, 0x5C, 0x4F, 0x30, 0x1F,
     0x4C, 0xDF, 0x03, 0x00, 0x32, 0x28, 0x00, 0x06, 0x08, 0x01, 0x00, 0x09, 0x67, 0x0C,
     0x4A, 0x40, 0x6F, 0x02, 0x42, 0x40, 0x31, 0x40, 0x00, 0x10, 0x4E, 0x75, 0x4A, 0x40,
     0x6F, 0x04, 0x42, 0x40, 0x4E, 0x75, 0x2F, 0x38, 0x08, 0xFC, 0x4E, 0x75, 0x48, 0xE7,
     0x00, 0xC0, 0x55, 0x4F, 0x3F, 0x3C, 0x00, 0x04, 0x41, 0xFA, 0x01, 0x3E, 0x2F, 0x18,
     0x20, 0x50, 0x20, 0x8F, 0x5C, 0x4F, 0x30, 0x1F, 0x4C, 0xDF, 0x03, 0x00, 0x4E, 0x75,
     0x48, 0xE7, 0xE0, 0xC0, 0x20, 0x2F, 0x00, 0x14, 0x59, 0x4F, 0x2F, 0x00, 0x55, 0x4F,
     0x3F, 0x3C, 0x00, 0x08, 0x41, 0xFA, 0x01, 0x18, 0x2F, 0x18, 0x20, 0x50, 0x20, 0x8F,
     0x5C, 0x4F, 0x32, 0x1F, 0x58, 0x4F, 0x20, 0x1F, 0x4A, 0x41, 0x66, 0x06, 0x30, 0x7C,
     0x00, 0x07, 0xA0, 0x2F, 0x4C, 0xDF, 0x03, 0x07, 0x58, 0x4F, 0x4E, 0x73, 0x21, 0x40,
     0x00, 0x06, 0x43, 0xF8, 0x03, 0x08, 0x4E, 0xF9, 0x00, 0x40, 0x0B, 0x20, 0x31, 0x78,
     0x0E, 0x19, 0x00, 0x0A, 0x4E, 0x75, 0x48, 0xE7, 0x1F, 0x18, 0x48, 0xE7, 0x00, 0xC0,
     0x5D, 0x4F, 0x3F, 0x3C, 0x00, 0x05, 0x41, 0xFA, 0x00, 0xD0, 0x2F, 0x18, 0x20, 0x50,
     0x20, 0x8F, 0x5C, 0x4F, 0x30, 0x1F, 0x2E, 0x1F, 0x0C, 0x40, 0xFF, 0xCF, 0x66, 0x06,
     0x42, 0x40, 0x60, 0x00, 0x00, 0xA8, 0x4A, 0x40, 0x66, 0x00, 0x00, 0xA2, 0x20, 0x07,
     0xA7, 0x1E, 0x28, 0x48, 0x20, 0x0C, 0x67, 0x00, 0x00, 0xA0, 0x9E, 0xFC, 0x00, 0x10,
     0x2F, 0x0C, 0x2F, 0x07, 0x55, 0x4F, 0x3F, 0x3C, 0x00, 0x06, 0x41, 0xFA, 0x00, 0x94,
     0x2F, 0x18, 0x20, 0x50, 0x20, 0x8F, 0x5C, 0x4F, 0x30, 0x1F, 0x50, 0x4F, 0x2E, 0x1F,
     0x76, 0x00, 0x36, 0x1F, 0x38, 0x1F, 0x3C, 0x1F, 0x3A, 0x1F, 0x26, 0x5F, 0x4A, 0x40,
     0x66, 0x64, 0x41, 0xEC, 0x00, 0x30, 0x43, 0xFA, 0xFF, 0x86, 0x31, 0x7C, 0x00, 0x01,
     0x00, 0x04, 0x21, 0x49, 0x00, 0x06, 0x31, 0x78, 0x0E, 0x19, 0x00, 0x0A, 0xA0, 0x33,
     0x20, 0x0B, 0x67, 0x0E, 0x41, 0xFA, 0xFF, 0x72, 0x27, 0x48, 0x00, 0x06, 0x20, 0x4B,
     0xA0, 0x58, 0x60, 0x1A, 0x41, 0xFA, 0xFF, 0x50, 0x30, 0x3C, 0xA0, 0x4E, 0xA0, 0x47,
     0x60, 0x0E, 0x20, 0x47, 0x30, 0x06, 0x48, 0x40, 0x30, 0x05, 0xA0, 0x4E, 0xDE, 0x83,
     0x52, 0x46, 0x51, 0xCC, 0xFF, 0xF0, 0x48, 0x7A, 0xFE, 0xFC, 0x55, 0x4F, 0x3F, 0x3C,
     0x00, 0x07, 0x41, 0xFA, 0x00, 0x1E, 0x2F, 0x18, 0x20, 0x50, 0x20, 0x8F, 0x5C, 0x4F,
     0x30, 0x1F, 0x58, 0x4F, 0x4C, 0xDF, 0x03, 0x00, 0x4C, 0xDF, 0x18, 0xF8, 0x4E, 0x75,
     0x30, 0x3C, 0xFF, 0xFF, 0x60, 0xF0]"

definition my_disk_icon :: "u8 list" where
  "my_disk_icon =
    [0x7F, 0xFF, 0xFF, 0xF0, 0x81, 0x00, 0x01, 0x08, 0x81, 0x00, 0x71, 0x04, 0x81, 0x00,
     0x89, 0x02, 0x81, 0x00, 0x89, 0x01, 0x81, 0x00, 0x89, 0x01, 0x81, 0x00, 0x89, 0x01,
     0x81, 0x00, 0x89, 0x01, 0x81, 0x00, 0x89, 0x01, 0x81, 0x00, 0x71, 0x01, 0x81, 0x00,
     0x01, 0x01, 0x80, 0xFF, 0xFE, 0x01, 0x80, 0x00, 0x00, 0x01, 0x80, 0x00, 0x00, 0x01,
     0x80, 0x00, 0x00, 0x01, 0x80, 0x00, 0x00, 0x01, 0x83, 0xFF, 0xFF, 0xC1, 0x84, 0x00,
     0x00, 0x21, 0x84, 0x00, 0x00, 0x21, 0x84, 0x00, 0x00, 0x21, 0x84, 0x00, 0x00, 0x21,
     0x84, 0x00, 0x00, 0x21, 0x84, 0x06, 0x30, 0x21, 0x84, 0x06, 0x60, 0x21, 0x84, 0x06,
     0xC0, 0x21, 0x84, 0x07, 0x80, 0x21, 0x84, 0x07, 0x00, 0x21, 0x84, 0x06, 0x00, 0x21,
     0x84, 0x00, 0x00, 0x21, 0x84, 0x00, 0x00, 0x21, 0x84, 0x00, 0x00, 0x21, 0x7F, 0xFF,
     0xFF, 0xFE, 0x3F, 0xFF, 0xFF, 0xF0, 0x7F, 0xFF, 0xFF, 0xF0, 0xFF, 0xFF, 0xFF, 0xFC,
     0xFF, 0xFF, 0xFF, 0xFC, 0xFF, 0xFF, 0xFF, 0xFF, 0xFF, 0xFF, 0xFF, 0xFF, 0xFF, 0xFF,
     0xFF, 0xFF, 0xFF, 0xFF, 0xFF, 0xFF, 0xFF, 0xFF, 0xFF, 0xFF, 0xFF, 0xFF, 0xFF, 0xFF,
     0xFF, 0xFF, 0xFF, 0xFF, 0xFF, 0xFF, 0xFF, 0xFF, 0xFF, 0xFF, 0xFF, 0xFF, 0xFF, 0xFF,
     0xFF, 0xFF, 0xFF, 0xFF, 0xFF, 0xFF, 0xFF, 0xFF, 0xFF, 0xFF, 0xFF, 0xFF, 0xFF, 0xFF,
     0xFF, 0xFF, 0xFF, 0xFF, 0xFF, 0xFF, 0xFF, 0xFF, 0xFF, 0xFF, 0xFF, 0xFF, 0xFF, 0xFF,
     0xFF, 0xFF, 0xFF, 0xFF, 0xFF, 0xFF, 0xFF, 0xFF, 0xFF, 0xFF, 0xFF, 0xFF, 0xFF, 0xFF,
     0xFF, 0xFF, 0xFF, 0xFF, 0xFF, 0xFF, 0xFF, 0xFF, 0xFF, 0xFF, 0xFF, 0xFF, 0xFF, 0xFF,
     0xFF, 0xFF, 0xFF, 0xFF, 0xFF, 0xFF, 0xFF, 0xFF, 0xFF, 0xFF, 0x7F, 0xFF, 0xFF, 0xFC,
     0x3F, 0xFF, 0xFF, 0xFC, 0x00, 0x00]"

subsection \<open>Constants\<close>

definition SONY_DRIVER_BASE :: u32 where "SONY_DRIVER_BASE = 0x17D30"
definition NUM_DRIVES :: nat where "NUM_DRIVES = 2"
definition mnvm_noErr :: u16 where "mnvm_noErr = 0x0000"
definition mnvm_miscErr :: u16 where "mnvm_miscErr = 0xFFFF"
definition mnvm_controlErr :: u16 where "mnvm_controlErr = 0xFFEF"
definition mnvm_statusErr :: u16 where "mnvm_statusErr = 0xFFEE"
definition mnvm_closErr :: u16 where "mnvm_closErr = 0xFFE8"
definition mnvm_eofErr :: u16 where "mnvm_eofErr = 0xFFD9"
definition mnvm_wPrErr :: u16 where "mnvm_wPrErr = 0xFFD4"
definition mnvm_opWrErr :: u16 where "mnvm_opWrErr = 0xFFCF"
definition mnvm_paramErr :: u16 where "mnvm_paramErr = 0xFFCE"
definition mnvm_nsDrvErr :: u16 where "mnvm_nsDrvErr = 0xFFC8"
definition mnvm_offLinErr :: u16 where "mnvm_offLinErr = 0xFFBF"

lemmas sony_errs = mnvm_noErr_def mnvm_miscErr_def mnvm_controlErr_def mnvm_statusErr_def mnvm_closErr_def
  mnvm_eofErr_def mnvm_wPrErr_def mnvm_opWrErr_def mnvm_paramErr_def mnvm_nsDrvErr_def mnvm_offLinErr_def

subsection \<open>Disks\<close>

definition sony_insert_disk_drive :: "machine \<Rightarrow> int \<Rightarrow> u8 list \<Rightarrow> bool \<Rightarrow> bool \<times> machine" where
  "sony_insert_disk_drive m d img wprot =
     (if d < 0 \<or> d \<ge> int NUM_DRIVES then (False, m)
      else (True, upd_sony (\<lambda>s. s\<lparr>sony_image := (sony_image s)(nat d := Some img),
              sony_size := (sony_size s)(nat d := word_of_nat (length img)),
              sony_inserted := (sony_inserted s)(nat d := True), sony_mounted := (sony_mounted s)(nat d := False),
              sony_wprot := (sony_wprot s)(nat d := wprot)\<rparr>) m))"

definition sony_insert_disk :: "machine \<Rightarrow> u8 list \<Rightarrow> bool \<Rightarrow> bool \<times> machine" where
  "sony_insert_disk m img wprot = sony_insert_disk_drive m 0 img wprot"

subsection \<open>The ROM patch\<close>

text \<open>The bytes the patch puts at SONY_DRIVER_BASE: the driver, the trap record and the icon.\<close>

definition sony_patch :: "u8 list" where
  "sony_patch = sony_driver @ be16 0x5B17 @ [0, 2] @ be32 SONY_EXTN_BASE @ my_disk_icon"

definition store_list :: "(nat \<Rightarrow> u8) \<Rightarrow> nat \<Rightarrow> u8 list \<Rightarrow> nat \<Rightarrow> u8" where
  "store_list f at bs = (\<lambda>i. if at \<le> i \<and> i < at + length bs then bs ! (i - at) else f i)"

text \<open>The sum of the halfwords at offsets \<open>i\<close>, \<open>i + 2\<close>, ... for k turns of the loop.\<close>

fun rom_sum :: "(nat \<Rightarrow> u8) \<Rightarrow> nat \<Rightarrow> nat \<Rightarrow> u32 \<Rightarrow> u32" where
  "rom_sum rom 0 i acc = acc"
| "rom_sum rom (Suc k) i acc = rom_sum rom k (i + 2) (acc + (push_bit 8 (ucast (rom i)) OR ucast (rom (i + 1))))"

text \<open>The turns of the loop \<open>for (i = 4; i + 1 < size; i += 2)\<close>.\<close>

definition rom_sum_turns :: "nat \<Rightarrow> nat" where
  "rom_sum_turns n = (n - 4) div 2"

definition sony_patch_rom :: "machine \<Rightarrow> bool \<times> machine" where
  "sony_patch_rom m =
     (case m_rom m of None \<Rightarrow> (False, m)
      | Some rom \<Rightarrow>
          if m_rom_size m < SONY_DRIVER_BASE + word_of_nat (length sony_driver) + 300 then (False, m)
          else (let rom = store_list rom (unat SONY_DRIVER_BASE) sony_patch;
                    icon = SONY_DRIVER_BASE + word_of_nat (length sony_driver) + 8 + MAC_ROM_BASE;
                    sum = rom_sum rom (rom_sum_turns (unat (m_rom_size m))) 4 0;
                    rom = store_list rom 0 (be32 sum)
                in (True, upd_sony (\<lambda>s. s\<lparr>sony_disk_icon_addr := icon\<rparr>) (m\<lparr>m_rom := Some rom\<rparr>))))"

definition mac_load_rom :: "machine \<Rightarrow> u8 list \<Rightarrow> bool \<times> machine" where
  "mac_load_rom m rom =
     (let len = length rom in
      if len = 0 \<or> len > 0x100000 then (False, m)
      else (True, snd (sony_patch_rom (m\<lparr>m_rom := Some (\<lambda>i. rom ! i), m_rom_size := word_of_nat len\<rparr>))))"

subsection \<open>Disk transfer\<close>

definition check_drive :: "sony_state \<Rightarrow> int \<Rightarrow> u16" where
  "check_drive s d = (if d < 0 \<or> d \<ge> int NUM_DRIVES \<or> \<not> sony_inserted s (nat d) then mnvm_nsDrvErr else mnvm_noErr)"

text \<open>Read successive bytes off the bus.\<close>

fun read_bytes :: "nat \<Rightarrow> u32 \<Rightarrow> machine \<Rightarrow> u8 list \<times> machine" where
  "read_bytes 0 a m = ([], m)"
| "read_bytes (Suc n) a m = (let (b, m) = mac_read8 m a; (bs, m) = read_bytes n (a + 1) m in (b # bs, m))"

definition image_of :: "machine \<Rightarrow> nat \<Rightarrow> u8 list" where
  "image_of m d = (case sony_image (m_sony m) d of None \<Rightarrow> [] | Some img \<Rightarrow> img)"

definition drive_transfer :: "bool \<Rightarrow> u32 \<Rightarrow> int \<Rightarrow> u32 \<Rightarrow> u32 \<Rightarrow> machine \<Rightarrow> u16 \<times> u32 \<times> machine" where
  "drive_transfer is_write buffer d start count m =
     (let s = m_sony m; r = check_drive s d; size = sony_size s (nat d) in
      if r \<noteq> mnvm_noErr then (r, 0, m)
      else if is_write \<and> sony_wprot s (nat d) then (mnvm_wPrErr, 0, m)
      else if start > size then (mnvm_eofErr, 0, m)
      else
        (let left = size - start; L = (if left \<ge> count then count else left); eof = (left < count);
             img = image_of m (nat d); at = unat start; n = unat L;
             m = (if is_write then
                    (let (bs, m) = read_bytes n buffer m in
                     upd_sony (\<lambda>s. s\<lparr>sony_image := (sony_image s)(nat d := Some (take at img @ bs @ drop (at + n) img))\<rparr>) m)
                  else put_bytes mac_write8 m buffer (take n (drop at img)))
         in (if eof then mnvm_eofErr else mnvm_noErr, L, m)))"

subsection \<open>Drive variables\<close>

definition drive_vars :: "int \<Rightarrow> machine \<Rightarrow> u32 \<times> machine" where
  "drive_vars d m =
     (let (sv, m) = mac_read32 m 0x0134 in
      if d < 0 \<or> d \<ge> int NUM_DRIVES then (0, m) else (sv + 0x4A + 0x42 * word_of_int d, m))"

fun vmove :: "nat \<Rightarrow> u32 \<Rightarrow> u32 \<Rightarrow> machine \<Rightarrow> machine" where
  "vmove 0 dst src m = m"
| "vmove (Suc n) dst src m = (let (b, m) = mac_read8 m src in vmove n (dst + 1) (src + 1) (mac_write8 m dst b))"

text \<open>The stores of the handlers, and the error latch DskErr.\<close>

abbreviation vput8 :: "u32 \<Rightarrow> u8 \<Rightarrow> machine \<Rightarrow> machine" where "vput8 a v m \<equiv> mac_write8 m a v"
abbreviation vput16 :: "extn \<Rightarrow> u32 \<Rightarrow> u16 \<Rightarrow> machine \<Rightarrow> machine" where "vput16 ext a v m \<equiv> mac_write16_with ext m a v"
abbreviation vput32 :: "extn \<Rightarrow> u32 \<Rightarrow> u32 \<Rightarrow> machine \<Rightarrow> machine" where "vput32 ext a v m \<equiv> mac_write32_with ext m a v"

definition latch_err :: "extn \<Rightarrow> u16 \<Rightarrow> machine \<Rightarrow> u16 \<times> machine" where
  "latch_err ext result m = (result, if result \<noteq> mnvm_noErr then vput16 ext 0x0142 result m else m)"

subsection \<open>The driver commands\<close>

definition sony_prime_io :: "extn \<Rightarrow> u32 \<Rightarrow> u32 \<Rightarrow> int \<Rightarrow> u32 \<Rightarrow> bool \<Rightarrow> machine \<Rightarrow> u16 \<times> u32 \<times> machine" where
  "sony_prime_io ext pb dce d dvl is_write m =
     (let (start, m) = mac_read32 m (dce + 16); (count, m) = mac_read32 m (pb + 36) in
      if start AND 0x1FF \<noteq> 0 \<or> count AND 0x1FF \<noteq> 0 then (mnvm_paramErr, 0, m)
      else
        (let (wp, m) = (if is_write then mac_read8 m (dvl + 2) else (0, m)) in
         if is_write \<and> wp \<noteq> 0 then (mnvm_wPrErr, 0, m)
         else
           (let (buffer, m) = mac_read32 m (pb + 32);
                (result, act, m) = drive_transfer is_write buffer d start count m
            in (result, act, vput32 ext (dce + 16) (start + act) m))))"

definition sony_prime_body :: "extn \<Rightarrow> u32 \<Rightarrow> u32 \<Rightarrow> int \<Rightarrow> u32 \<Rightarrow> u16 \<Rightarrow> machine \<Rightarrow> u16 \<times> u32 \<times> machine" where
  "sony_prime_body ext pb dce d dvl trap m =
     (if dvl = 0 then (mnvm_nsDrvErr, 0, m)
      else if trap AND 0xF0FE \<noteq> 0xA002 then (mnvm_controlErr, 0, m)
      else
        (let (dip, m) = mac_read8 m (dvl + 3) in
         if dip = 0x02 then sony_prime_io ext pb dce d dvl (trap AND 1 \<noteq> 0) m
         else if dip = 0x01 then sony_prime_io ext pb dce d dvl (trap AND 1 \<noteq> 0) (vput8 (dvl + 3) 0x02 m)
         else (mnvm_offLinErr, 0, m)))"

definition sony_prime :: "extn \<Rightarrow> u32 \<Rightarrow> machine \<Rightarrow> u16 \<times> machine" where
  "sony_prime ext p m =
     (let (pb, m) = mac_read32 m (p + 8); (dce, m) = mac_read32 m (p + 8 + 4);
          (vr, m) = mac_read16 m (pb + 22); d = uint vr - 1;
          (trap, m) = mac_read16 m (pb + 6);
          (dvl, m) = drive_vars d m;
          (result, act, m) = sony_prime_body ext pb dce d dvl trap m;
          m = vput16 ext (pb + 16) result m;
          m = vput32 ext (pb + 40) act m
      in latch_err ext result m)"

definition sony_control_op :: "extn \<Rightarrow> u32 \<Rightarrow> u16 \<Rightarrow> int \<Rightarrow> u32 \<Rightarrow> machine \<Rightarrow> u16 \<times> machine" where
  "sony_control_op ext pb op d dvl m =
     (if op = 5 \<or> op = 6 then (mnvm_noErr, m)
      else if op = 7 then
        (let m = vput8 (dvl + 2) 0 m; m = vput8 (dvl + 3) 0 m; m = vput16 ext (dvl + 14) 0xFFFB m
         in (mnvm_noErr, upd_sony (\<lambda>s. s\<lparr>sony_mounted := (sony_mounted s)(nat d := False)\<rparr>) m))
      else if op = 21 \<or> op = 20 \<or> op = 22 then
        (let (q, m) = mac_read16 m (dvl + 10) in
         if q \<noteq> 0 then (mnvm_noErr, vput32 ext (pb + 28) (sony_disk_icon_addr (m_sony m)) m)
         else (mnvm_controlErr, m))
      else if op = 23 then
        (let (q, m) = mac_read16 m (dvl + 10);
             v = (if q \<noteq> 0 then 1 else 3);
             v = (if d \<noteq> 0 then v + 0x900 else v)
         in (mnvm_noErr, vput32 ext (pb + 28) v m))
      else (mnvm_controlErr, m))"

definition sony_control :: "extn \<Rightarrow> u32 \<Rightarrow> machine \<Rightarrow> u16 \<times> machine" where
  "sony_control ext p m =
     (let (pb, m) = mac_read32 m (p + 8); (op, m) = mac_read16 m (pb + 26);
          (result, m) =
            (if op = 1 then (mnvm_miscErr, m)
             else if op = 8 \<or> op = 9 then (mnvm_noErr, m)
             else
               (let (vr, m) = mac_read16 m (pb + 22); d = uint vr - 1; (dvl, m) = drive_vars d m in
                if dvl = 0 then (mnvm_nsDrvErr, m)
                else
                  (let (dip, m) = mac_read8 m (dvl + 3) in
                   if dip = 0 then (mnvm_offLinErr, m) else sony_control_op ext pb op d dvl m)))
      in latch_err ext result m)"

definition sony_status :: "extn \<Rightarrow> u32 \<Rightarrow> machine \<Rightarrow> u16 \<times> machine" where
  "sony_status ext p m =
     (let (pb, m) = mac_read32 m (p + 8); (op, m) = mac_read16 m (pb + 26);
          (result, m) =
            (if op = 8 then
               (let (vr, m) = mac_read16 m (pb + 22); d = uint vr - 1; (src, m) = drive_vars d m in
                if src = 0 then (mnvm_nsDrvErr, m)
                else
                  (let m = upd_sony (\<lambda>s. if sony_insert_delay s > 4 then s\<lparr>sony_insert_delay := 4\<rparr> else s) m
                   in (mnvm_noErr, vmove 22 (pb + 28) src m)))
             else (mnvm_statusErr, m))
      in latch_err ext result m)"

definition sony_open_a :: "extn \<Rightarrow> u32 \<Rightarrow> machine \<Rightarrow> u16 \<times> machine" where
  "sony_open_a ext p m =
     (if sony_mount_callback (m_sony m) \<noteq> 0 then (mnvm_opWrErr, m)
      else let L = 0x4A + 0x42 * word_of_nat NUM_DRIVES; L = (if L < 0x310 then 0x310 else L)
           in (mnvm_noErr, vput32 ext (p + 8) L m))"

definition sony_open_drive :: "extn \<Rightarrow> u32 \<Rightarrow> nat \<Rightarrow> machine \<Rightarrow> machine" where
  "sony_open_drive ext sony_vars i m =
     (let dvl = sony_vars + 0x4A + 0x42 * word_of_nat i;
          m = vput8 (dvl + 3) 0x00 m; m = vput8 (dvl + 4) 0x01 m; m = vput8 (dvl + 5) 0xFF m;
          m = vput16 ext (dvl + 12) (word_of_nat (i + 1)) m
      in vput16 ext (dvl + 14) 0xFFFB m)"

definition sony_open_b :: "extn \<Rightarrow> u32 \<Rightarrow> machine \<Rightarrow> u16 \<times> machine" where
  "sony_open_b ext p m =
     (let (sony_vars, m) = mac_read32 m (p + 8 + 4); (dce, m) = mac_read32 m (p + 8 + 28);
          m = vput32 ext (sony_vars + 16) 0x841339E2 m;
          m = vput32 ext (sony_vars + 20) SONY_EXTN_BASE m;
          m = vput16 ext (sony_vars + 24) (word_of_nat NUM_DRIVES) m;
          m = vput16 ext (sony_vars + 26) 1 m;
          m = vput32 ext 0x0134 sony_vars m;
          m = fold (sony_open_drive ext sony_vars) [0..<NUM_DRIVES] m;
          (utable, m) = mac_read32 m 0x011C;
          (slot, m) = mac_read32 m (utable + 4 * 4);
          m = vput32 ext (utable + 4 * 1) slot m;
          m = vput8 (dce + 7) 1 m;
          m = vput32 ext (p + 8 + 8) (sony_vars + 0x4A + 6) m;
          m = vput16 ext (p + 8 + 12) 0x42 m;
          m = vput16 ext (p + 8 + 14) (word_of_nat NUM_DRIVES) m;
          m = vput16 ext (p + 8 + 16) 1 m;
          m = vput16 ext (p + 8 + 18) 0xFFFB m
      in (mnvm_noErr, vput32 ext (p + 8 + 20) (sony_vars + 28) m))"

definition sony_open_c :: "u32 \<Rightarrow> machine \<Rightarrow> u16 \<times> machine" where
  "sony_open_c p m =
     (let (cb, m) = mac_read32 m (p + 8) in (mnvm_noErr, upd_sony (\<lambda>s. s\<lparr>sony_mount_callback := cb\<rparr>) m))"

definition sony_mount_vars :: "extn \<Rightarrow> u32 \<Rightarrow> u32 \<Rightarrow> machine \<Rightarrow> machine" where
  "sony_mount_vars ext dvl blocks m =
     (if blocks = 800 \<or> blocks = 1600 then
        (let m = vput8 (dvl + 18) (if blocks = 800 then 0x00 else 0xFF) m; m = vput8 (dvl + 19) 0xFF m;
             m = vput16 ext (dvl + 10) 0 m
         in vput16 ext (dvl + 20) 0 m)
      else
        (let m = vput16 ext (dvl + 14) 0xFFFE m; m = vput16 ext (dvl + 10) 1 m;
             m = vput16 ext (dvl + 18) (ucast blocks) m
         in vput16 ext (dvl + 20) (ucast (drop_bit 16 blocks)) m))"

definition sony_mount :: "extn \<Rightarrow> u32 \<Rightarrow> machine \<Rightarrow> u16 \<times> machine" where
  "sony_mount ext p m =
     (let (data, m) = mac_read32 m (p + 8); d = uint (data AND 0xFFFF); (dvl, m) = drive_vars d m in
      if dvl = 0 then (mnvm_nsDrvErr, m)
      else
        (let (dip, m) = mac_read8 m (dvl + 3) in
         if dip \<noteq> 0 then (mnvm_miscErr, m)
         else
           (let m = sony_mount_vars ext dvl (drop_bit 9 (sony_size (m_sony m) (nat d))) m;
                m = vput8 (dvl + 2) (ucast (drop_bit 16 data)) m;
                m = vput8 (dvl + 3) 0x01 m;
                m = vput32 ext (p + 8 + 4) (word_of_int (d + 1)) m
            in (mnvm_noErr, upd_sony (\<lambda>s. s\<lparr>sony_mounted := (sony_mounted s)(nat d := True)\<rparr>) m))))"

subsection \<open>Extension dispatch\<close>

definition extn_sony_access :: "extn \<Rightarrow> u32 \<Rightarrow> machine \<Rightarrow> machine" where
  "extn_sony_access ext p m =
     (let (cmd, m) = mac_read16 m (p + 4);
          (result, m) =
            (if cmd = 0 then (mnvm_noErr, vput16 ext (p + 8) 0 m)
             else if cmd = 1 then sony_prime ext p m
             else if cmd = 2 then sony_control ext p m
             else if cmd = 3 then sony_status ext p m
             else if cmd = 4 then (mnvm_closErr, m)
             else if cmd = 5 then sony_open_a ext p m
             else if cmd = 6 then sony_open_b ext p m
             else if cmd = 7 then sony_open_c p m
             else if cmd = 8 then sony_mount ext p m
             else (mnvm_controlErr, m))
      in vput16 ext (p + 6) result m)"

definition sony_extn_step :: "extn \<Rightarrow> extn" where
  "sony_extn_step ext offset data m =
     (let reg = drop_bit 1 offset AND 0x0F in
      if reg = 0 then upd_sony (\<lambda>s. s\<lparr>sony_param_addr_hi := data AND 0xFFFF\<rparr>) m
      else if reg = 1 then
        (let p = push_bit 16 (sony_param_addr_hi (m_sony m)) OR (data AND 0xFFFF);
             m = upd_sony (\<lambda>s. s\<lparr>sony_param_addr_hi := 0xFFFFFFFF\<rparr>) m;
             (chk, m) = mac_read16 m p in
         if chk = 0x5B17 then
           (let m = vput16 ext p 0 m; (x, m) = mac_read16 m (p + 2) in
            if x = 2 then extn_sony_access ext p m else vput16 ext (p + 6) mnvm_controlErr m)
         else m)
      else m)"

primrec sony_extn_write :: "nat \<Rightarrow> extn" where
  "sony_extn_write 0 = (\<lambda>offset data m. m\<lparr>m_nested_out := True\<rparr>)"
| "sony_extn_write (Suc n) = sony_extn_step (sony_extn_write n)"

definition SONY_DEPTH :: nat where "SONY_DEPTH = 4"

subsection \<open>The bus writes of the machine\<close>

definition mac_write16 :: "machine \<Rightarrow> u32 \<Rightarrow> u16 \<Rightarrow> machine" where
  "mac_write16 m addr v = mac_write16_with (sony_extn_write SONY_DEPTH) m addr v"

definition mac_write32 :: "machine \<Rightarrow> u32 \<Rightarrow> u32 \<Rightarrow> machine" where
  "mac_write32 m addr v = mac_write32_with (sony_extn_write SONY_DEPTH) m addr v"

subsection \<open>The disk-inserted pseudo-exception\<close>

definition sony_due :: "sony_state \<Rightarrow> nat option" where
  "sony_due s = find (\<lambda>i. sony_inserted s i \<and> \<not> sony_mounted s i) [0..<NUM_DRIVES]"

definition push32 :: "u32 \<Rightarrow> machine \<Rightarrow> machine" where
  "push32 v m = (let m = upd_cpu (\<lambda>c. c\<lparr>areg := (areg c)(7 := areg c 7 - 4)\<rparr>) m in mac_write32 m (areg (m_cpu m) 7) v)"

definition push16 :: "u16 \<Rightarrow> machine \<Rightarrow> machine" where
  "push16 v m = (let m = upd_cpu (\<lambda>c. c\<lparr>areg := (areg c)(7 := areg c 7 - 2)\<rparr>) m in mac_write16 m (areg (m_cpu m) 7) v)"

definition sony_service :: "machine \<Rightarrow> bool \<times> machine" where
  "sony_service m =
     (if sony_mount_callback (m_sony m) = 0 \<or> sony_insert_delay (m_sony m) > 0 then (False, m)
      else case sony_due (m_sony m) of None \<Rightarrow> (False, m)
      | Some d \<Rightarrow>
          (let m = upd_sony (\<lambda>s. s\<lparr>sony_mounted := (sony_mounted s)(d := True)\<rparr>) m;
               data = (if sony_wprot (m_sony m) d then word_of_nat d OR 0x00FF0000 else word_of_nat d);
               was_super = m68k_is_super (m_cpu m); saved_sr = sr (m_cpu m);
               m = upd_cpu (\<lambda>c. m68k_sync_sp was_super (c\<lparr>sr := (sr c OR SR_S) AND NOT SR_T\<rparr>)) m;
               m = push32 (pc (m_cpu m)) m;
               m = push16 saved_sr m;
               m = upd_cpu (\<lambda>c. c\<lparr>pc := sony_mount_callback (m_sony m)\<rparr>) m
           in (True, push32 data m)))"

subsection \<open>Invariants of the bus\<close>

text \<open>What every byte access and every change of the driver variables keeps, the whole driver keeps.\<close>

locale bus_invariant =
  fixes I :: "machine \<Rightarrow> bool"
  assumes read8: "I m \<Longrightarrow> I (snd (mac_read8 m a))"
    and write8: "I m \<Longrightarrow> I (mac_write8 m a v)"
    and reads: "I (m\<lparr>m_reads := k\<rparr>) = I m"
    and sony: "sony_inserted s = sony_inserted (m_sony m) \<Longrightarrow> I (m\<lparr>m_sony := s\<rparr>) = I m"
    and nested: "I (m\<lparr>m_nested_out := b\<rparr>) = I m"
begin

lemma read16: "I m \<Longrightarrow> I (snd (mac_read16 m a))"
  by (auto simp: mac_read16_def case_prod_beta Let_def read8 reads split: option.splits)

lemma read32: "I m \<Longrightarrow> I (snd (mac_read32 m a))"
  by (simp add: mac_read32_def case_prod_beta read16)

lemma put: "I m \<Longrightarrow> I (put_bytes mac_write8 m a bs)"
  by (induction bs arbitrary: m a) (simp_all add: write8)

lemma gets: "I m \<Longrightarrow> I (snd (read_bytes n a m))"
  by (induction n arbitrary: m a) (simp_all add: case_prod_beta Let_def read8)

lemma move: "I m \<Longrightarrow> I (vmove n d s m)"
  by (induction n arbitrary: m d s) (simp_all add: case_prod_beta Let_def read8 write8)

definition ext_ok :: "extn \<Rightarrow> bool" where
  "ext_ok ext \<longleftrightarrow> (\<forall>off d m. I m \<longrightarrow> I (ext off d m))"

lemma put16: "ext_ok ext \<Longrightarrow> I m \<Longrightarrow> I (mac_write16_with ext m a v)"
  by (simp add: mac_write16_with_def Let_def write8 ext_ok_def)

lemma put32: "ext_ok ext \<Longrightarrow> I m \<Longrightarrow> I (mac_write32_with ext m a v)"
  by (simp add: mac_write32_with_def put16)

lemmas bus = read8 write8 read16 read32 put16 put32 put gets move sony

lemma vars: "I m \<Longrightarrow> I (snd (drive_vars d m))"
  by (simp add: drive_vars_def case_prod_beta Let_def bus)

lemma transfer: "I m \<Longrightarrow> I (snd (snd (drive_transfer w b d st ct m)))"
  by (simp add: drive_transfer_def case_prod_beta Let_def bus)

lemma latch: "ext_ok ext \<Longrightarrow> I m \<Longrightarrow> I (snd (latch_err ext r m))"
  by (simp add: latch_err_def bus)

lemma prime_io: "ext_ok ext \<Longrightarrow> I m \<Longrightarrow> I (snd (snd (sony_prime_io ext pb dce d dvl w m)))"
  by (simp add: sony_prime_io_def case_prod_beta Let_def bus transfer)

lemma prime_body: "ext_ok ext \<Longrightarrow> I m \<Longrightarrow> I (snd (snd (sony_prime_body ext pb dce d dvl trap m)))"
  by (simp add: sony_prime_body_def case_prod_beta Let_def bus prime_io)

lemma prime: "ext_ok ext \<Longrightarrow> I m \<Longrightarrow> I (snd (sony_prime ext p m))"
  by (simp add: sony_prime_def case_prod_beta Let_def bus vars prime_body latch)

lemma control_op: "ext_ok ext \<Longrightarrow> I m \<Longrightarrow> I (snd (sony_control_op ext pb opn d dvl m))"
  by (simp add: sony_control_op_def case_prod_beta Let_def bus)

lemma control: "ext_ok ext \<Longrightarrow> I m \<Longrightarrow> I (snd (sony_control ext p m))"
  by (simp add: sony_control_def case_prod_beta Let_def bus vars control_op latch)

lemma status: "ext_ok ext \<Longrightarrow> I m \<Longrightarrow> I (snd (sony_status ext p m))"
  by (simp add: sony_status_def case_prod_beta Let_def bus vars latch)

lemma open_a: "ext_ok ext \<Longrightarrow> I m \<Longrightarrow> I (snd (sony_open_a ext p m))"
  by (simp add: sony_open_a_def Let_def bus)

lemma open_drive: "ext_ok ext \<Longrightarrow> I m \<Longrightarrow> I (sony_open_drive ext sv i m)"
  by (simp add: sony_open_drive_def Let_def bus)

lemma open_drives: "ext_ok ext \<Longrightarrow> I m \<Longrightarrow> I (fold (sony_open_drive ext sv) ds m)"
  by (induction ds arbitrary: m) (simp_all add: open_drive)

lemma open_b: "ext_ok ext \<Longrightarrow> I m \<Longrightarrow> I (snd (sony_open_b ext p m))"
  by (simp add: sony_open_b_def case_prod_beta Let_def bus open_drives)

lemma open_c: "I m \<Longrightarrow> I (snd (sony_open_c p m))"
  by (simp add: sony_open_c_def case_prod_beta Let_def bus)

lemma mount_vars: "ext_ok ext \<Longrightarrow> I m \<Longrightarrow> I (sony_mount_vars ext dvl b m)"
  by (simp add: sony_mount_vars_def Let_def bus)

lemma mount: "ext_ok ext \<Longrightarrow> I m \<Longrightarrow> I (snd (sony_mount ext p m))"
  by (simp add: sony_mount_def case_prod_beta Let_def bus vars mount_vars)

lemma access: "ext_ok ext \<Longrightarrow> I m \<Longrightarrow> I (extn_sony_access ext p m)"
  by (simp add: extn_sony_access_def case_prod_beta Let_def bus prime control status open_a open_b open_c mount)

lemma extn_step: "ext_ok ext \<Longrightarrow> ext_ok (sony_extn_step ext)"
  by (simp add: ext_ok_def [of "sony_extn_step ext"] sony_extn_step_def case_prod_beta Let_def bus access)

lemma extn: "ext_ok (sony_extn_write n)"
  by (induction n) (simp_all add: ext_ok_def [of "\<lambda>off d m. m\<lparr>m_nested_out := True\<rparr>"] nested extn_step)

lemma write16: "I m \<Longrightarrow> I (mac_write16 m a w)" and write32: "I m \<Longrightarrow> I (mac_write32 m a l)"
  by (simp_all add: mac_write16_def mac_write32_def bus extn)

end

text \<open>The interrupt line, and what no bus access changes: the ROM and the sizes.\<close>

interpretation irq: bus_invariant irq_ok
  by unfold_locales (simp_all only: bus_irq_ok irq_ok_other, simp add: irq_ok_line)

definition memory_shape :: "machine \<Rightarrow> (nat \<Rightarrow> u8) option \<times> u32 \<times> u32" where
  "memory_shape m = (m_rom m, m_rom_size m, m_ram_size m)"

lemma shape_upd [simp]:
  "memory_shape (m\<lparr>m_via := v\<rparr>) = memory_shape m" "memory_shape (m\<lparr>m_rtc := r\<rparr>) = memory_shape m"
  "memory_shape (m\<lparr>m_iwm := i\<rparr>) = memory_shape m" "memory_shape (m\<lparr>m_scc := c\<rparr>) = memory_shape m"
  "memory_shape (m\<lparr>m_scsi := sc\<rparr>) = memory_shape m" "memory_shape (m\<lparr>m_reads := n\<rparr>) = memory_shape m"
  "memory_shape (m\<lparr>m_writes := n\<rparr>) = memory_shape m" "memory_shape (m\<lparr>m_overlay := b\<rparr>) = memory_shape m"
  "memory_shape (m\<lparr>m_fb_base := n32\<rparr>) = memory_shape m" "memory_shape (m\<lparr>m_ram := ra\<rparr>) = memory_shape m"
  "memory_shape (m\<lparr>m_watch := w\<rparr>) = memory_shape m" "memory_shape (m\<lparr>m_serial_out := so\<rparr>) = memory_shape m"
  "memory_shape (m\<lparr>m_scc_out := co\<rparr>) = memory_shape m" "memory_shape (m\<lparr>m_sony := sy\<rparr>) = memory_shape m"
  "memory_shape (m\<lparr>m_cpu := cp\<rparr>) = memory_shape m" "memory_shape (m\<lparr>m_nested_out := b\<rparr>) = memory_shape m"
  "memory_shape (mac_via_recalc_irq m) = memory_shape m"
  by (simp_all add: memory_shape_def)

lemma kbd_shape [simp]:
  "memory_shape (mac_kbd_sr_written m) = memory_shape m" "memory_shape (mac_kbd_acr_written a m) = memory_shape m"
  using kbd_hooks_touch(2) [of m m] kbd_hooks_touch(3) [of m a m]
  by (simp_all add: memory_shape_def kbd_touches_def)

lemma via_shape [simp]: "memory_shape (via_clear_irq b m) = memory_shape m"
  "memory_shape (snd (via_read m a)) = memory_shape m" "memory_shape (via_write m a v) = memory_shape m"
  by (simp_all add: via_clear_irq_def via_read_def via_write_def via_write_ora_def Let_def)

lemma mmio_shape [simp]: "memory_shape (snd (mmio_read m a)) = memory_shape m" "memory_shape (mmio_write m a v) = memory_shape m"
  by (simp_all add: mmio_read_def mmio_write_def scc_read_def scc_write_def scsi_read_def scsi_write_def debug_write_def
      case_prod_beta Let_def split: region.split)

lemma bus_shape [simp]: "memory_shape (snd (mac_read8 m a)) = memory_shape m" "memory_shape (mac_write8 m a v) = memory_shape m"
  by (simp_all add: mac_read8_def mac_write8_def ram_store_def Let_def split: option.split)

interpretation shape: bus_invariant "\<lambda>m. memory_shape m = x" for x
  by unfold_locales simp_all

text \<open>Bus accesses of a guest program, in the order they are made.\<close>

datatype bus_op = Rd8 u32 | Rd16 u32 | Rd32 u32 | Wr8 u32 u8 | Wr16 u32 u16 | Wr32 u32 u32

fun bus_step :: "bus_op \<Rightarrow> machine \<Rightarrow> machine" where
  "bus_step (Rd8 a) m = snd (mac_read8 m a)"
| "bus_step (Rd16 a) m = snd (mac_read16 m a)"
| "bus_step (Rd32 a) m = snd (mac_read32 m a)"
| "bus_step (Wr8 a v) m = mac_write8 m a v"
| "bus_step (Wr16 a v) m = mac_write16 m a v"
| "bus_step (Wr32 a v) m = mac_write32 m a v"

lemma step_keeps: "irq_ok m \<Longrightarrow> irq_ok (bus_step b m)" "memory_shape (bus_step b m) = memory_shape m"
  by (cases b; simp add: irq.bus irq.write16 irq.write32)
    (cases b; simp add: shape.read16 shape.read32 shape.write16 shape.write32)

text \<open>C18: No sequence of bus accesses, device registers and the extension trap included, ever changes
  the ROM or the memory sizes, and the processor's interrupt line always agrees with the VIA flags.\<close>

theorem bus_safe:
  assumes "irq_ok m"
  shows "m_rom (fold bus_step ops m) = m_rom m \<and> m_rom_size (fold bus_step ops m) = m_rom_size m \<and>
    m_ram_size (fold bus_step ops m) = m_ram_size m \<and> irq_ok (fold bus_step ops m)"
proof -
  have "memory_shape (fold bus_step ops m) = memory_shape m \<and> irq_ok (fold bus_step ops m)"
    using assms by (induction ops arbitrary: m) (simp_all add: step_keeps)
  thus ?thesis by (simp add: memory_shape_def)
qed

theorem bus_safe_witness:
  "m_rom (fold bus_step [Wr32 0xF40000 0x400, Wr8 0x400000 1, Wr8 0xEFFDFE 0xFF] (mac_mem_init cpu_zero 0)) = None"
proof -
  have i: "irq_ok (mac_mem_init cpu_zero 0)"
    by (simp add: irq_ok_line irq_line_def mac_mem_init_def via_init_def cpu_zero_def Let_def)
  show ?thesis using bus_safe [OF i, of "[Wr32 0xF40000 0x400, Wr8 0x400000 1, Wr8 0xEFFDFE 0xFF]"]
    by (simp add: mac_mem_init_def Let_def del: fold.simps fold_Cons)
qed

subsection \<open>RAM is memory\<close>

text \<open>A word or longword written to RAM is read back, and no other byte of RAM changes.\<close>

theorem ram_read_back:
  assumes "ram_run m a i 4"
  shows "fst (mac_read32 (mac_write32 m a v) a) = v \<and> fst (mac_read16 (mac_write16 m a w) a) = w \<and>
    (\<forall>b j. ram_cell m b = Some j \<longrightarrow> j < i \<or> i + 4 \<le> j \<longrightarrow>
       fst (mac_read8 (mac_write32 m a v) b) = fst (mac_read8 m b)) \<and>
    (\<forall>b j. ram_cell m b = Some j \<longrightarrow> j < i \<or> i + 2 \<le> j \<longrightarrow>
       fst (mac_read8 (mac_write16 m a w) b) = fst (mac_read8 m b))"
proof (intro conjI allI impI)
  have r2: "ram_run m a i 2" using assms ram_run_split [of m a i 2 2] by simp
  have c: "ram_cell m a = Some i" using r2 by (simp add: ram_run_0 numeral_2_eq_2)
  have w32: "mac_write32 m a v = put_bytes mac_write8 m a (be32 v)"
    unfolding mac_write32_def by (rule write32_ram [OF assms])
  have w16: "mac_write16 m a w = put_bytes mac_write8 m a (be16 w)"
    unfolding mac_write16_def be16_def by (rule write16_ram [OF c])
  have l: "length (be32 v) = 4" "length (be16 w) = 2" by (simp_all add: be32_def be16_def)
  show "fst (mac_read32 (mac_write32 m a v) a) = v" unfolding w32 by (rule ram_round_trip32 [OF assms])
  show "fst (mac_read16 (mac_write16 m a w) a) = w" unfolding w16 be16_def by (rule read16_put [OF r2])
  show "fst (mac_read8 (mac_write32 m a v) b) = fst (mac_read8 m b)"
    if "ram_cell m b = Some j" "j < i \<or> i + 4 \<le> j" for b j
    unfolding w32 by (rule ram_put_frame) (use that assms l in simp_all)
  show "fst (mac_read8 (mac_write16 m a w) b) = fst (mac_read8 m b)"
    if "ram_cell m b = Some j" "j < i \<or> i + 2 \<le> j" for b j
    unfolding w16 by (rule ram_put_frame) (use that r2 l in simp_all)
qed

text \<open>The power-on machine with the overlay off: 1 MB of RAM at 0.\<close>

definition ram_machine :: machine where
  "ram_machine = (mac_mem_init cpu_zero 0)\<lparr>m_overlay := False\<rparr>"

lemma ram_machine_run: "unat a + n \<le> 0x100000 \<Longrightarrow> ram_run ram_machine a (unat a) n"
  by (rule ram_run_normal) (simp_all add: ram_machine_def mac_mem_init_def MAC_RAM_SIZE_DEFAULT_def Let_def)

theorem ram_read_back_witness:
  "fst (mac_read32 (mac_write32 ram_machine 0x1000 0xDEADBEEF) 0x1000) = 0xDEADBEEF"
  using ram_read_back [OF ram_machine_run [of "0x1000" 4], of "0xDEADBEEF"] by simp

subsection \<open>Disk transfers\<close>

lemma read_bytes_ram:
  assumes "ram_run m a i n"
  shows "fst (read_bytes n a m) = get_bytes (\<lambda>m a. fst (mac_read8 m a)) m a n \<and>
    snd (read_bytes n a m) = m\<lparr>m_reads := m_reads m + of_nat n\<rparr>"
  using assms
proof (induction n arbitrary: m a i)
  case (Suc n)
  have c: "ram_cell m a = Some i" using Suc.prems by (rule ram_run_0)
  have r: "ram_run m (a + 1) (Suc i) n" using ram_run_split [of m a i 1 n] Suc.prems by simp
  let ?m = "m\<lparr>m_reads := m_reads m + 1\<rparr>"
  have "ram_run ?m (a + 1) (Suc i) n" using r by (simp add: ram_run_def)
  note IH = Suc.IH [OF this]
  have "fst (mac_read8 ?m (a + 1 + of_nat k)) = fst (mac_read8 m (a + 1 + of_nat k))" if "k < n" for k
    using r that by (intro read8_reads [of m _ "Suc i + k"]) (simp add: ram_run_def)
  hence g: "get_bytes (\<lambda>m a. fst (mac_read8 m a)) ?m (a + 1) n = get_bytes (\<lambda>m a. fst (mac_read8 m a)) m (a + 1) n"
    by (simp add: get_bytes_def)
  have "[0..<Suc n] = 0 # map Suc [0..<n]" by (simp add: map_Suc_upt upt_conv_Cons del: upt_Suc)
  hence h: "get_bytes (\<lambda>m a. fst (mac_read8 m a)) m a (Suc n) =
      fst (mac_read8 m a) # get_bytes (\<lambda>m a. fst (mac_read8 m a)) m (a + 1) n"
    by (simp add: get_bytes_def algebra_simps del: upt_Suc)
  show ?case using IH read8_ram [OF c] g h by (simp add: case_prod_beta Let_def algebra_simps)
qed (simp add: get_bytes_def)

lemma put_bytes_shape:
  assumes "ram_run m a i (length bs)"
  shows "m_sony (put_bytes mac_write8 m a bs) = m_sony m"
  using assms
proof (induction bs arbitrary: m a i)
  case (Cons b bs)
  obtain w where w: "mac_write8 m a b = m\<lparr>m_writes := m_writes m + 1, m_ram := (m_ram m)(i := b), m_watch := w\<rparr>"
    using write8_ram [of m a i b] ram_run_0 Cons.prems by fastforce
  have r: "ram_run m (a + 1) (Suc i) (length bs)" using ram_run_split [of m a i 1 "length bs"] Cons.prems by simp
  have "ram_run (mac_write8 m a b) (a + 1) (Suc i) (length bs)"
    using r ram_store_laws(1) [OF ram_run_0, of m a i "length bs"] Cons.prems by (simp add: ram_run_def)
  thus ?case using Cons.IH by (simp add: w)
qed simp

text \<open>A drive is usable for \<open>count\<close> bytes at \<open>start\<close>.\<close>

definition drive_ready :: "machine \<Rightarrow> nat \<Rightarrow> u32 \<Rightarrow> u32 \<Rightarrow> bool" where
  "drive_ready m d start count \<longleftrightarrow> d < NUM_DRIVES \<and> sony_inserted (m_sony m) d \<and>
     sony_image (m_sony m) d \<noteq> None \<and> unat (sony_size (m_sony m) d) = length (image_of m d) \<and>
     unat start + unat count \<le> length (image_of m d)"

text \<open>A transfer within the image moves exactly the requested bytes: a read puts the bytes of the
  image into RAM at the buffer, a write puts the buffer into the image and leaves the rest of it alone,
  and both report success and the full count.\<close>

theorem drive_transfer_moves:
  assumes "drive_ready m d start count" "ram_run m buf i (unat count)"
  shows "(case drive_transfer False buf (int d) start count m of (r, act, m') \<Rightarrow>
            r = mnvm_noErr \<and> act = count \<and> image_of m' d = image_of m d \<and>
            get_bytes (\<lambda>m a. fst (mac_read8 m a)) m' buf (unat count) = take (unat count) (drop (unat start) (image_of m d))) \<and>
         (\<not> sony_wprot (m_sony m) d \<longrightarrow>
          (case drive_transfer True buf (int d) start count m of (r, act, m') \<Rightarrow>
            r = mnvm_noErr \<and> act = count \<and> m_ram m' = m_ram m \<and>
            image_of m' d = take (unat start) (image_of m d)
              @ get_bytes (\<lambda>m a. fst (mac_read8 m a)) m buf (unat count)
              @ drop (unat start + unat count) (image_of m d)))"
proof -
  let ?size = "sony_size (m_sony m) d" and ?img = "image_of m d" and ?n = "unat count"
  have d: "check_drive (m_sony m) (int d) = mnvm_noErr" using assms(1) by (simp add: check_drive_def drive_ready_def)
  have s: "\<not> ?size < start" "\<not> ?size - start < count" "count \<le> ?size - start"
    using assms(1) by (auto simp: drive_ready_def word_less_nat_alt word_le_nat_alt unat_sub_if')
  have l: "length (take ?n (drop (unat start) ?img)) = ?n" using assms(1) by (auto simp: drive_ready_def)
  have rd: "drive_transfer False buf (int d) start count m =
      (mnvm_noErr, count, put_bytes mac_write8 m buf (take ?n (drop (unat start) ?img)))"
    using d s by (simp add: drive_transfer_def Let_def)
  have run: "ram_run m buf i (length (take ?n (drop (unat start) ?img)))" using assms(2) l by simp
  have g: "get_bytes (\<lambda>m a. fst (mac_read8 m a)) (put_bytes mac_write8 m buf (take ?n (drop (unat start) ?img))) buf ?n
      = take ?n (drop (unat start) ?img)"
    using ram.put_get [OF run [unfolded ram_run_at]] unfolding l .
  have rb: "read_bytes ?n buf m = (get_bytes (\<lambda>m a. fst (mac_read8 m a)) m buf ?n, m\<lparr>m_reads := m_reads m + of_nat ?n\<rparr>)"
    using read_bytes_ram [OF assms(2)] by (simp add: prod_eq_iff)
  show ?thesis using g put_bytes_shape [OF run] d s unfolding rd
    by (simp add: image_of_def drive_transfer_def Let_def rb)
qed

definition disk_machine :: machine where
  "disk_machine = snd (sony_insert_disk ram_machine [10, 20, 30, 40] False)"

theorem drive_transfer_moves_witness:
  "case drive_transfer False 0x1000 0 1 2 disk_machine of (r, act, m') \<Rightarrow>
     act = 2 \<and> get_bytes (\<lambda>m a. fst (mac_read8 m a)) m' 0x1000 2 = [20, 30]"
proof -
  have r: "drive_ready disk_machine 0 1 2"
    by (simp add: drive_ready_def disk_machine_def sony_insert_disk_def sony_insert_disk_drive_def NUM_DRIVES_def image_of_def)
  have i: "image_of disk_machine 0 = [10, 20, 30, 40]"
    by (simp add: image_of_def disk_machine_def sony_insert_disk_def sony_insert_disk_drive_def NUM_DRIVES_def)
  have c: "ram_cell disk_machine a = ram_cell ram_machine a" for a
    by (simp add: disk_machine_def sony_insert_disk_def sony_insert_disk_drive_def NUM_DRIVES_def ram_cell_def)
  have "ram_run disk_machine 0x1000 0x1000 (unat (2 :: u32))"
    using ram_machine_run [of "0x1000" 2] by (simp add: ram_run_def c)
  from drive_transfer_moves [OF r this] show ?thesis by (simp add: i case_prod_beta)
qed

subsection \<open>The patched ROM\<close>

text \<open>What the boot ROM checks: the first longword is the sum of the halfwords after it.\<close>

definition rom_checksum_ok :: "(nat \<Rightarrow> u8) \<Rightarrow> nat \<Rightarrow> bool" where
  "rom_checksum_ok rom n \<longleftrightarrow> map rom [0..<4] = be32 (rom_sum rom (rom_sum_turns n) 4 0)"

lemma rom_sum_above: "4 \<le> i \<Longrightarrow> rom_sum (store_list rom 0 (be32 v)) k i acc = rom_sum rom k i acc"
  by (induction k arbitrary: i acc) (simp_all add: store_list_def be32_def be16_def)

text \<open>C19: Loading a ROM that is large enough installs the replacement driver, trap record and icon at the
  driver's place, changes no other byte but the checksum, and leaves the checksum valid, so that the
  patched ROM still passes its own power-on test.\<close>

theorem patched_rom_valid:
  assumes "m_rom m = Some rom" "unat SONY_DRIVER_BASE + length sony_driver + 300 \<le> unat (m_rom_size m)"
  shows "case m_rom (snd (sony_patch_rom m)) of None \<Rightarrow> False
    | Some r \<Rightarrow> rom_checksum_ok r (unat (m_rom_size m)) \<and>
        (\<forall>k < length sony_patch. r (unat SONY_DRIVER_BASE + k) = sony_patch ! k) \<and>
        (\<forall>i \<ge> 4. i < unat SONY_DRIVER_BASE \<or> unat SONY_DRIVER_BASE + length sony_patch \<le> i \<longrightarrow> r i = rom i)"
proof -
  have len: "length sony_driver = 468" by (simp add: sony_driver_def)
  have sz: "\<not> m_rom_size m < SONY_DRIVER_BASE + word_of_nat (length sony_driver) + 300"
    using assms(2) unfolding len by (simp add: SONY_DRIVER_BASE_def word_less_nat_alt)
  let ?r1 = "store_list rom (unat SONY_DRIVER_BASE) sony_patch"
  let ?sum = "rom_sum ?r1 (rom_sum_turns (unat (m_rom_size m))) 4 0"
  have r: "m_rom (snd (sony_patch_rom m)) = Some (store_list ?r1 0 (be32 ?sum))"
    using sz by (simp add: sony_patch_rom_def assms(1) Let_def)
  have "map (store_list ?r1 0 (be32 ?sum)) [0..<4] = be32 ?sum"
    by (rule nth_equalityI) (auto simp: store_list_def be32_def be16_def)
  thus ?thesis unfolding r rom_checksum_ok_def
    by (simp add: rom_sum_above) (simp add: store_list_def be32_def be16_def SONY_DRIVER_BASE_def)
qed

theorem patched_rom_valid_witness:
  "case m_rom (snd (sony_patch_rom (ram_machine\<lparr>m_rom := Some (\<lambda>_. 0x11), m_rom_size := 0x20000\<rparr>))) of None \<Rightarrow> False
   | Some r \<Rightarrow> rom_checksum_ok r 0x20000 \<and> r 0x17D30 = 0x4F \<and> r 4 = 0x11"
proof -
  let ?m = "ram_machine\<lparr>m_rom := Some (\<lambda>_. 0x11), m_rom_size := 0x20000\<rparr>"
  have l: "0 < length sony_patch" "sony_patch ! 0 = 0x4F" "length sony_driver = 468"
    by (simp_all add: sony_patch_def sony_driver_def)
  have h: "m_rom ?m = Some (\<lambda>_. 0x11)" "unat SONY_DRIVER_BASE + length sony_driver + 300 \<le> unat (m_rom_size ?m)"
    by (simp_all add: l SONY_DRIVER_BASE_def)
  show ?thesis using patched_rom_valid [OF h] l
    by (auto simp: SONY_DRIVER_BASE_def split: option.splits)
qed

subsection \<open>Stack frames in RAM\<close>

lemma ram_cell_upd [simp]:
  "ram_cell (m\<lparr>m_cpu := c\<rparr>) a = ram_cell m a" "ram_cell (m\<lparr>m_sony := s\<rparr>) a = ram_cell m a"
  "ram_cell (m\<lparr>m_ram := r\<rparr>) a = ram_cell m a" "ram_cell (m\<lparr>m_watch := w\<rparr>) a = ram_cell m a"
  "ram_cell (m\<lparr>m_writes := n\<rparr>) a = ram_cell m a"
  by (simp_all add: ram_cell_def)

lemma ram_run_upd [simp]:
  "ram_run (m\<lparr>m_cpu := c\<rparr>) a i n = ram_run m a i n" "ram_run (m\<lparr>m_sony := s\<rparr>) a i n = ram_run m a i n"
  "ram_run (m\<lparr>m_ram := r\<rparr>) a i n = ram_run m a i n" "ram_run (m\<lparr>m_watch := w\<rparr>) a i n = ram_run m a i n"
  "ram_run (m\<lparr>m_writes := k\<rparr>) a i n = ram_run m a i n" "ram_run (m\<lparr>m_reads := k\<rparr>) a i n = ram_run m a i n"
  by (simp_all add: ram_run_def)

lemma ram_run_cell: "ram_run m a i n \<Longrightarrow> k < n \<Longrightarrow> ram_cell m (a + of_nat k) = Some (i + k)"
  by (simp add: ram_run_def)

lemma store_list_Cons: "store_list f i (b # bs) = store_list (f(i := b)) (Suc i) bs"
proof (rule ext)
  fix x
  show "store_list f i (b # bs) x = store_list (f(i := b)) (Suc i) bs x"
  proof (cases "x \<le> i")
    case False
    hence "x - i = Suc (x - Suc i)" by simp
    thus ?thesis using False by (simp add: store_list_def)
  qed (simp add: store_list_def)
qed

lemma put_ram:
  assumes "ram_run m a i (length bs)"
  shows "\<exists>n w. put_bytes mac_write8 m a bs = m\<lparr>m_writes := n, m_ram := store_list (m_ram m) i bs, m_watch := w\<rparr>"
  using assms
proof (induction bs arbitrary: m a i)
  case Nil
  have "store_list (m_ram m) i [] = m_ram m" by (rule ext) (auto simp: store_list_def)
  thus ?case by (intro exI [of _ "m_writes m"] exI [of _ "m_watch m"]) simp
next
  case (Cons b bs)
  obtain w where w: "mac_write8 m a b = m\<lparr>m_writes := m_writes m + 1, m_ram := (m_ram m)(i := b), m_watch := w\<rparr>"
    using write8_ram [of m a i b] ram_run_0 Cons.prems by fastforce
  have r: "ram_run m (a + 1) (Suc i) (length bs)" using ram_run_split [of m a i 1 "length bs"] Cons.prems by simp
  let ?m = "m\<lparr>m_writes := m_writes m + 1, m_ram := (m_ram m)(i := b), m_watch := w\<rparr>"
  have "ram_run ?m (a + 1) (Suc i) (length bs)" using r by simp
  from Cons.IH [OF this] obtain k w2 where "put_bytes mac_write8 ?m (a + 1) bs =
      ?m\<lparr>m_writes := k, m_ram := store_list (m_ram ?m) (Suc i) bs, m_watch := w2\<rparr>" by blast
  hence "put_bytes mac_write8 m a (b # bs) = m\<lparr>m_writes := k, m_ram := store_list (m_ram m) i (b # bs), m_watch := w2\<rparr>"
    by (simp only: put_bytes.simps w store_list_Cons) simp
  thus ?case by blast
qed

lemma be_lengths [simp]: "length (be16 v) = 2" "length (be32 l) = 4"
  by (simp_all add: be16_def be32_def)

text \<open>Reading a longword or word back out of the RAM array.\<close>

lemma read16_cells:
  "ram_cell m a = Some i \<Longrightarrow> mac_read16 m a =
     (push_bit 8 (ucast (m_ram m i)) OR ucast (m_ram m (Suc i)), m\<lparr>m_reads := m_reads m + 2\<rparr>)"
  by (simp add: mac_read16_def Let_def ram_cell_Some place_byte_def)

lemma read16_store:
  assumes "ram_cell m a = Some i" "[m_ram m i, m_ram m (Suc i)] = be16 v"
  shows "fst (mac_read16 m a) = v"
  using assms(2) bytes_join16 [of v] by (simp add: read16_cells [OF assms(1)] be16_def)

lemma read32_store:
  assumes "ram_run m a i 4" "[m_ram m i, m_ram m (i + 1), m_ram m (i + 2), m_ram m (i + 3)] = be32 v"
  shows "fst (mac_read32 m a) = v"
proof -
  have c: "ram_cell m a = Some i" "ram_cell m (a + 2) = Some (i + 2)"
    using ram_run_cell [OF assms(1), of 0] ram_run_cell [OF assms(1), of 2] by simp_all
  have b: "[m_ram m i, m_ram m (Suc i)] = be16 (ucast (drop_bit 16 v))"
    "[m_ram m (i + 2), m_ram m (Suc (i + 2))] = be16 (ucast (v AND 0xFFFF))"
    using assms(2) by (simp_all add: be32_def be16_def numeral_3_eq_3)
  have h: "fst (mac_read16 m a) = ucast (drop_bit 16 v)" by (rule read16_store [OF c(1) b(1)])
  have l: "fst (mac_read16 (m\<lparr>m_reads := n\<rparr>) (a + 2)) = ucast (v AND 0xFFFF)" for n
    by (rule read16_store) (use c(2) b(2) in \<open>simp_all\<close>)
  show ?thesis using h l words_join32 [of v] read16_frame [OF c(1)] by (simp add: mac_read32_def case_prod_beta)
qed

text \<open>A push onto a stack in RAM.\<close>

lemma push32_ram:
  assumes "ram_run m (areg (m_cpu m) 7 - 4) i 4"
  shows "\<exists>n w. push32 v m = m\<lparr>m_cpu := (m_cpu m)\<lparr>areg := (areg (m_cpu m))(7 := areg (m_cpu m) 7 - 4)\<rparr>,
    m_writes := n, m_ram := store_list (m_ram m) i (be32 v), m_watch := w\<rparr>"
proof -
  let ?m = "m\<lparr>m_cpu := (m_cpu m)\<lparr>areg := (areg (m_cpu m))(7 := areg (m_cpu m) 7 - 4)\<rparr>\<rparr>"
  have r: "ram_run ?m (areg (m_cpu m) 7 - 4) i 4" using assms by simp
  have "push32 v m = put_bytes mac_write8 ?m (areg (m_cpu m) 7 - 4) (be32 v)"
    using write32_ram [OF r, of "sony_extn_write SONY_DEPTH" v] by (simp add: push32_def mac_write32_def)
  thus ?thesis using put_ram [of ?m "areg (m_cpu m) 7 - 4" i "be32 v"] r by simp
qed

lemma push16_ram:
  assumes "ram_run m (areg (m_cpu m) 7 - 2) i 2"
  shows "\<exists>n w. push16 v m = m\<lparr>m_cpu := (m_cpu m)\<lparr>areg := (areg (m_cpu m))(7 := areg (m_cpu m) 7 - 2)\<rparr>,
    m_writes := n, m_ram := store_list (m_ram m) i (be16 v), m_watch := w\<rparr>"
proof -
  let ?m = "m\<lparr>m_cpu := (m_cpu m)\<lparr>areg := (areg (m_cpu m))(7 := areg (m_cpu m) 7 - 2)\<rparr>\<rparr>"
  have r: "ram_run ?m (areg (m_cpu m) 7 - 2) i 2" using assms by simp
  have "push16 v m = put_bytes mac_write8 ?m (areg (m_cpu m) 7 - 2) (be16 v)"
    using write16_ram [of ?m "areg (m_cpu m) 7 - 2" i "sony_extn_write SONY_DEPTH" v] ram_run_0 [of ?m _ i 1] r
    by (simp add: push16_def mac_write16_def be16_def numeral_2_eq_2)
  thus ?thesis using put_ram [of ?m "areg (m_cpu m) 7 - 2" i "be16 v"] r by simp
qed

text \<open>The stack pointer that supervisor mode uses.\<close>

definition super_sp :: "m68k_cpu \<Rightarrow> u32" where
  "super_sp c = (if m68k_is_super c then areg c 7 else ssp c)"

lemma enter_super:
  fixes c :: m68k_cpu
  defines "c' \<equiv> m68k_sync_sp (m68k_is_super c) (c\<lparr>sr := (sr c OR SR_S) AND NOT SR_T\<rparr>)"
  shows "areg c' 7 = super_sp c" "m68k_is_super c'" "pc c' = pc c" "sr c' = (sr c OR SR_S) AND NOT SR_T"
    "i \<noteq> 7 \<Longrightarrow> areg c' i = areg c i" "dreg c' = dreg c" "\<not> m68k_is_super c \<Longrightarrow> usp c' = areg c 7"
proof -
  have s: "((x OR SR_S) AND NOT SR_T) AND SR_S \<noteq> 0" for x
  proof -
    have "bit (((x OR SR_S) AND NOT SR_T) AND SR_S) 13" by (simp add: SR_S_def SR_T_def bit_simps)
    thus ?thesis by (metis bit_0_eq bot_apply bot_bool_def)
  qed
  thus "areg c' 7 = super_sp c" "m68k_is_super c'" "pc c' = pc c" "sr c' = (sr c OR SR_S) AND NOT SR_T"
    "i \<noteq> 7 \<Longrightarrow> areg c' i = areg c i" "dreg c' = dreg c" "\<not> m68k_is_super c \<Longrightarrow> usp c' = areg c 7"
    by (simp_all add: c'_def m68k_sync_sp_def Let_def m68k_is_super_def super_sp_def)
qed

text \<open>Three pushes make a frame of ten bytes; two make the six of a plain exception.\<close>

lemma ram_run_sub:
  assumes "ram_run m (a - of_nat n) i n" "k + l \<le> n"
  shows "ram_run m (a - of_nat n + of_nat k) (i + k) l"
  using assms ram_run_split [of m "a - of_nat n" i k "n - k"] ram_run_split [of m "a - of_nat n + of_nat k" "i + k" l "n - k - l"]
  by simp

lemma frame6:
  assumes "ram_run m (areg (m_cpu m) 7 - 6) i 6"
  shows "\<exists>n w. push16 s (push32 p m) = m\<lparr>m_cpu := (m_cpu m)\<lparr>areg := (areg (m_cpu m))(7 := areg (m_cpu m) 7 - 6)\<rparr>,
      m_writes := n, m_ram := store_list (store_list (m_ram m) (i + 2) (be32 p)) i (be16 s), m_watch := w\<rparr>"
proof -
  let ?sp = "areg (m_cpu m) 7"
  have "ram_run m (?sp - 4) (i + 2) 4" using ram_run_sub [of m ?sp 6 i 2 4] assms(1) by simp
  from push32_ram [OF this, of p] obtain n w where p: "push32 p m =
      m\<lparr>m_cpu := (m_cpu m)\<lparr>areg := (areg (m_cpu m))(7 := ?sp - 4)\<rparr>,
        m_writes := n, m_ram := store_list (m_ram m) (i + 2) (be32 p), m_watch := w\<rparr>" by blast
  have r: "ram_run (push32 p m) (areg (m_cpu (push32 p m)) 7 - 2) i 2"
    using ram_run_sub [of m ?sp 6 i 0 2] assms(1) by (simp add: p)
  from push16_ram [OF r, of s] show ?thesis by (auto simp: p)
qed

text \<open>C20: A disk that is in a drive but not mounted interrupts the program once: the driver's mount routine
  is entered in supervisor mode with the old program counter and status register in an exception frame
  and the drive number (and its write protection) on top, and the drive counts as scheduled.\<close>

theorem mount_exception:
  assumes "sony_mount_callback (m_sony m) \<noteq> 0" "sony_insert_delay (m_sony m) \<le> 0"
    "sony_due (m_sony m) = Some d" "ram_run m (super_sp (m_cpu m) - 10) i 10"
  shows "let (taken, m') = sony_service m; sp = super_sp (m_cpu m) - 10 in
    taken \<and> pc (m_cpu m') = sony_mount_callback (m_sony m) \<and> m68k_is_super (m_cpu m') \<and> areg (m_cpu m') 7 = sp \<and>
    fst (mac_read32 m' sp) = (if sony_wprot (m_sony m) d then word_of_nat d OR 0x00FF0000 else word_of_nat d) \<and>
    fst (mac_read16 m' (sp + 4)) = sr (m_cpu m) \<and> fst (mac_read32 m' (sp + 6)) = pc (m_cpu m) \<and>
    sony_mounted (m_sony m') d \<and> (\<forall>e. e \<noteq> d \<longrightarrow> sony_mounted (m_sony m') e = sony_mounted (m_sony m) e)"
proof -
  let ?c = "m68k_sync_sp (m68k_is_super (m_cpu m)) ((m_cpu m)\<lparr>sr := (sr (m_cpu m) OR SR_S) AND NOT SR_T\<rparr>)"
  define data where "data = (if sony_wprot (m_sony m) d then word_of_nat d OR 0x00FF0000 else word_of_nat d :: u32)"
  let ?sp = "super_sp (m_cpu m)"
  note c = enter_super [where c = "m_cpu m"]
  define m1 where "m1 = m\<lparr>m_sony := (m_sony m)\<lparr>sony_mounted := (sony_mounted (m_sony m))(d := True)\<rparr>, m_cpu := ?c\<rparr>"
  define m2 where "m2 = push16 (sr (m_cpu m)) (push32 (pc ?c) m1)"
  have sp1: "areg (m_cpu m1) 7 = ?sp" by (simp add: m1_def c)
  have R: "ram_run m1 (?sp - 10) i 10" using assms(4) by (simp add: m1_def)
  have r6: "ram_run m1 (areg (m_cpu m1) 7 - 6) (i + 4) 6" using ram_run_sub [of m1 ?sp 10 i 4 6] R sp1 by simp
  obtain n w where m2: "m2 = m1\<lparr>m_cpu := (m_cpu m1)\<lparr>areg := (areg (m_cpu m1))(7 := ?sp - 6)\<rparr>, m_writes := n,
      m_ram := store_list (store_list (m_ram m1) (i + 4 + 2) (be32 (pc ?c))) (i + 4) (be16 (sr (m_cpu m))), m_watch := w\<rparr>"
    using frame6 [OF r6] unfolding m2_def sp1 by blast
  define m3 where "m3 = m2\<lparr>m_cpu := (m_cpu m2)\<lparr>pc := sony_mount_callback (m_sony m2)\<rparr>\<rparr>"
  have r4: "ram_run m3 (areg (m_cpu m3) 7 - 4) i 4"
    using ram_run_sub [of m1 ?sp 10 i 0 4] R by (simp add: m3_def m2)
  obtain n' w' where m4: "push32 data m3 = m3\<lparr>m_cpu := (m_cpu m3)\<lparr>areg := (areg (m_cpu m3))(7 := ?sp - 10)\<rparr>,
      m_writes := n', m_ram := store_list (m_ram m3) i (be32 data), m_watch := w'\<rparr>"
    using push32_ram [OF r4, of data] by (auto simp: m3_def m2)
  have s: "sony_service m = (True, push32 data m3)"
    using assms(1,2,3) by (simp add: sony_service_def m3_def m2_def m1_def data_def Let_def)
  let ?m = "push32 data m3"
  have run: "ram_run ?m (?sp - 10 + of_nat k) (i + k) l" if "k + l \<le> 10" for k l
    using ram_run_sub [of m1 ?sp 10 i k l] R that unfolding m4 by (simp add: m3_def m2)
  have data_at: "fst (mac_read32 ?m (?sp - 10)) = data"
  proof (rule read32_store [of _ _ i])
    show "ram_run ?m (?sp - 10) i 4" using run [of 0 4] by simp
  qed (unfold m4, simp add: store_list_def be32_def be16_def)
  have srw: "fst (mac_read16 ?m (?sp - 10 + 4)) = sr (m_cpu m)"
  proof (rule read16_store [of _ _ "i + 4"])
    show "ram_cell ?m (?sp - 10 + 4) = Some (i + 4)" using ram_run_cell [OF run [of 4 2], of 0] by simp
  qed (unfold m4, simp add: m3_def m2 store_list_def be16_def be32_def)
  have pcl: "fst (mac_read32 ?m (?sp - 10 + 6)) = pc (m_cpu m)"
  proof (rule read32_store [of _ _ "i + 6"])
    show "ram_run ?m (?sp - 10 + 6) (i + 6) 4" using run [of 6 4] by simp
  qed (unfold m4, simp add: m3_def m2 store_list_def be16_def be32_def c)
  have fin: "pc (m_cpu ?m) = sony_mount_callback (m_sony m)" "sr (m_cpu ?m) = sr ?c" "areg (m_cpu ?m) 7 = ?sp - 10"
    "sony_mounted (m_sony ?m) = (sony_mounted (m_sony m))(d := True)"
    unfolding m4 by (simp_all add: m3_def m2 m1_def)
  show ?thesis using data_at srw pcl fin c(2) unfolding s Let_def split data_def [symmetric] by (simp add: m68k_is_super_def)
qed

definition mount_machine :: machine where
  "mount_machine = upd_sony (\<lambda>s. s\<lparr>sony_mount_callback := 0x400100\<rparr>)
     (upd_cpu (\<lambda>c. c\<lparr>ssp := 0x2000, pc := 0x1234\<rparr>) disk_machine)"

theorem mount_exception_witness:
  "let (taken, m') = sony_service mount_machine in
   taken \<and> pc (m_cpu m') = 0x400100 \<and> fst (mac_read32 m' 0x1FFC) = 0x1234 \<and> sony_mounted (m_sony m') 0"
proof -
  have s: "m_sony mount_machine = (m_sony disk_machine)\<lparr>sony_mount_callback := 0x400100\<rparr>"
    "m_cpu mount_machine = cpu_zero\<lparr>ssp := 0x2000, pc := 0x1234\<rparr>"
    by (simp_all add: mount_machine_def disk_machine_def sony_insert_disk_def sony_insert_disk_drive_def NUM_DRIVES_def
        ram_machine_def mac_mem_init_def Let_def)
  have d: "sony_due (m_sony mount_machine) = Some 0" "sony_insert_delay (m_sony mount_machine) \<le> 0"
    by (simp_all add: s sony_due_def NUM_DRIVES_def disk_machine_def sony_insert_disk_def sony_insert_disk_drive_def
        ram_machine_def mac_mem_init_def sony_init_def Let_def upt_rec)
  have c: "ram_cell mount_machine a = ram_cell ram_machine a" for a
    by (simp add: mount_machine_def disk_machine_def sony_insert_disk_def sony_insert_disk_drive_def NUM_DRIVES_def)
  have sp: "super_sp (m_cpu mount_machine) = 0x2000" by (simp add: s super_sp_def m68k_is_super_def cpu_zero_def)
  have r: "ram_run mount_machine (super_sp (m_cpu mount_machine) - 10) 0x1FF6 10"
    using ram_machine_run [of "0x1FF6" 10] unfolding sp by (simp add: ram_run_def c)
  show ?thesis using mount_exception [OF _ d(2) d(1) r] unfolding sp by (simp add: s case_prod_beta Let_def)
qed

end
