(* ===== verification/Mouse.thy ===== *)
theory Mouse
  imports Sony
begin

text \<open>
  The mouse half of core/mac_input.c: the host pointer is stored in the low-memory mouse
  globals, once the operating system has enabled the SCC interrupts.
\<close>

definition LM_MTemp :: u32 where "LM_MTemp = 0x0828"
definition LM_RawMouse :: u32 where "LM_RawMouse = 0x082C"
definition LM_CrsrNew :: u32 where "LM_CrsrNew = 0x08CE"
definition LM_CrsrCouple :: u32 where "LM_CrsrCouple = 0x08CF"

definition mac_mouse_enabled :: "machine \<Rightarrow> bool" where
  "mac_mouse_enabled m = scc_irq_on (m_scc m)"

definition mouse_clamp :: "int \<Rightarrow> int \<Rightarrow> int" where
  "mouse_clamp x hi = (let x = (if x < 0 then 0 else x) in if x > hi then hi else x)"

definition mouse_pos :: "int \<Rightarrow> int \<Rightarrow> u32" where
  "mouse_pos x y = push_bit 16 (word_of_int y) OR word_of_int (x AND 0xFFFF)"

definition mac_set_mouse :: "machine \<Rightarrow> int \<Rightarrow> int \<Rightarrow> bool \<Rightarrow> machine" where
  "mac_set_mouse m x y button_down =
     (if \<not> mac_mouse_enabled m then m
      else
        (let pos = mouse_pos (mouse_clamp x 511) (mouse_clamp y 341);
             (cur, m) = mac_read32 m LM_MTemp;
             m = (if cur \<noteq> pos then
                    (let m = mac_write32 m LM_MTemp pos; m = mac_write32 m LM_RawMouse pos;
                         (couple, m) = mac_read8 m LM_CrsrCouple
                     in mac_write8 m LM_CrsrNew couple)
                  else m)
         in m\<lparr>m_mouse_btn := (if button_down then 0 else 1)\<rparr>))"

lemma clamp_range: "0 \<le> hi \<Longrightarrow> 0 \<le> mouse_clamp x hi \<and> mouse_clamp x hi \<le> hi"
  by (simp add: mouse_clamp_def Let_def)

end
