(* ===== verification/Alu.thy ===== *)
theory Alu
  imports M68kCpu
begin

text \<open>
  The shift and rotate helper \<open>do_shift\<close> of core/m68k_interp.c, whose C loop moves
  one bit per iteration. It is shown equal to its closed form, bit by bit, for every
  operation, operand width and count.
\<close>

subsection \<open>Shifts and rotates\<close>

text \<open>One iteration of the loop in \<open>do_shift\<close> over (val, last_out, X, overflow); op is
  0 ASR, 1 LSR, 2 ROXR, 3 ROR, 4 ASL, 5 LSL, 6 ROXL, 7 ROL.\<close>

definition shift_step :: "nat \<Rightarrow> nat \<Rightarrow> u32 \<times> bool \<times> bool \<times> bool \<Rightarrow> u32 \<times> bool \<times> bool \<times> bool" where
  "shift_step sz op st =
     (let (val, last_out, X, overflow) = st; mask = size_mask sz; msb = size_msb sz in
      if op = 0 then (drop_bit 1 val OR (val AND msb), val AND 1 \<noteq> 0, X, overflow)
      else if op = 1 then (drop_bit 1 val, val AND 1 \<noteq> 0, X, overflow)
      else if op = 2 then
        (let inb = X; X = (val AND 1 \<noteq> 0) in
         (drop_bit 1 val OR (if inb then msb else 0), X, X, overflow))
      else if op = 3 then
        (let last_out = (val AND 1 \<noteq> 0) in
         (drop_bit 1 val OR (if last_out then msb else 0), last_out, X, overflow))
      else if op = 4 then
        (let before = (val AND msb \<noteq> 0); val = push_bit 1 val AND mask in
         (val, before, X, overflow \<or> ((val AND msb \<noteq> 0) \<noteq> before)))
      else if op = 5 then (push_bit 1 val AND mask, val AND msb \<noteq> 0, X, overflow)
      else if op = 6 then
        (let inb = X; X = (val AND msb \<noteq> 0) in
         ((push_bit 1 val AND mask) OR (if inb then 1 else 0), X, X, overflow))
      else if op = 7 then
        (let last_out = (val AND msb \<noteq> 0) in
         ((push_bit 1 val AND mask) OR (if last_out then 1 else 0), last_out, X, overflow))
      else st)"

definition do_shift :: "nat \<Rightarrow> nat \<Rightarrow> u32 \<Rightarrow> u32 \<Rightarrow> m68k_cpu \<Rightarrow> u32 \<times> m68k_cpu" where
  "do_shift sz op val cnt cpu =
     (let mask = size_mask sz; msb = size_msb sz;
          val = val AND mask;
          f = m68k_get_ccr cpu;
          X = (f AND CCR_X \<noteq> 0) in
      if cnt = 0 then
        (let c = f AND NOT (CCR_C OR CCR_V);
             c = (if op = 2 \<or> op = 6 then (if X then c OR CCR_C else c AND NOT CCR_C) else c)
         in (val, set_nz sz val (m68k_set_ccr c cpu)))
      else
        (let (val, last_out, X, overflow) = (shift_step sz op ^^ unat cnt) (val, False, X, False);
             val = val AND mask;
             c = 0;
             c = (if val = 0 then c OR CCR_Z else c);
             c = (if val AND msb \<noteq> 0 then c OR CCR_N else c);
             is_rotate_plain = (op = 3 \<or> op = 7);
             is_rotate_x = (op = 2 \<or> op = 6);
             c = (if last_out then c OR CCR_C else c);
             c = (if is_rotate_x then (if X then c OR CCR_X else c AND NOT CCR_X)
                  else if \<not> is_rotate_plain then (if last_out then c OR CCR_X else c)
                  else (if f AND CCR_X \<noteq> 0 then c OR CCR_X else c));
             c = (if overflow then c OR CCR_V else c)
         in (val, m68k_set_ccr c cpu)))"

subsection \<open>The closed form of the shifts\<close>

lemma bit_size_mask: "op_size sz \<Longrightarrow> bit (size_mask sz) i \<longleftrightarrow> i < 8 * sz"
proof -
  assume "op_size sz"
  hence "size_mask sz = mask (8 * sz)" by (auto simp: op_size_def size_mask_def mask_eq_exp_minus_1)
  thus ?thesis using \<open>op_size sz\<close> by (auto simp: bit_mask_iff op_size_def)
qed

lemma bit_size_msb: "op_size sz \<Longrightarrow> bit (size_msb sz) i \<longleftrightarrow> i = 8 * sz - 1"
proof -
  assume "op_size sz"
  hence "size_msb sz = 2 ^ (8 * sz - 1)" by (auto simp: op_size_def size_msb_def)
  thus ?thesis using \<open>op_size sz\<close> by (auto simp: bit_exp_iff op_size_def)
qed

text \<open>The register extended by the X bit, as the rotates through X see it.\<close>

definition ext_bit :: "nat \<Rightarrow> bool \<Rightarrow> u32 \<Rightarrow> nat \<Rightarrow> bool" where
  "ext_bit n X v i = (if i = n then X else bit v i)"

text \<open>Bit \<open>i\<close> of the result of shifting the \<open>n\<close>-bit value \<open>v\<close> by \<open>k\<close>.\<close>

definition shifted_bit :: "nat \<Rightarrow> nat \<Rightarrow> bool \<Rightarrow> u32 \<Rightarrow> nat \<Rightarrow> nat \<Rightarrow> bool" where
  "shifted_bit op n X v k i =
     (if op = 0 then bit v (min (i + k) (n - 1))
      else if op = 1 then i + k < n \<and> bit v (i + k)
      else if op = 2 then ext_bit n X v ((i + k) mod (n + 1))
      else if op = 3 then bit v ((i + k) mod n)
      else if op = 4 \<or> op = 5 then k \<le> i \<and> bit v (i - k)
      else if op = 6 then ext_bit n X v ((i + k * n) mod (n + 1))
      else bit v ((i + k * (n - 1)) mod n))"

definition shifted_x :: "nat \<Rightarrow> nat \<Rightarrow> bool \<Rightarrow> u32 \<Rightarrow> nat \<Rightarrow> bool" where
  "shifted_x op n X v k =
     (if op = 2 then ext_bit n X v ((n + k) mod (n + 1))
      else if op = 6 then ext_bit n X v ((n + k * n) mod (n + 1)) else X)"

text \<open>The bit shifted out last, for a count that is not zero.\<close>

definition shifted_out :: "nat \<Rightarrow> nat \<Rightarrow> bool \<Rightarrow> u32 \<Rightarrow> nat \<Rightarrow> bool" where
  "shifted_out op n X v k =
     (if op < 4 then shifted_bit op n X v (k - 1) 0 else shifted_bit op n X v (k - 1) (n - 1))"

definition sign_changed :: "nat \<Rightarrow> u32 \<Rightarrow> nat \<Rightarrow> bool" where
  "sign_changed n v k \<longleftrightarrow>
     (\<exists>j \<in> {1..k}. shifted_bit 4 n False v j (n - 1) \<noteq> shifted_bit 4 n False v (j - 1) (n - 1))"

definition shift_inv :: "nat \<Rightarrow> nat \<Rightarrow> bool \<Rightarrow> u32 \<Rightarrow> nat \<Rightarrow> u32 \<times> bool \<times> bool \<times> bool \<Rightarrow> bool" where
  "shift_inv op sz X v k st =
     (case st of (val, last_out, X', overflow) \<Rightarrow>
        (\<forall>i. bit val i \<longleftrightarrow> i < 8 * sz \<and> shifted_bit op (8 * sz) X v k i) \<and>
        X' = shifted_x op (8 * sz) X v k \<and>
        (k \<noteq> 0 \<longrightarrow> last_out = shifted_out op (8 * sz) X v k) \<and>
        overflow = (op = 4 \<and> sign_changed (8 * sz) v k))"

lemma shift_inv_0:
  assumes "op_size sz" "op < 8"
  shows "shift_inv op sz X (val AND size_mask sz) 0 (val AND size_mask sz, False, X, False)"
  using assms
  by (auto simp: shift_inv_def shifted_bit_def shifted_x_def ext_bit_def sign_changed_def bit_and_iff
      bit_size_mask min_def)

lemma and_1_bit: "x AND 1 \<noteq> 0 \<longleftrightarrow> bit x 0" for x :: u32
  using and_exp_eq_0_iff_not_bit [of x 0] by simp

lemma sign_changed_Suc:
  "sign_changed n v (Suc k) \<longleftrightarrow> sign_changed n v k \<or>
     shifted_bit 4 n False v (Suc k) (n - 1) \<noteq> shifted_bit 4 n False v k (n - 1)"
  by (auto simp: sign_changed_def atLeastAtMostSuc_conv)

lemma mod_step_up: "(i + Suc k) mod Suc n = ((i + 1) + k) mod Suc n" by simp

lemma mod_step_down:
  assumes "0 < i" shows "(i + Suc k * n) mod Suc n = (i - 1 + k * n) mod Suc n"
proof -
  have "i + Suc k * n = (i - 1 + k * n) + Suc n" using assms by simp
  thus ?thesis by (metis mod_add_self2)
qed

lemma mod_step_down':
  assumes "0 < i" "0 < n" shows "(i + Suc k * (n - 1)) mod n = (i - 1 + k * (n - 1)) mod n"
proof -
  have "i + Suc k * (n - 1) = (i - 1 + k * (n - 1)) + n" using assms by simp
  thus ?thesis by (metis mod_add_self2)
qed

lemmas shift_eval = shift_inv_def shift_step_def shifted_bit_def shifted_x_def shifted_out_def
  Let_def bit_or_iff bit_and_iff bit_drop_bit_eq bit_push_bit_iff

text \<open>Index arithmetic of the rotates: one more step moves every bit by one place.\<close>

lemma wrap_plain: "Suc i = n \<Longrightarrow> Suc (i + k) mod n = k mod n" for n :: nat
  by (metis add_Suc mod_add_self1)

lemma wrap_ext: "Suc (n + k) mod Suc n = k mod Suc n" for n :: nat
  by (metis add_Suc mod_add_self1)

lemma wrap_ext_at: "Suc i = n \<Longrightarrow> Suc (i + k) mod Suc n = (n + k) mod Suc n" for n :: nat
  by auto

lemma roxl_0: "Suc k * n mod Suc n = (n + k * n) mod Suc n" by simp

lemma roxl_step:
  "(i + Suc k * n) mod Suc n = (if i = 0 then (n + k * n) mod Suc n else (i - 1 + k * n) mod Suc n)"
proof (cases i)
  case (Suc j)
  have "Suc j + Suc k * n = (j + k * n) + Suc n" by simp
  with Suc show ?thesis by (metis diff_Suc_1 mod_add_self2 nat.simps(3))
qed simp

lemma rol_0: "Suc k * (n - Suc 0) mod n = (n - Suc 0 + k * (n - Suc 0)) mod n" by simp

lemma rol_step:
  assumes "0 < n"
  shows "(i + Suc k * (n - Suc 0)) mod n =
    (if i = 0 then (n - Suc 0 + k * (n - Suc 0)) mod n else (i - 1 + k * (n - Suc 0)) mod n)"
proof (cases i)
  case (Suc j)
  have "Suc j + Suc k * (n - Suc 0) = (j + k * (n - Suc 0)) + n" using assms by simp
  with Suc show ?thesis by (metis diff_Suc_1 mod_add_self2 nat.simps(3))
qed simp

lemma shift_inv_step:
  assumes sz: "op_size sz" and op: "op < 8" and inv: "shift_inv op sz X v k st"
  shows "shift_inv op sz X v (Suc k) (shift_step sz op st)"
proof -
  obtain val lo X' ov where st: "st = (val, lo, X', ov)" by (cases st) auto
  have B: "bit val i \<longleftrightarrow> i < 8 * sz \<and> shifted_bit op (8 * sz) X v k i" for i
    using inv by (simp add: shift_inv_def st)
  have X': "X' = shifted_x op (8 * sz) X v k" and ov: "ov = (op = 4 \<and> sign_changed (8 * sz) v k)"
    using inv by (simp_all add: shift_inv_def st)
  have n: "0 < sz" "8 * sz \<le> 32" using sz by (auto simp: op_size_def)
  have i: "i < 8 * sz \<Longrightarrow> Suc i < 8 * sz \<or> Suc i = 8 * sz" for i by arith
  have msb0: "y AND size_msb sz = 0 \<longleftrightarrow> \<not> bit y (8 * sz - 1)" for y using msb_iff [OF sz, of y] by blast
  note bits = bit_size_msb [OF sz] bit_size_mask [OF sz] msb0 and_1_bit [unfolded not_not] bit_double
    bit_1_iff bit_or_iff bit_and_iff bit_drop_bit_eq bit_push_bit_iff Let_def B X' ov
    shifted_out_def sign_changed_Suc shifted_bit_def shifted_x_def
  consider (right) "op = 0 \<or> op = 1 \<or> op = 2 \<or> op = 3" | (left) "op = 4 \<or> op = 5 \<or> op = 6 \<or> op = 7"
    using op by arith
  thus ?thesis
  proof cases
    case right
    thus ?thesis using n unfolding st shift_inv_def shift_step_def
      by (elim disjE; simp add: bits wrap_ext; auto simp: wrap_plain wrap_ext_at dest: i)
  next
    case left
    thus ?thesis using n unfolding st shift_inv_def shift_step_def
      by (elim disjE; simp add: bits rol_0 roxl_0 rol_step roxl_step del: mult_Suc;
          auto simp: not_le simp del: mult_Suc split: if_splits)
  qed
qed

lemma shift_inv_loop:
  assumes "op_size sz" "op < 8"
  shows "shift_inv op sz X (val AND size_mask sz) k
           ((shift_step sz op ^^ k) (val AND size_mask sz, False, X, False))"
  using assms by (induction k) (auto intro: shift_inv_0 shift_inv_step)

lemma word32_mask: "op_size sz \<Longrightarrow> (\<forall>i. bit r i \<longleftrightarrow> i < 8 * sz \<and> P i) \<Longrightarrow> r AND size_mask sz = r" for r :: u32
  by (rule bit_word_eqI) (auto simp: bit_and_iff bit_size_mask)

lemma do_shift_unfold:
  assumes "cnt \<noteq> 0" and "(shift_step sz op ^^ unat cnt) (val AND size_mask sz, False, flag c CCR_X, False) = (r, lo, X', ov)"
     "r AND size_mask sz = r"
  shows "fst (do_shift sz op val cnt c) = r"
   "flag (snd (do_shift sz op val cnt c)) CCR_C \<longleftrightarrow> lo"
   "flag (snd (do_shift sz op val cnt c)) CCR_X \<longleftrightarrow>
     (if op = 2 \<or> op = 6 then X' else if op = 3 \<or> op = 7 then flag c CCR_X else lo)"
   "flag (snd (do_shift sz op val cnt c)) CCR_Z \<longleftrightarrow> r = 0"
   "flag (snd (do_shift sz op val cnt c)) CCR_N \<longleftrightarrow> r AND size_msb sz \<noteq> 0"
   "flag (snd (do_shift sz op val cnt c)) CCR_V \<longleftrightarrow> ov"
   "same_but_ccr c (snd (do_shift sz op val cnt c))"
proof -
  have X: "(m68k_get_ccr c AND CCR_X \<noteq> 0) = flag c CCR_X" by (simp add: flag_def)
  define C where "C = (let c0 = 0;
             c0 = (if r = 0 then c0 OR CCR_Z else c0);
             c0 = (if r AND size_msb sz \<noteq> 0 then c0 OR CCR_N else c0);
             c0 = (if lo then c0 OR CCR_C else c0);
             c0 = (if op = 2 \<or> op = 6 then (if X' then c0 OR CCR_X else c0 AND NOT CCR_X)
                  else if \<not> (op = 3 \<or> op = 7) then (if lo then c0 OR CCR_X else c0)
                  else (if flag c CCR_X then c0 OR CCR_X else c0))
             in (if ov then c0 OR CCR_V else c0))"
  have eq: "do_shift sz op val cnt c = (r, m68k_set_ccr C c)"
    by (simp add: do_shift_def X assms C_def Let_def)
  show "fst (do_shift sz op val cnt c) = r" by (simp add: eq)
  show "same_but_ccr c (snd (do_shift sz op val cnt c))" by (simp add: eq same_but_ccr_def) blast
  note f = eq flag_bit [unfolded ccr_bits] flag_bit bit_and_iff C_def Let_def ccr_bits bit_not_iff bit_or_iff if_distrib [of "\<lambda>c. bit c _"]
  show "flag (snd (do_shift sz op val cnt c)) CCR_C \<longleftrightarrow> lo" by (simp add: f)
  show "flag (snd (do_shift sz op val cnt c)) CCR_X \<longleftrightarrow>
     (if op = 2 \<or> op = 6 then X' else if op = 3 \<or> op = 7 then flag c CCR_X else lo)" by (simp add: f)
  show "flag (snd (do_shift sz op val cnt c)) CCR_Z \<longleftrightarrow> r = 0" by (simp add: f)
  show "flag (snd (do_shift sz op val cnt c)) CCR_N \<longleftrightarrow> r AND size_msb sz \<noteq> 0" by (simp add: f)
  show "flag (snd (do_shift sz op val cnt c)) CCR_V \<longleftrightarrow> ov" by (simp add: f)
qed

text \<open>C4: The C loop of the shift helper computes, for all eight operations, operand widths and
  nonzero counts, the closed form: every result bit is a bit of the operand (or of the operand
  extended by X) at a fixed distance, C is the last bit moved out, X follows C, keeps its value
  for plain rotates and rotates along for the extended ones, and V tells for ASL that the sign
  bit changed at any moment.\<close>

theorem do_shift_correct:
  assumes "op_size sz" "op < 8" "cnt \<noteq> 0"
  shows "let (r, c') = do_shift sz op val cnt c; n = 8 * sz; v = val AND size_mask sz;
             X = flag c CCR_X; k = unat cnt in
     (\<forall>i. bit r i \<longleftrightarrow> i < n \<and> shifted_bit op n X v k i) \<and>
     (flag c' CCR_C \<longleftrightarrow> shifted_out op n X v k) \<and>
     (flag c' CCR_X \<longleftrightarrow> (if op = 2 \<or> op = 6 then shifted_x op n X v k
                        else if op = 3 \<or> op = 7 then X else shifted_out op n X v k)) \<and>
     (flag c' CCR_Z \<longleftrightarrow> r = 0) \<and> (flag c' CCR_N \<longleftrightarrow> bit r (n - 1)) \<and>
     (flag c' CCR_V \<longleftrightarrow> op = 4 \<and> sign_changed n v k) \<and> same_but_ccr c c'"
proof -
  obtain r lo X' ov where l:
    "(shift_step sz op ^^ unat cnt) (val AND size_mask sz, False, flag c CCR_X, False) = (r, lo, X', ov)"
    by (metis surj_pair)
  have inv: "shift_inv op sz (flag c CCR_X) (val AND size_mask sz) (unat cnt) (r, lo, X', ov)"
    using shift_inv_loop [OF assms(1,2), of "flag c CCR_X" val "unat cnt"] l by simp
  hence r: "\<forall>i. bit r i \<longleftrightarrow> i < 8 * sz \<and> shifted_bit op (8 * sz) (flag c CCR_X) (val AND size_mask sz) (unat cnt) i"
    by (simp add: shift_inv_def)
  note res = do_shift_unfold [OF assms(3) l word32_mask [OF assms(1) r]]
  obtain r' c' where p: "do_shift sz op val cnt c = (r', c')" by (cases "do_shift sz op val cnt c")
  have "unat cnt \<noteq> 0" using assms(3) by (simp add: unat_eq_0)
  thus ?thesis using res inv unfolding p Let_def shift_inv_def msb_iff [OF assms(1)] by simp
qed

theorem do_shift_correct_witness:
  "op_size 2 \<and> fst (do_shift 2 1 0x8001 1 cpu_zero) = 0x4000"
proof -
  have "fst (do_shift 2 1 0x8001 1 cpu_zero) = 0x4000 \<and> flag (snd (do_shift 2 1 0x8001 1 cpu_zero)) CCR_C"
    using do_shift_correct [of 2 1 1 "0x8001" cpu_zero]
    by (simp add: op_size_def shifted_out_def shifted_bit_def size_mask_def split_beta do_shift_def shift_step_def Let_def)
  thus ?thesis by (simp add: op_size_def)
qed
lemma uval_bits: "op_size sz \<Longrightarrow> bit (uval sz v) i \<longleftrightarrow> i < 8 * sz \<and> bit v i"
  by (auto simp: uval_def bit_take_bit_iff bit_uint_iff op_size_def simp flip: take_bit_eq_mod)

lemma sval_signed:
  assumes "op_size sz" shows "sval sz v = signed_take_bit (8 * sz - 1) (uint v)"
proof -
  have k: "8 * sz = Suc (8 * sz - 1)" using assms by (auto simp: op_size_def)
  have "2 ^ (8 * sz - 1) \<le> uval sz v \<longleftrightarrow> bit (uint v) (8 * sz - 1)"
    using bit_int_ge [of "uval sz v" "8 * sz - 1"] uval_bounds [of sz v] uval_bits [OF assms, of v "8 * sz - 1"]
    by (metis k bit_uint_iff bit_imp_possible_bit lessI possible_bit_word power_Suc)
  moreover have "uval sz v = take_bit (Suc (8 * sz - 1)) (uint v)" using k by (simp add: uval_def take_bit_eq_mod)
  ultimately show ?thesis by (simp add: sval_def sgn_val_def signed_take_bit_eq_take_bit_minus)
qed

lemma sval_bit:
  assumes "op_size sz"
  shows "bit (sval sz v) i \<longleftrightarrow> bit v (min i (8 * sz - 1))"
  using assms by (simp add: sval_signed bit_signed_take_bit_iff bit_uint_iff) (auto simp: op_size_def min_def)

lemma do_shift_bits:
  assumes "op_size sz" "op < 8" "cnt \<noteq> 0"
  shows "bit (fst (do_shift sz op val cnt c)) i \<longleftrightarrow>
    i < 8 * sz \<and> shifted_bit op (8 * sz) (flag c CCR_X) (val AND size_mask sz) (unat cnt) i"
proof -
  obtain r lo X' ov where l:
    "(shift_step sz op ^^ unat cnt) (val AND size_mask sz, False, flag c CCR_X, False) = (r, lo, X', ov)"
    by (metis surj_pair)
  have r: "\<forall>i. bit r i \<longleftrightarrow> i < 8 * sz \<and> shifted_bit op (8 * sz) (flag c CCR_X) (val AND size_mask sz) (unat cnt) i"
    using shift_inv_loop [OF assms(1,2), of "flag c CCR_X" val "unat cnt"] l by (simp add: shift_inv_def)
  show ?thesis using do_shift_unfold(1) [OF assms(3) l word32_mask [OF assms(1) r]] r by simp
qed

text \<open>C5: LSR divides the unsigned operand by a power of two, ASR divides the two's complement
  operand by it rounding down, and LSL multiplies modulo the operand width.\<close>

theorem shift_arith:
  assumes "op_size sz" "cnt \<noteq> 0"
  shows "uval sz (fst (do_shift sz 1 val cnt c)) = uval sz val div 2 ^ unat cnt \<and>
     sval sz (fst (do_shift sz 0 val cnt c)) = sval sz val div 2 ^ unat cnt \<and>
     uval sz (fst (do_shift sz 5 val cnt c)) = (uval sz val * 2 ^ unat cnt) mod 2 ^ (8 * sz)"
proof -
  have n: "0 < sz" using assms(1) by (auto simp: op_size_def)
  have c: "0 < unat cnt" using assms(2) by (simp add: unat_gt_0)
  note b = uval_bits [OF assms(1)] sval_bit [OF assms(1)] do_shift_bits [OF assms(1) _ assms(2)]
    shifted_bit_def bit_and_iff bit_size_mask [OF assms(1)] bit_drop_bit_eq bit_take_bit_iff bit_push_bit_iff
  have "uval sz (fst (do_shift sz 1 val cnt c)) = drop_bit (unat cnt) (uval sz val)"
    by (rule bit_eqI) (auto simp: b add.commute)
  moreover have "sval sz (fst (do_shift sz 0 val cnt c)) = drop_bit (unat cnt) (sval sz val)"
    by (rule bit_eqI) (use n c in \<open>auto simp: b min_def add.commute\<close>)
  moreover have "uval sz (fst (do_shift sz 5 val cnt c)) = take_bit (8 * sz) (push_bit (unat cnt) (uval sz val))"
    by (rule bit_eqI) (auto simp: b)
  ultimately show ?thesis by (simp add: drop_bit_eq_div take_bit_eq_mod push_bit_eq_mult)
qed

theorem shift_arith_witness:
  "op_size 1 \<and> sval 1 (fst (do_shift 1 0 0xF1 2 cpu_zero)) = - 4"
proof -
  have 1: "op_size 1" by (simp add: op_size_def)
  have "sval 1 0xF1 = - 15" by (simp add: sval_def uval_def sgn_val_def)
  thus ?thesis using shift_arith [of 1 2 "0xF1" cpu_zero] 1 by simp
qed

end
