(* ===== verification/Bcd.thy ===== *)
theory Bcd
  imports M68kCpu
begin

text \<open>
  The packed decimal add, subtract and negate of core/m68k_interp.c (ABCD, SBCD, NBCD),
  with the intermediate values at the 16 bits the C code gives them, and the proof that
  on decimal operands they compute modulo 100.
\<close>

subsection \<open>Packed decimal bytes\<close>

definition bcd_abcd :: "u8 \<Rightarrow> u8 \<Rightarrow> m68k_cpu \<Rightarrow> u8 \<times> m68k_cpu" where
  "bcd_abcd src dst cpu =
     (let ccr = m68k_get_ccr cpu;
          x = (if ccr AND CCR_X \<noteq> 0 then 1 else 0) :: u16;
          flgs = (src AND 0x80 \<noteq> 0); flgo = (dst AND 0x80 \<noteq> 0);
          lo = ucast (src AND 0x0F) + ucast (dst AND 0x0F) + x;
          hi = ucast (src AND 0xF0) + ucast (dst AND 0xF0);
          lo = (if lo > 9 then lo + 6 else lo);
          v = hi + lo;
          carry = (v AND 0x1F0 > 0x90);
          v = (if carry then v + 0x60 else v);
          res = ucast v; c = ccr AND CCR_Z;
          c = (if carry then c OR (CCR_C OR CCR_X) else c);
          c = (if res \<noteq> 0 then c AND NOT CCR_Z else c);
          N = (res AND 0x80 \<noteq> 0);
          c = (if N then c OR CCR_N else c);
          c = (if flgs \<noteq> flgo \<and> N \<noteq> flgo then c OR CCR_V else c)
      in (res, m68k_set_ccr c cpu))"

definition bcd_sbcd :: "u8 \<Rightarrow> u8 \<Rightarrow> m68k_cpu \<Rightarrow> u8 \<times> m68k_cpu" where
  "bcd_sbcd src dst cpu =
     (let ccr = m68k_get_ccr cpu;
          x = (if ccr AND CCR_X \<noteq> 0 then 1 else 0) :: u16;
          flgs = (src AND 0x80 \<noteq> 0); flgo = (dst AND 0x80 \<noteq> 0);
          lo = ucast (dst AND 0x0F) - ucast (src AND 0x0F) - x;
          hi = ucast (dst AND 0xF0) - ucast (src AND 0xF0);
          (lo, hi) = (if lo > 9 then (lo - 6, hi - 0x10) else (lo, hi));
          v = hi + (lo AND 0x0F);
          carry = (hi AND 0x1F0 > 0x90);
          v = (if carry then v - 0x60 else v);
          res = ucast v; c = ccr AND CCR_Z;
          c = (if carry then c OR (CCR_C OR CCR_X) else c);
          c = (if res \<noteq> 0 then c AND NOT CCR_Z else c);
          N = (res AND 0x80 \<noteq> 0);
          c = (if N then c OR CCR_N else c);
          c = (if flgs \<noteq> flgo \<and> N \<noteq> flgo then c OR CCR_V else c)
      in (res, m68k_set_ccr c cpu))"

definition bcd_nbcd :: "u8 \<Rightarrow> m68k_cpu \<Rightarrow> u8 \<times> m68k_cpu" where
  "bcd_nbcd dst cpu =
     (let ccr = m68k_get_ccr cpu;
          x = (if ccr AND CCR_X \<noteq> 0 then 1 else 0) :: u16;
          lo = 0 - ucast (dst AND 0x0F) - x;
          hi = 0 - ucast (dst AND 0xF0);
          (lo, hi) = (if lo > 9 then (lo - 6, hi - 0x10) else (lo, hi));
          v = hi + (lo AND 0x0F);
          carry = (hi AND 0x1F0 > 0x90);
          v = (if carry then v - 0x60 else v);
          res = ucast v; c = ccr AND CCR_Z;
          c = (if carry then c OR (CCR_C OR CCR_X) else c);
          c = (if res \<noteq> 0 then c AND NOT CCR_Z else c);
          c = (if res AND 0x80 \<noteq> 0 then c OR CCR_N else c)
      in (res, m68k_set_ccr c cpu))"

subsection \<open>Decimal digits\<close>

definition bcd_digits :: "u8 \<Rightarrow> bool" where
  "bcd_digits x \<longleftrightarrow> uint x mod 16 < 10 \<and> uint x div 16 < 10"

definition bcd_value :: "u8 \<Rightarrow> int" where
  "bcd_value x = 10 * (uint x div 16) + uint x mod 16"


lemma nib_lo: "uint (ucast (x AND 0x0F :: u8) :: u16) = uint x mod 16"
proof -
  have "uint (x AND 0x0F) = take_bit 4 (uint x)"
    by (simp add: unsigned_and_eq take_bit_eq_mask mask_eq_exp_minus_1)
  thus ?thesis by (simp add: uint_up_ucast is_up take_bit_eq_mod)
qed

lemma nib_hi: "uint (ucast (x AND 0xF0 :: u8) :: u16) = 16 * (uint x div 16)"
proof -
  have "x AND 0xF0 = push_bit 4 (drop_bit 4 x)" by (simp add: byte_eq_bits bit_simps)
  hence "uint (x AND 0xF0) = push_bit 4 (drop_bit 4 (uint x)) mod 256"
    using mod_pos_pos_trivial [of "uint x" 256] uint_lt2p [of x]
    by (simp add: unsigned_push_bit_eq unsigned_drop_bit_eq take_bit_eq_mod)
  moreover have "uint x div 16 * 16 mod 256 = uint x div 16 * 16"
    using uint_lt2p [of x] by (intro mod_pos_pos_trivial) (auto simp: pos_imp_zdiv_nonneg_iff)
  ultimately show ?thesis by (simp add: uint_up_ucast is_up push_bit_eq_mult drop_bit_eq_div)
qed

lemma nib_carry: "uint (v AND 0x1F0 :: u16) = 16 * ((uint v div 16) mod 32)"
proof -
  have "v AND 0x1F0 = push_bit 4 (take_bit 5 (drop_bit 4 v))" by (simp add: halfword_eq_bits bit_simps)
  hence "uint (v AND 0x1F0) = (push_bit 4 (take_bit 5 (drop_bit 4 (uint v)))) mod 65536"
    using mod_pos_pos_trivial [of "uint v" 65536] uint_lt2p [of v]
    by (simp only: unsigned_push_bit_eq unsigned_drop_bit_eq unsigned_take_bit_eq) (simp add: take_bit_eq_mod)
  moreover have "16 * ((uint v div 16) mod 32) < 65536" by (simp add: order.strict_trans1 [of _ 512])
  ultimately show ?thesis by (simp add: push_bit_eq_mult drop_bit_eq_div take_bit_eq_mod)
qed

lemma x_bit: "uint (if b then 1 else 0 :: u16) = of_bool b" by simp

lemma abcd_arith:
  fixes a b e f x :: int
  assumes "0 \<le> a" "a < 10" "0 \<le> b" "b < 10" "0 \<le> e" "e < 10" "0 \<le> f" "f < 10" "0 \<le> x" "x \<le> 1"
  defines "lo \<equiv> if b + f + x > 9 then b + f + x + 6 else b + f + x"
  defines "v \<equiv> 16 * (a + e) + lo"
  defines "carry \<equiv> 16 * ((v div 16) mod 32) > 0x90"
  defines "r \<equiv> (if carry then v + 0x60 else v) mod 256"
  shows "carry \<longleftrightarrow> 10 * a + b + (10 * e + f) + x \<ge> 100"
    "r mod 16 < 10" "r div 16 < 10"
    "10 * (r div 16) + r mod 16 = (10 * a + b + (10 * e + f) + x) mod 100"
proof -
  define q where "q = a + e + (if b + f + x > 9 then 1 else 0)"
  define l where "l = (if b + f + x > 9 then b + f + x - 10 else b + f + x)"
  have v: "v = 16 * q + l" by (simp add: v_def lo_def q_def l_def)
  have l: "0 \<le> l" "l < 10" and q: "0 \<le> q" "q < 20" using assms(1-10) by (auto simp: l_def q_def)
  have t: "10 * a + b + (10 * e + f) + x = 10 * q + l" by (simp add: q_def l_def)
  have vd: "v div 16 = q" using v l by simp
  have c: "carry \<longleftrightarrow> q > 9" using q by (simp add: carry_def vd)
  show "carry \<longleftrightarrow> 10 * a + b + (10 * e + f) + x \<ge> 100" unfolding t c using l by auto
  have r: "r = 16 * (if q > 9 then q - 10 else q) + l"
  proof (cases "q > 9")
    case True
    have "v + 0x60 = (16 * (q - 10) + l) + 256" by (simp add: v)
    hence "r = ((16 * (q - 10) + l) + 256) mod 256" using True c unfolding r_def by presburger
    also have "\<dots> = 16 * (q - 10) + l" using True q l by (simp only: mod_add_self2) simp
    finally show ?thesis using True by simp
  next
    case False
    thus ?thesis using c v q l by (simp add: r_def)
  qed
  show "r mod 16 < 10" "r div 16 < 10" using r l q by simp_all
  have "10 * (r div 16) + r mod 16 = (if q > 9 then 10 * (q - 10) + l else 10 * q + l)"
    using r l by simp
  also have "\<dots> = (10 * q + l) mod 100"
  proof (cases "q > 9")
    case True
    have "(10 * q + l) mod 100 = ((10 * (q - 10) + l) + 100) mod 100" by simp
    also have "\<dots> = 10 * (q - 10) + l" using True q l by (simp only: mod_add_self2) simp
    finally show ?thesis using True by simp
  next
    case False
    thus ?thesis using q l by simp
  qed
  finally show "10 * (r div 16) + r mod 16 = (10 * a + b + (10 * e + f) + x) mod 100" unfolding t .
qed

lemma sbcd_arith:
  fixes a b e f x :: int
  assumes "0 \<le> a" "a < 10" "0 \<le> b" "b < 10" "0 \<le> e" "e < 10" "0 \<le> f" "f < 10" "0 \<le> x" "x \<le> 1"
  defines "lo0 \<equiv> (b - f - x) mod 65536" and "hi0 \<equiv> (16 * a - 16 * e) mod 65536"
  defines "lo \<equiv> if lo0 > 9 then (lo0 - 6) mod 65536 else lo0"
  defines "hi \<equiv> if lo0 > 9 then (hi0 - 16) mod 65536 else hi0"
  defines "v \<equiv> (hi + lo mod 16) mod 65536"
  defines "carry \<equiv> 16 * ((hi div 16) mod 32) > 0x90"
  defines "r \<equiv> (if carry then (v - 0x60) mod 65536 else v) mod 256"
  shows "carry \<longleftrightarrow> 10 * a + b - (10 * e + f) - x < 0"
    "r mod 16 < 10" "r div 16 < 10"
    "10 * (r div 16) + r mod 16 = (10 * a + b - (10 * e + f) - x) mod 100"
proof -
  define q where "q = a - e - (if b - f - x < 0 then 1 else 0)"
  define l where "l = (if b - f - x < 0 then b - f - x + 10 else b - f - x)"
  have l: "0 \<le> l" "l < 10" and q: "-10 \<le> q" "q < 10" using assms(1-10) by (auto simp: l_def q_def)
  have t: "10 * a + b - (10 * e + f) - x = 10 * q + l" by (simp add: q_def l_def)
  have lo0: "lo0 = (if b - f - x < 0 then b - f - x + 65536 else b - f - x)"
  proof (cases "b - f - x < 0")
    case True
    have "(b - f - x + 65536) mod 65536 = b - f - x + 65536"
      using True assms(1-10) by (intro mod_pos_pos_trivial) auto
    hence "(b - f - x) mod 65536 = b - f - x + 65536" by (metis mod_add_self2)
    thus ?thesis unfolding lo0_def if_P [OF True] .
  next
    case False
    thus ?thesis using assms(1-10) by (simp add: lo0_def)
  qed
  have g: "lo0 > 9 \<longleftrightarrow> b - f - x < 0" using assms(1-10) by (auto simp: lo0)
  have lo: "lo mod 16 = l" 
    using assms(1-10) by (simp add: lo_def g l_def) (auto simp: lo0; presburger)
  have hi: "hi = (16 * q) mod 65536"
    by (simp add: hi_def g hi0_def q_def mod_simps algebra_simps)
  have "16 * q mod 65536 = 16 * (q mod 4096)" using mult_mod_right [of 16 q 4096] by simp
  hence hd: "hi div 16 = q mod 4096" unfolding hi by simp
  have hm: "(hi div 16) mod 32 = (if q < 0 then q + 32 else q)"
    using q unfolding hd by (simp add: mod_mod_cancel) presburger
  have c: "carry \<longleftrightarrow> q < 0" using q by (simp add: carry_def hm)
  show "carry \<longleftrightarrow> 10 * a + b - (10 * e + f) - x < 0" unfolding t c using l by auto
  have v: "v = (16 * q + l) mod 65536" by (simp add: v_def hi lo mod_simps)
  have r: "r = 16 * (if q < 0 then q + 10 else q) + l"
  proof (cases "q < 0")
    case True
    have "r = (16 * q + l - 96) mod 256" using True c by (simp add: r_def v mod_simps mod_mod_cancel)
    also have "16 * q + l - 96 = (16 * (q + 10) + l) + (- 1) * 256" by simp
    also have "\<dots> mod 256 = 16 * (q + 10) + l" using True q l by (simp only: mod_mult_self1) simp
    finally show ?thesis using True by simp
  next
    case False
    thus ?thesis using c v q l by (simp add: r_def)
  qed
  show "r mod 16 < 10" "r div 16 < 10" using r l q by simp_all
  have "10 * (r div 16) + r mod 16 = (if q < 0 then 10 * q + l + 100 else 10 * q + l)"
    using r l by simp
  also have "\<dots> = (10 * q + l) mod 100"
  proof (cases "q < 0")
    case True
    have "(10 * q + l) mod 100 = ((10 * q + l) + 100) mod 100" by simp
    also have "\<dots> = 10 * q + l + 100" using True q l by (intro mod_pos_pos_trivial) auto
    finally show ?thesis using True by simp
  next
    case False
    thus ?thesis using q l by simp
  qed
  finally show "10 * (r div 16) + r mod 16 = (10 * a + b - (10 * e + f) - x) mod 100"
    unfolding t .
qed

lemma bit_if_andn: "bit (if P then c AND NOT m else c) n \<longleftrightarrow> bit c n \<and> (P \<longrightarrow> \<not> bit m n)" if "n < 8" for c m :: u8
  using that by (simp add: bit_simps)

lemma abcd_flags:
  "flag (snd (bcd_abcd s d c)) CCR_C = flag (snd (bcd_abcd s d c)) CCR_X"
  "flag (snd (bcd_abcd s d c)) CCR_Z \<longleftrightarrow> flag c CCR_Z \<and> fst (bcd_abcd s d c) = 0"
  unfolding flag_bit bcd_abcd_def Let_def fst_conv snd_conv get_set_ccr
   apply (simp_all only: bit_and_iff bit_if_or)
   apply (simp_all only: bit_if_andn bit_if_or bit_and_iff)
   apply (simp_all add: ccr_bits split del: if_split)
  done

definition x_in :: "m68k_cpu \<Rightarrow> int" where
  "x_in c = (if flag c CCR_X then 1 else 0)"

lemma uint_x: "uint (if flag c CCR_X then 1 else 0 :: u16) = x_in c"
  by (simp add: x_in_def)

lemma adjust_lo: "uint (if L > 9 then L + 6 else L) = (if l > 9 then l + 6 else l)"
  if "uint L = l" "0 \<le> l" "l < 40" for L :: u16
  using that by (simp add: word_less_def uint_word_ariths)

lemma carry_iff: "(V AND 0x1F0 > 0x90) = (16 * ((v div 16) mod 32) > 0x90)" if "uint V = v" for V :: u16
  using that by (simp add: word_less_def nib_carry)

lemma adjust_hi: "uint (ucast (if k then V + 0x60 else V) :: u8) = (if k then v + 0x60 else v) mod 256"
  if "uint V = v" "0 \<le> v" "v < 1000" for V :: u16
  using that by (simp add: unsigned_ucast_eq uint_word_ariths take_bit_eq_mod mod_mod_cancel)

text \<open>The result byte and the carry of the two operations over integers.\<close>

lemma abcd_run:
  fixes s d :: u8 and c :: m68k_cpu
  defines "lo \<equiv> uint s mod 16 + uint d mod 16 + x_in c"
  defines "lo' \<equiv> (if lo > 9 then lo + 6 else lo)"
  defines "v \<equiv> 16 * (uint s div 16 + uint d div 16) + lo'"
  defines "carry \<equiv> 16 * ((v div 16) mod 32) > 0x90"
  shows "uint (fst (bcd_abcd s d c)) = (if carry then v + 0x60 else v) mod 256"
    "flag (snd (bcd_abcd s d c)) CCR_C \<longleftrightarrow> carry"
proof -
  let ?x = "if flag c CCR_X then 1 else 0 :: u16"
  let ?lo = "ucast (s AND 0x0F) + ucast (d AND 0x0F) + ?x :: u16"
  let ?lo' = "if ?lo > 9 then ?lo + 6 else ?lo"
  let ?v = "ucast (s AND 0xF0) + ucast (d AND 0xF0) + ?lo' :: u16"
  have b: "uint s div 16 < 16" "uint d div 16 < 16" "uint s mod 16 < 16" "uint d mod 16 < 16"
    "0 \<le> uint s div 16" "0 \<le> uint d div 16" "0 \<le> uint s mod 16" "0 \<le> uint d mod 16" "0 \<le> x_in c" "x_in c \<le> 1"
    using uint_lt2p [of s] uint_lt2p [of d] by (auto simp: pos_imp_zdiv_nonneg_iff x_in_def)
  have lo: "uint ?lo = lo" using b unfolding lo_def
    by (simp only: uint_word_ariths nib_lo uint_x) simp
  have "0 \<le> lo" "lo < 40" using b by (auto simp: lo_def)
  hence lo': "uint ?lo' = lo'" using adjust_lo [OF lo] unfolding lo'_def by blast
  have "0 \<le> lo'" "lo' < 40" using b by (auto simp: lo'_def lo_def)
  hence v: "uint ?v = v" using b unfolding v_def
    by (simp only: uint_word_ariths nib_hi lo') simp
  have c: "(?v AND 0x1F0 > 0x90) = carry" unfolding carry_def
    by (rule carry_iff [OF v])
  have X: "(m68k_get_ccr c AND CCR_X \<noteq> 0) = flag c CCR_X" by (simp add: flag_def)
  have vb: "0 \<le> v" "v < 1000" using b \<open>0 \<le> lo'\<close> \<open>lo' < 40\<close> by (auto simp: v_def)
  have fst: "fst (bcd_abcd s d c) = ucast (if carry then ?v + 0x60 else ?v)"
    unfolding bcd_abcd_def Let_def fst_conv X c ..
  show "uint (fst (bcd_abcd s d c)) = (if carry then v + 0x60 else v) mod 256"
    unfolding fst by (rule adjust_hi [OF v vb])
  show "flag (snd (bcd_abcd s d c)) CCR_C \<longleftrightarrow> carry"
    unfolding bcd_abcd_def Let_def snd_conv X c unfolding flag_bit get_set_ccr
    by (simp only: bit_and_iff bit_if_or bit_if_andn) (simp add: ccr_bits)
qed


lemma adjust_lo_sub: "uint (if L > 9 then L - 6 else L) = (if l > 9 then (l - 6) mod 65536 else l)"
  if "uint L = l" for L :: u16
  using that by (simp add: word_less_def uint_word_ariths)

lemma adjust_hi_sub: "uint (ucast (if k then V - 0x60 else V) :: u8) = (if k then (v - 0x60) mod 65536 else v) mod 256"
  if "uint V = v" for V :: u16
  using that by (simp add: unsigned_ucast_eq uint_word_ariths take_bit_eq_mod mod_mod_cancel)

lemma nib_lo16: "uint (x AND 0x0F) = uint x mod 16" for x :: u16
proof -
  have "uint (x AND 0x0F) = take_bit 4 (uint x)"
    by (simp add: unsigned_and_eq take_bit_eq_mask mask_eq_exp_minus_1)
  thus ?thesis by (simp add: take_bit_eq_mod)
qed

lemma sbcd_run:
  fixes s d :: u8 and c :: m68k_cpu
  defines "lo0 \<equiv> (uint d mod 16 - uint s mod 16 - x_in c) mod 65536"
    and "hi0 \<equiv> (16 * (uint d div 16) - 16 * (uint s div 16)) mod 65536"
  defines "lo \<equiv> if lo0 > 9 then (lo0 - 6) mod 65536 else lo0"
    and "hi \<equiv> if lo0 > 9 then (hi0 - 16) mod 65536 else hi0"
  defines "v \<equiv> (hi + lo mod 16) mod 65536"
    and "carry \<equiv> 16 * ((hi div 16) mod 32) > 0x90"
  shows "uint (fst (bcd_sbcd s d c)) = (if carry then (v - 0x60) mod 65536 else v) mod 256"
    "flag (snd (bcd_sbcd s d c)) CCR_C \<longleftrightarrow> carry"
proof -
  let ?x = "if flag c CCR_X then 1 else 0 :: u16"
  define L0 :: u16 where "L0 = ucast (d AND 0x0F) - ucast (s AND 0x0F) - ?x"
  define H0 :: u16 where "H0 = ucast (d AND 0xF0) - ucast (s AND 0xF0)"
  define L where "L = (if L0 > 9 then L0 - 6 else L0)"
  define H where "H = (if L0 > 9 then H0 - 0x10 else H0)"
  have L0: "uint L0 = lo0" unfolding lo0_def L0_def
    by (simp only: uint_word_ariths nib_lo uint_x) (simp add: mod_simps)
  have H0: "uint H0 = hi0" unfolding hi0_def H0_def by (simp only: uint_word_ariths nib_hi) simp
  have L: "uint L = lo" unfolding L_def lo_def by (rule adjust_lo_sub [OF L0])
  have H: "uint H = hi" using L0 H0 by (simp add: H_def hi_def word_less_def uint_word_ariths)
  have v: "uint (H + (L AND 0x0F)) = v" by (simp add: v_def uint_word_ariths nib_lo16 L H)
  have c: "(H AND 0x1F0 > 0x90) = carry" unfolding carry_def by (rule carry_iff [OF H])
  have X: "(m68k_get_ccr c AND CCR_X \<noteq> 0) = flag c CCR_X" by (simp add: flag_def)
  have p: "(if L0 > 9 then (L0 - 6, H0 - 0x10) else (L0, H0)) = (L, H)" by (simp add: L_def H_def)
  note u = bcd_sbcd_def Let_def X L0_def [symmetric] H0_def [symmetric] p prod.case c fst_conv snd_conv
  have fst: "fst (bcd_sbcd s d c) = ucast (if carry then H + (L AND 0x0F) - 0x60 else H + (L AND 0x0F))"
    unfolding u ..
  show "uint (fst (bcd_sbcd s d c)) = (if carry then (v - 0x60) mod 65536 else v) mod 256"
    unfolding fst by (rule adjust_hi_sub [OF v])
  show "flag (snd (bcd_sbcd s d c)) CCR_C \<longleftrightarrow> carry"
    unfolding u unfolding flag_bit get_set_ccr
    by (simp only: bit_and_iff bit_if_or bit_if_andn) (simp add: ccr_bits)
qed

lemma sbcd_flags:
  "flag (snd (bcd_sbcd s d c)) CCR_C = flag (snd (bcd_sbcd s d c)) CCR_X"
  "flag (snd (bcd_sbcd s d c)) CCR_Z \<longleftrightarrow> flag c CCR_Z \<and> fst (bcd_sbcd s d c) = 0"
  unfolding flag_bit bcd_sbcd_def Let_def case_prod_beta fst_conv snd_conv get_set_ccr
   apply (simp_all only: bit_and_iff bit_if_or bit_if_andn)
   apply (simp_all add: ccr_bits split del: if_split)
  done

lemma nbcd_is_sbcd:
  "fst (bcd_nbcd d c) = fst (bcd_sbcd d 0 c)"
  "flag (snd (bcd_nbcd d c)) CCR_C = flag (snd (bcd_sbcd d 0 c)) CCR_C"
  "flag (snd (bcd_nbcd d c)) CCR_X = flag (snd (bcd_sbcd d 0 c)) CCR_X"
  "flag (snd (bcd_nbcd d c)) CCR_Z = flag (snd (bcd_sbcd d 0 c)) CCR_Z"
proof -
  have z: "ucast ((0 :: u8) AND 0x0F) = (0 :: u16)" "ucast ((0 :: u8) AND 0xF0) = (0 :: u16)" by simp_all
  note u = bcd_nbcd_def bcd_sbcd_def Let_def case_prod_beta fst_conv snd_conv z
  show "fst (bcd_nbcd d c) = fst (bcd_sbcd d 0 c)" unfolding u ..
  show "flag (snd (bcd_nbcd d c)) CCR_C = flag (snd (bcd_sbcd d 0 c)) CCR_C"
    "flag (snd (bcd_nbcd d c)) CCR_X = flag (snd (bcd_sbcd d 0 c)) CCR_X"
    "flag (snd (bcd_nbcd d c)) CCR_Z = flag (snd (bcd_sbcd d 0 c)) CCR_Z"
    unfolding u unfolding flag_bit get_set_ccr
    by (simp_all only: bit_and_iff bit_if_or bit_if_andn) (simp_all add: ccr_bits split del: if_split)
qed

lemma digit_bounds:
  "0 \<le> uint x div 16" "0 \<le> uint x mod 16" "0 \<le> x_in c" "x_in c \<le> 1"
  "bcd_digits x \<Longrightarrow> uint x div 16 < 10" "bcd_digits x \<Longrightarrow> uint x mod 16 < 10" for x :: u8
  by (auto simp: bcd_digits_def x_in_def pos_imp_zdiv_nonneg_iff)

lemma abcd_digits:
  assumes "bcd_digits s" "bcd_digits d"
  shows "bcd_digits (fst (bcd_abcd s d c))"
    "bcd_value (fst (bcd_abcd s d c)) = (bcd_value d + bcd_value s + x_in c) mod 100"
    "flag (snd (bcd_abcd s d c)) CCR_C \<longleftrightarrow> 100 \<le> bcd_value d + bcd_value s + x_in c"
proof -
  have b: "0 \<le> uint s div 16" "uint s div 16 < 10" "0 \<le> uint s mod 16" "uint s mod 16 < 10"
     "0 \<le> uint d div 16" "uint d div 16 < 10" "0 \<le> uint d mod 16" "uint d mod 16 < 10"
     "0 \<le> x_in c" "x_in c \<le> 1"
    using assms by (auto intro: digit_bounds)
  have t: "bcd_value d + bcd_value s + x_in c =
      10 * (uint s div 16) + uint s mod 16 + (10 * (uint d div 16) + uint d mod 16) + x_in c"
    by (simp add: bcd_value_def)
  note A = abcd_arith [OF b] note R = abcd_run [of s d c]
  show "bcd_digits (fst (bcd_abcd s d c))" using A(2,3) unfolding bcd_digits_def R(1) by blast
  show "bcd_value (fst (bcd_abcd s d c)) = (bcd_value d + bcd_value s + x_in c) mod 100"
    unfolding t bcd_value_def [of "fst _"] R(1) by (rule A(4))
  show "flag (snd (bcd_abcd s d c)) CCR_C \<longleftrightarrow> 100 \<le> bcd_value d + bcd_value s + x_in c"
    unfolding t R(2) by (rule A(1))
qed

lemma sbcd_digits:
  assumes "bcd_digits s" "bcd_digits d"
  shows "bcd_digits (fst (bcd_sbcd s d c))"
    "bcd_value (fst (bcd_sbcd s d c)) = (bcd_value d - bcd_value s - x_in c) mod 100"
    "flag (snd (bcd_sbcd s d c)) CCR_C \<longleftrightarrow> bcd_value d - bcd_value s - x_in c < 0"
proof -
  have b: "0 \<le> uint d div 16" "uint d div 16 < 10" "0 \<le> uint d mod 16" "uint d mod 16 < 10"
     "0 \<le> uint s div 16" "uint s div 16 < 10" "0 \<le> uint s mod 16" "uint s mod 16 < 10"
     "0 \<le> x_in c" "x_in c \<le> 1"
    using assms by (auto intro: digit_bounds)
  have t: "bcd_value d - bcd_value s - x_in c =
      10 * (uint d div 16) + uint d mod 16 - (10 * (uint s div 16) + uint s mod 16) - x_in c"
    by (simp add: bcd_value_def)
  note A = sbcd_arith [OF b] note R = sbcd_run [where s = s and d = d and c = c]
  show "bcd_digits (fst (bcd_sbcd s d c))" using A(2,3) unfolding bcd_digits_def R(1) by blast
  show "bcd_value (fst (bcd_sbcd s d c)) = (bcd_value d - bcd_value s - x_in c) mod 100"
    unfolding t bcd_value_def [of "fst _"] R(1) by (rule A(4))
  show "flag (snd (bcd_sbcd s d c)) CCR_C \<longleftrightarrow> bcd_value d - bcd_value s - x_in c < 0"
    unfolding t R(2) by (rule A(1))
qed

text \<open>C6: On bytes that hold two decimal digits ABCD, SBCD and NBCD compute the sum, the
  difference and the negation modulo 100 with the extend bit as carry in, the result again
  holds two digits, C and X tell the decimal carry or borrow, and Z is only ever cleared.\<close>

theorem bcd_correct:
  assumes "bcd_digits s" "bcd_digits d"
  shows "(let t = bcd_value d + bcd_value s + x_in c; (r, c') = bcd_abcd s d c in
           bcd_digits r \<and> bcd_value r = t mod 100 \<and> (flag c' CCR_C \<longleftrightarrow> 100 \<le> t) \<and>
           (flag c' CCR_X \<longleftrightarrow> 100 \<le> t) \<and> (flag c' CCR_Z \<longleftrightarrow> flag c CCR_Z \<and> r = 0)) \<and>
     (let t = bcd_value d - bcd_value s - x_in c; (r, c') = bcd_sbcd s d c in
           bcd_digits r \<and> bcd_value r = t mod 100 \<and> (flag c' CCR_C \<longleftrightarrow> t < 0) \<and>
           (flag c' CCR_X \<longleftrightarrow> t < 0) \<and> (flag c' CCR_Z \<longleftrightarrow> flag c CCR_Z \<and> r = 0)) \<and>
     (let t = - bcd_value d - x_in c; (r, c') = bcd_nbcd d c in
           bcd_digits r \<and> bcd_value r = t mod 100 \<and> (flag c' CCR_C \<longleftrightarrow> t < 0) \<and>
           (flag c' CCR_X \<longleftrightarrow> t < 0) \<and> (flag c' CCR_Z \<longleftrightarrow> flag c CCR_Z \<and> r = 0))"
proof (intro conjI)
  have z: "bcd_digits 0" "bcd_value 0 = 0" by (simp_all add: bcd_digits_def bcd_value_def)
  show "let t = bcd_value d + bcd_value s + x_in c; (r, c') = bcd_abcd s d c in
           bcd_digits r \<and> bcd_value r = t mod 100 \<and> (flag c' CCR_C \<longleftrightarrow> 100 \<le> t) \<and>
           (flag c' CCR_X \<longleftrightarrow> 100 \<le> t) \<and> (flag c' CCR_Z \<longleftrightarrow> flag c CCR_Z \<and> r = 0)"
    using abcd_digits [OF assms, of c] abcd_flags [of s d c] unfolding Let_def case_prod_beta by blast
  show "let t = bcd_value d - bcd_value s - x_in c; (r, c') = bcd_sbcd s d c in
           bcd_digits r \<and> bcd_value r = t mod 100 \<and> (flag c' CCR_C \<longleftrightarrow> t < 0) \<and>
           (flag c' CCR_X \<longleftrightarrow> t < 0) \<and> (flag c' CCR_Z \<longleftrightarrow> flag c CCR_Z \<and> r = 0)"
    using sbcd_digits [OF assms, of c] sbcd_flags [of s d c] unfolding Let_def case_prod_beta by blast
  show "let t = - bcd_value d - x_in c; (r, c') = bcd_nbcd d c in
           bcd_digits r \<and> bcd_value r = t mod 100 \<and> (flag c' CCR_C \<longleftrightarrow> t < 0) \<and>
           (flag c' CCR_X \<longleftrightarrow> t < 0) \<and> (flag c' CCR_Z \<longleftrightarrow> flag c CCR_Z \<and> r = 0)"
    using sbcd_digits [OF assms(2) z(1), of c] sbcd_flags [of d 0 c] nbcd_is_sbcd [of d c] z(2)
    unfolding Let_def case_prod_beta by simp
qed

theorem bcd_correct_witness:
  "bcd_digits 0x45 \<and> bcd_digits 0x78 \<and> bcd_value (fst (bcd_abcd 0x45 0x78 cpu_zero)) = 23"
proof -
  have d: "bcd_digits 0x45" "bcd_digits 0x78" by (simp_all add: bcd_digits_def)
  have x: "x_in cpu_zero = 0" by (simp add: x_in_def flag_bit m68k_get_ccr_def cpu_zero_def)
  have "bcd_value (fst (bcd_abcd 0x45 0x78 cpu_zero)) = (bcd_value 0x78 + bcd_value 0x45 + 0) mod 100"
    using bcd_correct [OF d, of cpu_zero] unfolding x Let_def case_prod_beta by blast
  thus ?thesis using d by (simp add: bcd_value_def)
qed

end
