(* ===== verification/Ea.thy ===== *)
theory Ea
  imports Mouse Alu Bcd
begin

text \<open>
  core/m68k_interp.c, the parts below the instruction dispatch: the instruction stream,
  effective addresses, exceptions and interrupts, the bit operations and MOVEM. A
  register index is the value of an opcode field.
\<close>

subsection \<open>Registers of the machine\<close>

abbreviation cdreg :: "machine \<Rightarrow> nat \<Rightarrow> u32" where "cdreg m i \<equiv> dreg (m_cpu m) i"
abbreviation careg :: "machine \<Rightarrow> nat \<Rightarrow> u32" where "careg m i \<equiv> areg (m_cpu m) i"

definition set_dreg :: "nat \<Rightarrow> u32 \<Rightarrow> machine \<Rightarrow> machine" where
  "set_dreg i v m = upd_cpu (\<lambda>c. c\<lparr>dreg := (dreg c)(i := v)\<rparr>) m"

definition set_areg :: "nat \<Rightarrow> u32 \<Rightarrow> machine \<Rightarrow> machine" where
  "set_areg i v m = upd_cpu (\<lambda>c. c\<lparr>areg := (areg c)(i := v)\<rparr>) m"

definition set_pc :: "u32 \<Rightarrow> machine \<Rightarrow> machine" where
  "set_pc v m = upd_cpu (\<lambda>c. c\<lparr>pc := v\<rparr>) m"

definition add_cycles :: "u64 \<Rightarrow> machine \<Rightarrow> machine" where
  "add_cycles n m = upd_cpu (\<lambda>c. c\<lparr>cycles := cycles c + n\<rparr>) m"

text \<open>Write the low \<open>sz\<close> bytes of a data register.\<close>

definition merge_dreg :: "nat \<Rightarrow> nat \<Rightarrow> u32 \<Rightarrow> machine \<Rightarrow> machine" where
  "merge_dreg sz i v m = set_dreg i ((cdreg m i AND NOT (size_mask sz)) OR (v AND size_mask sz)) m"

text \<open>A field of the opcode: \<open>(op >> n) & k\<close>.\<close>

definition opf :: "u16 \<Rightarrow> nat \<Rightarrow> u16 \<Rightarrow> nat" where
  "opf op n k = unat (drop_bit n op AND k)"

definition op_size_of :: "nat \<Rightarrow> nat" where
  "op_size_of szf = (if szf = 0 then 1 else if szf = 1 then 2 else 4)"

text \<open>Install a new status register and swap the stack pointers when the S bit changed.\<close>

definition load_sr :: "u16 \<Rightarrow> machine \<Rightarrow> machine" where
  "load_sr v m = upd_cpu (\<lambda>c. m68k_sync_sp (m68k_is_super c) (c\<lparr>sr := v\<rparr>)) m"

subsection \<open>Instruction stream\<close>

definition fetch16 :: "machine \<Rightarrow> u16 \<times> machine" where
  "fetch16 m = (let (w, m) = mac_read16 m (pc (m_cpu m)) in (w, set_pc (pc (m_cpu m) + 2) m))"

definition fetch32 :: "machine \<Rightarrow> u32 \<times> machine" where
  "fetch32 m = (let (v, m) = mac_read32 m (pc (m_cpu m)) in (v, set_pc (pc (m_cpu m) + 4) m))"

subsection \<open>Effective addresses\<close>

datatype ea_t = EA_DREG nat | EA_AREG nat | EA_MEM u32 | EA_IMM u32

text \<open>The address field, 0 for the other kinds.\<close>

fun ea_addr :: "ea_t \<Rightarrow> u32" where
  "ea_addr (EA_MEM a) = a"
| "ea_addr _ = 0"

definition brief_index :: "u32 \<Rightarrow> machine \<Rightarrow> u32 \<times> machine" where
  "brief_index base m =
     (let (ext, m) = fetch16 m; ireg = opf ext 12 7;
          ival = (if ext AND 0x8000 \<noteq> 0 then careg m ireg else cdreg m ireg);
          ival = (if ext AND 0x0800 = 0 then sx16 (ucast ival) else ival)
      in (base + ival + sx8 (ucast (ext AND 0xFF)), m))"

definition ea_step :: "nat \<Rightarrow> nat \<Rightarrow> u32" where
  "ea_step sz reg = (if sz = 1 \<and> reg = 7 then 2 else word_of_nat sz)"

definition ea_decode7 :: "nat \<Rightarrow> nat \<Rightarrow> machine \<Rightarrow> ea_t \<times> machine" where
  "ea_decode7 reg sz m =
     (if reg = 0 then let (w, m) = fetch16 m in (EA_MEM (sx16 w), m)
      else if reg = 1 then let (v, m) = fetch32 m in (EA_MEM v, m)
      else if reg = 2 then let base = pc (m_cpu m); (w, m) = fetch16 m in (EA_MEM (base + sx16 w), m)
      else if reg = 3 then let base = pc (m_cpu m); (a, m) = brief_index base m in (EA_MEM a, m)
      else if reg = 4 then
        (if sz = 1 then let (w, m) = fetch16 m in (EA_IMM (ucast w AND 0xFF), m)
         else if sz = 2 then let (w, m) = fetch16 m in (EA_IMM (ucast w), m)
         else let (v, m) = fetch32 m in (EA_IMM v, m))
      else (EA_MEM 0, m))"

definition ea_decode :: "nat \<Rightarrow> nat \<Rightarrow> nat \<Rightarrow> machine \<Rightarrow> ea_t \<times> machine" where
  "ea_decode mode reg sz m =
     (if mode = 0 then (EA_DREG reg, m)
      else if mode = 1 then (EA_AREG reg, m)
      else if mode = 2 then (EA_MEM (careg m reg), m)
      else if mode = 3 then (EA_MEM (careg m reg), set_areg reg (careg m reg + ea_step sz reg) m)
      else if mode = 4 then
        (let m = set_areg reg (careg m reg - ea_step sz reg) m in (EA_MEM (careg m reg), m))
      else if mode = 5 then let (d, m) = fetch16 m in (EA_MEM (careg m reg + sx16 d), m)
      else if mode = 6 then let (a, m) = brief_index (careg m reg) m in (EA_MEM a, m)
      else if mode = 7 then ea_decode7 reg sz m
      else (EA_MEM 0, m))"

definition mem_read :: "u32 \<Rightarrow> nat \<Rightarrow> machine \<Rightarrow> u32 \<times> machine" where
  "mem_read a sz m =
     (if sz = 1 then let (v, m) = mac_read8 m a in (ucast v, m)
      else if sz = 2 then let (v, m) = mac_read16 m a in (ucast v, m)
      else mac_read32 m a)"

definition mem_write :: "u32 \<Rightarrow> nat \<Rightarrow> u32 \<Rightarrow> machine \<Rightarrow> machine" where
  "mem_write a sz v m =
     (if sz = 1 then mac_write8 m a (ucast v)
      else if sz = 2 then mac_write16 m a (ucast v)
      else mac_write32 m a v)"

fun ea_read :: "ea_t \<Rightarrow> nat \<Rightarrow> machine \<Rightarrow> u32 \<times> machine" where
  "ea_read (EA_DREG r) sz m = (cdreg m r AND size_mask sz, m)"
| "ea_read (EA_AREG r) sz m = (careg m r AND size_mask sz, m)"
| "ea_read (EA_IMM v) sz m = (v AND size_mask sz, m)"
| "ea_read (EA_MEM a) sz m = mem_read a sz m"

fun ea_write :: "ea_t \<Rightarrow> nat \<Rightarrow> u32 \<Rightarrow> machine \<Rightarrow> machine" where
  "ea_write (EA_DREG r) sz v m = merge_dreg sz r v m"
| "ea_write (EA_AREG r) sz v m = set_areg r v m"
| "ea_write (EA_IMM i) sz v m = m"
| "ea_write (EA_MEM a) sz v m = mem_write a sz v m"

definition ea_is_mem :: "nat \<Rightarrow> nat \<Rightarrow> bool" where
  "ea_is_mem mode reg = (if mode \<le> 1 then False else if mode = 7 \<and> reg = 4 then False else True)"

subsection \<open>Reset, exceptions and interrupts\<close>

definition m68k_reset :: "machine \<Rightarrow> machine" where
  "m68k_reset m =
     (let m = m\<lparr>m_cpu := cpu_zero\<lparr>sr := 0x2700\<rparr>\<rparr>;
          (v, m) = mac_read32 m 0;
          m = upd_cpu (\<lambda>c. c\<lparr>ssp := v, areg := (areg c)(7 := v)\<rparr>) m;
          (p, m) = mac_read32 m 4
      in upd_cpu (\<lambda>c. c\<lparr>pc := p, halted := M68K_RUN\<rparr>) m)"

definition enter_handler :: "(u16 \<Rightarrow> u16) \<Rightarrow> u32 \<Rightarrow> machine \<Rightarrow> machine" where
  "enter_handler new_sr vector m =
     (let saved_sr = sr (m_cpu m);
          m = load_sr (new_sr saved_sr) m;
          m = push32 (pc (m_cpu m)) m;
          m = push16 saved_sr m;
          (p, m) = mac_read32 m (vector * 4)
      in set_pc p m)"

definition m68k_exception :: "u32 \<Rightarrow> machine \<Rightarrow> machine" where
  "m68k_exception vector m = add_cycles 34 (enter_handler (\<lambda>s. (s OR SR_S) AND NOT SR_T) vector m)"

definition m68k_poll_interrupts :: "machine \<Rightarrow> bool \<times> machine" where
  "m68k_poll_interrupts m =
     (let level = pending_irq (m_cpu m); imask = drop_bit 8 (sr (m_cpu m) AND SR_IMASK) in
      if level = 0 then (False, m)
      else if level \<noteq> 7 \<and> ucast level \<le> imask then (False, m)
      else
        (let m = enter_handler (\<lambda>s. (((s OR SR_S) AND NOT SR_T) AND NOT SR_IMASK) OR push_bit 8 (ucast level))
                   (24 + ucast level) m;
             m = upd_cpu (\<lambda>c. c\<lparr>stopped := 0\<rparr>) m
         in (True, add_cycles 44 m)))"

definition m68k_unimpl :: "u32 \<Rightarrow> u32 \<Rightarrow> machine \<Rightarrow> machine" where
  "m68k_unimpl op_pc vector m = m68k_exception vector (set_pc op_pc m)"

subsection \<open>Bit operations\<close>

definition do_bitop :: "nat \<Rightarrow> u32 \<Rightarrow> ea_t \<Rightarrow> nat \<Rightarrow> machine \<Rightarrow> machine" where
  "do_bitop which bitno e mode m =
     (let sz = (if mode = 0 then 4 else 1); b = unat (bitno AND (if sz = 4 then 31 else 7));
          (v, m) = ea_read e sz m;
          c = m68k_get_ccr (m_cpu m) AND NOT CCR_Z;
          m = upd_cpu (m68k_set_ccr (if \<not> bit v b then c OR CCR_Z else c)) m
      in if which = 0 then m
         else if which = 1 then ea_write e sz (v XOR push_bit b 1) m
         else if which = 2 then ea_write e sz (v AND NOT (push_bit b 1)) m
         else ea_write e sz (v OR push_bit b 1) m)"

subsection \<open>MOVEM\<close>

text \<open>Register \<open>i\<close> of the sixteen: D0 to D7, then A0 to A7.\<close>

definition reg16 :: "nat \<Rightarrow> machine \<Rightarrow> u32" where
  "reg16 i m = (if i < 8 then cdreg m i else careg m (i - 8))"

definition set_reg16 :: "nat \<Rightarrow> u32 \<Rightarrow> machine \<Rightarrow> machine" where
  "set_reg16 i v m = (if i < 8 then set_dreg i v m else set_areg (i - 8) v m)"

definition movem_list :: "u16 \<Rightarrow> nat list" where
  "movem_list list = filter (\<lambda>i. bit list i) [0..<16]"

fun movem_predec :: "nat list \<Rightarrow> nat \<Rightarrow> u32 \<Rightarrow> machine \<Rightarrow> u32 \<times> machine" where
  "movem_predec [] sz addr m = (addr, m)"
| "movem_predec (i # is) sz addr m =
     (let v = reg16 (15 - i) m; addr = addr - word_of_nat sz in movem_predec is sz addr (mem_write addr sz v m))"

fun movem_store :: "nat list \<Rightarrow> nat \<Rightarrow> u32 \<Rightarrow> machine \<Rightarrow> u32 \<times> machine" where
  "movem_store [] sz addr m = (addr, m)"
| "movem_store (i # is) sz addr m = movem_store is sz (addr + word_of_nat sz) (mem_write addr sz (reg16 i m) m)"

fun movem_load :: "nat list \<Rightarrow> nat \<Rightarrow> u32 \<Rightarrow> machine \<Rightarrow> u32 \<times> machine" where
  "movem_load [] sz addr m = (addr, m)"
| "movem_load (i # is) sz addr m =
     (let (v, m) = mem_read addr sz m in
      movem_load is sz (addr + word_of_nat sz) (set_reg16 i (sext v sz) m))"

definition do_movem :: "u16 \<Rightarrow> machine \<Rightarrow> machine" where
  "do_movem op m =
     (let to_regs = bit op 10; sz = (if op AND 0x40 \<noteq> 0 then 4 else 2); mode = opf op 3 7; reg = opf op 0 7;
          (list, m) = fetch16 m; regs = movem_list list in
      if mode = 4 then let (addr, m) = movem_predec regs sz (careg m reg) m in set_areg reg addr m
      else
        (let (e, m) = ea_decode mode reg sz m; addr = ea_addr e in
         if \<not> to_regs then snd (movem_store regs sz addr m)
         else let (addr, m) = movem_load regs sz addr m in if mode = 3 then set_areg reg addr m else m))"

subsection \<open>Bus accesses leave the registers alone\<close>

text \<open>What a bus access may change in the processor: the interrupt line, and through the debug port the
  halt state.\<close>

definition cpu_regs :: "m68k_cpu \<Rightarrow> m68k_cpu" where
  "cpu_regs c = c\<lparr>pending_irq := 0, exit_code := 0, halted := 0, chain_budget := 0\<rparr>"

lemma kbd_cpu [simp]:
  "cpu_regs (m_cpu (mac_kbd_sr_written m)) = cpu_regs (m_cpu m)"
  "cpu_regs (m_cpu (mac_kbd_acr_written a m)) = cpu_regs (m_cpu m)"
  "cpu_regs (m_cpu (mac_kbd_tick t m)) = cpu_regs (m_cpu m)"
proof -
  have c: "cpu_regs (c'\<lparr>pending_irq := 0\<rparr>) = cpu_regs c'" for c' by (simp add: cpu_regs_def)
  have k: "kbd_touches m m' \<Longrightarrow> cpu_regs (m_cpu m') = cpu_regs (m_cpu m)" for m'
    by (subst c [symmetric], subst (2) c [symmetric]) (simp add: kbd_touches_def)
  show "cpu_regs (m_cpu (mac_kbd_sr_written m)) = cpu_regs (m_cpu m)"
    "cpu_regs (m_cpu (mac_kbd_acr_written a m)) = cpu_regs (m_cpu m)"
    "cpu_regs (m_cpu (mac_kbd_tick t m)) = cpu_regs (m_cpu m)" by (rule k, simp)+
qed

lemma recalc_cpu [simp]: "cpu_regs (m_cpu (mac_via_recalc_irq m)) = cpu_regs (m_cpu m)"
  by (simp add: mac_via_recalc_irq_def Let_def cpu_regs_def)

lemma via_cpu [simp]: "cpu_regs (m_cpu (via_clear_irq b m)) = cpu_regs (m_cpu m)"
  "cpu_regs (m_cpu (snd (via_read m a))) = cpu_regs (m_cpu m)"
  "cpu_regs (m_cpu (via_write m a v)) = cpu_regs (m_cpu m)"
  by (simp_all add: via_clear_irq_def via_read_def via_write_def via_write_ora_def Let_def)

lemma mmio_cpu [simp]: "cpu_regs (m_cpu (snd (mmio_read m a))) = cpu_regs (m_cpu m)"
  "cpu_regs (m_cpu (mmio_write m a v)) = cpu_regs (m_cpu m)"
proof -
  have d: "cpu_regs (m_cpu (debug_write m x v)) = cpu_regs (m_cpu m)" for x
    by (simp add: debug_write_def cpu_regs_def)
  show "cpu_regs (m_cpu (snd (mmio_read m a))) = cpu_regs (m_cpu m)" "cpu_regs (m_cpu (mmio_write m a v)) = cpu_regs (m_cpu m)"
    by (simp_all add: mmio_read_def mmio_write_def scc_read_def scc_write_def scsi_read_def scsi_write_def d
        case_prod_beta Let_def split: region.split)
qed

lemma bus_cpu [simp]: "cpu_regs (m_cpu (snd (mac_read8 m a))) = cpu_regs (m_cpu m)"
  "cpu_regs (m_cpu (mac_write8 m a v)) = cpu_regs (m_cpu m)"
  by (simp_all add: mac_read8_def mac_write8_def ram_store_def Let_def split: option.split)

interpretation regs: bus_invariant "\<lambda>m. cpu_regs (m_cpu m) = x" for x
  by unfold_locales simp_all

lemma cpu_regs_fields:
  "cpu_regs c = cpu_regs c' \<Longrightarrow> dreg c = dreg c' \<and> areg c = areg c' \<and> pc c = pc c' \<and> sr c = sr c' \<and> usp c = usp c' \<and>
     ssp c = ssp c' \<and> cycles c = cycles c' \<and> instrs c = instrs c' \<and> stopped c = stopped c' \<and>
     jit_arg1 c = jit_arg1 c' \<and> jit_arg2 c = jit_arg2 c'"
  by (cases c; cases c') (simp add: cpu_regs_def)

lemma regs_frame:
  "cpu_regs (m_cpu (snd (mac_read8 m a))) = cpu_regs (m_cpu m)" "cpu_regs (m_cpu (snd (mac_read16 m a))) = cpu_regs (m_cpu m)"
  "cpu_regs (m_cpu (snd (mac_read32 m a))) = cpu_regs (m_cpu m)" "cpu_regs (m_cpu (mac_write8 m a v)) = cpu_regs (m_cpu m)"
  "cpu_regs (m_cpu (mac_write16 m a v16)) = cpu_regs (m_cpu m)" "cpu_regs (m_cpu (mac_write32 m a v32)) = cpu_regs (m_cpu m)"
  by (simp_all add: regs.read16 regs.read32 regs.write16 regs.write32)

lemmas bus_regs [simp] = regs_frame [THEN cpu_regs_fields]

lemma push_regs [simp]:
  "areg (m_cpu (push32 v m)) = (areg (m_cpu m))(7 := areg (m_cpu m) 7 - 4)"
  "areg (m_cpu (push16 w m)) = (areg (m_cpu m))(7 := areg (m_cpu m) 7 - 2)"
  "dreg (m_cpu (push32 v m)) = dreg (m_cpu m)" "dreg (m_cpu (push16 w m)) = dreg (m_cpu m)"
  "pc (m_cpu (push32 v m)) = pc (m_cpu m)" "pc (m_cpu (push16 w m)) = pc (m_cpu m)"
  "sr (m_cpu (push32 v m)) = sr (m_cpu m)" "sr (m_cpu (push16 w m)) = sr (m_cpu m)"
  "usp (m_cpu (push32 v m)) = usp (m_cpu m)" "usp (m_cpu (push16 w m)) = usp (m_cpu m)"
  "ssp (m_cpu (push32 v m)) = ssp (m_cpu m)" "ssp (m_cpu (push16 w m)) = ssp (m_cpu m)"
  "cycles (m_cpu (push32 v m)) = cycles (m_cpu m)" "cycles (m_cpu (push16 w m)) = cycles (m_cpu m)"
  "jit_arg1 (m_cpu (push32 v m)) = jit_arg1 (m_cpu m)" "jit_arg2 (m_cpu (push32 v m)) = jit_arg2 (m_cpu m)"
  by (simp_all add: push32_def push16_def Let_def)

text \<open>Byte accesses leave the floppy driver's variables alone.\<close>

lemma kbd_sony [simp]:
  "m_sony (mac_kbd_sr_written m) = m_sony m" "m_sony (mac_kbd_acr_written a m) = m_sony m"
proof -
  have k: "kbd_touches m m' \<Longrightarrow> m_sony m' = m_sony m" for m' by (simp add: kbd_touches_def)
  show "m_sony (mac_kbd_sr_written m) = m_sony m" "m_sony (mac_kbd_acr_written a m) = m_sony m"
    by (rule k, simp)+
qed

lemma recalc_sony [simp]: "m_sony (mac_via_recalc_irq m) = m_sony m"
  by (simp add: mac_via_recalc_irq_def Let_def)

lemma via_sony [simp]: "m_sony (via_clear_irq b m) = m_sony m"
  "m_sony (snd (via_read m a)) = m_sony m" "m_sony (via_write m a v) = m_sony m"
  by (simp_all add: via_clear_irq_def via_read_def via_write_def via_write_ora_def Let_def)

lemma byte_sony [simp]: "m_sony (snd (mac_read8 m a)) = m_sony m" "m_sony (mac_write8 m a v) = m_sony m"
proof -
  have "m_sony (snd (mmio_read m a)) = m_sony m" "m_sony (mmio_write m a v) = m_sony m" for m a
    by (simp_all add: mmio_read_def mmio_write_def scc_read_def scc_write_def scsi_read_def scsi_write_def
        debug_write_def case_prod_beta Let_def split: region.split)
  thus "m_sony (snd (mac_read8 m a)) = m_sony m" "m_sony (mac_write8 m a v) = m_sony m"
    by (simp_all add: mac_read8_def mac_write8_def ram_store_def Let_def split: option.split)
qed

interpretation inserted: bus_invariant "\<lambda>m. sony_inserted (m_sony m) = x" for x
  by unfold_locales simp_all

end
