(* ===== verification/Step.thy ===== *)
theory Step
  imports Ea "HOL-Library.Signed_Division"
begin

text \<open>
  core/m68k_interp.c: the instruction dispatch of \<open>m68k_step\<close>, one definition for each of
  the cases of its switch on the top four opcode bits, and the run loop. The decoded
  fields mode, reg, dn and so on are the shifts and masks of the source.
\<close>

subsection \<open>0000: MOVEP, bit operations, immediate arithmetic\<close>

definition movep_store :: "nat \<Rightarrow> nat \<Rightarrow> u32 \<Rightarrow> machine \<Rightarrow> machine" where
  "movep_store nbytes dn addr m =
     fold (\<lambda>i m. mac_write8 m (addr + word_of_nat i * 2) (ucast (drop_bit ((nbytes - 1 - i) * 8) (cdreg m dn)))) [0..<nbytes] m"

definition movep_load :: "nat \<Rightarrow> u32 \<Rightarrow> machine \<Rightarrow> u32 \<times> machine" where
  "movep_load nbytes addr m =
     fold (\<lambda>i (v, m). let (b, m) = mac_read8 m (addr + word_of_nat i * 2) in (push_bit 8 v OR ucast b, m)) [0..<nbytes] (0, m)"

definition step_movep :: "u16 \<Rightarrow> machine \<Rightarrow> machine" where
  "step_movep op m =
     (let dn = opf op 9 7; an = opf op 0 7; opmode = opf op 6 7;
          (d, m) = fetch16 m; addr = careg m an + sx16 d;
          is_long = odd opmode; to_mem = opmode AND 2 \<noteq> 0; nbytes = (if is_long then 4 else 2);
          m = (if to_mem then movep_store nbytes dn addr m
               else let (v, m) = movep_load nbytes addr m in
                    if is_long then set_dreg dn v m
                    else set_dreg dn ((cdreg m dn AND 0xFFFF0000) OR (v AND 0xFFFF)) m)
      in add_cycles (if is_long then 24 else 16) m)"

definition step_bitop :: "u16 \<Rightarrow> machine \<Rightarrow> machine" where
  "step_bitop op m =
     (let mode = opf op 3 7; reg = opf op 0 7; dyn = bit op 8; which = opf op 6 3;
          (b, m) = (if dyn then (cdreg m (opf op 9 7), m)
                    else let (w, m) = fetch16 m in (ucast (w AND 0xFF), m));
          (e, m) = ea_decode mode reg (if mode = 0 then 4 else 1) m
      in add_cycles 4 (do_bitop which b e mode m))"

definition step_imm_ccr :: "nat \<Rightarrow> nat \<Rightarrow> u32 \<Rightarrow> machine \<Rightarrow> machine" where
  "step_imm_ccr op9 sz imm m =
     (let to_sr = (sz = 2);
          cur = (if to_sr then sr (m_cpu m) else ucast (m68k_get_ccr (m_cpu m)));
          v = ucast imm;
          res = (if op9 = 0 then cur OR v else if op9 = 1 then cur AND v else cur XOR v)
      in if to_sr then load_sr res m else upd_cpu (m68k_set_ccr (ucast res)) m)"

definition step_imm_op :: "nat \<Rightarrow> ea_t \<Rightarrow> nat \<Rightarrow> u32 \<Rightarrow> u32 \<Rightarrow> machine \<Rightarrow> machine" where
  "step_imm_op op9 e sz imm d m =
     (if op9 = 0 then let r = d OR imm in upd_cpu (set_flags_logic sz r) (ea_write e sz r m)
      else if op9 = 1 then let r = d AND imm in upd_cpu (set_flags_logic sz r) (ea_write e sz r m)
      else if op9 = 2 then let r = d - imm in upd_cpu (set_flags_sub sz imm d r) (ea_write e sz r m)
      else if op9 = 3 then let r = d + imm in upd_cpu (set_flags_add sz imm d r) (ea_write e sz r m)
      else if op9 = 5 then let r = d XOR imm in upd_cpu (set_flags_logic sz r) (ea_write e sz r m)
      else upd_cpu (set_flags_cmp sz imm d (d - imm)) m)"

definition step_imm :: "u16 \<Rightarrow> u32 \<Rightarrow> machine \<Rightarrow> machine" where
  "step_imm op op_pc m =
     (let op9 = opf op 9 7; mode = opf op 3 7; reg = opf op 0 7; sz = op_size_of (opf op 6 3);
          (imm, m) = (if sz = 4 then fetch32 m else let (w, m) = fetch16 m in (ucast w AND size_mask sz, m))
      in if mode = 7 \<and> reg = 4 \<and> (op9 = 0 \<or> op9 = 1 \<or> op9 = 5) then step_imm_ccr op9 sz imm m
         else
           (let (e, m) = ea_decode mode reg sz m; (d, m) = ea_read e sz m in
            if op9 = 7 then m68k_unimpl op_pc 4 m else add_cycles 4 (step_imm_op op9 e sz imm d m)))"

definition step_0 :: "u16 \<Rightarrow> u32 \<Rightarrow> machine \<Rightarrow> machine" where
  "step_0 op op_pc m =
     (if bit op 8 \<and> opf op 3 7 = 1 then step_movep op m
      else if bit op 8 \<or> opf op 9 7 = 4 then step_bitop op m
      else step_imm op op_pc m)"

subsection \<open>0001, 0010, 0011: MOVE and MOVEA\<close>

definition step_move :: "u16 \<Rightarrow> machine \<Rightarrow> machine" where
  "step_move op m =
     (let top = opf op 12 0xF; sz = (if top = 1 then 1 else if top = 3 then 2 else 4);
          (s, m) = ea_decode (opf op 3 7) (opf op 0 7) sz m;
          (v, m) = ea_read s sz m; dst_mode = opf op 6 7; dst_reg = opf op 9 7
      in if dst_mode = 1 then add_cycles 4 (set_areg dst_reg (sext v sz) m)
         else
           (let (d, m) = ea_decode dst_mode dst_reg sz m;
                m = ea_write d sz v m
            in add_cycles 4 (upd_cpu (set_flags_logic sz v) m)))"

subsection \<open>0100: miscellaneous\<close>

definition pop16 :: "machine \<Rightarrow> u16 \<times> machine" where
  "pop16 m = (let (v, m) = mac_read16 m (careg m 7) in (v, set_areg 7 (careg m 7 + 2) m))"

definition pop32 :: "machine \<Rightarrow> u32 \<times> machine" where
  "pop32 m = (let (v, m) = mac_read32 m (careg m 7) in (v, set_areg 7 (careg m 7 + 4) m))"

definition step_rte :: "machine \<Rightarrow> machine" where
  "step_rte m = (let (s, m) = pop16 m; (p, m) = pop32 m in load_sr s (set_pc p m))"

definition step_rtr :: "machine \<Rightarrow> machine" where
  "step_rtr m = (let (c, m) = pop16 m; (p, m) = pop32 m in set_pc p (upd_cpu (m68k_set_ccr (ucast c)) m))"

definition step_rts :: "machine \<Rightarrow> machine" where
  "step_rts m = (let (p, m) = mac_read32 m (careg m 7); m = set_pc p m
                 in add_cycles 12 (set_areg 7 (careg m 7 + 4) m))"

definition step_link :: "nat \<Rightarrow> machine \<Rightarrow> machine" where
  "step_link an m =
     (let (d, m) = fetch16 m;
          m = set_areg 7 (careg m 7 - 4) m;
          m = mac_write32 m (careg m 7) (careg m an);
          m = set_areg an (careg m 7) m
      in add_cycles 12 (set_areg 7 (careg m 7 + sx16 d) m))"

definition step_unlk :: "nat \<Rightarrow> machine \<Rightarrow> machine" where
  "step_unlk an m =
     (let m = set_areg 7 (careg m an) m;
          (v, m) = mac_read32 m (careg m 7);
          m = set_areg an v m
      in add_cycles 12 (set_areg 7 (careg m 7 + 4) m))"

definition step_stop :: "machine \<Rightarrow> machine" where
  "step_stop m = (let (s, m) = fetch16 m in upd_cpu (\<lambda>c. c\<lparr>stopped := 1, chain_budget := 0\<rparr>) (load_sr s m))"

definition step_swap :: "nat \<Rightarrow> machine \<Rightarrow> machine" where
  "step_swap dn m =
     (let v = cdreg m dn; v = drop_bit 16 v OR push_bit 16 v in upd_cpu (set_flags_logic 4 v) (set_dreg dn v m))"

definition step_ext :: "u16 \<Rightarrow> machine \<Rightarrow> machine" where
  "step_ext op m =
     (let dn = opf op 0 7 in
      if op AND 0x40 \<noteq> 0 then
        (let v = sx16 (ucast (cdreg m dn)) in upd_cpu (set_flags_logic 4 v) (set_dreg dn v m))
      else
        (let v = sx8 (ucast (cdreg m dn)) in
         upd_cpu (set_flags_logic 2 v) (set_dreg dn ((cdreg m dn AND 0xFFFF0000) OR (v AND 0xFFFF)) m)))"

definition step_nbcd :: "u16 \<Rightarrow> machine \<Rightarrow> machine" where
  "step_nbcd op m =
     (let (e, m) = ea_decode (opf op 3 7) (opf op 0 7) 1 m; (d, m) = ea_read e 1 m;
          (r, c) = bcd_nbcd (ucast d) (m_cpu m)
      in add_cycles 6 (ea_write e 1 (ucast r) (m\<lparr>m_cpu := c\<rparr>)))"

definition step_jmp :: "u16 \<Rightarrow> machine \<Rightarrow> machine" where
  "step_jmp op m = (let (e, m) = ea_decode (opf op 3 7) (opf op 0 7) 4 m in add_cycles 8 (set_pc (ea_addr e) m))"

definition step_jsr :: "u16 \<Rightarrow> machine \<Rightarrow> machine" where
  "step_jsr op m =
     (let (e, m) = ea_decode (opf op 3 7) (opf op 0 7) 4 m; m = push32 (pc (m_cpu m)) m
      in add_cycles 16 (set_pc (ea_addr e) m))"

definition step_pea :: "u16 \<Rightarrow> machine \<Rightarrow> machine" where
  "step_pea op m =
     (let (e, m) = ea_decode (opf op 3 7) (opf op 0 7) 4 m in add_cycles 12 (push32 (ea_addr e) m))"

definition step_lea :: "u16 \<Rightarrow> machine \<Rightarrow> machine" where
  "step_lea op m =
     (let (e, m) = ea_decode (opf op 3 7) (opf op 0 7) 4 m in add_cycles 4 (set_areg (opf op 9 7) (ea_addr e) m))"

definition step_chk :: "u16 \<Rightarrow> machine \<Rightarrow> machine" where
  "step_chk op m =
     (let sz = (if opf op 6 7 = 6 then 2 else 4);
          (e, m) = ea_decode (opf op 3 7) (opf op 0 7) sz m;
          (b, m) = ea_read e sz m;
          bound = sint (sext b sz); v = sint (sext (cdreg m (opf op 9 7)) sz)
      in if v < 0 \<or> v > bound then m68k_exception 6 m else m)"

definition step_move_sr :: "u16 \<Rightarrow> machine \<Rightarrow> machine" where
  "step_move_sr op m =
     (let (e, m) = ea_decode (opf op 3 7) (opf op 0 7) 2 m in
      if op AND 0xFFC0 = 0x40C0 then ea_write e 2 (ucast (sr (m_cpu m))) m
      else if op AND 0xFFC0 = 0x44C0 then let (v, m) = ea_read e 2 m in upd_cpu (m68k_set_ccr (ucast v)) m
      else let (v, m) = ea_read e 2 m in load_sr (ucast v) m)"

definition negx_ccr :: "nat \<Rightarrow> u32 \<Rightarrow> u32 \<Rightarrow> bool \<Rightarrow> bool \<Rightarrow> u8" where
  "negx_ccr sz d r X zold =
     (let msb = size_msb sz; dm = d AND size_mask sz; rm = r AND size_mask sz;
          c = (if rm AND msb \<noteq> 0 then CCR_N else 0);
          c = (if zold \<and> rm = 0 then c OR CCR_Z else c);
          c = (if dm \<noteq> 0 \<or> X then c OR (CCR_C OR CCR_X) else c)
      in if (dm AND rm) AND msb \<noteq> 0 then c OR CCR_V else c)"

definition step_unary :: "nat \<Rightarrow> nat \<Rightarrow> ea_t \<Rightarrow> machine \<Rightarrow> machine" where
  "step_unary sel sz e m =
     (if sel = 0xA then let (v, m) = ea_read e sz m in upd_cpu (set_flags_logic sz v) m
      else
        (let (d, m) = ea_read e sz m;
             m = (if sel = 4 then let r = 0 - d in upd_cpu (set_flags_sub sz d 0 r) (ea_write e sz r m)
                  else if sel = 0 then
                    (let X = m68k_get_ccr (m_cpu m) AND CCR_X \<noteq> 0; zold = m68k_get_ccr (m_cpu m) AND CCR_Z \<noteq> 0;
                         r = 0 - d - (if X then 1 else 0)
                     in upd_cpu (m68k_set_ccr (negx_ccr sz d r X zold)) (ea_write e sz r m))
                  else if sel = 6 then let r = NOT d in upd_cpu (set_flags_logic sz r) (ea_write e sz r m)
                  else let m = ea_write e sz 0 m
                       in upd_cpu (\<lambda>c. m68k_set_ccr ((m68k_get_ccr c AND CCR_X) OR CCR_Z) c) m)
         in add_cycles 4 m))"

definition step_tas :: "u16 \<Rightarrow> machine \<Rightarrow> machine" where
  "step_tas op m =
     (let (e, m) = ea_decode (opf op 3 7) (opf op 0 7) 1 m; (v, m) = ea_read e 1 m;
          m = upd_cpu (set_flags_logic 1 v) m
      in ea_write e 1 (v OR 0x80) m)"

definition step_4_unary :: "u16 \<Rightarrow> u32 \<Rightarrow> machine \<Rightarrow> machine" where
  "step_4_unary op op_pc m =
     (let sel = opf op 8 0xF; szf = opf op 6 3 in
      if szf \<noteq> 3 \<and> (sel = 0 \<or> sel = 2 \<or> sel = 4 \<or> sel = 6 \<or> sel = 0xA) then
        (let sz = op_size_of szf; (e, m) = ea_decode (opf op 3 7) (opf op 0 7) sz m in step_unary sel sz e m)
      else if sel = 0xA \<and> szf = 3 then step_tas op m
      else m68k_unimpl op_pc 4 m)"

definition step_4_ea :: "u16 \<Rightarrow> u32 \<Rightarrow> machine \<Rightarrow> machine" where
  "step_4_ea op op_pc m =
     (if op AND 0xFFF8 = 0x4840 then step_swap (opf op 0 7) m
      else if op AND 0xFFB8 = 0x4880 then step_ext op m
      else if op AND 0xFFC0 = 0x4800 then step_nbcd op m
      else if op AND 0xFFC0 = 0x4EC0 then step_jmp op m
      else if op AND 0xFFC0 = 0x4E80 then step_jsr op m
      else if op AND 0xFFC0 = 0x4840 then step_pea op m
      else if opf op 6 7 = 7 then step_lea op m
      else if opf op 6 7 = 6 \<or> opf op 6 7 = 5 then step_chk op m
      else if op AND 0xFB80 = 0x4880 then add_cycles 16 (do_movem op m)
      else if op AND 0xFFC0 = 0x40C0 \<or> op AND 0xFFC0 = 0x44C0 \<or> op AND 0xFFC0 = 0x46C0 then step_move_sr op m
      else step_4_unary op op_pc m)"

definition step_4 :: "u16 \<Rightarrow> u32 \<Rightarrow> machine \<Rightarrow> machine" where
  "step_4 op op_pc m =
     (if op = 0x4E71 then m
      else if op = 0x4E70 then upd_cpu (\<lambda>c. c\<lparr>halted := M68K_HALT_RESET, chain_budget := 0\<rparr>) m
      else if op = 0x4E73 then step_rte m
      else if op = 0x4E77 then step_rtr m
      else if op = 0x4E75 then step_rts m
      else if op = 0x4E76 then (if m68k_get_ccr (m_cpu m) AND CCR_V \<noteq> 0 then m68k_exception 7 m else m)
      else if op AND 0xFFF8 = 0x4E50 then step_link (opf op 0 7) m
      else if op AND 0xFFF8 = 0x4E58 then step_unlk (opf op 0 7) m
      else if op AND 0xFFF0 = 0x4E40 then m68k_exception (32 + ucast (op AND 0xF)) m
      else if op AND 0xFFF8 = 0x4E60 then upd_cpu (\<lambda>c. c\<lparr>usp := areg c (opf op 0 7)\<rparr>) m
      else if op AND 0xFFF8 = 0x4E68 then set_areg (opf op 0 7) (usp (m_cpu m)) m
      else if op = 0x4E72 then step_stop m
      else step_4_ea op op_pc m)"

subsection \<open>0101: ADDQ, SUBQ, Scc, DBcc\<close>

definition step_dbcc :: "nat \<Rightarrow> nat \<Rightarrow> u32 \<Rightarrow> machine \<Rightarrow> machine" where
  "step_dbcc cc dn op_pc m =
     (let (disp, m) = fetch16 m;
          m = (if \<not> cond_true (m_cpu m) cc then
                 (let c = (ucast (cdreg m dn AND 0xFFFF) :: u16) - 1;
                      m = set_dreg dn ((cdreg m dn AND 0xFFFF0000) OR ucast c) m
                  in if c \<noteq> 0xFFFF then set_pc (op_pc + 2 + sx16 disp) m else m)
               else m)
      in add_cycles 10 m)"

definition step_addq :: "nat \<Rightarrow> nat \<Rightarrow> bool \<Rightarrow> ea_t \<Rightarrow> machine \<Rightarrow> machine" where
  "step_addq sz data sub e m =
     (let (d, m) = ea_read e sz m; v = word_of_nat data; r = (if sub then d - v else d + v);
          m = ea_write e sz r m
      in add_cycles 4 (upd_cpu (if sub then set_flags_sub sz v d r else set_flags_add sz v d r) m))"

definition step_5 :: "u16 \<Rightarrow> u32 \<Rightarrow> machine \<Rightarrow> machine" where
  "step_5 op op_pc m =
     (let szf = opf op 6 3; mode = opf op 3 7; reg = opf op 0 7 in
      if szf = 3 then
        (if mode = 1 then step_dbcc (opf op 8 0xF) reg op_pc m
         else (let (e, m) = ea_decode mode reg 1 m
               in add_cycles 4 (ea_write e 1 (if cond_true (m_cpu m) (opf op 8 0xF) then 0xFF else 0) m)))
      else
        (let sz = op_size_of szf; data = (if opf op 9 7 = 0 then 8 else opf op 9 7); sub = bit op 8;
             (e, m) = ea_decode mode reg sz m
         in case e of
              EA_AREG r \<Rightarrow> add_cycles 4 (set_areg reg (if sub then careg m reg - word_of_nat data
                                                      else careg m reg + word_of_nat data) m)
            | _ \<Rightarrow> step_addq sz data sub e m))"

subsection \<open>0110: Bcc, BRA, BSR; 0111: MOVEQ\<close>

definition step_6 :: "u16 \<Rightarrow> machine \<Rightarrow> machine" where
  "step_6 op m =
     (let cc = opf op 8 0xF; base = pc (m_cpu m);
          (disp, m) = (if op AND 0xFF = 0 then let (w, m) = fetch16 m in (sx16 w, m)
                       else if op AND 0xFF = 0xFF then fetch32 m
                       else (sx8 (ucast (op AND 0xFF)), m));
          target = base + disp
      in if cc = 1 then add_cycles 18 (set_pc target (push32 (pc (m_cpu m)) m))
         else if cc = 0 \<or> cond_true (m_cpu m) cc then add_cycles 10 (set_pc target m)
         else add_cycles 8 m)"

definition step_7 :: "u16 \<Rightarrow> machine \<Rightarrow> machine" where
  "step_7 op m =
     (let v = sx8 (ucast (op AND 0xFF)) in upd_cpu (set_flags_logic 4 v) (set_dreg (opf op 9 7) v m))"

subsection \<open>1000: OR, DIVU, DIVS, SBCD; 1100: AND, MULU, MULS, ABCD, EXG\<close>

text \<open>Signed division as in C truncates towards zero; the quotient of the most negative longword by -1,
  undefined in C, is the mathematical one here.\<close>

definition step_div :: "u16 \<Rightarrow> machine \<Rightarrow> machine" where
  "step_div op m =
     (let dn = opf op 9 7; (e, m) = ea_decode (opf op 3 7) (opf op 0 7) 2 m; (dv, m) = ea_read e 2 m in
      if dv = 0 then m68k_exception 5 m
      else
        (let overflow = upd_cpu (\<lambda>c. m68k_set_ccr ((m68k_get_ccr c AND CCR_X) OR CCR_V) c);
             m = (if \<not> bit op 8 then
                    (let q = cdreg m dn div dv; r = cdreg m dn mod dv in
                     if q > 0xFFFF then overflow m
                     else upd_cpu (set_flags_logic 2 q)
                            (set_dreg dn (push_bit 16 (r AND 0xFFFF) OR (q AND 0xFFFF)) m))
                  else
                    (let x = sint (cdreg m dn); y = sint (ucast dv :: u16); q = x sdiv y; r = x smod y in
                     if q > 32767 \<or> q < -32768 then overflow m
                     else upd_cpu (set_flags_logic 2 (word_of_int q))
                            (set_dreg dn (push_bit 16 (word_of_int r AND 0xFFFF) OR (word_of_int q AND 0xFFFF)) m)))
         in add_cycles 140 m))"

definition step_bcd2 :: "(u8 \<Rightarrow> u8 \<Rightarrow> m68k_cpu \<Rightarrow> u8 \<times> m68k_cpu) \<Rightarrow> u16 \<Rightarrow> machine \<Rightarrow> machine" where
  "step_bcd2 f op m =
     (let sx = opf op 0 7; dx = opf op 9 7;
          m = (if bit op 3 then
                 (let (se, m) = ea_decode 4 sx 1 m; (s, m) = ea_read se 1 m;
                      (de, m) = ea_decode 4 dx 1 m; (d, m) = ea_read de 1 m;
                      (r, c) = f (ucast s) (ucast d) (m_cpu m)
                  in ea_write de 1 (ucast r) (m\<lparr>m_cpu := c\<rparr>))
               else
                 (let (r, c) = f (ucast (cdreg m sx)) (ucast (cdreg m dx)) (m_cpu m); m = m\<lparr>m_cpu := c\<rparr>
                  in set_dreg dx ((cdreg m dx AND NOT 0xFF) OR ucast r) m))
      in add_cycles 6 m)"

text \<open>The two-operand logic instructions, to memory or to the register.\<close>

definition step_logic :: "(u32 \<Rightarrow> u32 \<Rightarrow> u32) \<Rightarrow> u16 \<Rightarrow> machine \<Rightarrow> machine" where
  "step_logic f op m =
     (let dn = opf op 9 7; sz = op_size_of (opf op 6 3);
          (e, m) = ea_decode (opf op 3 7) (opf op 0 7) sz m; (d, m) = ea_read e sz m;
          r = f d (cdreg m dn AND size_mask sz);
          m = (if bit op 8 then ea_write e sz r m else merge_dreg sz dn r m)
      in add_cycles 4 (upd_cpu (set_flags_logic sz r) m))"

definition step_8 :: "u16 \<Rightarrow> machine \<Rightarrow> machine" where
  "step_8 op m =
     (if opf op 6 3 = 3 then step_div op m
      else if op AND 0x01F0 = 0x0100 then step_bcd2 bcd_sbcd op m
      else step_logic (OR) op m)"

definition step_mul :: "u16 \<Rightarrow> machine \<Rightarrow> machine" where
  "step_mul op m =
     (let dn = opf op 9 7; (e, m) = ea_decode (opf op 3 7) (opf op 0 7) 2 m; (v, m) = ea_read e 2 m;
          r = (if \<not> bit op 8 then (cdreg m dn AND 0xFFFF) * (v AND 0xFFFF)
               else word_of_int (sint (ucast (cdreg m dn) :: u16) * sint (ucast v :: u16)))
      in add_cycles 70 (upd_cpu (set_flags_logic 4 r) (set_dreg dn r m)))"

definition step_exg :: "u16 \<Rightarrow> machine \<Rightarrow> machine option" where
  "step_exg op m =
     (let rx = opf op 9 7; ry = opf op 0 7; em = opf op 3 0x1F in
      if op AND 0x0130 = 0x0100 then
        (if em = 0x08 then let t = cdreg m rx in Some (set_dreg ry t (set_dreg rx (cdreg m ry) m))
         else if em = 0x09 then let t = careg m rx in Some (set_areg ry t (set_areg rx (careg m ry) m))
         else if em = 0x11 then let t = cdreg m rx in Some (set_areg ry t (set_dreg rx (careg m ry) m))
         else None)
      else None)"

definition step_C :: "u16 \<Rightarrow> machine \<Rightarrow> machine" where
  "step_C op m =
     (if opf op 6 3 = 3 then step_mul op m
      else if op AND 0x01F0 = 0x0100 then step_bcd2 bcd_abcd op m
      else case step_exg op m of Some m' \<Rightarrow> m' | None \<Rightarrow> step_logic (AND) op m)"

subsection \<open>1001, 1101: SUB, ADD and their A and X forms\<close>

definition step_adda :: "bool \<Rightarrow> u16 \<Rightarrow> machine \<Rightarrow> machine" where
  "step_adda is_add op m =
     (let dn = opf op 9 7; sz = (if op AND 0x0100 \<noteq> 0 then 4 else 2);
          (e, m) = ea_decode (opf op 3 7) (opf op 0 7) sz m; (x, m) = ea_read e sz m; v = sext x sz
      in add_cycles 8 (set_areg dn (if is_add then careg m dn + v else careg m dn - v) m))"

definition addx_result :: "bool \<Rightarrow> u32 \<Rightarrow> u32 \<Rightarrow> bool \<Rightarrow> u32" where
  "addx_result is_add s d X = (if is_add then d + s + (if X then 1 else 0) else d - s - (if X then 1 else 0))"

definition addx_ccr :: "bool \<Rightarrow> nat \<Rightarrow> u32 \<Rightarrow> u32 \<Rightarrow> bool \<Rightarrow> bool \<Rightarrow> u8" where
  "addx_ccr is_add sz s d X zold =
     (let mask = size_mask sz; msb = size_msb sz; sm = s AND mask; dm = d AND mask;
          rm = addx_result is_add s d X AND mask; x = (if X then 1 else 0);
          carry = (if is_add then (ucast sm :: u64) + ucast dm + x > ucast mask else (ucast sm :: u64) + x > ucast dm);
          ovfl = (if is_add then ((sm XOR rm) AND (dm XOR rm)) AND msb \<noteq> 0
                  else ((sm XOR dm) AND (dm XOR rm)) AND msb \<noteq> 0);
          c = (if rm AND msb \<noteq> 0 then CCR_N else 0);
          c = (if zold \<and> rm = 0 then c OR CCR_Z else c);
          c = (if carry then c OR (CCR_C OR CCR_X) else c)
      in if ovfl then c OR CCR_V else c)"

definition step_addx :: "bool \<Rightarrow> u16 \<Rightarrow> machine \<Rightarrow> machine" where
  "step_addx is_add op m =
     (let dn = opf op 9 7; reg = opf op 0 7; mode = opf op 3 7; sz = op_size_of (opf op 6 3);
          X = m68k_get_ccr (m_cpu m) AND CCR_X \<noteq> 0; zold = m68k_get_ccr (m_cpu m) AND CCR_Z \<noteq> 0;
          (s, d, m) =
            (if mode = 0 then (cdreg m reg AND size_mask sz, cdreg m dn AND size_mask sz, m)
             else
               (let m = set_areg reg (careg m reg - ea_step sz reg) m;
                    m = set_areg dn (careg m dn - ea_step sz dn) m;
                    (s, m) = mem_read (careg m reg) sz m; (d, m) = mem_read (careg m dn) sz m
                in (s, d, m)));
          r = addx_result is_add s d X;
          m = upd_cpu (m68k_set_ccr (addx_ccr is_add sz s d X zold)) m;
          m = (if mode = 0 then merge_dreg sz dn r m else ea_write (EA_MEM (careg m dn)) sz r m)
      in add_cycles 8 m)"

definition step_add :: "bool \<Rightarrow> u16 \<Rightarrow> machine \<Rightarrow> machine" where
  "step_add is_add op m =
     (let dn = opf op 9 7; sz = op_size_of (opf op 6 3); to_ea = bit op 8;
          (e, m) = ea_decode (opf op 3 7) (opf op 0 7) sz m; (x, m) = ea_read e sz m;
          y = cdreg m dn AND size_mask sz;
          d = (if to_ea then x else y); s = (if to_ea then y else x);
          r = (if is_add then d + s else d - s);
          m = (if to_ea then ea_write e sz r m else merge_dreg sz dn r m)
      in add_cycles 4 (upd_cpu (if is_add then set_flags_add sz s d r else set_flags_sub sz s d r) m))"

definition step_9D :: "bool \<Rightarrow> u16 \<Rightarrow> machine \<Rightarrow> machine" where
  "step_9D is_add op m =
     (if opf op 6 3 = 3 then step_adda is_add op m
      else if bit op 8 \<and> (opf op 3 7 = 0 \<or> opf op 3 7 = 1) then step_addx is_add op m
      else step_add is_add op m)"

subsection \<open>1011: CMP, CMPA, CMPM, EOR\<close>

definition step_cmpm :: "u16 \<Rightarrow> machine \<Rightarrow> machine" where
  "step_cmpm op m =
     (let dn = opf op 9 7; reg = opf op 0 7; sz = op_size_of (opf op 6 3);
          sa = careg m reg; m = set_areg reg (careg m reg + ea_step sz reg) m;
          da = careg m dn; m = set_areg dn (careg m dn + ea_step sz dn) m;
          (s, m) = mem_read sa sz m; (d, m) = mem_read da sz m
      in add_cycles 12 (upd_cpu (set_flags_cmp sz s d (d - s)) m))"

definition step_B :: "u16 \<Rightarrow> machine \<Rightarrow> machine" where
  "step_B op m =
     (let dn = opf op 9 7; szf = opf op 6 3; mode = opf op 3 7; reg = opf op 0 7; sz = op_size_of szf in
      if szf = 3 then
        (let asz = (if op AND 0x0100 \<noteq> 0 then 4 else 2); (e, m) = ea_decode mode reg asz m; (x, m) = ea_read e asz m;
             s = sext x asz; d = careg m dn
         in add_cycles 6 (upd_cpu (set_flags_cmp 4 s d (d - s)) m))
      else if bit op 8 then
        (if mode = 1 then step_cmpm op m
         else
           (let (e, m) = ea_decode mode reg sz m; (d, m) = ea_read e sz m;
                r = d XOR (cdreg m dn AND size_mask sz); m = ea_write e sz r m
            in add_cycles 4 (upd_cpu (set_flags_logic sz r) m)))
      else
        (let (e, m) = ea_decode mode reg sz m; (s, m) = ea_read e sz m; d = cdreg m dn AND size_mask sz
         in add_cycles 4 (upd_cpu (set_flags_cmp sz s d (d - s)) m)))"

subsection \<open>1110: shifts and rotates\<close>

definition shift_realop :: "bool \<Rightarrow> nat \<Rightarrow> nat" where
  "shift_realop left which = (if left then 4 + which else which)"

definition step_E :: "u16 \<Rightarrow> u32 \<Rightarrow> machine \<Rightarrow> machine" where
  "step_E op op_pc m =
     (let szf = opf op 6 3; left = bit op 8 in
      if szf = 3 then
        (let mode = opf op 3 7; reg = opf op 0 7 in
         if \<not> ea_is_mem mode reg then m68k_unimpl op_pc 4 m
         else
           (let (e, m) = ea_decode mode reg 2 m; (v, m) = ea_read e 2 m;
                (r, c) = do_shift 2 (shift_realop left (opf op 9 3)) v 1 (m_cpu m)
            in add_cycles 8 (ea_write e 2 r (m\<lparr>m_cpu := c\<rparr>))))
      else
        (let sz = op_size_of szf; dn = opf op 0 7;
             cnt = (if bit op 5 then cdreg m (opf op 9 7) AND 63
                    else if opf op 9 7 = 0 then 8 else word_of_nat (opf op 9 7));
             v = cdreg m dn AND size_mask sz;
             (r, c) = do_shift sz (shift_realop left (opf op 3 3)) v cnt (m_cpu m)
         in add_cycles (6 + 2 * ucast cnt) (merge_dreg sz dn r (m\<lparr>m_cpu := c\<rparr>))))"

subsection \<open>One instruction\<close>

definition dispatch :: "u16 \<Rightarrow> u32 \<Rightarrow> machine \<Rightarrow> machine" where
  "dispatch op op_pc m =
     (let top = opf op 12 0xF in
      if top = 0 then step_0 op op_pc m
      else if top = 1 \<or> top = 2 \<or> top = 3 then step_move op m
      else if top = 4 then step_4 op op_pc m
      else if top = 5 then step_5 op op_pc m
      else if top = 6 then step_6 op m
      else if top = 7 then step_7 op m
      else if top = 8 then step_8 op m
      else if top = 9 then step_9D False op m
      else if top = 0xA then m68k_unimpl op_pc 10 m
      else if top = 0xB then step_B op m
      else if top = 0xC then step_C op m
      else if top = 0xD then step_9D True op m
      else if top = 0xE then step_E op op_pc m
      else m68k_unimpl op_pc 11 m)"

definition m68k_step :: "machine \<Rightarrow> machine" where
  "m68k_step m =
     (if halted (m_cpu m) \<noteq> 0 then m
      else
        (let m = upd_cpu (\<lambda>c. c\<lparr>instrs := instrs c + 1\<rparr>) m;
             op_pc = pc (m_cpu m);
             (op, m) = fetch16 m
         in dispatch op op_pc (add_cycles 4 m)))"

subsection \<open>Run loop\<close>

text \<open>One turn of the loop of \<open>m68k_run_until\<close>.\<close>

definition run_turn :: "machine \<Rightarrow> machine" where
  "run_turn m =
     (let m = mac_mem_tick (cycles (m_cpu m)) m; (taken, m) = m68k_poll_interrupts m in
      if taken then m
      else
        (let (mounted, m) = sony_service m in
         if mounted then m
         else if stopped (m_cpu m) \<noteq> 0 then add_cycles 64 m
         else m68k_step m))"

definition run_more :: "u64 \<Rightarrow> machine \<Rightarrow> bool" where
  "run_more until m \<longleftrightarrow> cycles (m_cpu m) < until \<and> halted (m_cpu m) = 0"

partial_function (option) m68k_run_until :: "u64 \<Rightarrow> machine \<Rightarrow> machine option" where
  "m68k_run_until until m = (if run_more until m then m68k_run_until until (run_turn m) else Some m)"

end
