(* ===== verification/Decode.thy ===== *)
theory Decode
  imports Step
begin

text \<open>
  The block discovery decoder of core/m68k_interp.c: the length of an instruction and
  whether it ends a basic block, found without executing it.
\<close>

record m68k_decoded =
  dec_length :: u32
  dec_ends_block :: bool
  dec_opcode :: u16

definition ea_ext_bytes :: "nat \<Rightarrow> nat \<Rightarrow> nat \<Rightarrow> u32" where
  "ea_ext_bytes mode reg sz =
     (if mode = 5 \<or> mode = 6 then 2
      else if mode = 7 then
        (if reg = 0 then 2 else if reg = 1 then 4 else if reg = 2 \<or> reg = 3 then 2
         else if reg = 4 then (if sz = 4 then 4 else 2) else 0)
      else 0)"

text \<open>The length and the block end of an opcode, by its top four bits.\<close>

definition decode_0 :: "u16 \<Rightarrow> u32" where
  "decode_0 op =
     (let op9 = opf op 9 7; mode = opf op 3 7; reg = opf op 0 7; sz = op_size_of (opf op 6 3) in
      if bit op 8 \<and> mode = 1 then 2 + 2
      else if bit op 8 \<or> op9 = 4 then
        (if \<not> bit op 8 then 2 + 2 else 2) + ea_ext_bytes mode reg (if mode = 0 then 4 else 1)
      else
        (let len = 2 + (if sz = 4 then 4 else 2); to_sr_ccr = (mode = 7 \<and> reg = 4 \<and> (op9 = 0 \<or> op9 = 1 \<or> op9 = 5))
         in if \<not> to_sr_ccr then len + ea_ext_bytes mode reg sz else len))"

definition decode_move :: "u16 \<Rightarrow> u32" where
  "decode_move op =
     (let top = opf op 12 0xF; msz = (if top = 1 then 1 else if top = 3 then 2 else 4)
      in 2 + ea_ext_bytes (opf op 3 7) (opf op 0 7) msz + ea_ext_bytes (opf op 6 7) (opf op 9 7) msz)"

definition decode_4 :: "u16 \<Rightarrow> u32 \<times> bool" where
  "decode_4 op =
     (let mode = opf op 3 7; reg = opf op 0 7; sz = op_size_of (opf op 6 3) in
      if op = 0x4E75 \<or> op = 0x4E73 \<or> op = 0x4E77 \<or> op = 0x4E70 then (2, True)
      else if op AND 0xFFF0 = 0x4E40 then (2, True)
      else if op = 0x4E72 then (2 + 2, True)
      else if op AND 0xFFC0 = 0x4EC0 \<or> op AND 0xFFC0 = 0x4E80 then (2 + ea_ext_bytes mode reg 4, True)
      else if op AND 0xFFF8 = 0x4E50 then (2 + 2, False)
      else if op = 0x4E71 \<or> op = 0x4E76 \<or> op AND 0xFFF8 = 0x4840 \<or> op AND 0xFFB8 = 0x4880
              \<or> op AND 0xFFF8 = 0x4E58 \<or> op AND 0xFFF0 = 0x4E60 then (2, False)
      else if op AND 0xFB80 = 0x4880 then (2 + (2 + ea_ext_bytes mode reg 4), False)
      else
        (let ea_sz = (if sz = 0 then 2 else sz);
             ea_sz = (if op AND 0xF1C0 = 0x40C0 then 2 else ea_sz);
             ea_sz = (if op AND 0xF1C0 = 0x4180 then 2 else ea_sz)
         in (2 + ea_ext_bytes mode reg ea_sz, False)))"

definition decode_alu :: "u16 \<Rightarrow> u32" where
  "decode_alu op =
     (let top = opf op 12 0xF; szf = opf op 6 3;
          adj_sz = (if szf = 3 then
                      (if (top = 9 \<or> top = 0xB \<or> top = 0xD) \<and> op AND 0x0100 \<noteq> 0 then 4 else 2)
                    else op_size_of szf)
      in 2 + ea_ext_bytes (opf op 3 7) (opf op 0 7) adj_sz)"

definition decode_op :: "u16 \<Rightarrow> u32 \<times> bool" where
  "decode_op op =
     (let top = opf op 12 0xF; mode = opf op 3 7; reg = opf op 0 7; szf = opf op 6 3 in
      if top = 0 then (decode_0 op, False)
      else if top = 1 \<or> top = 2 \<or> top = 3 then (decode_move op, False)
      else if top = 4 then decode_4 op
      else if top = 5 then
        (if szf = 3 \<and> mode = 1 then (2 + 2, True) else (2 + ea_ext_bytes mode reg (op_size_of szf), False))
      else if top = 6 then ((if op AND 0xFF = 0 then 2 + 2 else if op AND 0xFF = 0xFF then 2 + 4 else 2), True)
      else if top = 7 then (2, False)
      else if top = 0xE then ((if szf = 3 then 2 + ea_ext_bytes mode reg 2 else 2), False)
      else if top = 0xA \<or> top = 0xF then (2, True)
      else (decode_alu op, False))"

definition m68k_decode_at :: "u32 \<Rightarrow> machine \<Rightarrow> m68k_decoded \<times> machine" where
  "m68k_decode_at p m =
     (let (op, m) = mac_read16 m p; (len, ends) = decode_op op
      in (\<lparr>dec_length = (if len < 2 then 2 else len), dec_ends_block = ends, dec_opcode = op\<rparr>, m))"

end
