(* ===== verification/Execution.thy ===== *)
theory Execution
  imports JitHelpers Decode
begin

text \<open>
  What holds of every execution (core/m68k_interp.c, m68k_step and m68k_run_until). An invariant of the
  bus extends to all instructions and to the run loop through the locale \<open>machine_invariant\<close>,
  interpreted for the interrupt line, the shape of the memory and the inserted disks; the time of an
  instruction is bounded, so the run loop returns.
\<close>

subsection \<open>The processor fields that only the devices read\<close>

lemma same_but_ccr_set [simp]: "same_but_ccr c (m68k_set_ccr v c)" "same_but_ccr c (set_nz sz r (m68k_set_ccr v c))"
  by (auto simp: same_but_ccr_def set_nz_def Let_def)

lemma same_but_ccr_alu:
  "same_but_ccr c (snd (do_shift sz k v n c))"
  "same_but_ccr c (snd (bcd_abcd a b c))" "same_but_ccr c (snd (bcd_sbcd a b c))" "same_but_ccr c (snd (bcd_nbcd a c))"
     apply (cases "n = 0"; simp add: do_shift_def Let_def case_prod_beta)
    apply (simp add: bcd_abcd_def Let_def)
   apply (simp only: bcd_sbcd_def Let_def case_prod_beta snd_conv same_but_ccr_set)
  apply (simp only: bcd_nbcd_def Let_def case_prod_beta snd_conv same_but_ccr_set)
  done

lemma same_but_ccr_fields:
  "same_but_ccr c c' \<Longrightarrow> dreg c' = dreg c \<and> areg c' = areg c \<and> pc c' = pc c \<and> usp c' = usp c \<and> ssp c' = ssp c \<and>
     cycles c' = cycles c \<and> halted c' = halted c \<and> stopped c' = stopped c \<and> pending_irq c' = pending_irq c"
  by (auto simp: same_but_ccr_def)

lemmas flags_frame [simp] = same_but_ccr_setters [THEN same_but_ccr_fields] same_but_ccr_alu [THEN same_but_ccr_fields]

lemma sync_sp_frame [simp]: "cycles (m68k_sync_sp w c) = cycles c" "dreg (m68k_sync_sp w c) = dreg c"
  "pc (m68k_sync_sp w c) = pc c" "pending_irq (m68k_sync_sp w c) = pending_irq c" "sr (m68k_sync_sp w c) = sr c"
  "halted (m68k_sync_sp w c) = halted c" "stopped (m68k_sync_sp w c) = stopped c"
  by (simp_all add: m68k_sync_sp_def)

subsection \<open>Invariants of execution\<close>

text \<open>An invariant of the bus that does not depend on the processor, the interrupt line apart, and that the
  periodic tick keeps, is kept by every instruction and every turn of the run loop.\<close>

locale machine_invariant = bus_invariant +
  assumes cpu: "pending_irq c = pending_irq (m_cpu m) \<Longrightarrow> I (m\<lparr>m_cpu := c\<rparr>) = I m"
    and tick: "I m \<Longrightarrow> I (mac_mem_tick t m)"
begin

lemma registers: "I (set_dreg i v m) = I m" "I (set_areg i v m) = I m" "I (set_pc v m) = I m"
  "I (merge_dreg sz i v m) = I m" "I (set_reg16 i v m) = I m" "I (load_sr s m) = I m" "I (add_cycles n m) = I m"
  by (simp_all add: set_dreg_def set_areg_def set_pc_def merge_dreg_def set_reg16_def load_sr_def add_cycles_def cpu)

lemma push: "I m \<Longrightarrow> I (push32 v32 m)" "I m \<Longrightarrow> I (push16 v16 m)"
  by (simp_all add: push32_def push16_def Let_def write16 write32 cpu)

lemma memory: "I m \<Longrightarrow> I (snd (mem_read a sz m))" "I m \<Longrightarrow> I (mem_write a sz v m)"
  "I m \<Longrightarrow> I (snd (fetch16 m))" "I m \<Longrightarrow> I (snd (fetch32 m))" "I m \<Longrightarrow> I (snd (pop16 m))" "I m \<Longrightarrow> I (snd (pop32 m))"
  by (simp_all add: mem_read_def mem_write_def fetch16_def fetch32_def pop16_def pop32_def case_prod_beta Let_def
      registers read8 read16 read32 write8 write16 write32)

lemma operands: "I m \<Longrightarrow> I (snd (brief_index b m))" "I m \<Longrightarrow> I (snd (ea_decode7 r sz m))"
  "I m \<Longrightarrow> I (snd (ea_decode md r sz m))" "I m \<Longrightarrow> I (snd (ea_read e sz m))" "I m \<Longrightarrow> I (ea_write e sz v m)"
  by (simp_all add: brief_index_def ea_decode7_def ea_decode_def case_prod_beta Let_def registers memory)
     (cases e; simp add: registers memory)+

lemma movem: "I m \<Longrightarrow> I (snd (movem_predec rs sz a m))" "I m \<Longrightarrow> I (snd (movem_store rs sz a m))"
  "I m \<Longrightarrow> I (snd (movem_load rs sz a m))"
  by (induction rs arbitrary: a m) (simp_all add: Let_def case_prod_beta registers memory)

lemma movep: "I m \<Longrightarrow> I (movep_store n dn a m)" "I m \<Longrightarrow> I (snd (movep_load n a m))"
proof -
  have "I m \<Longrightarrow> I (fold (\<lambda>i m. mac_write8 m (f i) (g i m)) rs m)" for f g rs m
    by (induction rs arbitrary: m) (simp_all add: write8)
  thus "I m \<Longrightarrow> I (movep_store n dn a m)" by (simp add: movep_store_def)
  have "I m \<Longrightarrow> I (snd (fold (\<lambda>i (v, m). let (b, m) = mac_read8 m (f i) in (h v b, m)) rs (x, m)))" for f h rs x m
    by (induction rs arbitrary: x m) (simp_all add: case_prod_beta Let_def read8)
  thus "I m \<Longrightarrow> I (snd (movep_load n a m))" by (simp add: movep_load_def)
qed

lemmas data = registers push memory operands movem movep cpu

lemma exceptions: "I m \<Longrightarrow> I (enter_handler f v m)" "I m \<Longrightarrow> I (m68k_exception v m)"
  "I m \<Longrightarrow> I (m68k_unimpl p v m)" "I m \<Longrightarrow> I (snd (m68k_poll_interrupts m))"
  by (simp_all add: enter_handler_def m68k_exception_def m68k_unimpl_def m68k_poll_interrupts_def case_prod_beta Let_def
      data read32)

lemma blocks: "I m \<Longrightarrow> I (do_bitop w b e md m)" "I m \<Longrightarrow> I (do_movem op m)"
  by (simp_all add: do_bitop_def do_movem_def case_prod_beta Let_def data)

lemma groups: "I m \<Longrightarrow> I (step_0 op p m)" "I m \<Longrightarrow> I (step_move op m)"
  "I m \<Longrightarrow> I (step_5 op p m)" "I m \<Longrightarrow> I (step_6 op m)" "I m \<Longrightarrow> I (step_7 op m)"
  by (simp_all add: step_0_def step_movep_def step_bitop_def step_imm_def step_imm_ccr_def step_imm_op_def
      step_move_def step_5_def step_dbcc_def step_addq_def step_6_def step_7_def Let_def case_prod_beta
      data exceptions blocks split: ea_t.split)

lemma group_4: "I m \<Longrightarrow> I (step_4 op p m)"
  by (simp add: step_4_def step_rte_def step_rtr_def step_rts_def step_link_def step_unlk_def step_stop_def step_4_ea_def
      step_swap_def step_ext_def step_nbcd_def step_jmp_def step_jsr_def step_pea_def step_lea_def step_chk_def step_move_sr_def
      step_4_unary_def step_unary_def step_tas_def Let_def case_prod_beta data read32 write32 exceptions blocks)

lemma group_8: "I m \<Longrightarrow> I (step_8 op m)" "I m \<Longrightarrow> I (step_C op m)" "I m \<Longrightarrow> I (step_9D b op m)"
  "I m \<Longrightarrow> I (step_B op m)" "I m \<Longrightarrow> I (step_E op p m)"
  by (simp_all add: step_8_def step_div_def step_bcd2_def step_logic_def step_C_def step_mul_def step_exg_def
      step_9D_def step_adda_def step_addx_def step_add_def step_B_def step_cmpm_def step_E_def Let_def case_prod_beta
      data exceptions)

lemma step: "I m \<Longrightarrow> I (m68k_step m)"
  by (simp add: m68k_step_def dispatch_def Let_def case_prod_beta data exceptions groups group_4 group_8)

lemma service: "I m \<Longrightarrow> I (snd (sony_service m))"
  by (simp add: sony_service_def Let_def data sony split: option.split)

lemma turn: "I m \<Longrightarrow> I (run_turn m)"
  by (simp add: run_turn_def Let_def case_prod_beta tick exceptions service registers step)

lemma run:
  assumes "m68k_run_until until m = Some m'" "I m"
  shows "I m' \<and> \<not> run_more until m'"
proof -
  have "I m \<longrightarrow> I m' \<and> \<not> run_more until m'"
  proof (rule m68k_run_until.raw_induct [where P = "\<lambda>u m m'. I m \<longrightarrow> I m' \<and> \<not> run_more u m'", OF _ assms(1)])
    fix f u m y
    assume h: "\<And>u m y. f u m = Some y \<Longrightarrow> I m \<longrightarrow> I y \<and> \<not> run_more u y"
      and r: "(if run_more u m then f u (run_turn m) else Some m) = Some y"
    show "I m \<longrightarrow> I y \<and> \<not> run_more u y"
      using h [of u "run_turn m" y] r turn [of m] by (cases "run_more u m") auto
  qed
  thus ?thesis using assms by blast
qed

end

subsection \<open>The tick and the three invariants\<close>

lemma vbl_loop_quiet: "snd (vbl_loop n c (m, ch)) \<or> (\<not> ch \<and> vbl_loop n c (m, ch) = (m, ch))"
proof -
  have r: "snd (vbl_loop n c (m, True))" for n m by (induction n arbitrary: m) simp_all
  show ?thesis by (cases n) (auto simp: r)
qed

lemma tick_irq: "irq_ok m \<Longrightarrow> irq_ok (mac_mem_tick c m)"
proof -
  assume m: "irq_ok m"
  obtain v ch where c: "via_clock c (m_via m) = (v, ch)" by (cases "via_clock c (m_via m)")
  obtain m2 ch2 where l: "vbl_loop (vbl_turns c) c (m\<lparr>m_via := v\<rparr>, ch) = (m2, ch2)" by (metis surj_pair)
  have "irq_ok (if ch2 then mac_via_recalc_irq m2 else m2)"
  proof (cases ch2)
    case False
    hence "m2 = m\<lparr>m_via := v\<rparr>" "ch = False"
      using vbl_loop_quiet [of "vbl_turns c" c "m\<lparr>m_via := v\<rparr>" ch] l by auto
    thus ?thesis using m c False clock_quiet [of c "m_via m" v] by (simp add: irq_ok_line)
  qed simp
  thus ?thesis by (simp add: mac_mem_tick_def c l kbd_tick_irq_ok)
qed

lemma vbl_frame: "memory_shape (fst (vbl_loop n c s)) = memory_shape (fst s) \<and>
    sony_inserted (m_sony (fst (vbl_loop n c s))) = sony_inserted (m_sony (fst s))"
  by (induction n arbitrary: s) (simp_all add: vbl_edge_def sony_tick_def Let_def memory_shape_def)

lemma tick_frame [simp]: "memory_shape (mac_mem_tick c m) = memory_shape m"
  "sony_inserted (m_sony (mac_mem_tick c m)) = sony_inserted (m_sony m)"
proof -
  have k: "memory_shape (mac_kbd_tick c m) = memory_shape m" for m
    using kbd_tick_touch [of m c m] by (simp add: kbd_touches_def memory_shape_def)
  have r: "memory_shape (mac_via_recalc_irq m) = memory_shape m" for m by (simp add: memory_shape_def)
  show "memory_shape (mac_mem_tick c m) = memory_shape m"
    "sony_inserted (m_sony (mac_mem_tick c m)) = sony_inserted (m_sony m)"
    using vbl_frame [of "vbl_turns c" c] by (simp_all add: mac_mem_tick_def Let_def case_prod_beta k r)
qed

interpretation irqx: machine_invariant irq_ok
  by unfold_locales (simp add: irq_ok_line, rule tick_irq)

interpretation shapex: machine_invariant "\<lambda>m. memory_shape m = x" for x
  by unfold_locales (simp add: memory_shape_def, simp)

interpretation insertedx: machine_invariant "\<lambda>m. sony_inserted (m_sony m) = x" for x
  by unfold_locales simp_all


subsection \<open>Time\<close>

abbreviation ins :: "machine \<Rightarrow> nat \<Rightarrow> bool" where "ins m \<equiv> sony_inserted (m_sony m)"

abbreviation cyc :: "machine \<Rightarrow> u64" where "cyc m \<equiv> cycles (m_cpu m)"

subsection \<open>Primitives take no time\<close>

lemma register_cycles [simp]:
  "cyc (set_dreg i v m) = cyc m" "cyc (set_areg i v m) = cyc m" "cyc (set_pc v m) = cyc m"
  "cyc (merge_dreg sz i v m) = cyc m" "cyc (set_reg16 i v m) = cyc m" "cyc (load_sr s m) = cyc m"
  "cyc (add_cycles n m) = cyc m + n"
  by (simp_all add: set_dreg_def set_areg_def set_pc_def merge_dreg_def set_reg16_def load_sr_def add_cycles_def)

lemma memory_cycles [simp]:
  "cyc (snd (mem_read a sz m)) = cyc m" "cyc (mem_write a sz v m) = cyc m"
  "cyc (snd (fetch16 m)) = cyc m" "cyc (snd (fetch32 m)) = cyc m"
  "cyc (snd (pop16 m)) = cyc m" "cyc (snd (pop32 m)) = cyc m"
  by (simp_all add: mem_read_def mem_write_def fetch16_def fetch32_def pop16_def pop32_def case_prod_beta Let_def)

lemma ea_cycles [simp]:
  "cyc (snd (brief_index b m)) = cyc m" "cyc (snd (ea_decode7 r sz m)) = cyc m" "cyc (snd (ea_decode md r sz m)) = cyc m"
  "cyc (snd (ea_read e sz m)) = cyc m" "cyc (ea_write e sz v m) = cyc m"
  by (simp_all add: brief_index_def ea_decode7_def ea_decode_def case_prod_beta Let_def)
     (cases e; simp)+

lemma movem_cycles [simp]: "cyc (snd (movem_predec rs sz a m)) = cyc m" "cyc (snd (movem_store rs sz a m)) = cyc m"
  "cyc (snd (movem_load rs sz a m)) = cyc m" "cyc (do_movem op m) = cyc m"
proof -
  show p: "cyc (snd (movem_predec rs sz a m)) = cyc m" and s: "cyc (snd (movem_store rs sz a m)) = cyc m"
    and l: "cyc (snd (movem_load rs sz a m)) = cyc m" for rs sz a m
    by (induction rs arbitrary: a m) (simp_all add: Let_def case_prod_beta)
  show "cyc (do_movem op m) = cyc m" by (simp add: do_movem_def Let_def case_prod_beta p s l)
qed

lemma movep_cycles [simp]: "cyc (movep_store n dn a m) = cyc m" "cyc (snd (movep_load n a m)) = cyc m"
proof -
  have "cyc (fold (\<lambda>i m. mac_write8 m (f i) (g i m)) rs m) = cyc m" for f g rs m
    by (induction rs arbitrary: m) simp_all
  thus "cyc (movep_store n dn a m) = cyc m" by (simp add: movep_store_def)
  have "cyc (snd (fold (\<lambda>i (v, m). let (b, m) = mac_read8 m (f i) in (h v b, m)) rs (x, m))) = cyc m" for f h rs x m
    by (induction rs arbitrary: x m) (simp_all add: case_prod_beta Let_def)
  thus "cyc (snd (movep_load n a m)) = cyc m" by (simp add: movep_load_def)
qed

lemma exception_cycles [simp]: "cyc (enter_handler f v m) = cyc m" "cyc (m68k_exception v m) = cyc m + 34"
  "cyc (m68k_unimpl p v m) = cyc m + 34" "cyc (do_bitop w b e md m) = cyc m"
  by (simp_all add: enter_handler_def m68k_exception_def m68k_unimpl_def do_bitop_def case_prod_beta Let_def)


subsection \<open>The time of one instruction\<close>

text \<open>The cycles an instruction adds to the four of its opcode fetch.\<close>

definition extra :: "machine \<Rightarrow> machine \<Rightarrow> u64" where
  "extra m m' = cyc m' - cyc m"

lemma extra_le [intro]: "cyc m' = cyc m + n \<Longrightarrow> n \<le> 140 \<Longrightarrow> extra m m' \<le> 140"
  by (simp add: extra_def)

lemma extra_mono: "cyc m1 = cyc m \<Longrightarrow> extra m1 m' \<le> 140 \<Longrightarrow> extra m m' \<le> 140"
  by (simp add: extra_def)

lemma step_0_time: "extra m (step_0 op p m) \<le> 140"
  by (simp add: step_0_def step_movep_def step_bitop_def step_imm_def step_imm_ccr_def step_imm_op_def Let_def case_prod_beta extra_def)

lemma step_move_time: "extra m (step_move op m) \<le> 140"
  by (simp add: step_move_def Let_def case_prod_beta extra_def)

lemma step_4_time: "extra m (step_4 op p m) \<le> 140"
  apply (simp add: step_4_def step_rte_def step_rtr_def step_rts_def step_link_def step_unlk_def step_stop_def step_4_ea_def
      step_swap_def step_ext_def step_nbcd_def step_jmp_def step_jsr_def step_pea_def step_lea_def step_chk_def step_move_sr_def
     step_4_unary_def step_unary_def step_tas_def Let_def case_prod_beta extra_def)
  done

lemma step_5_time: "extra m (step_5 op p m) \<le> 140"
  by (simp add: step_5_def step_dbcc_def step_addq_def Let_def case_prod_beta extra_def split: ea_t.split)

lemma step_6_time: "extra m (step_6 op m) \<le> 140" "extra m (step_7 op m) \<le> 140"
  by (simp_all add: step_6_def step_7_def Let_def case_prod_beta extra_def)

lemma step_8_time: "extra m (step_8 op m) \<le> 140"
  by (simp add: step_8_def step_div_def step_bcd2_def step_logic_def Let_def case_prod_beta extra_def)

lemma step_C_time: "extra m (step_C op m) \<le> 140"
  by (simp add: step_C_def step_mul_def step_exg_def step_bcd2_def step_logic_def Let_def case_prod_beta extra_def)

lemma step_9D_time: "extra m (step_9D b op m) \<le> 140"
  by (simp add: step_9D_def step_adda_def step_addx_def step_add_def Let_def case_prod_beta extra_def)

lemma step_B_time: "extra m (step_B op m) \<le> 140"
  by (simp add: step_B_def step_cmpm_def Let_def case_prod_beta extra_def)

lemma opf_le: "opf op n k \<le> unat k"
  by (simp add: opf_def word_and_le1 flip: word_le_nat_alt)

lemma shift_time: "c \<le> 63 \<Longrightarrow> 6 + 2 * ucast c \<le> (140 :: u64)" for c :: u32
proof -
  assume "c \<le> 63"
  hence "unat c \<le> 63" by (simp add: word_le_nat_alt)
  hence "unat (2 * ucast c :: u64) \<le> 126 \<and> unat (2 * ucast c :: u64) = 2 * unat c"
    by (simp add: unat_word_ariths unsigned_ucast_eq take_bit_nat_eq_self)
  thus ?thesis by (simp add: word_le_nat_alt unat_word_ariths)
qed

lemma shift_count: "cdreg m i AND 63 \<le> 63" "word_of_nat (opf op n 7) \<le> (63 :: u32)"
proof -
  show "cdreg m i AND 63 \<le> 63" by (rule word_and_le1)
  show "word_of_nat (opf op n 7) \<le> (63 :: u32)"
    using opf_le [of op n 7] by (simp add: word_le_nat_alt unat_of_nat take_bit_eq_mod)
qed

lemma step_E_time: "extra m (step_E op p m) \<le> 140"
  by (simp add: step_E_def Let_def case_prod_beta extra_def shift_time shift_count)

lemma dispatch_time: "extra m (dispatch op p m) \<le> 140"
proof -
  have u: "extra m (m68k_unimpl p v m) \<le> 140" for v by (simp add: extra_def)
  show ?thesis by (simp add: dispatch_def Let_def u step_0_time step_move_time step_4_time step_5_time step_6_time
      step_8_time step_C_time step_9D_time step_B_time step_E_time)
qed

lemma step_time:
  assumes "halted (m_cpu m) = 0"
  shows "\<exists>k. 4 \<le> k \<and> k \<le> 144 \<and> cyc (m68k_step m) = cyc m + k"
proof -
  define m1 where "m1 = upd_cpu (\<lambda>c. c\<lparr>instrs := instrs c + 1\<rparr>) m"
  define m2 where "m2 = add_cycles 4 (snd (fetch16 m1))"
  have s: "m68k_step m = dispatch (fst (fetch16 m1)) (pc (m_cpu m1)) m2"
    using assms by (simp add: m68k_step_def m1_def m2_def Let_def case_prod_beta)
  have c: "cyc m2 = cyc m + 4" by (simp add: m2_def m1_def)
  define e where "e = extra m2 (m68k_step m)"
  have e: "e \<le> 140" by (simp add: e_def s dispatch_time)
  have "cyc (m68k_step m) = cyc m + (4 + e)" by (simp add: e_def extra_def c)
  moreover have "4 \<le> 4 + e" "4 + e \<le> 144"
    using e by (simp_all add: word_le_nat_alt unat_word_ariths)
  ultimately show ?thesis by blast
qed



subsection \<open>Turns of the run loop\<close>

lemma tick_cpu [simp]: "cyc (mac_mem_tick t m) = cyc m" "halted (m_cpu (mac_mem_tick t m)) = halted (m_cpu m)"
proof -
  define c0 where "c0 = (\<lambda>m :: machine. (m_cpu m)\<lparr>pending_irq := 0\<rparr>)"
  have k: "c0 (mac_kbd_tick t m) = c0 m" for m using kbd_tick_touch [of m t m] by (simp add: kbd_touches_def c0_def)
  have r: "c0 (mac_via_recalc_irq m) = c0 m" for m by (simp add: c0_def mac_via_recalc_irq_def Let_def)
  have v: "c0 (fst (vbl_loop n t s)) = c0 (fst s)" for n s
    by (induction n arbitrary: s) (simp_all add: vbl_edge_def sony_tick_def Let_def c0_def)
  have "c0 (mac_mem_tick t m) = c0 m"
    using v [of "vbl_turns t"] by (simp add: mac_mem_tick_def Let_def case_prod_beta k r) (simp add: c0_def)
  from arg_cong [OF this, of cycles] arg_cong [OF this, of halted]
  show "cyc (mac_mem_tick t m) = cyc m" "halted (m_cpu (mac_mem_tick t m)) = halted (m_cpu m)"
    by (simp_all add: c0_def)
qed

lemma service_none: "\<not> (\<exists>i. ins m i) \<Longrightarrow> sony_service m = (False, m)"
  by (auto simp: sony_service_def sony_due_def find_None_iff find_Some_iff split: option.split)

lemma poll_cycles: "m68k_poll_interrupts m = (b, m') \<Longrightarrow> (if b then cyc m' = cyc m + 44 else m' = m)"
  by (auto simp: m68k_poll_interrupts_def Let_def split: if_splits)

lemma turn_time:
  assumes "halted (m_cpu m) = 0" "\<not> (\<exists>i. ins m i)"
  shows "\<exists>k. 4 \<le> k \<and> k \<le> 144 \<and> cyc (run_turn m) = cyc m + k"
proof -
  define t where "t = mac_mem_tick (cyc m) m"
  obtain b p where p: "m68k_poll_interrupts t = (b, p)" by (cases "m68k_poll_interrupts t")
  have t: "cyc t = cyc m" "halted (m_cpu t) = 0" "\<not> (\<exists>i. ins t i)" using assms by (simp_all add: t_def)
  have r: "run_turn m = (if b then p else if stopped (m_cpu t) \<noteq> 0 then add_cycles 64 t else m68k_step t)"
    using poll_cycles [OF p] by (simp add: run_turn_def Let_def p service_none [OF t(3)] flip: t_def)
  have "\<exists>k. 4 \<le> k \<and> k \<le> 144 \<and> cyc p = cyc m + k" if b
    using poll_cycles [OF p] that t(1) by (intro exI [of _ 44]) simp
  moreover have "\<exists>k. 4 \<le> k \<and> k \<le> 144 \<and> cyc (add_cycles 64 t) = cyc m + k"
    using t(1) by (intro exI [of _ 64]) simp
  ultimately show ?thesis using step_time [OF t(2)] t(1) by (simp add: r)
qed

lemma run_returns:
  assumes "unat until + 144 < 2 ^ 64" "\<not> (\<exists>i. ins m i)"
  shows "\<exists>m'. m68k_run_until until m = Some m' \<and> \<not> run_more until m' \<and>
     (cyc m < until \<longrightarrow> unat (cyc m') < unat until + 144)"
  using assms(2)
proof (induction "unat until - unat (cyc m)" arbitrary: m rule: less_induct)
  case less
  show ?case
  proof (cases "run_more until m")
    case True
    hence l: "cyc m < until" and h: "halted (m_cpu m) = 0" by (simp_all add: run_more_def)
    obtain k where k: "4 \<le> k" "k \<le> 144" "cyc (run_turn m) = cyc m + k" using turn_time [OF h less.prems] by blast
    have u: "unat (cyc (run_turn m)) = unat (cyc m) + unat k"
      using k l assms(1) by (simp add: unat_word_ariths word_less_nat_alt word_le_nat_alt)
    have n: "\<not> (\<exists>i. ins (run_turn m) i)" using less.prems insertedx.turn [of m "ins m"] by simp
    have d: "unat until - unat (cyc (run_turn m)) < unat until - unat (cyc m)"
      using u k(1) l by (simp add: word_less_nat_alt word_le_nat_alt)
    obtain m' where m': "m68k_run_until until (run_turn m) = Some m'" "\<not> run_more until m'"
      "cyc (run_turn m) < until \<longrightarrow> unat (cyc m') < unat until + 144" using less.hyps [OF d n] by blast
    have "unat (cyc m') < unat until + 144"
    proof (cases "cyc (run_turn m) < until")
      case False
      hence "m' = run_turn m" using m'(1) by (simp add: m68k_run_until.simps [of until "run_turn m"] run_more_def)
      thus ?thesis using u k(2) l by (simp add: word_less_nat_alt word_le_nat_alt)
    qed (use m'(3) in simp)
    thus ?thesis using m' True by (simp add: m68k_run_until.simps [of until m])
  next
    case False
    thus ?thesis by (auto simp: m68k_run_until.simps [of until m] run_more_def word_less_nat_alt)
  qed
qed


text \<open>C21: The run loop returns: from any state with no floppy inserted and any target cycle it ends, either
  halted or with the target reached, and overshoots the target by less than the longest turn of
  144 cycles.\<close>

theorem run_until_returns:
  assumes "unat until + 144 < 2 ^ 64" "\<And>i. \<not> sony_inserted (m_sony m) i"
  shows "\<exists>m'. m68k_run_until until m = Some m' \<and>
     (halted (m_cpu m') \<noteq> 0 \<or> until \<le> cycles (m_cpu m')) \<and>
     (cycles (m_cpu m) < until \<longrightarrow> unat (cycles (m_cpu m')) < unat until + 144)"
  using run_returns [OF assms(1), of m] assms(2) by (auto simp: run_more_def not_less)

theorem run_until_returns_witness:
  "\<exists>m'. m68k_run_until 1000000 (mac_mem_init cpu_zero 0x100000) = Some m' \<and>
     (halted (m_cpu m') \<noteq> 0 \<or> 1000000 \<le> cycles (m_cpu m')) \<and> unat (cycles (m_cpu m')) < 1000144"
proof -
  let ?m = "mac_mem_init cpu_zero 0x100000"
  have m: "cycles (m_cpu ?m) = 0" "\<And>i. \<not> sony_inserted (m_sony ?m) i"
    by (simp_all add: mac_mem_init_def via_init_def cpu_zero_def sony_init_def Let_def)
  show ?thesis using run_until_returns [of 1000000 ?m] m by simp
qed

text \<open>C22: However long the guest runs, through every instruction, interrupt, disk insertion and device access,
  the ROM and the sizes of ROM and RAM are unchanged, the inserted disks stay the same, and the
  interrupt line of the processor agrees with the VIA's flags.\<close>

theorem execution_safe:
  assumes "m68k_run_until until m = Some m'" "irq_ok m"
  shows "m_rom m' = m_rom m \<and> m_rom_size m' = m_rom_size m \<and> m_ram_size m' = m_ram_size m \<and>
     sony_inserted (m_sony m') = sony_inserted (m_sony m) \<and> irq_ok m'"
  using irqx.run [OF assms] shapex.run [OF assms(1) refl] insertedx.run [OF assms(1) refl]
  by (simp add: memory_shape_def)

theorem execution_safe_witness:
  "\<exists>m'. m68k_run_until 1 (mac_mem_init cpu_zero 0x100000) = Some m' \<and> m_rom m' = None \<and> m_ram_size m' = 0x100000 \<and> irq_ok m'"
proof -
  let ?m = "mac_mem_init cpu_zero 0x100000"
  have m: "irq_ok ?m" "m_rom ?m = None" "m_ram_size ?m = 0x100000" "\<not> (\<exists>i. sony_inserted (m_sony ?m) i)"
    by (simp_all add: irq_ok_line irq_line_def mac_mem_init_def via_init_def cpu_zero_def sony_init_def Let_def)
  obtain m' where r: "m68k_run_until 1 ?m = Some m'" using run_returns [of 1 ?m, OF _ m(4)] by auto
  show ?thesis using execution_safe [OF r m(1)] r m by auto
qed

end
