(* ===== verification/BusFrame.thy ===== *)
theory BusFrame
  imports Execution
begin

text \<open>
  What the devices behind the bus can see of the processor. A change of state that commutes with byte
  accesses commutes with every bus access and with the whole floppy driver (locale \<open>bus_morphism\<close>);
  exchanging the registers of the processor is such a change, so memory accesses and register updates
  may be made in either order. Compiled code and the JIT helpers rely on this.
\<close>

lemma case_apsnd: "(case apsnd f x of (v, m) \<Rightarrow> B v m) = (case x of (v, m) \<Rightarrow> B v (f m))"
  by (cases x) simp

locale bus_morphism =
  fixes f :: "machine \<Rightarrow> machine"
  assumes read8: "mac_read8 (f m) a = apsnd f (mac_read8 m a)"
    and write8: "mac_write8 (f m) a v = f (mac_write8 m a v)"
    and place: "mem_ptr (f m) a = mem_ptr m a" "place_byte (f m) p k = place_byte m p k"
    and reads: "m_reads (f m) = m_reads m" "(f m)\<lparr>m_reads := n\<rparr> = f (m\<lparr>m_reads := n\<rparr>)"
    and sony: "m_sony (f m) = m_sony m" "(f m)\<lparr>m_sony := s\<rparr> = f (m\<lparr>m_sony := s\<rparr>)"
    and nested: "(f m)\<lparr>m_nested_out := b\<rparr> = f (m\<lparr>m_nested_out := b\<rparr>)"
begin

lemma read16: "mac_read16 (f m) a = apsnd f (mac_read16 m a)"
  by (simp add: mac_read16_def Let_def place read8 reads case_apsnd split: option.split prod.split)

lemma read32: "mac_read32 (f m) a = apsnd f (mac_read32 m a)"
  by (simp add: mac_read32_def read16 case_apsnd split: prod.split)

lemma put: "put_bytes mac_write8 (f m) a bs = f (put_bytes mac_write8 m a bs)"
  by (induction bs arbitrary: m a) (simp_all add: write8)

lemma gets: "read_bytes n a (f m) = apsnd f (read_bytes n a m)"
  by (induction n arbitrary: m a) (simp_all add: read8 case_apsnd split: prod.split)

lemma move: "vmove n d s (f m) = f (vmove n d s m)"
  by (induction n arbitrary: m d s) (simp_all add: read8 write8 case_apsnd split: prod.split)

definition ext_commutes :: "extn \<Rightarrow> bool" where
  "ext_commutes ext \<longleftrightarrow> (\<forall>off d m. ext off d (f m) = f (ext off d m))"

lemma put16: "ext_commutes ext \<Longrightarrow> mac_write16_with ext (f m) a v = f (mac_write16_with ext m a v)"
  by (simp add: mac_write16_with_def Let_def write8 ext_commutes_def)

lemma put32: "ext_commutes ext \<Longrightarrow> mac_write32_with ext (f m) a v = f (mac_write32_with ext m a v)"
  by (simp add: mac_write32_with_def put16)

lemmas bus = read8 write8 read16 read32 put16 put32 put gets move sony case_apsnd

lemma vars: "drive_vars d (f m) = apsnd f (drive_vars d m)"
  by (simp add: drive_vars_def bus split: prod.split)

lemma transfer: "drive_transfer w b d st ct (f m) = apsnd (apsnd f) (drive_transfer w b d st ct m)"
  by (cases w; cases "read_bytes (unat (if ct \<le> sony_size (m_sony m) (nat d) - st then ct else sony_size (m_sony m) (nat d) - st)) b m")
     (simp_all add: drive_transfer_def image_of_def Let_def bus)

lemma case_apsnd2: "(case apsnd (apsnd f) x of (r, k, m) \<Rightarrow> B r k m) = (case x of (r, k, m) \<Rightarrow> B r k (f m))"
  by (cases x) simp

lemma latch: "ext_commutes ext \<Longrightarrow> latch_err ext r (f m) = apsnd f (latch_err ext r m)"
  by (simp add: latch_err_def bus)

lemma prime_io: "ext_commutes ext \<Longrightarrow> sony_prime_io ext pb dce d dvl w (f m) = apsnd (apsnd f) (sony_prime_io ext pb dce d dvl w m)"
  by (cases w) (simp_all add: sony_prime_io_def bus transfer case_apsnd2 split: prod.split)

lemma prime_body: "ext_commutes ext \<Longrightarrow>
    sony_prime_body ext pb dce d dvl t (f m) = apsnd (apsnd f) (sony_prime_body ext pb dce d dvl t m)"
  by (simp add: sony_prime_body_def bus prime_io split: prod.split)

lemma prime: "ext_commutes ext \<Longrightarrow> sony_prime ext p (f m) = apsnd f (sony_prime ext p m)"
  by (simp add: sony_prime_def Let_def bus vars prime_body case_apsnd2 latch split: prod.split)

lemma control_op: "ext_commutes ext \<Longrightarrow> sony_control_op ext pb opn d dvl (f m) = apsnd f (sony_control_op ext pb opn d dvl m)"
  by (simp add: sony_control_op_def Let_def bus split: prod.split)

lemma control: "ext_commutes ext \<Longrightarrow> sony_control ext p (f m) = apsnd f (sony_control ext p m)"
  by (simp add: sony_control_def Let_def bus vars control_op latch split: prod.split)

lemma status: "ext_commutes ext \<Longrightarrow> sony_status ext p (f m) = apsnd f (sony_status ext p m)"
  by (simp add: sony_status_def Let_def bus vars latch split: prod.split)

lemma open_a: "ext_commutes ext \<Longrightarrow> sony_open_a ext p (f m) = apsnd f (sony_open_a ext p m)"
  by (simp add: sony_open_a_def Let_def bus)

lemma open_drives: "ext_commutes ext \<Longrightarrow> fold (sony_open_drive ext sv) ds (f m) = f (fold (sony_open_drive ext sv) ds m)"
  by (induction ds arbitrary: m) (simp_all add: sony_open_drive_def Let_def bus)

lemma open_b: "ext_commutes ext \<Longrightarrow> sony_open_b ext p (f m) = apsnd f (sony_open_b ext p m)"
  by (simp add: sony_open_b_def Let_def bus open_drives split: prod.split)

lemma open_c: "sony_open_c p (f m) = apsnd f (sony_open_c p m)"
  by (simp add: sony_open_c_def bus split: prod.split)

lemma mount_vars: "ext_commutes ext \<Longrightarrow> sony_mount_vars ext dvl b (f m) = f (sony_mount_vars ext dvl b m)"
  by (simp add: sony_mount_vars_def Let_def bus)

lemma mount: "ext_commutes ext \<Longrightarrow> sony_mount ext p (f m) = apsnd f (sony_mount ext p m)"
  by (simp add: sony_mount_def Let_def bus vars mount_vars split: prod.split)

lemma access_cases: "(r, f m) = apsnd f (r, m)" "(if P then apsnd f x else apsnd f y) = apsnd f (if P then x else y)"
  by simp_all

lemma access: "ext_commutes ext \<Longrightarrow> extn_sony_access ext p (f m) = f (extn_sony_access ext p m)"
  by (simp only: extn_sony_access_def Let_def bus prime control status open_a open_b open_c mount access_cases prod.case_distrib [of f])

lemma extn_call:
  assumes "ext_commutes ext"
  shows "(case mac_read16 (f m) p of (chk, m) \<Rightarrow> if chk = 0x5B17 then
      (let m = vput16 ext p 0 m; (x, m) = mac_read16 m (p + 2) in
       if x = 2 then extn_sony_access ext p m else vput16 ext (p + 6) mnvm_controlErr m) else m) =
    f (case mac_read16 m p of (chk, m) \<Rightarrow> if chk = 0x5B17 then
      (let m = vput16 ext p 0 m; (x, m) = mac_read16 m (p + 2) in
       if x = 2 then extn_sony_access ext p m else vput16 ext (p + 6) mnvm_controlErr m) else m)"
proof -
  obtain chk m1 where r: "mac_read16 m p = (chk, m1)" by (cases "mac_read16 m p")
  obtain x m2 where s: "mac_read16 (vput16 ext p 0 m1) (p + 2) = (x, m2)" by (cases "mac_read16 (vput16 ext p 0 m1) (p + 2)")
  show ?thesis using assms by (simp add: r s bus access)
qed

lemma extn_step: "ext_commutes ext \<Longrightarrow> ext_commutes (sony_extn_step ext)"
  using extn_call by (simp add: ext_commutes_def [of "sony_extn_step ext"] sony_extn_step_def Let_def sony)

lemma extn: "ext_commutes (sony_extn_write n)"
  by (induction n) (simp_all add: ext_commutes_def [of "\<lambda>off d m. m\<lparr>m_nested_out := True\<rparr>"] nested extn_step)

lemma write16: "mac_write16 (f m) a w = f (mac_write16 m a w)" and write32: "mac_write32 (f m) a l = f (mac_write32 m a l)"
  by (simp_all add: mac_write16_def mac_write32_def bus extn)

end

subsection \<open>The devices see only the cycle counter\<close>

text \<open>The machine with the registers of \<open>c\<close>: everything of the processor but what the devices read or
  write, which is the cycle counter, the interrupt line, and the halt and exit state of the debug port.\<close>

definition put_regs :: "m68k_cpu \<Rightarrow> machine \<Rightarrow> machine" where
  "put_regs c m = m\<lparr>m_cpu := c\<lparr>cycles := cycles (m_cpu m), pending_irq := pending_irq (m_cpu m),
     exit_code := exit_code (m_cpu m), halted := halted (m_cpu m), chain_budget := chain_budget (m_cpu m)\<rparr>\<rparr>"

lemma put_regs_fields [simp]:
  "m_ram (put_regs c m) = m_ram m" "m_ram_size (put_regs c m) = m_ram_size m" "m_rom (put_regs c m) = m_rom m"
  "m_rom_size (put_regs c m) = m_rom_size m" "m_overlay (put_regs c m) = m_overlay m" "m_via (put_regs c m) = m_via m"
  "m_rtc (put_regs c m) = m_rtc m" "m_iwm (put_regs c m) = m_iwm m" "m_scc (put_regs c m) = m_scc m"
  "m_scsi (put_regs c m) = m_scsi m" "m_reads (put_regs c m) = m_reads m" "m_writes (put_regs c m) = m_writes m"
  "m_kbd (put_regs c m) = m_kbd m" "m_sony (put_regs c m) = m_sony m" "m_watch (put_regs c m) = m_watch m"
  "m_mouse_btn (put_regs c m) = m_mouse_btn m" "m_fb_base (put_regs c m) = m_fb_base m"
  "m_serial_out (put_regs c m) = m_serial_out m" "m_scc_out (put_regs c m) = m_scc_out m"
  "cycles (m_cpu (put_regs c m)) = cycles (m_cpu m)"
  by (simp_all add: put_regs_def)

lemma put_regs_upd:
  "(put_regs c m)\<lparr>m_ram := ra\<rparr> = put_regs c (m\<lparr>m_ram := ra\<rparr>)" "(put_regs c m)\<lparr>m_overlay := ov\<rparr> = put_regs c (m\<lparr>m_overlay := ov\<rparr>)"
  "(put_regs c m)\<lparr>m_via := vi\<rparr> = put_regs c (m\<lparr>m_via := vi\<rparr>)" "(put_regs c m)\<lparr>m_rtc := rt\<rparr> = put_regs c (m\<lparr>m_rtc := rt\<rparr>)"
  "(put_regs c m)\<lparr>m_iwm := iw\<rparr> = put_regs c (m\<lparr>m_iwm := iw\<rparr>)" "(put_regs c m)\<lparr>m_scc := sc\<rparr> = put_regs c (m\<lparr>m_scc := sc\<rparr>)"
  "(put_regs c m)\<lparr>m_scsi := ss\<rparr> = put_regs c (m\<lparr>m_scsi := ss\<rparr>)" "(put_regs c m)\<lparr>m_reads := nr\<rparr> = put_regs c (m\<lparr>m_reads := nr\<rparr>)"
  "(put_regs c m)\<lparr>m_writes := nr\<rparr> = put_regs c (m\<lparr>m_writes := nr\<rparr>)" "(put_regs c m)\<lparr>m_kbd := kb\<rparr> = put_regs c (m\<lparr>m_kbd := kb\<rparr>)"
  "(put_regs c m)\<lparr>m_sony := so\<rparr> = put_regs c (m\<lparr>m_sony := so\<rparr>)" "(put_regs c m)\<lparr>m_watch := wa\<rparr> = put_regs c (m\<lparr>m_watch := wa\<rparr>)"
  "(put_regs c m)\<lparr>m_fb_base := fb\<rparr> = put_regs c (m\<lparr>m_fb_base := fb\<rparr>)" "(put_regs c m)\<lparr>m_serial_out := se\<rparr> = put_regs c (m\<lparr>m_serial_out := se\<rparr>)"
  "(put_regs c m)\<lparr>m_scc_out := sco\<rparr> = put_regs c (m\<lparr>m_scc_out := sco\<rparr>)" "(put_regs c m)\<lparr>m_nested_out := no\<rparr> = put_regs c (m\<lparr>m_nested_out := no\<rparr>)"
  "(put_regs c m)\<lparr>m_cpu := (m_cpu (put_regs c m))\<lparr>pending_irq := pe\<rparr>\<rparr> = put_regs c (m\<lparr>m_cpu := (m_cpu m)\<lparr>pending_irq := pe\<rparr>\<rparr>)"
  by (simp_all add: put_regs_def)

lemma put_regs_recalc: "mac_via_recalc_irq (put_regs c m) = put_regs c (mac_via_recalc_irq m)"
  by (simp add: mac_via_recalc_irq_def Let_def) (simp add: put_regs_def)


lemmas regs_law = put_regs_upd put_regs_recalc case_apsnd

lemma kbd_regs:
  "via_set_irq b (put_regs c m) = put_regs c (via_set_irq b m)"
  "via_shift_in_data v (put_regs c m) = put_regs c (via_shift_in_data v m)"
  "via_shift_out_data (put_regs c m) = apsnd (put_regs c) (via_shift_out_data m)"
  "got_keyboard_data v (put_regs c m) = put_regs c (got_keyboard_data v m)"
  by (simp_all add: via_set_irq_def via_shift_in_data_def via_shift_out_data_def got_keyboard_data_def Let_def regs_law)

lemma if_regs: "(if P then put_regs c x else put_regs c y) = put_regs c (if P then x else y)" by simp

lemma inquiry_regs: "attempt_finish_inquiry (put_regs c m) = apsnd (put_regs c) (attempt_finish_inquiry m)"
  by (simp add: attempt_finish_inquiry_def Let_def regs_law kbd_regs split: option.split prod.split)

lemma receive_regs:
  "do_receive_command (put_regs c m) = put_regs c (do_receive_command m)"
  "do_receive_end_command (put_regs c m) = put_regs c (do_receive_end_command m)"
  "kbd_cb2_changed (put_regs c m) = put_regs c (kbd_cb2_changed m)"
proof -
  obtain cmd m1 where v: "via_shift_out_data m = (cmd, m1)" by (cases "via_shift_out_data m")
  let ?m = "upd_kbd (\<lambda>k. k\<lparr>kbd_st := 2\<rparr>) m1"
  obtain d m2 where q: "attempt_finish_inquiry ?m = (d, m2)" by (cases "attempt_finish_inquiry ?m")
  show "do_receive_command (put_regs c m) = put_regs c (do_receive_command m)"
    by (simp add: do_receive_command_def Let_def v q regs_law kbd_regs inquiry_regs)
  show "do_receive_end_command (put_regs c m) = put_regs c (do_receive_end_command m)"
    "kbd_cb2_changed (put_regs c m) = put_regs c (kbd_cb2_changed m)"
    by (simp_all add: do_receive_end_command_def kbd_cb2_changed_def Let_def regs_law kbd_regs)
qed

lemma shift_mode_regs: "shift_mode (put_regs c m) = shift_mode m" by (simp add: shift_mode_def)

lemma kbd_written_regs:
  "mac_kbd_sr_written (put_regs c m) = put_regs c (mac_kbd_sr_written m)"
  "mac_kbd_acr_written a (put_regs c m) = put_regs c (mac_kbd_acr_written a m)"
  by (simp_all add: mac_kbd_sr_written_def mac_kbd_acr_written_def Let_def regs_law kbd_regs receive_regs shift_mode_regs
      split: prod.split)

lemma via_clear_regs: "via_clear_irq b (put_regs c m) = put_regs c (via_clear_irq b m)"
  by (simp add: via_clear_irq_def regs_law)

lemma via_read_regs: "via_read (put_regs c m) a = apsnd (put_regs c) (via_read m a)"
  by (simp add: via_read_def via_read_pa_def via_read_pb_def Let_def regs_law via_clear_regs)

lemma via_write_regs: "via_write (put_regs c m) a v = put_regs c (via_write m a v)"
  by (simp only: via_write_def via_write_ora_def Let_def regs_law via_clear_regs kbd_written_regs put_regs_fields if_regs)

lemma debug_regs: "debug_read (put_regs c m) x = debug_read m x" "debug_write (put_regs c m) x v = put_regs c (debug_write m x v)"
  by (simp_all add: debug_read_def debug_write_def regs_law) (simp add: put_regs_def)

lemma ports_regs: "scc_read (put_regs c m) a = apsnd (put_regs c) (scc_read m a)" "scc_write (put_regs c m) a v = put_regs c (scc_write m a v)"
  "scsi_read (put_regs c m) a = apsnd (put_regs c) (scsi_read m a)" "scsi_write (put_regs c m) a v = put_regs c (scsi_write m a v)"
  by (simp_all add: scc_read_def scc_write_def scsi_read_def scsi_write_def Let_def regs_law split: prod.split)

lemma mmio_regs: "mmio_read (put_regs c m) a = apsnd (put_regs c) (mmio_read m a)"
  "mmio_write (put_regs c m) a v = put_regs c (mmio_write m a v)"
  by (simp_all add: mmio_read_def mmio_write_def regs_law via_read_regs via_write_regs debug_regs ports_regs
      split: region.split prod.split)

interpretation regfree: bus_morphism "put_regs c" for c
proof unfold_locales
  show p: "mem_ptr (put_regs c m) a = mem_ptr m a" for m a
  proof -
    have "rom_at (put_regs c m) x = rom_at m x" "ram_at (put_regs c m) x = ram_at m x" for x
      by (simp_all add: rom_at_def ram_at_def)
    thus ?thesis by (simp add: mem_ptr_def)
  qed
  show q: "place_byte (put_regs c m) p k = place_byte m p k" for m :: machine and p k
    by (simp add: place_byte_def split: mem_place.split)
  show "mac_read8 (put_regs c m) a = apsnd (put_regs c) (mac_read8 m a)" for m a
    by (simp add: mac_read8_def Let_def regs_law mmio_regs p q split: option.split)
  show "mac_write8 (put_regs c m) a v = put_regs c (mac_write8 m a v)" for m a v
    by (simp add: mac_write8_def ram_store_def Let_def regs_law mmio_regs)
qed (simp_all add: regs_law)

subsection \<open>Register updates commute with bus accesses\<close>

lemma blind:
  assumes "\<And>c. g (put_regs c m) = put_regs c (g m)" "cpu_regs (m_cpu (g m)) = cpu_regs (m_cpu m)"
  shows "g (set_areg i v m) = set_areg i v (g m)" "g (set_dreg i v m) = set_dreg i v (g m)" "g (set_pc v m) = set_pc v (g m)"
    "g (upd_cpu (m68k_set_ccr ccr) m) = upd_cpu (m68k_set_ccr ccr) (g m)"
proof -
  have r: "c\<lparr>pending_irq := 0, exit_code := 0, halted := 0, chain_budget := 0\<rparr> =
      c'\<lparr>pending_irq := 0, exit_code := 0, halted := 0, chain_budget := 0\<rparr> \<Longrightarrow>
      c'\<lparr>pending_irq := pending_irq c, exit_code := exit_code c, halted := halted c, chain_budget := chain_budget c\<rparr> = c"
    for c c' :: m68k_cpu by (cases c; cases c') simp
  note q = r [OF assms(2) [unfolded cpu_regs_def]]
  have p: "u (g m) = put_regs (m_cpu (u m)) (g m) \<Longrightarrow> u m = put_regs (m_cpu (u m)) m \<Longrightarrow> g (u m) = u (g m)" for u
    using assms(1) [of "m_cpu (u m)"] by simp
  have f: "areg (m_cpu (g m)) = areg (m_cpu m)" "dreg (m_cpu (g m)) = dreg (m_cpu m)" "sr (m_cpu (g m)) = sr (m_cpu m)"
    "cycles (m_cpu (g m)) = cycles (m_cpu m)"
    using cpu_regs_fields [OF assms(2)] by simp_all
  show "g (set_areg i v m) = set_areg i v (g m)" "g (set_dreg i v m) = set_dreg i v (g m)" "g (set_pc v m) = set_pc v (g m)"
    "g (upd_cpu (m68k_set_ccr ccr) m) = upd_cpu (m68k_set_ccr ccr) (g m)"
    by (rule p; simp add: put_regs_def set_areg_def set_dreg_def set_pc_def m68k_set_ccr_def;
        subst q [symmetric]; simp add: f)+
qed

text \<open>What an access reads does not depend on the registers, and its effect may be moved past their updates.\<close>

lemma setters_put: "set_areg i v m = put_regs (m_cpu (set_areg i v m)) m" "set_dreg i v m = put_regs (m_cpu (set_dreg i v m)) m"
  "set_pc v m = put_regs (m_cpu (set_pc v m)) m"
  by (simp_all add: put_regs_def set_areg_def set_dreg_def set_pc_def)

lemma reads_blind:
  assumes "\<And>c. rd (put_regs c m) = apsnd (put_regs c) (rd m)"
  shows "fst (rd (set_areg i v m)) = fst (rd m)" "fst (rd (set_dreg i v m)) = fst (rd m)" "fst (rd (set_pc v m)) = fst (rd m)"
  using assms by (subst setters_put, simp)+

lemma snd_apsnd: "x = apsnd f y \<Longrightarrow> snd x = f (snd y)" by simp

lemmas read8_past = blind [of "\<lambda>m. snd (mac_read8 m a)" m, OF snd_apsnd [OF regfree.read8] bus_cpu(1)]
  reads_blind [of "\<lambda>m. mac_read8 m a" m, OF regfree.read8] for a m
lemmas read16_past = blind [of "\<lambda>m. snd (mac_read16 m a)" m, OF snd_apsnd [OF regfree.read16] regs_frame(2)]
  reads_blind [of "\<lambda>m. mac_read16 m a" m, OF regfree.read16] for a m
lemmas read32_past = blind [of "\<lambda>m. snd (mac_read32 m a)" m, OF snd_apsnd [OF regfree.read32] regs_frame(3)]
  reads_blind [of "\<lambda>m. mac_read32 m a" m, OF regfree.read32] for a m
lemmas write8_past = blind [of "\<lambda>m. mac_write8 m a v" m, OF regfree.write8 bus_cpu(2)] for a v m
lemmas write16_past = blind [of "\<lambda>m. mac_write16 m a v" m, OF regfree.write16 regs_frame(5)] for a v m
lemmas write32_past = blind [of "\<lambda>m. mac_write32 m a v" m, OF regfree.write32 regs_frame(6)] for a v m

lemmas bus_past = read8_past read16_past read32_past write8_past write16_past write32_past


end
