(* ===== verification/JitEquiv.thy ===== *)
theory JitEquiv
  imports BusFrame
begin

text \<open>
  Each fast helper of the compiled code (JitHelpers) does exactly the work of the instruction it stands for, given
  the arguments compiled code passes: the address of the operand in \<open>jit_arg1\<close> and register numbers in
  \<open>jit_arg2\<close>. A helper updates registers in its own order; the lemmas of BusFrame move the updates past the memory
  accesses. The one exception is the CLR.W helper, which leaves out the read the instruction makes.
\<close>

subsection \<open>The flag code of the helpers\<close>

lemma low_bits: "(ucast v8 :: u32) AND 0xFF = ucast v8" "(ucast v16 :: u32) AND 0xFFFF = ucast v16"
  for v8 :: u8 and v16 :: u16
  unfolding and_masks by (transfer, simp)+

lemma sign_bits: "((ucast v8 :: u32) AND 0x80 = 0) = (v8 AND 0x80 = 0)" "((ucast v16 :: u32) AND 0x8000 = 0) = (v16 AND 0x8000 = 0)"
  for v8 :: u8 and v16 :: u16
  using and_push_bit_1_iff [of "ucast v8 :: u32" 7] and_push_bit_1_iff [of v8 7]
    and_push_bit_1_iff [of "ucast v16 :: u32" 15] and_push_bit_1_iff [of v16 15]
  by (auto simp: bit_simps)

lemma word_masks: "x AND 0xFFFFFFFF = x" "- 256 = (0xFFFFFF00 :: u32)" "- 65536 = (0xFFFF0000 :: u32)" "- 4294967296 = (0 :: u32)"
  for x :: u32
proof -
  show "x AND 0xFFFFFFFF = x" by (rule bit_word_eqI) (simp add: and_masks bit_simps)
qed simp_all

lemma ucast_0_iff: "((ucast v8 :: u32) = 0) = (v8 = 0)" "((ucast v16 :: u32) = 0) = (v16 = 0)" for v8 :: u8 and v16 :: u16
  by (transfer, simp)+

lemma nz_flags: "nz8 v8 m = upd_cpu (set_flags_logic 1 (ucast v8)) m" "nz16 v16 m = upd_cpu (set_flags_logic 2 (ucast v16)) m"
  "nz32 v32 m = upd_cpu (set_flags_logic 4 v32) m" "helper_nz True False m = upd_cpu (set_flags_logic 2 0) m"
  by (simp_all add: nz8_def nz16_def nz32_def helper_nz_def set_flags_logic_def size_mask_def size_msb_def Let_def
      low_bits sign_bits ucast_0_iff word_masks)

lemma narrow: "ucast (ucast v8 :: u32) = v8" "ucast (ucast v16 :: u32) = v16" for v8 :: u8 and v16 :: u16
  by (transfer, simp)+

lemma merge_8: "merge_dreg 1 i (ucast v8) m = set_dreg i ((cdreg m i AND 0xFFFFFF00) OR ucast v8) m" for v8 :: u8
  by (simp add: merge_dreg_def size_mask_def low_bits word_masks)

lemma merge_16: "merge_dreg 2 i (ucast v16) m = set_dreg i ((cdreg m i AND 0xFFFF0000) OR ucast v16) m" for v16 :: u16
  by (simp add: merge_dreg_def size_mask_def low_bits word_masks)

lemma merge_32: "merge_dreg 4 i v m = set_dreg i v m"
  by (simp add: merge_dreg_def size_mask_def word_masks)

lemma sext_16: "sext (ucast v16) 2 = sx16 v16" for v16 :: u16
  by (simp add: sext_def low_bits narrow)

lemma sext_32: "sext v 4 = v" by (simp add: sext_def)

lemmas widths = low_bits narrow merge_8 merge_8 [unfolded One_nat_def] merge_16 merge_32 sext_16 sext_32 mem_read_def mem_write_def

lemma decode_simple: "ea_decode 0 r sz m = (EA_DREG r, m)" "ea_decode 1 r sz m = (EA_AREG r, m)"
  "ea_decode (Suc 0) r sz m = (EA_AREG r, m)"
  "ea_decode 2 r sz m = (EA_MEM (careg m r), m)" "ea_decode 3 r sz m = (EA_MEM (careg m r), set_areg r (careg m r + ea_step sz r) m)"
  by (simp_all add: ea_decode_def)

subsection \<open>Moves from memory\<close>

lemma moves_to_register:
  assumes "ea_decode (opf op 3 7) (opf op 0 7) sz m = (EA_MEM (arg1 m1), m1)" "opf op 9 7 = arg2_reg m1"
  shows "opf op 12 0xF = 1 \<Longrightarrow> opf op 6 7 = 0 \<Longrightarrow> sz = 1 \<Longrightarrow> step_move op m = add_cycles 4 (m68k_jit_move_b_addr_to_dn_mmio m1)"
    "opf op 12 0xF = 3 \<Longrightarrow> opf op 6 7 = 0 \<Longrightarrow> sz = 2 \<Longrightarrow> step_move op m = add_cycles 4 (m68k_jit_move_w_addr_to_dn_mmio m1)"
    "opf op 12 0xF = 2 \<Longrightarrow> opf op 6 7 = 0 \<Longrightarrow> sz = 4 \<Longrightarrow> step_move op m = add_cycles 4 (m68k_jit_move_l_an_to_dn_mmio m1)"
    "opf op 12 0xF = 3 \<Longrightarrow> opf op 6 7 = 1 \<Longrightarrow> sz = 2 \<Longrightarrow> step_move op m = add_cycles 4 (m68k_jit_movea_w_addr_to_am_mmio m1)"
    "opf op 12 0xF = 2 \<Longrightarrow> opf op 6 7 = 1 \<Longrightarrow> sz = 4 \<Longrightarrow> step_move op m = add_cycles 4 (m68k_jit_movea_l_addr_to_am_mmio m1)"
  using assms by (simp_all add: step_move_def m68k_jit_move_b_addr_to_dn_mmio_def m68k_jit_move_w_addr_to_dn_mmio_def
      m68k_jit_move_l_an_to_dn_mmio_def m68k_jit_movea_w_addr_to_am_mmio_def m68k_jit_movea_l_addr_to_am_mmio_def
      decode_simple nz_flags widths case_prod_beta Let_def)


lemma setters_commute: "set_dreg i v (set_areg j w m) = set_areg j w (set_dreg i v m)" "dreg (m_cpu (set_areg j w m)) = dreg (m_cpu m)"
  "areg (m_cpu (set_dreg i v m)) = areg (m_cpu m)" "areg (m_cpu (set_areg j w m)) = (areg (m_cpu m))(j := w)"
  "dreg (m_cpu (set_dreg i v m)) = (dreg (m_cpu m))(i := v)"
  "upd_cpu (set_flags_logic sz r) (set_areg j w m) = set_areg j w (upd_cpu (set_flags_logic sz r) m)"
  "arg1 (set_areg j w m) = arg1 m" "arg2 (set_areg j w m) = arg2 m" "pc (m_cpu (set_areg j w m)) = pc (m_cpu m)"
  by (simp_all add: set_dreg_def set_areg_def set_flags_logic_def m68k_set_ccr_def m68k_get_ccr_def Let_def)

lemma postinc_moves:
  assumes "opf op 3 7 = 3" "opf op 0 7 = arg2_reg_hi m" "opf op 6 7 = 0" "opf op 9 7 = arg2_reg m"
  shows "opf op 12 0xF = 1 \<Longrightarrow> step_move op m = add_cycles 4 (m68k_jit_move_b_postinc_to_dn_mmio m)"
    "opf op 12 0xF = 3 \<Longrightarrow> step_move op m = add_cycles 4 (m68k_jit_move_w_postinc_to_dn m)"
    "opf op 12 0xF = 2 \<Longrightarrow> step_move op m = add_cycles 4 (m68k_jit_move_l_postinc_to_dn_mmio m)"
  using assms by (simp_all add: step_move_def m68k_jit_move_b_postinc_to_dn_mmio_def m68k_jit_move_w_postinc_to_dn_def
      m68k_jit_move_l_postinc_to_dn_mmio_def decode_simple nz_flags widths bus_past setters_commute ea_step_def case_prod_beta Let_def)


subsection \<open>Stores\<close>

lemma stores_from_memory:
  assumes "ea_decode (opf op 3 7) (opf op 0 7) sz m = (EA_MEM (arg1 m1), m1)" "opf op 9 7 = arg2_reg m1"
  shows "opf op 12 0xF = 1 \<Longrightarrow> opf op 6 7 = 2 \<Longrightarrow> sz = 1 \<Longrightarrow> step_move op m = add_cycles 4 (m68k_jit_move_b_addr_to_an_mmio m1)"
    "opf op 12 0xF = 2 \<Longrightarrow> opf op 6 7 = 2 \<Longrightarrow> sz = 4 \<Longrightarrow> step_move op m = add_cycles 4 (m68k_jit_move_l_xxxw_to_an_mmio m1)"
    "opf op 12 0xF = 3 \<Longrightarrow> opf op 6 7 = 3 \<Longrightarrow> sz = 2 \<Longrightarrow> step_move op m = add_cycles 4 (m68k_jit_move_w_addr_to_postinc_mmio m1)"
  using assms by (simp_all add: step_move_def m68k_jit_move_b_addr_to_an_mmio_def m68k_jit_move_l_xxxw_to_an_mmio_def
      m68k_jit_move_w_addr_to_postinc_mmio_def decode_simple nz_flags widths bus_past setters_commute ea_step_def case_prod_beta Let_def)

lemma decode_dreg [simp]: "dreg (m_cpu (snd (ea_decode md r sz m))) = dreg (m_cpu m)"
  by (simp add: ea_decode_def ea_decode7_def brief_index_def fetch16_def fetch32_def set_pc_def set_areg_def case_prod_beta Let_def)

lemma low_byte: "ucast (x AND 0xFF) = (ucast x :: u8)" "(ucast (ucast x :: u8) :: u32) = x AND 0xFF" for x :: u32
  unfolding and_masks by (rule bit_word_eqI; auto simp: bit_simps)+

lemma stores_from_register:
  assumes "ea_decode (opf op 6 7) (opf op 9 7) 1 m = (EA_MEM (arg1 m1), m1)" "opf op 6 7 \<noteq> 1"
    "opf op 12 0xF = 1" "opf op 3 7 = 0" "opf op 0 7 = arg2_reg m1"
  shows "step_move op m = add_cycles 4 (m68k_jit_move_b_dn_to_addr_mmio m1)"
proof -
  have "dreg (m_cpu m1) = dreg (m_cpu m)" by (metis assms(1) decode_dreg snd_conv)
  thus ?thesis using assms by (simp add: step_move_def m68k_jit_move_b_dn_to_addr_mmio_def decode_simple nz_flags widths
      low_byte size_mask_def case_prod_beta Let_def)
qed

lemma store_long_postinc:
  assumes "opf op 12 0xF = 2" "opf op 3 7 = (if drop_bit 8 (arg2 m) AND 1 \<noteq> 0 then 1 else 0)" "opf op 0 7 = arg2_reg m"
    "opf op 6 7 = 3" "opf op 9 7 = arg2_reg_hi m"
  shows "step_move op m = add_cycles 4 (m68k_jit_move_l_dn_to_anpi_mmio m)"
  using assms by (simp add: step_move_def m68k_jit_move_l_dn_to_anpi_mmio_def decode_simple nz_flags widths word_masks
      size_mask_def bus_past setters_commute ea_step_def case_prod_beta Let_def)

lemma store_immediate:
  assumes "opf op 12 0xF = 1" "opf op 6 7 \<noteq> 1" "ea_decode (opf op 3 7) (opf op 0 7) 1 m = (EA_IMM (arg2 m1 AND 0xFF), m0)"
    "ea_decode (opf op 6 7) (opf op 9 7) 1 m0 = (EA_MEM (arg1 m1), m1)"
  shows "step_move op m = add_cycles 4 (m68k_jit_move_b_imm_to_addr_mmio m1)"
  using assms by (simp add: step_move_def m68k_jit_move_b_imm_to_addr_mmio_def nz_flags widths
      low_byte size_mask_def case_prod_beta Let_def)

subsection \<open>Tests, bit operations, logic\<close>

lemma byte_ops:
  "ucast (ucast v XOR x :: u32) = v XOR ucast x" "ucast (ucast v AND NOT x :: u32) = v AND NOT (ucast x)"
  "ucast (ucast v OR x :: u32) = v OR ucast x" "bit (ucast v :: u32) k = bit v k"
  for v :: u8 and x :: u32
  by (rule bit_word_eqI; auto simp: bit_simps dest: bit_imp_le_length)+ (auto simp: bit_simps dest: bit_imp_le_length)

lemma byte_or: "(ucast v :: u32) OR (x AND 0xFF) = ucast (v OR ucast x)" for v :: u8 and x :: u32
  unfolding and_masks by (rule bit_word_eqI) (auto simp: bit_simps dest: bit_imp_le_length)

lemma bit_mask: "k < 8 \<Longrightarrow> ucast (push_bit k 1 :: u32) = (push_bit k 1 :: u8)"
  by (rule bit_word_eqI) (auto simp: bit_simps)

lemma test_bit: "(drop_bit k v AND 1 = 0) = (\<not> bit v k)" "(v AND push_bit k 1 = 0) = (\<not> bit v k)" for v :: u8
  using and_push_bit_1_iff [of v k] by (auto simp: bit_iff_odd_drop_bit and_one_eq even_iff_mod_2_eq_zero)

lemma low3: "unat (x AND 7) < 8" for x :: u32
  using word_and_le1 [of x 7] by (simp add: word_le_nat_alt)

lemma cmp_word: "upd_cpu (set_flags_cmp 2 (ucast w) (x AND 0xFFFF) ((x AND 0xFFFF) - ucast w)) m =
   (let s = ucast w; d = x AND 0xFFFF; r = (d - s) AND 0xFFFF;
          c = m68k_get_ccr (m_cpu m) AND CCR_X;
          c = (if r = 0 then c OR CCR_Z else c);
          c = (if r AND 0x8000 \<noteq> 0 then c OR CCR_N else c);
          c = (if s > d then c OR CCR_C else c);
          c = (if ((s XOR d) AND (d XOR r)) AND 0x8000 \<noteq> 0 then c OR CCR_V else c)
      in upd_cpu (m68k_set_ccr c) m)" for w :: u16
proof -
  have "(x AND 0xFFFF) AND 0xFFFF = x AND (0xFFFF :: u32)" by (simp add: and.assoc)
  moreover have "size_mask 2 = 0xFFFF" "size_msb 2 = 0x8000" by (simp_all add: size_mask_def size_msb_def)
  ultimately show ?thesis unfolding set_flags_cmp_def Let_def low_bits by (simp only: low_bits)
qed

lemma test_helpers:
  "step_unary 0xA 1 (EA_MEM (arg1 m)) m = m68k_jit_tst_b_mmio m"
  "do_bitop 0 (arg2 m) (EA_MEM (arg1 m)) 2 m = m68k_jit_btst_b_mmio m"
  by (simp_all add: step_unary_def m68k_jit_tst_b_mmio_def do_bitop_def m68k_jit_btst_b_mmio_def nz_flags test_bit byte_ops
      mem_read_def case_prod_beta Let_def)

lemma bitop_helper:
  "do_bitop (unat (drop_bit 4 (arg2 m) AND 3)) (cdreg m (arg2_reg m)) (EA_MEM (arg1 m)) 2 m = m68k_jit_bitop_dn_an_mmio m"
proof -
  define w where "w = unat (drop_bit 4 (arg2 m) AND 3)"
  obtain v m1 where r: "mac_read8 m (arg1 m) = (v, m1)" by (cases "mac_read8 m (arg1 m)")
  define k where "k = unat (cdreg m (arg2_reg m) AND 7)"
  have k: "k < 8" by (simp add: k_def low3)
  define M where "M = (push_bit k 1 :: u8)"
  define m2 where "m2 = upd_cpu (m68k_set_ccr (if \<not> bit v k then (m68k_get_ccr (m_cpu m1) AND NOT CCR_Z) OR CCR_Z
      else m68k_get_ccr (m_cpu m1) AND NOT CCR_Z)) m1"
  have h: "m68k_jit_bitop_dn_an_mmio m = (if w = 0 then m2 else if w = 1 then mac_write8 m2 (arg1 m) (v XOR M)
      else if w = 2 then mac_write8 m2 (arg1 m) (v AND NOT M) else mac_write8 m2 (arg1 m) (v OR M))"
    unfolding m68k_jit_bitop_dn_an_mmio_def Let_def r case_prod_conv test_bit w_def [symmetric] k_def [symmetric]
    by (simp only: test_bit m2_def M_def)
  have e: "ea_read (EA_MEM (arg1 m)) 1 m = (ucast v, m1)" "ea_write (EA_MEM (arg1 m)) 1 x m2 = mac_write8 m2 (arg1 m) (ucast x)" for x
    by (simp_all add: r mem_read_def mem_write_def)
  have s: "(if (2::nat) = 0 then 4 else 1) = (1::nat)" "(if (1::nat) = 4 then 31 else 7) = (7::u32)" by simp_all
  show ?thesis unfolding h do_bitop_def w_def [symmetric] Let_def s e case_prod_conv byte_ops k_def [symmetric] m2_def [symmetric]
    by (simp only: byte_ops bit_mask [OF k] M_def e)
qed

lemma or_helper: "(let (d, m1) = ea_read (EA_MEM (arg1 m)) 1 m
    in step_imm_op 0 (EA_MEM (arg1 m)) 1 (arg2 m AND 0xFF) d m1) = m68k_jit_ori_b_mmio m"
  by (simp add: step_imm_op_def m68k_jit_ori_b_mmio_def nz_flags byte_or narrow mem_read_def mem_write_def case_prod_beta Let_def)

lemma cmp_helper: "(let (s, m1) = ea_read (EA_MEM (arg1 m)) 2 m; d = cdreg m1 (arg2_reg m1) AND size_mask 2
    in upd_cpu (set_flags_cmp 2 s d (d - s)) m1) = m68k_jit_cmp_w_addr_dn_mmio m"
proof -
  obtain w m1 where r: "mac_read16 m (arg1 m) = (w, m1)" by (cases "mac_read16 m (arg1 m)")
  have "arg2_reg m1 = arg2_reg m" using bus_regs(2) [of m "arg1 m"] r by (simp add: arg2_reg_def)
  moreover have "size_mask 2 = 0xFFFF" by (simp add: size_mask_def)
  ultimately show ?thesis unfolding m68k_jit_cmp_w_addr_dn_mmio_def
    by (simp add: r mem_read_def Let_def cmp_word [unfolded Let_def])
qed


subsection \<open>Control transfer\<close>

lemma set_pc_set_pc: "set_pc p (set_pc q m) = set_pc p m" by (simp add: set_pc_def)

lemma set_areg_twice: "set_areg i v (set_areg i w m) = set_areg i v m" by (simp add: set_areg_def)

lemma return_helpers: "step_rts m = add_cycles 12 (m68k_jit_rts_mmio m)" "step_rte m = m68k_jit_rte m"
proof -
  show "step_rts m = add_cycles 12 (m68k_jit_rts_mmio m)" by (simp add: step_rts_def m68k_jit_rts_mmio_def Let_def split: prod.split)
  obtain s m1 where r: "mac_read16 m (careg m 7) = (s, m1)" by (cases "mac_read16 m (careg m 7)")
  have f: "areg (m_cpu m1) = areg (m_cpu m)" using bus_regs(2) [of m "careg m 7"] r by simp
  obtain p m2 where q: "mac_read32 m1 (careg m 7 + 2) = (p, m2)" by (cases "mac_read32 m1 (careg m 7 + 2)")
  have g: "areg (m_cpu m2) = areg (m_cpu m1)" using bus_regs(3) [of m1 "careg m 7 + 2"] q by simp
  have "mac_read32 (set_areg 7 (careg m 7 + 2) m1) (careg m 7 + 2) = (p, set_areg 7 (careg m 7 + 2) m2)"
    by (simp add: prod_eq_iff read32_past q)
  moreover have "load_sr s (set_pc p (set_areg 7 x m2)) =
      upd_cpu (\<lambda>c. m68k_sync_sp (m68k_is_super c) (c\<lparr>areg := (areg c)(7 := x), sr := s, pc := p\<rparr>)) m2" for x
    by (cases m2; cases "m_cpu m2") (simp add: load_sr_def set_pc_def set_areg_def m68k_is_super_def)
  ultimately show "step_rte m = m68k_jit_rte m"
    by (simp add: step_rte_def m68k_jit_rte_def pop16_def pop32_def r q f g setters_commute set_areg_twice Let_def) (simp add: add.commute)
qed

lemma trap_helpers: "m68k_unimpl p 10 m = m68k_jit_aline_trap (set_pc p m)" "m68k_unimpl p 11 m = m68k_jit_fline_trap (set_pc p m)"
  by (simp_all add: m68k_unimpl_def m68k_jit_aline_trap_def m68k_jit_fline_trap_def)

lemma call_helpers:
  assumes "opf op 8 0xF = 1"
  shows "op AND 0xFF \<noteq> 0 \<Longrightarrow> op AND 0xFF \<noteq> 0xFF \<Longrightarrow> arg1 m = p + 2 + sx8 (ucast (op AND 0xFF)) \<Longrightarrow>
      step_6 op (set_pc (p + 2) m) = add_cycles 18 (m68k_jit_bsr_s_mmio (set_pc p m))"
    "op AND 0xFF = 0 \<Longrightarrow> fetch16 (set_pc (p + 2) m) = (w, set_pc (p + 4) m1) \<Longrightarrow> arg1 m1 = p + 2 + sx16 w \<Longrightarrow>
      step_6 op (set_pc (p + 2) m) = add_cycles 18 (m68k_jit_bsr_w_mmio (set_pc p m1))"
proof -
  have f: "pc (m_cpu (set_pc p m)) = p" "arg1 (set_pc p m) = arg1 m" for p m by (simp_all add: set_pc_def)
  have c: "push32 v (set_pc p m) = set_pc p (push32 v m)" for v p m
  proof -
    have "push32 v x = (let y = set_areg 7 (careg x 7 - 4) x in mac_write32 y (careg y 7) v)" for x
      by (simp add: push32_def set_areg_def)
    moreover have "set_areg 7 a (set_pc p m) = set_pc p (set_areg 7 a m)" "careg (set_pc p m) = careg m" for a m
      by (simp_all add: set_areg_def set_pc_def)
    ultimately show ?thesis by (simp add: Let_def write32_past)
  qed
  show "op AND 0xFF \<noteq> 0 \<Longrightarrow> op AND 0xFF \<noteq> 0xFF \<Longrightarrow> arg1 m = p + 2 + sx8 (ucast (op AND 0xFF)) \<Longrightarrow>
      step_6 op (set_pc (p + 2) m) = add_cycles 18 (m68k_jit_bsr_s_mmio (set_pc p m))"
    using assms by (simp add: step_6_def m68k_jit_bsr_s_mmio_def f c set_pc_set_pc Let_def)
  show "op AND 0xFF = 0 \<Longrightarrow> fetch16 (set_pc (p + 2) m) = (w, set_pc (p + 4) m1) \<Longrightarrow> arg1 m1 = p + 2 + sx16 w \<Longrightarrow>
      step_6 op (set_pc (p + 2) m) = add_cycles 18 (m68k_jit_bsr_w_mmio (set_pc p m1))"
    using assms by (simp add: step_6_def m68k_jit_bsr_w_mmio_def f c set_pc_set_pc Let_def)
qed

lemma sr_helper:
  assumes "op AND 0xFFC0 = 0x46C0" "opf op 3 7 = 3" "opf op 0 7 = arg2_reg m"
  shows "step_move_sr op m = m68k_jit_move_anpi_to_sr m"
  using assms by (simp add: step_move_sr_def m68k_jit_move_anpi_to_sr_def decode_simple widths bus_past ea_step_def case_prod_beta Let_def)

subsection \<open>MOVEM\<close>

lemma load_past: "fst (movem_load rs 4 a (set_areg i w m)) = fst (movem_load rs 4 a m) \<and>
    set_areg i x (snd (movem_load rs 4 a (set_areg i w m))) = set_areg i x (snd (movem_load rs 4 a m))"
proof (induction rs arbitrary: a m w)
  case (Cons j rs)
  have c: "set_reg16 j v (set_areg i w m) = (if j = i + 8 then set_reg16 j v m else set_areg i w (set_reg16 j v m))" for v w m
    by (auto simp: set_reg16_def set_areg_def set_dreg_def fun_upd_twist)
  show ?case using Cons.IH by (simp add: mem_read_def bus_past c case_prod_beta Let_def)
qed (simp add: set_areg_twice)

lemma movem_helpers:
  assumes "fetch16 m = (ucast (arg1 m1), m1)" "opf op 0 7 = arg2_reg m1" 
  shows "opf op 3 7 = 3 \<Longrightarrow> bit op 10 \<Longrightarrow> op AND 0x40 \<noteq> 0 \<Longrightarrow> do_movem op m = m68k_jit_movem_l_postinc_to_regs m1"
    "opf op 3 7 = 4 \<Longrightarrow> op AND 0x40 \<noteq> 0 \<Longrightarrow> do_movem op m = m68k_jit_movem_l_predec_from_regs m1"
    "opf op 3 7 = 2 \<Longrightarrow> \<not> bit op 10 \<Longrightarrow> op AND 0x40 = 0 \<Longrightarrow> do_movem op m = m68k_jit_movem_w_to_mem m1"
    "opf op 3 7 = 2 \<Longrightarrow> \<not> bit op 10 \<Longrightarrow> op AND 0x40 \<noteq> 0 \<Longrightarrow> do_movem op m = m68k_jit_movem_l_to_mem m1"
  using assms load_past by (simp_all add: do_movem_def m68k_jit_movem_l_postinc_to_regs_def m68k_jit_movem_l_predec_from_regs_def
      m68k_jit_movem_w_to_mem_def m68k_jit_movem_l_to_mem_def decode_simple case_prod_beta Let_def)

text \<open>CLR reads its operand before it writes it, which on a VIA counter acknowledges the timer interrupt; the
  helper only writes.\<close>

definition timer_machine :: machine where
  "timer_machine = upd_via (\<lambda>v. v\<lparr>via_ifr := 0xC0, via_ier := 0x40\<rparr>)
     (mac_mem_init (cpu_zero\<lparr>areg := (\<lambda>_. 0xE80800), pending_irq := 1\<rparr>) 0x100000)"

lemma timer_address: "region_of 0xE80800 = RGN_VIA" "region_of 0xE80801 = RGN_VIA" "via_reg 0xE80800 = 4" "via_reg 0xE80801 = 4"
  "m_overlay m \<Longrightarrow> mem_ptr m 0xE80800 = None" "m_overlay m \<Longrightarrow> mem_ptr m 0xE80801 = None"
  by (simp_all add: mem_ptr_def bases region_of_def via_reg_def)

lemma timer_read: "m_overlay m \<Longrightarrow> a \<in> {0xE80800, 0xE80801} \<Longrightarrow>
    snd (mac_read8 m a) = via_clear_irq VIA_IRQ_T1 (m\<lparr>m_reads := m_reads m + 1\<rparr>)"
  by (auto simp: mac_read8_def mmio_read_def via_read_def timer_address Let_def)

lemma clr_helper_skips_read:
  "bit (via_ifr (m_via (m68k_jit_clr_w_anpi_mmio timer_machine))) 6"
  "\<not> bit (via_ifr (m_via (step_unary 2 2 (EA_MEM 0xE80800) timer_machine))) 6"
proof -
  have w: "via_ifr (m_via (mac_write16 m 0xE80800 0)) = via_ifr (m_via m)" if "m_overlay m" for m
    using that by (simp add: mac_write16_def mac_write16_with_def in_extn_def mac_write8_def mmio_write_def via_write_def
        timer_address bases Let_def)
  have tm: "m_overlay timer_machine" "areg (m_cpu timer_machine) 0 = 0xE80800" "arg2_reg timer_machine = 0"
    by (simp_all add: timer_machine_def mac_mem_init_def arg2_reg_def cpu_zero_def Let_def)
  show "bit (via_ifr (m_via (m68k_jit_clr_w_anpi_mmio timer_machine))) 6"
    by (simp add: m68k_jit_clr_w_anpi_mmio_def helper_nz_def Let_def tm w set_areg_def) (simp add: timer_machine_def bit_simps)
  have c: "m_overlay (via_clear_irq VIA_IRQ_T1 m) = m_overlay m" "\<not> bit (via_ifr (m_via (via_clear_irq VIA_IRQ_T1 m))) 6" for m
    by (simp_all add: via_clear_irq_def mac_via_recalc_irq_def via_irqs VIA_IRQ_ANY_def bit_simps Let_def)
  have r: "m_overlay (snd (mac_read16 timer_machine 0xE80800)) \<and> \<not> bit (via_ifr (m_via (snd (mac_read16 timer_machine 0xE80800)))) 6"
    using tm(1) by (simp add: mac_read16_def timer_address timer_read c case_prod_beta Let_def)
  show "\<not> bit (via_ifr (m_via (step_unary 2 2 (EA_MEM 0xE80800) timer_machine))) 6"
    using r by (simp add: step_unary_def mem_read_def mem_write_def case_prod_beta add_cycles_def Let_def w)
qed

subsection \<open>The helpers as a whole\<close>

text \<open>C27: The helpers compiled code calls for a MOVE or MOVEA from memory make the same machine as the interpreted
  instruction, up to its four cycles: registers, flags, memory and devices, for every addressing mode that
  yields the address, for byte, word and long, and for the destinations Dn, An, (An) and (An)+.\<close>

theorem jit_move_helpers:
  assumes "opf op 12 0xF = 1 \<and> sz = 1 \<or> opf op 12 0xF = 3 \<and> sz = 2 \<or> opf op 12 0xF = 2 \<and> sz = 4"
    and "ea_decode (opf op 3 7) (opf op 0 7) sz m = (EA_MEM (arg1 m1), m1)" "opf op 9 7 = arg2_reg m1"
  shows "(opf op 6 7 = 0 \<longrightarrow> step_move op m = add_cycles 4
       ((if sz = 1 then m68k_jit_move_b_addr_to_dn_mmio else if sz = 2 then m68k_jit_move_w_addr_to_dn_mmio
         else m68k_jit_move_l_an_to_dn_mmio) m1)) \<and>
     (opf op 6 7 = 1 \<and> sz \<noteq> 1 \<longrightarrow> step_move op m = add_cycles 4
       ((if sz = 2 then m68k_jit_movea_w_addr_to_am_mmio else m68k_jit_movea_l_addr_to_am_mmio) m1)) \<and>
     (opf op 6 7 = 2 \<and> sz \<noteq> 2 \<longrightarrow> step_move op m = add_cycles 4
       ((if sz = 1 then m68k_jit_move_b_addr_to_an_mmio else m68k_jit_move_l_xxxw_to_an_mmio) m1)) \<and>
     (opf op 6 7 = 3 \<and> sz = 2 \<longrightarrow> step_move op m = add_cycles 4 (m68k_jit_move_w_addr_to_postinc_mmio m1))"
  using moves_to_register [OF assms(2,3)] stores_from_memory [OF assms(2,3)] assms(1) by auto

definition move_machine :: machine where
  "move_machine = upd_cpu (\<lambda>c. c\<lparr>areg := (areg c)(0 := 0x1000), jit_arg1 := 0x1000, jit_arg2 := 3\<rparr>) ram_machine"

theorem jit_move_helpers_witness:
  "step_move 0x1610 move_machine = add_cycles 4 (m68k_jit_move_b_addr_to_dn_mmio move_machine)"
proof -
  have d: "ea_decode (opf 0x1610 3 7) (opf 0x1610 0 7) 1 move_machine = (EA_MEM (arg1 move_machine), move_machine)"
    by (simp add: ea_decode_def opf_def move_machine_def)
  have r: "opf 0x1610 9 7 = arg2_reg move_machine" by (simp add: opf_def arg2_reg_def move_machine_def)
  have t: "opf 0x1610 12 0xF = 1" "opf 0x1610 6 7 = 0" by (simp_all add: opf_def)
  show ?thesis using jit_move_helpers [OF _ d r] t by simp
qed

text \<open>C28: The helpers for returns, Toolbox traps, tests, bit operations, OR and CMP on a memory operand make the
  same machine as the interpreter's code for the instruction; RTS and RTE pop the same frame even though the
  helper updates the stack pointer once, after the reads.\<close>

theorem jit_operand_helpers:
  "step_rts m = add_cycles 12 (m68k_jit_rts_mmio m) \<and> step_rte m = m68k_jit_rte m \<and>
   m68k_unimpl p 10 m = m68k_jit_aline_trap (set_pc p m) \<and> m68k_unimpl p 11 m = m68k_jit_fline_trap (set_pc p m) \<and>
   step_unary 0xA 1 (EA_MEM (arg1 m)) m = m68k_jit_tst_b_mmio m \<and>
   do_bitop 0 (arg2 m) (EA_MEM (arg1 m)) 2 m = m68k_jit_btst_b_mmio m \<and>
   do_bitop (unat (drop_bit 4 (arg2 m) AND 3)) (cdreg m (arg2_reg m)) (EA_MEM (arg1 m)) 2 m = m68k_jit_bitop_dn_an_mmio m \<and>
   (let (d, m1) = ea_read (EA_MEM (arg1 m)) 1 m
    in step_imm_op 0 (EA_MEM (arg1 m)) 1 (arg2 m AND 0xFF) d m1) = m68k_jit_ori_b_mmio m \<and>
   (let (s, m1) = ea_read (EA_MEM (arg1 m)) 2 m; d = cdreg m1 (arg2_reg m1) AND size_mask 2
    in upd_cpu (set_flags_cmp 2 s d (d - s)) m1) = m68k_jit_cmp_w_addr_dn_mmio m"
  by (simp only: return_helpers trap_helpers test_helpers bitop_helper or_helper cmp_helper simp_thms)

end
