(* ===== verification/Exceptions.thy ===== *)
theory Exceptions
  imports Execution
begin

text \<open>
  Exceptions, interrupts and RTE (core/m68k_interp.c: m68k_exception, m68k_poll_interrupts, the RTE case of
  m68k_step) over a supervisor stack in RAM: the frame they build, the handler they enter, and
  the round trip through RTE.
\<close>

subsection \<open>Reading changes no memory\<close>

definition memory :: "machine \<Rightarrow> (nat \<Rightarrow> u8) \<times> u32 \<times> (nat \<Rightarrow> u8) option \<times> u32 \<times> bool" where
  "memory m = (m_ram m, m_ram_size m, m_rom m, m_rom_size m, m_overlay m)"

lemma memory_upd [simp]: "memory (m\<lparr>m_cpu := c\<rparr>) = memory m" "memory (m\<lparr>m_reads := n\<rparr>) = memory m"
  by (simp_all add: memory_def)

lemma read_memory [simp]: "memory (snd (mac_read8 m a)) = memory m" "memory (snd (mac_read16 m a)) = memory m"
  "memory (snd (mac_read32 m a)) = memory m"
proof -
  have i: "memory (snd (mmio_read m a)) = memory m" for m a
    by (simp add: mmio_read_def scc_read_def scsi_read_def via_read_def via_clear_irq_def mac_via_recalc_irq_def
        memory_def case_prod_beta Let_def split: region.split)
  show r8: "memory (snd (mac_read8 m a)) = memory m" for m a
    by (simp add: mac_read8_def Let_def i split: option.split)
  show r16: "memory (snd (mac_read16 m a)) = memory m" for m a
    by (auto simp: mac_read16_def Let_def case_prod_beta r8 split: option.split)
  show "memory (snd (mac_read32 m a)) = memory m" by (simp add: mac_read32_def case_prod_beta r16)
qed

lemma memory_cell: "memory m = memory m' \<Longrightarrow> ram_cell m a = ram_cell m' a"
proof -
  assume h: "memory m = memory m'"
  hence "rom_at m x = rom_at m' x" "ram_at m x = ram_at m' x" "m_overlay m = m_overlay m'" for x
    by (simp_all add: memory_def rom_at_def ram_at_def)
  thus ?thesis by (simp only: ram_cell_def mem_ptr_def)
qed

lemma memory_ram: "memory m = memory m' \<Longrightarrow> m_ram m = m_ram m' \<and> ram_run m a i n = ram_run m' a i n"
  using memory_cell [of m m'] by (simp add: ram_run_def) (simp add: memory_def)

subsection \<open>Exception frames\<close>

text \<open>A frame for the state \<open>c\<close> at the place \<open>i\<close> of RAM that the stack pointer \<open>sp\<close> names: the
  status register, and the program counter above it.\<close>

definition frame_at :: "machine \<Rightarrow> u32 \<Rightarrow> nat \<Rightarrow> u16 \<Rightarrow> u32 \<Rightarrow> bool" where
  "frame_at m sp i s p \<longleftrightarrow> ram_run m sp i 6 \<and> map (m_ram m) [i..<i + 2] = be16 s \<and> map (m_ram m) [i + 2..<i + 6] = be32 p"

lemma frame_reads:
  assumes "frame_at m sp i s p"
  shows "fst (mac_read16 m sp) = s" "fst (mac_read32 m (sp + 2)) = p" "frame_at (snd (mac_read16 m a)) sp i s p"
    "frame_at (m\<lparr>m_cpu := c\<rparr>) sp i s p"
proof -
  have r: "ram_run m sp i 6" and b: "[m_ram m i, m_ram m (Suc i)] = be16 s"
    and l: "[m_ram m (i + 2), m_ram m (i + 3), m_ram m (i + 4), m_ram m (i + 5)] = be32 p"
    using assms by (simp_all add: frame_at_def upt_rec numeral_2_eq_2 numeral_eq_Suc)
  have "ram_cell m sp = Some i" using ram_run_cell [OF r, of 0] by simp
  thus "fst (mac_read16 m sp) = s" using b by (rule read16_store)
  have "ram_run m (sp + 2) (i + 2) 4" using ram_run_split [of m sp i 2 4] r by simp
  thus "fst (mac_read32 m (sp + 2)) = p" using l by (intro read32_store) (simp_all add: numeral_eq_Suc)
  show "frame_at (snd (mac_read16 m a)) sp i s p" using assms memory_ram [OF read_memory(2), of m a]
    by (simp add: frame_at_def)
  show "frame_at (m\<lparr>m_cpu := c\<rparr>) sp i s p" using assms by (simp add: frame_at_def)
qed

text \<open>Entering a handler with a stack in RAM.\<close>

lemma handler_entry:
  fixes f m v i
  defines "c \<equiv> m_cpu m" and "m' \<equiv> enter_handler f v m" and "sp \<equiv> super_sp (m_cpu m) - 6"
  assumes "f (sr c) AND SR_S \<noteq> 0" "ram_run m (super_sp c - 6) i 6"
  shows "frame_at m' sp i (sr c) (pc c)" "sr (m_cpu m') = f (sr c)" "areg (m_cpu m') 7 = sp" "m68k_is_super (m_cpu m')"
    "dreg (m_cpu m') = dreg c" "j \<noteq> 7 \<Longrightarrow> areg (m_cpu m') j = areg c j" "usp_of (m_cpu m') = usp_of c"
    "\<exists>m1. memory m1 = memory m' \<and> pc (m_cpu m') = fst (mac_read32 m1 (v * 4))"
proof -
  define c1 where "c1 = m68k_sync_sp (m68k_is_super c) (c\<lparr>sr := f (sr c)\<rparr>)"
  have c1: "areg c1 7 = super_sp c" "sr c1 = f (sr c)" "pc c1 = pc c" "dreg c1 = dreg c"
    "j \<noteq> 7 \<Longrightarrow> areg c1 j = areg c j" "m68k_is_super c \<longrightarrow> usp c1 = usp c" "\<not> m68k_is_super c \<longrightarrow> usp c1 = areg c 7" for j
    using assms(4) by (auto simp: c1_def m68k_sync_sp_def super_sp_def m68k_is_super_def)
  let ?m1 = "m\<lparr>m_cpu := c1\<rparr>"
  have l: "load_sr (f (sr c)) m = ?m1" by (simp add: load_sr_def c1_def c_def)
  have r: "ram_run ?m1 (areg (m_cpu ?m1) 7 - 6) i 6" using assms(5) by (simp add: c1)
  obtain n w where p: "push16 (sr c) (push32 (pc c) ?m1) = ?m1\<lparr>m_cpu := c1\<lparr>areg := (areg c1)(7 := sp)\<rparr>,
      m_writes := n, m_ram := store_list (store_list (m_ram m) (i + 2) (be32 (pc c))) i (be16 (sr c)), m_watch := w\<rparr>" (is "_ = ?m2")
    using frame6 [OF r, of "sr c" "pc c"] by (auto simp: c1 sp_def c_def)
  have e: "m' = set_pc (fst (mac_read32 ?m2 (v * 4))) (snd (mac_read32 ?m2 (v * 4)))"
    using p by (simp add: m'_def enter_handler_def Let_def case_prod_beta l c1 flip: c_def)
  have mem: "memory m' = memory ?m2" by (simp add: e set_pc_def)
  have "frame_at ?m2 sp i (sr c) (pc c)"
    using assms(5) by (simp add: frame_at_def sp_def c_def store_list_def be16_def be32_def upt_rec numeral_eq_Suc)
  thus "frame_at m' sp i (sr c) (pc c)" using memory_ram [OF mem] by (simp add: frame_at_def)
  show "\<exists>m1. memory m1 = memory m' \<and> pc (m_cpu m') = fst (mac_read32 m1 (v * 4))"
    by (rule exI [of _ ?m2]) (simp add: mem, simp add: e set_pc_def)
  show s: "sr (m_cpu m') = f (sr c)" by (simp add: e set_pc_def c1)
  thus u: "m68k_is_super (m_cpu m')" using assms(4) by (simp add: m68k_is_super_def)
  show "areg (m_cpu m') 7 = sp" "dreg (m_cpu m') = dreg c" "j \<noteq> 7 \<Longrightarrow> areg (m_cpu m') j = areg c j"
    by (simp_all add: e set_pc_def c1)
  show "usp_of (m_cpu m') = usp_of c" using u c1(6,7) by (simp add: usp_of_def) (simp add: e set_pc_def c1)
qed


lemma exception_state:
  fixes m :: machine and v i
  defines "sp \<equiv> super_sp (m_cpu m) - 6" and "m' \<equiv> m68k_exception v m"
  assumes "ram_run m (super_sp (m_cpu m) - 6) i 6"
  shows "frame_at m' sp i (sr (m_cpu m)) (pc (m_cpu m))" "areg (m_cpu m') 7 = sp"
    "sr (m_cpu m') = (sr (m_cpu m) OR SR_S) AND NOT SR_T" "m68k_is_super (m_cpu m')"
    "dreg (m_cpu m') = dreg (m_cpu m)" "\<forall>j. j \<noteq> 7 \<longrightarrow> areg (m_cpu m') j = areg (m_cpu m) j"
    "usp_of (m_cpu m') = usp_of (m_cpu m)"
    "\<exists>m1. memory m1 = memory m' \<and> pc (m_cpu m') = fst (mac_read32 m1 (v * 4))"
proof -
  have s: "((x OR SR_S) AND NOT SR_T) AND SR_S \<noteq> 0" for x
    using and_push_bit_1_iff [of "(x OR SR_S) AND NOT SR_T" 13] by (simp add: SR_S_def SR_T_def bit_simps)
  note e = handler_entry [where f = "\<lambda>s. (s OR SR_S) AND NOT SR_T" and m = m and i = i and v = v, OF s assms(3)]
  have a: "usp_of (c\<lparr>cycles := n\<rparr>) = usp_of c" "m68k_is_super (c\<lparr>cycles := n\<rparr>) = m68k_is_super c" for c n
    by (simp_all add: usp_of_def m68k_is_super_def)
  show "frame_at m' sp i (sr (m_cpu m)) (pc (m_cpu m))" "areg (m_cpu m') 7 = sp"
    "sr (m_cpu m') = (sr (m_cpu m) OR SR_S) AND NOT SR_T" "m68k_is_super (m_cpu m')"
    "dreg (m_cpu m') = dreg (m_cpu m)" "\<forall>j. j \<noteq> 7 \<longrightarrow> areg (m_cpu m') j = areg (m_cpu m) j"
    "usp_of (m_cpu m') = usp_of (m_cpu m)"
    "\<exists>m1. memory m1 = memory m' \<and> pc (m_cpu m') = fst (mac_read32 m1 (v * 4))"
    using e frame_reads(4) [OF e(1)] by (simp_all add: m'_def sp_def m68k_exception_def add_cycles_def a)
qed

text \<open>C23: An exception, a trap or an illegal instruction enters the handler its vector names in supervisor mode with
  tracing off, with the six-byte frame of status register and program counter on the supervisor stack;
  no data register, no other address register and not the user stack pointer changes.\<close>

theorem exception_entry:
  assumes "ram_run m (super_sp (m_cpu m) - 6) i 6"
  shows "let m' = m68k_exception v m; sp = super_sp (m_cpu m) - 6 in
    frame_at m' sp i (sr (m_cpu m)) (pc (m_cpu m)) \<and> areg (m_cpu m') 7 = sp \<and>
    sr (m_cpu m') = (sr (m_cpu m) OR SR_S) AND NOT SR_T \<and> m68k_is_super (m_cpu m') \<and>
    dreg (m_cpu m') = dreg (m_cpu m) \<and> (\<forall>j. j \<noteq> 7 \<longrightarrow> areg (m_cpu m') j = areg (m_cpu m) j) \<and>
    usp_of (m_cpu m') = usp_of (m_cpu m) \<and> cycles (m_cpu m') = cycles (m_cpu m) + 34 \<and>
    (\<exists>m1. memory m1 = memory m' \<and> pc (m_cpu m') = fst (mac_read32 m1 (v * 4)))"
  using exception_state [OF assms, of v] by (simp add: Let_def)


lemma pop_frame:
  assumes "frame_at h (areg (m_cpu h) 7) i s p" "m68k_is_super (m_cpu h)"
  shows "let c = m_cpu (step_rte h) in pc c = p \<and> sr c = s \<and> usp_of c = usp_of (m_cpu h) \<and>
     ssp_of c = areg (m_cpu h) 7 + 6 \<and> dreg c = dreg (m_cpu h) \<and> (\<forall>j. j \<noteq> 7 \<longrightarrow> areg c j = areg (m_cpu h) j)"
proof -
  let ?sp = "areg (m_cpu h) 7"
  define h1 where "h1 = snd (pop16 h)"
  define h2 where "h2 = snd (pop32 h1)"
  have p1: "pop16 h = (s, h1)" using frame_reads(1) [OF assms(1)] by (simp add: h1_def pop16_def case_prod_beta)
  have f1: "frame_at h1 ?sp i s p"
    using frame_reads(4) [OF frame_reads(3) [OF assms(1), of ?sp]] by (simp add: h1_def pop16_def case_prod_beta set_areg_def)
  have a1: "areg (m_cpu h1) = (areg (m_cpu h))(7 := ?sp + 2)" "dreg (m_cpu h1) = dreg (m_cpu h)" "sr (m_cpu h1) = sr (m_cpu h)"
    "usp (m_cpu h1) = usp (m_cpu h)" "ssp (m_cpu h1) = ssp (m_cpu h)"
    by (simp_all add: h1_def pop16_def case_prod_beta set_areg_def)
  have p2: "pop32 h1 = (p, h2)" using frame_reads(2) [OF f1] by (simp add: h2_def pop32_def case_prod_beta a1)
  have a2: "areg (m_cpu h2) = (areg (m_cpu h))(7 := ?sp + 6)" "dreg (m_cpu h2) = dreg (m_cpu h)" "sr (m_cpu h2) = sr (m_cpu h)"
    "usp (m_cpu h2) = usp (m_cpu h)" "ssp (m_cpu h2) = ssp (m_cpu h)"
    by (simp_all add: h2_def pop32_def case_prod_beta set_areg_def a1 add.commute)
  have "m_cpu (step_rte h) = m68k_sync_sp True ((m_cpu h2)\<lparr>pc := p, sr := s\<rparr>)"
    using assms(2) a2 by (simp add: step_rte_def p1 p2 load_sr_def set_pc_def m68k_is_super_def)
  thus ?thesis using assms(2) a2 by (simp add: m68k_sync_sp_def usp_of_def ssp_of_def m68k_is_super_def Let_def)
qed

text \<open>C24: RTE undoes an exception: after any handler that has restored its stack pointer and left the frame and
  the user stack pointer alone, RTE resumes the interrupted program with its program counter, its
  status register and both stack pointers, and with the handler's registers.\<close>

theorem exception_rte_round_trip:
  assumes "ram_run m (super_sp (m_cpu m) - 6) i 6"
    and "ram_run h (super_sp (m_cpu m) - 6) i 6" "\<forall>k \<in> {i..<i + 6}. m_ram h k = m_ram (m68k_exception v m) k"
    and "areg (m_cpu h) 7 = areg (m_cpu (m68k_exception v m)) 7" "m68k_is_super (m_cpu h)"
    and "usp_of (m_cpu h) = usp_of (m_cpu (m68k_exception v m))"
  shows "let c = m_cpu (step_rte h) in pc c = pc (m_cpu m) \<and> sr c = sr (m_cpu m) \<and> usp_of c = usp_of (m_cpu m) \<and>
     ssp_of c = ssp_of (m_cpu m) \<and> dreg c = dreg (m_cpu h) \<and> (\<forall>j. j \<noteq> 7 \<longrightarrow> areg c j = areg (m_cpu h) j)"
proof -
  note e = exception_state [OF assms(1), of v]
  have "frame_at h (super_sp (m_cpu m) - 6) i (sr (m_cpu m)) (pc (m_cpu m))"
    using e(1) assms(2,3) by (simp add: frame_at_def upt_rec numeral_eq_Suc)
  hence "frame_at h (areg (m_cpu h) 7) i (sr (m_cpu m)) (pc (m_cpu m))" using e(2) assms(4) by simp
  from pop_frame [OF this assms(5)] show ?thesis
    using e(2,7) assms(4,6) by (simp add: Let_def ssp_of_def super_sp_def)
qed

definition user_machine :: machine where
  "user_machine = upd_cpu (\<lambda>c. c\<lparr>ssp := 0x2000, pc := 0x1234, areg := (areg c)(7 := 0x8000), sr := 0x0015\<rparr>) ram_machine"

lemma user_machine_cpu: "m_cpu user_machine = cpu_zero\<lparr>ssp := 0x2000, pc := 0x1234, areg := (\<lambda>_. 0)(7 := 0x8000), sr := 0x0015\<rparr>"
  by (simp add: user_machine_def ram_machine_def mac_mem_init_def cpu_zero_def Let_def)

lemma user_machine_stack:
  "super_sp (m_cpu user_machine) = 0x2000" "ram_run user_machine (super_sp (m_cpu user_machine) - 6) 0x1FFA 6"
proof -
  show sp: "super_sp (m_cpu user_machine) = 0x2000"
    by (simp add: user_machine_cpu super_sp_def m68k_is_super_def SR_S_def)
  show "ram_run user_machine (super_sp (m_cpu user_machine) - 6) 0x1FFA 6"
    using ram_machine_run [of "0x1FFA" 6] unfolding sp by (simp add: user_machine_def)
qed

theorem exception_entry_witness:
  "let m' = m68k_exception 4 user_machine in fst (mac_read16 m' 0x1FFA) = 0x0015 \<and> fst (mac_read32 m' 0x1FFC) = 0x1234 \<and>
     areg (m_cpu m') 7 = 0x1FFA \<and> sr (m_cpu m') = 0x2015 \<and> usp_of (m_cpu m') = 0x8000"
  using exception_entry [OF user_machine_stack(2), of 4]
    frame_reads(1,2) [of "m68k_exception 4 user_machine" "0x1FFA" "0x1FFA" "0x0015" "0x1234"]
  unfolding user_machine_stack(1) Let_def
  by (auto simp: user_machine_cpu SR_S_def SR_T_def usp_of_def m68k_is_super_def cpu_zero_def)

theorem exception_rte_round_trip_witness:
  "let c = m_cpu (step_rte (m68k_exception 4 user_machine)) in
     pc c = 0x1234 \<and> sr c = 0x0015 \<and> areg c 7 = 0x8000 \<and> ssp c = 0x2000"
proof -
  note e = exception_state [OF user_machine_stack(2), of 4]
  have "ram_run (m68k_exception 4 user_machine) (super_sp (m_cpu user_machine) - 6) 0x1FFA 6"
    using e(1) by (simp add: frame_at_def)
  from exception_rte_round_trip [OF user_machine_stack(2) this _ refl e(4) refl] show ?thesis
    by (auto simp: Let_def user_machine_cpu usp_of_def ssp_of_def m68k_is_super_def SR_S_def)
qed

subsection \<open>Interrupts\<close>

lemma level_super: "((((s OR SR_S) AND NOT SR_T) AND NOT SR_IMASK) OR push_bit 8 (ucast l)) AND SR_S \<noteq> 0" for s :: u16 and l :: u8
  using and_push_bit_1_iff [of "(((s OR SR_S) AND NOT SR_T) AND NOT SR_IMASK) OR push_bit 8 (ucast l)" 13]
  by (simp add: sr_bits bit_simps)

lemma level_mask: "drop_bit 8 (((((s OR SR_S) AND NOT SR_T) AND NOT SR_IMASK) OR push_bit 8 (ucast l)) AND SR_IMASK) = (ucast l :: u16)"
  if "l \<le> 7" for s :: u16 and l :: u8
proof -
  have "take_bit 3 (unat l) = unat l" using that by (intro take_bit_nat_eq_self) (simp add: word_le_nat_alt)
  hence l: "l = l AND 7" by (metis and_masks(6) unsigned_take_bit_eq word_unat_eq_iff)
  have "drop_bit 8 (((((s OR SR_S) AND NOT SR_T) AND NOT SR_IMASK) OR push_bit 8 (ucast (l AND 7))) AND SR_IMASK) = (ucast (l AND 7) :: u16)"
    by (simp add: halfword_eq_bits sr_bits bit_simps)
  thus ?thesis using l by simp
qed

lemma ucast_mono: "(ucast a :: u16) \<le> ucast b \<longleftrightarrow> a \<le> b" for a b :: u8
  by transfer (simp add: min_def)

text \<open>C25: A request is accepted exactly when it is present and above the processor's mask, or of level 7. It then
  enters its autovector handler in supervisor mode with its own level as the mask, wakes a stopped
  processor and takes 44 cycles; a request that is not accepted changes nothing. A level below 7 is
  masked while its handler runs, so a handler is not entered again by its own request.\<close>

theorem interrupt_served:
  assumes "pending_irq (m_cpu m) \<le> 7" "ram_run m (super_sp (m_cpu m) - 6) i 6"
  shows "let level = pending_irq (m_cpu m); (taken, m') = m68k_poll_interrupts m; sp = super_sp (m_cpu m) - 6 in
    (taken \<longleftrightarrow> level \<noteq> 0 \<and> (level = 7 \<or> drop_bit 8 (sr (m_cpu m) AND SR_IMASK) < ucast level)) \<and>
    (\<not> taken \<longrightarrow> m' = m) \<and>
    (taken \<longrightarrow> frame_at m' sp i (sr (m_cpu m)) (pc (m_cpu m)) \<and> areg (m_cpu m') 7 = sp \<and> m68k_is_super (m_cpu m') \<and>
       drop_bit 8 (sr (m_cpu m') AND SR_IMASK) = ucast level \<and> stopped (m_cpu m') = 0 \<and>
       cycles (m_cpu m') = cycles (m_cpu m) + 44 \<and>
       (\<exists>m1. memory m1 = memory m' \<and> pc (m_cpu m') = fst (mac_read32 m1 ((24 + ucast level) * 4))) \<and>
       (pending_irq (m_cpu m') \<le> level \<and> level \<noteq> 7 \<longrightarrow> \<not> fst (m68k_poll_interrupts m')))"
proof -
  let ?l = "pending_irq (m_cpu m)" and ?sp = "super_sp (m_cpu m) - 6"
  let ?f = "\<lambda>s :: u16. (((s OR SR_S) AND NOT SR_T) AND NOT SR_IMASK) OR push_bit 8 (ucast ?l)"
  let ?ok = "?l \<noteq> 0 \<and> (?l = 7 \<or> \<not> ucast ?l \<le> drop_bit 8 (sr (m_cpu m) AND SR_IMASK))"
  let ?e = "enter_handler ?f (24 + ucast ?l) m"
  have p: "m68k_poll_interrupts m = (?ok, if ?ok then add_cycles 44 (upd_cpu (\<lambda>c. c\<lparr>stopped := 0\<rparr>) ?e) else m)"
    by (auto simp: m68k_poll_interrupts_def Let_def)
  define m' where "m' = add_cycles 44 (upd_cpu (\<lambda>c. c\<lparr>stopped := 0\<rparr>) ?e)"
  note e = handler_entry [where f = ?f and m = m and i = i and v = "24 + ucast ?l", OF level_super assms(2)]
  have c: "frame_at m' ?sp i (sr (m_cpu m)) (pc (m_cpu m))" "areg (m_cpu m') 7 = ?sp" "m68k_is_super (m_cpu m')"
    "sr (m_cpu m') = ?f (sr (m_cpu m))" "stopped (m_cpu m') = 0" "cycles (m_cpu m') = cycles (m_cpu m) + 44"
    "\<exists>m1. memory m1 = memory m' \<and> pc (m_cpu m') = fst (mac_read32 m1 ((24 + ucast ?l) * 4))"
    using e frame_reads(4) [OF e(1)] by (simp_all add: m'_def add_cycles_def m68k_is_super_def)
  have k: "drop_bit 8 (sr (m_cpu m') AND SR_IMASK) = ucast ?l" using c(4) level_mask [OF assms(1)] by simp
  have "\<not> fst (m68k_poll_interrupts m')" if "pending_irq (m_cpu m') \<le> ?l" "?l \<noteq> 7"
  proof -
    have "pending_irq (m_cpu m') \<noteq> 7" using that assms(1) by (metis order_antisym)
    thus ?thesis using that(1) k by (simp add: m68k_poll_interrupts_def Let_def ucast_mono)
  qed
  thus ?thesis unfolding Let_def p case_prod_conv not_le [symmetric] using c k unfolding m'_def by auto
qed

theorem interrupt_served_witness:
  "let (taken, m') = m68k_poll_interrupts (upd_cpu (\<lambda>c. c\<lparr>pending_irq := 1, stopped := 1\<rparr>) user_machine) in
     taken \<and> fst (mac_read32 m' 0x1FFC) = 0x1234 \<and> drop_bit 8 (sr (m_cpu m') AND SR_IMASK) = 1 \<and> stopped (m_cpu m') = 0"
proof -
  let ?m = "upd_cpu (\<lambda>c. c\<lparr>pending_irq := 1, stopped := 1\<rparr>) user_machine"
  have sp: "super_sp (m_cpu ?m) = 0x2000" using user_machine_stack(1) by (simp add: super_sp_def m68k_is_super_def split: if_splits)
  have r: "ram_run ?m (super_sp (m_cpu ?m) - 6) 0x1FFA 6"
    using user_machine_stack(2) unfolding sp user_machine_stack(1) by simp
  have c: "m_cpu ?m = (m_cpu user_machine)\<lparr>pending_irq := 1, stopped := 1\<rparr>" by simp
  obtain t m' where p: "m68k_poll_interrupts ?m = (t, m')" by (cases "m68k_poll_interrupts ?m")
  have d: "drop_bit 8 (0x0015 AND SR_IMASK) = (0 :: u16)" by (simp add: SR_IMASK_def)
  from interrupt_served [OF _ r] have "t \<and> frame_at m' 0x1FFA 0x1FFA 0x0015 0x1234 \<and>
      drop_bit 8 (sr (m_cpu m') AND SR_IMASK) = 1 \<and> stopped (m_cpu m') = 0"
    unfolding Let_def p case_prod_conv c by (simp add: user_machine_cpu d super_sp_def m68k_is_super_def SR_S_def)
  thus ?thesis using frame_reads(2) [of m' "0x1FFA" "0x1FFA" "0x0015" "0x1234"] unfolding Let_def p by simp
qed

end
