(* ===== verification/Integers.thy ===== *)
theory Integers
  imports Exceptions
begin

text \<open>
  The arithmetic of core/m68k_interp.c over the integers: DIVU and DIVS, and the multi-precision chains that
  guest programs build from ADDX and SUBX. Addition, subtraction, shifts and BCD are in
  M68kCpu, Alu and Bcd.
\<close>

subsection \<open>Multiplication and division\<close>










subsection \<open>Multi-precision addition and subtraction\<close>

lemma ccr_and: "c AND CCR_X \<noteq> 0 \<longleftrightarrow> bit c 4" "c AND CCR_Z \<noteq> 0 \<longleftrightarrow> bit c 2" for c :: u8
  using and_push_bit_1_iff [of c 4] and_push_bit_1_iff [of c 2] by (simp_all add: ccr_bits)

lemma addx_value:
  assumes "op_size sz"
  shows "uval sz (addx_result True s d X) = (uval sz s + uval sz d + of_bool X) mod 2 ^ (8 * sz)"
    "uval sz (addx_result False s d X) = (uval sz d - uval sz s - of_bool X) mod 2 ^ (8 * sz)"
proof -
  have o1: "uval sz (if X then 1 else 0) = of_bool X" using assms by (auto simp: uval_def op_size_def)
  show "uval sz (addx_result True s d X) = (uval sz s + uval sz d + of_bool X) mod 2 ^ (8 * sz)"
    by (simp add: addx_result_def uval_plus [OF assms] o1 mod_simps add.commute add.left_commute del: if_split)
  show "uval sz (addx_result False s d X) = (uval sz d - uval sz s - of_bool X) mod 2 ^ (8 * sz)"
    by (simp add: addx_result_def uval_minus [OF assms] o1 mod_simps del: if_split)
qed

lemma addx_flags:
  assumes "op_size sz"
  shows "bit (addx_ccr True sz s d X Z) 4 \<longleftrightarrow> 2 ^ (8 * sz) \<le> uval sz s + uval sz d + of_bool X"
    "bit (addx_ccr False sz s d X Z) 4 \<longleftrightarrow> uval sz d < uval sz s + of_bool X"
    "bit (addx_ccr b sz s d X Z) 2 \<longleftrightarrow> Z \<and> uval sz (addx_result b s d X) = 0"
proof -
  have b: "uval sz x < 2 ^ 32" "0 \<le> uval sz x" for x
    using uval_bounds [of sz x] assms by (auto simp: op_size_def)
  have u: "uint (ucast (x AND size_mask sz) :: u64) = uval sz x" for x
    by (simp add: uint_up_ucast is_up uint_size_mask [OF assms])
  have m: "uint (ucast (size_mask sz) :: u64) = 2 ^ (8 * sz) - 1"
    using assms by (auto simp: op_size_def size_mask_def uint_up_ucast is_up)
  have x: "uint (if X then 1 else 0 :: u64) = of_bool X" by simp
  have s3: "uint (ucast (s AND size_mask sz) + ucast (d AND size_mask sz) + (if X then 1 else 0) :: u64) = uval sz s + uval sz d + of_bool X"
    using b [of s] b [of d] by (simp add: uint_word_ariths u x mod_pos_pos_trivial)
  have s2: "uint (ucast (s AND size_mask sz) + (if X then 1 else 0) :: u64) = uval sz s + of_bool X"
    using b [of s] by (simp add: uint_word_ariths u x mod_pos_pos_trivial)
  show "bit (addx_ccr True sz s d X Z) 4 \<longleftrightarrow> 2 ^ (8 * sz) \<le> uval sz s + uval sz d + of_bool X"
    by (simp add: addx_ccr_def Let_def bit_if_or ccr_bits word_less_def s3 m del: if_split) (auto simp: bit_simps)
  show "bit (addx_ccr False sz s d X Z) 4 \<longleftrightarrow> uval sz d < uval sz s + of_bool X"
    by (simp add: addx_ccr_def Let_def bit_if_or ccr_bits word_less_def s2 u del: if_split)
  show "bit (addx_ccr b sz s d X Z) 2 \<longleftrightarrow> Z \<and> uval sz (addx_result b s d X) = 0"
    by (simp add: addx_ccr_def Let_def bit_if_or ccr_bits mask_eq_0 [OF assms] bit_simps del: if_split)
qed

lemma wrap_up: "0 \<le> x \<Longrightarrow> x < 2 * B \<Longrightarrow> x mod B + B * of_bool (B \<le> x) = x" for x B :: int
proof -
  assume x: "0 \<le> x" "x < 2 * B"
  have "x mod B = (x - B) mod B" by simp
  moreover have "(x - B) mod B = x - B" if "B \<le> x" using that x by (intro mod_pos_pos_trivial) simp_all
  moreover have "x mod B = x" if "\<not> B \<le> x" using that x by (intro mod_pos_pos_trivial) simp_all
  ultimately show ?thesis by (cases "B \<le> x") simp_all
qed

lemma wrap_down: "- B \<le> x \<Longrightarrow> x < B \<Longrightarrow> x mod B - B * of_bool (x < 0) = x" for x B :: int
proof -
  assume x: "- B \<le> x" "x < B"
  have "x mod B = (x + B) mod B" by simp
  moreover have "(x + B) mod B = x + B" if "x < 0" using that x by (intro mod_pos_pos_trivial) simp_all
  moreover have "x mod B = x" if "\<not> x < 0" using that x by (intro mod_pos_pos_trivial) simp_all
  ultimately show ?thesis by (cases "x < 0") simp_all
qed

text \<open>A chain of ADDX (or SUBX) over the limbs of two numbers, least significant first, with the X and Z flags it starts
  from and ends with, and the number a list of limbs stands for.\<close>

fun addx_chain :: "bool \<Rightarrow> nat \<Rightarrow> (u32 \<times> u32) list \<Rightarrow> bool \<Rightarrow> bool \<Rightarrow> u32 list \<times> bool \<times> bool" where
  "addx_chain b sz [] X Z = ([], X, Z)"
| "addx_chain b sz ((s, d) # ps) X Z =
     (let c = addx_ccr b sz s d X Z; (rs, X', Z') = addx_chain b sz ps (c AND CCR_X \<noteq> 0) (c AND CCR_Z \<noteq> 0)
      in (addx_result b s d X # rs, X', Z'))"

definition big :: "nat \<Rightarrow> u32 list \<Rightarrow> int" where
  "big sz ws = foldr (\<lambda>w acc. uval sz w + 2 ^ (8 * sz) * acc) ws 0"

lemma big_simps [simp]: "big sz [] = 0" "big sz (w # ws) = uval sz w + 2 ^ (8 * sz) * big sz ws"
  by (simp_all add: big_def)

lemma big_nonneg: "0 \<le> big sz ws"
  using uval_bounds(1) [of sz] by (induction ws) (simp_all add: add_nonneg_nonneg)

lemma carry_step: "u + B * c = s + d + x \<Longrightarrow> r + P * y = S + D + c \<Longrightarrow> u + B * r + (B * P) * y = (s + B * S) + (d + B * D) + x"
  for u B c s d x r P y S D :: int
proof -
  assume "u + B * c = s + d + x" "r + P * y = S + D + c"
  hence u: "u = s + d + x - B * c" and r: "r = S + D + c - P * y" by simp_all
  show ?thesis by (simp add: u r algebra_simps)
qed

lemma borrow_step: "u - B * c = d - s - x \<Longrightarrow> r - P * y = D - S - c \<Longrightarrow> u + B * r - (B * P) * y = (d + B * D) - (s + B * S) - x"
  for u B c s d x r P y S D :: int
proof -
  assume "u - B * c = d - s - x" "r - P * y = D - S - c"
  hence u: "u = d - s - x + B * c" and r: "r = D - S - c + P * y" by simp_all
  show ?thesis by (simp add: u r algebra_simps)
qed

text \<open>C31: A chain of ADDX adds, and a chain of SUBX subtracts, numbers of any length: the limbs of the result with the final
  X as the carry or borrow are the exact sum or difference, and the sticky Z says at the end that the whole
  result is zero (when it was set before).\<close>

theorem addx_chain_correct:
  assumes "op_size sz"
  shows "(let (rs, X', Z') = addx_chain True sz ps X Z in
       big sz rs + (2 ^ (8 * sz)) ^ length ps * of_bool X' = big sz (map fst ps) + big sz (map snd ps) + of_bool X \<and>
       Z' = (Z \<and> big sz rs = 0)) \<and>
     (let (rs, X', Z') = addx_chain False sz ps X Z in
       big sz rs - (2 ^ (8 * sz)) ^ length ps * of_bool X' = big sz (map snd ps) - big sz (map fst ps) - of_bool X \<and>
       Z' = (Z \<and> big sz rs = 0))"
proof (induction ps arbitrary: X Z)
  case (Cons p ps)
  obtain s d where p: "p = (s, d)" by (cases p)
  let ?B = "2 ^ (8 * sz) :: int"
  note f = addx_flags [OF assms] note v = addx_value [OF assms]
  have nn: "uval sz w + ?B * big sz rs = 0 \<longleftrightarrow> uval sz w = 0 \<and> big sz rs = 0" for w rs
  proof -
    have "0 \<le> ?B * big sz rs" using big_nonneg [of sz rs] by simp
    thus ?thesis using uval_bounds(1) [of sz w] by (simp add: add_nonneg_eq_0_iff)
  qed
  have add: "uval sz (addx_result True s d X) + ?B * of_bool (bit (addx_ccr True sz s d X Z) 4) = uval sz s + uval sz d + of_bool X"
    unfolding v f by (rule wrap_up) (use uval_bounds [of sz s] uval_bounds [of sz d] in \<open>cases X; simp\<close>)+
  have e: "(uval sz d - uval sz s - of_bool X < 0) = (uval sz d < uval sz s + of_bool X)" by auto
  have w: "- ?B \<le> uval sz d - uval sz s - of_bool X" "uval sz d - uval sz s - of_bool X < ?B"
    using uval_bounds [of sz s] uval_bounds [of sz d] by (cases X; simp)+
  have sub: "uval sz (addx_result False s d X) - ?B * of_bool (bit (addx_ccr False sz s d X Z) 4) = uval sz d - uval sz s - of_bool X"
    using wrap_down [OF w] unfolding v f e by simp
  obtain ra xa za where a: "addx_chain True sz ps (bit (addx_ccr True sz s d X Z) 4) (bit (addx_ccr True sz s d X Z) 2) = (ra, xa, za)"
    by (metis surj_pair)
  obtain rb xb zb where b: "addx_chain False sz ps (bit (addx_ccr False sz s d X Z) 4) (bit (addx_ccr False sz s d X Z) 2) = (rb, xb, zb)"
    by (metis surj_pair)
  have ia: "big sz ra + ?B ^ length ps * of_bool xa = big sz (map fst ps) + big sz (map snd ps) + of_bool (bit (addx_ccr True sz s d X Z) 4)"
    "za = (Z \<and> uval sz (addx_result True s d X) = 0 \<and> big sz ra = 0)"
    using Cons.IH [of "bit (addx_ccr True sz s d X Z) 4" "bit (addx_ccr True sz s d X Z) 2"] a by (simp_all add: f)
  have ib: "big sz rb - ?B ^ length ps * of_bool xb = big sz (map snd ps) - big sz (map fst ps) - of_bool (bit (addx_ccr False sz s d X Z) 4)"
    "zb = (Z \<and> uval sz (addx_result False s d X) = 0 \<and> big sz rb = 0)"
    using Cons.IH [of "bit (addx_ccr False sz s d X Z) 4" "bit (addx_ccr False sz s d X Z) 2"] b by (simp_all add: f)
  note ra = carry_step [OF add ia(1)] and rb = borrow_step [OF sub ib(1)]
  show ?case unfolding p addx_chain.simps Let_def ccr_and a b case_prod_conv list.map fst_conv snd_conv big_simps length_Cons power_Suc nn
    using ra rb ia(2) ib(2) by (intro conjI) blast+
qed simp


theorem addx_chain_correct_witness:
  "let (rs, X', Z') = addx_chain True 4 [(0xFFFFFFFF, 1), (2, 3)] False True in big 4 rs = 0x600000000 \<and> \<not> X' \<and> \<not> Z'"
proof -
  obtain rs X' Z' where c: "addx_chain True 4 [(0xFFFFFFFF, 1), (2, 3)] False True = (rs, X', Z')" by (metis surj_pair)
  have r: "rs = [0, 6]" "X' = False" "Z' = False"
    using c by (auto simp: Let_def addx_result_def addx_ccr_def size_mask_def size_msb_def ccr_bits)
  have v: "big 4 [0xFFFFFFFF, 2] = 0x2FFFFFFFF" "big 4 [1, 3] = 0x300000001" by (simp_all add: uval_def)
  have "big 4 rs + (2 ^ (8 * 4)) ^ 2 * of_bool X' = big 4 [0xFFFFFFFF, 2] + big 4 [1, 3]"
    using addx_chain_correct [of 4 "[(0xFFFFFFFF, 1), (2, 3)]" False True] unfolding c Let_def case_prod_conv
    by (simp add: op_size_def numeral_2_eq_2 del: big_simps)
  thus ?thesis unfolding c Let_def case_prod_conv v using r by simp
qed

end
