(* ===== verification/DecodeLength.thy ===== *)
theory DecodeLength
  imports BusFrame Exceptions Decode
begin

text \<open>
  The block discovery decoder against the interpreter: every operation that is not a transfer of control leaves
  the program counter behind the extension words it fetched, and these are the ones the decoder counts.
\<close>

abbreviation cpc :: "machine \<Rightarrow> u32" where "cpc m \<equiv> pc (m_cpu m)"

subsection \<open>The program counter under the primitives\<close>

lemma register_pc [simp]:
  "cpc (set_dreg i v m) = cpc m" "cpc (set_areg i v m) = cpc m" "cpc (set_pc v m) = v"
  "cpc (merge_dreg sz i v m) = cpc m" "cpc (set_reg16 i v m) = cpc m" "cpc (load_sr s m) = cpc m" "cpc (add_cycles n m) = cpc m"
  by (simp_all add: set_dreg_def set_areg_def set_pc_def merge_dreg_def set_reg16_def load_sr_def add_cycles_def)

lemma memory_pc [simp]:
  "cpc (snd (mem_read a sz m)) = cpc m" "cpc (mem_write a sz v m) = cpc m"
  "cpc (snd (fetch16 m)) = cpc m + 2" "cpc (snd (fetch32 m)) = cpc m + 4"
  by (simp_all add: mem_read_def mem_write_def fetch16_def fetch32_def case_prod_beta Let_def)

lemma operand_pc [simp]: "cpc (snd (ea_read e sz m)) = cpc m" "cpc (ea_write e sz v m) = cpc m"
  by (cases e; simp)+

lemma ext_bytes_direct [simp]: "ea_ext_bytes 0 r sz = 0" "ea_ext_bytes (Suc 0) r sz = 0"
  by (simp_all add: ea_ext_bytes_def)

lemma ext_bytes_size: "md \<noteq> 7 \<or> r \<noteq> 4 \<Longrightarrow> ea_ext_bytes md r sz = ea_ext_bytes md r 4"
  "ea_ext_bytes md r (Suc 0) = ea_ext_bytes md r 2"
  by (auto simp: ea_ext_bytes_def)

lemma op_size_of_cases: "op_size_of n = 1 \<or> op_size_of n = 2 \<or> op_size_of n = 4"
  by (simp add: op_size_of_def)

lemma decode7_pc: "sz = 1 \<or> sz = 2 \<or> sz = 4 \<Longrightarrow> cpc (snd (ea_decode7 r sz m)) = cpc m + ea_ext_bytes 7 r sz"
  by (auto simp: ea_decode7_def brief_index_def ea_ext_bytes_def case_prod_beta Let_def)

lemma decode_pc: "sz = 1 \<or> sz = 2 \<or> sz = 4 \<Longrightarrow> cpc (snd (ea_decode md r sz m)) = cpc m + ea_ext_bytes md r sz"
  by (simp add: ea_decode_def decode7_pc) (auto simp: brief_index_def ea_ext_bytes_def case_prod_beta Let_def)

lemma decode_size_pc [simp]: "cpc (snd (ea_decode md r (op_size_of n) m)) = cpc m + ea_ext_bytes md r (op_size_of n)"
  "cpc (snd (ea_decode md r (Suc 0) m)) = cpc m + ea_ext_bytes md r 2"
  "cpc (snd (ea_decode md r 2 m)) = cpc m + ea_ext_bytes md r 2"
  "cpc (snd (ea_decode md r 4 m)) = cpc m + ea_ext_bytes md r 4"
  by (rule decode_pc [OF op_size_of_cases]) (simp_all add: decode_pc ext_bytes_size(2))

lemma movem_pc [simp]: "cpc (snd (movem_predec rs sz a m)) = cpc m" "cpc (snd (movem_store rs sz a m)) = cpc m"
  "cpc (snd (movem_load rs sz a m)) = cpc m"
  by (induction rs arbitrary: a m) (simp_all add: Let_def case_prod_beta)

lemma movep_pc [simp]: "cpc (movep_store n dn a m) = cpc m" "cpc (snd (movep_load n a m)) = cpc m"
proof -
  have "cpc (fold (\<lambda>i m. mac_write8 m (f i) (g i m)) rs m) = cpc m" for f g rs m
    by (induction rs arbitrary: m) simp_all
  thus "cpc (movep_store n dn a m) = cpc m" by (simp add: movep_store_def)
  have "cpc (snd (fold (\<lambda>i (v, m). let (b, m) = mac_read8 m (f i) in (h v b, m)) rs (x, m))) = cpc m" for f h rs x m
    by (induction rs arbitrary: x m) (simp_all add: case_prod_beta Let_def)
  thus "cpc (snd (movep_load n a m)) = cpc m" by (simp add: movep_load_def)
qed

lemma bitop_pc [simp]: "cpc (do_bitop w b e md m) = cpc m"
  by (simp add: do_bitop_def case_prod_beta Let_def)

subsection \<open>The groups\<close>

lemma imm_pc [simp]: "cpc (step_imm_op op9 e sz i d m) = cpc m" "cpc (step_imm_ccr op9 sz i m) = cpc m"
  by (simp_all add: step_imm_op_def step_imm_ccr_def Let_def)

lemma length_0:
  assumes "bit op 8 \<or> opf op 9 7 \<noteq> 7"
  shows "cpc (step_0 op p m) = cpc m + (decode_0 op - 2)"
proof (cases "bit op 8 \<and> opf op 3 7 = 1")
  case True thus ?thesis by (simp add: step_0_def step_movep_def decode_0_def case_prod_beta Let_def)
next
  case movep: False
  show ?thesis
  proof (cases "bit op 8 \<or> opf op 9 7 = 4")
    case True
    thus ?thesis using movep by (auto simp: step_0_def step_bitop_def decode_0_def case_prod_beta Let_def ext_bytes_size(2))
  next
    case False
    thus ?thesis using assms by (auto simp: step_0_def step_imm_def decode_0_def case_prod_beta Let_def)
  qed
qed

lemma length_move: "opf op 12 0xF = 1 \<or> opf op 12 0xF = 2 \<or> opf op 12 0xF = 3 \<Longrightarrow> cpc (step_move op m) = cpc m + (decode_move op - 2)"
  by (auto simp: step_move_def decode_move_def decode_pc case_prod_beta Let_def)

lemma flags_pc [simp]: "cpc (m\<lparr>m_cpu := snd (do_shift sz k v n (m_cpu m))\<rparr>) = cpc m"
  "cpc (m\<lparr>m_cpu := snd (bcd_nbcd d (m_cpu m))\<rparr>) = cpc m" "cpc (m\<lparr>m_cpu := snd (bcd_abcd a d (m_cpu m))\<rparr>) = cpc m"
  "cpc (m\<lparr>m_cpu := snd (bcd_sbcd a d (m_cpu m))\<rparr>) = cpc m"
  by simp_all

lemma step_unary_pc [simp]: "cpc (step_unary sel sz e m) = cpc m"
  by (simp add: step_unary_def case_prod_beta Let_def)

text \<open>Tests of an opcode under a wider mask decide those under a narrower one.\<close>

lemma mask_narrow: "op AND M = c \<Longrightarrow> M AND N = N \<Longrightarrow> op AND N = c AND N" for op :: u16
  by (metis and.assoc)

lemma opf_mod: "opf op n 7 = opf op n 0x1F mod 8"
proof -
  have "w AND 7 = take_bit 3 w" "w AND 0x1F = take_bit 5 w" for w :: u16
    by (simp_all add: take_bit_eq_mask mask_eq_exp_minus_1)
  hence "opf op n 7 = unat (drop_bit n op) mod 8" and "opf op n 0x1F = unat (drop_bit n op) mod 32"
    by (simp_all add: opf_def unsigned_take_bit_eq take_bit_eq_mod unat_mod_distrib)
  thus ?thesis by (simp add: mod_mod_cancel)
qed

lemma one_bit: "w AND push_bit k 1 = (if bit w k then push_bit k 1 else 0)" for w :: u16
  by (rule bit_word_eqI) (auto simp: bit_simps)

text \<open>The forms that the masks of the source single out have a register as their operand.\<close>

lemma bcd_form: "op AND 0x01F0 = 0x0100 \<Longrightarrow> opf op 3 7 = 0 \<or> opf op 3 7 = 1"
proof -
  assume "op AND 0x01F0 = 0x0100"
  moreover have o: "opf op 3 7 = unat (drop_bit 3 (op AND 0x38))" by (simp add: opf_def)
  moreover from mask_narrow [OF \<open>op AND 0x01F0 = 0x0100\<close>, of "0x30"] have "op AND 0x38 = op AND 8"
    using bit.conj_disj_distrib [of op "0x30 :: u16" 8] by simp
  moreover have "op AND 8 = 0 \<or> op AND 8 = 8"
    using one_bit [of op 3] by simp
  ultimately show ?thesis unfolding o by (elim disjE) (simp_all only:, simp_all)
qed

lemma movem_form: "op AND 0xFB80 = 0x4880 \<Longrightarrow> opf op 6 7 = 2 \<or> opf op 6 7 = 3"
proof -
  assume "op AND 0xFB80 = 0x4880"
  moreover have o: "opf op 6 7 = unat (drop_bit 6 (op AND 0x1C0))" by (simp add: opf_def)
  moreover from mask_narrow [OF \<open>op AND 0xFB80 = 0x4880\<close>, of "0x180"] have "op AND 0x1C0 = 0x80 OR op AND 0x40"
    using bit.conj_disj_distrib [of op "0x180 :: u16" "0x40"] by simp
  moreover have "op AND 0x40 = 0 \<or> op AND 0x40 = 0x40"
    using one_bit [of op 6] by simp
  ultimately show ?thesis unfolding o by (elim disjE) (simp_all only:, simp_all)
qed

lemma exg_pc: "step_exg op m = Some m' \<Longrightarrow> cpc m' = cpc m \<and> (opf op 3 7 = 0 \<or> opf op 3 7 = 1)"
  by (auto simp: step_exg_def opf_mod [of op 3] Let_def split: if_splits)

lemma addq_pc [simp]: "cpc (step_addq sz n b e m) = cpc m"
  by (simp add: step_addq_def case_prod_beta Let_def)

lemma length_5:
  assumes "opf op 6 3 = 3 \<longrightarrow> opf op 3 7 \<noteq> 1 \<and> \<not> (opf op 3 7 = 7 \<and> opf op 0 7 = 4)"
  shows "cpc (step_5 op p m) = cpc m + ea_ext_bytes (opf op 3 7) (opf op 0 7) (op_size_of (opf op 6 3))"
proof (cases "opf op 6 3 = 3")
  case True
  have "ea_ext_bytes (opf op 3 7) (opf op 0 7) 2 = ea_ext_bytes (opf op 3 7) (opf op 0 7) 4"
    by (rule ext_bytes_size(1)) (use assms True in blast)
  thus ?thesis using True assms by (simp add: step_5_def op_size_of_def case_prod_beta Let_def)
next
  case False
  thus ?thesis by (simp add: step_5_def case_prod_beta Let_def split: ea_t.split)
qed

lemma length_7: "cpc (step_7 op m) = cpc m"
  by (simp add: step_7_def Let_def)

lemma logic_pc: "cpc (step_logic f op m) = cpc m + ea_ext_bytes (opf op 3 7) (opf op 0 7) (op_size_of (opf op 6 3))"
  by (simp add: step_logic_def case_prod_beta Let_def)

lemma bcd2_pc: "cpc (step_bcd2 bcd_sbcd op m) = cpc m" "cpc (step_bcd2 bcd_abcd op m) = cpc m"
  by (simp_all add: step_bcd2_def ea_decode_def case_prod_beta Let_def)

lemma adda_pc: "cpc (step_adda b op m) = cpc m + ea_ext_bytes (opf op 3 7) (opf op 0 7) (if op AND 0x0100 \<noteq> 0 then 4 else 2)"
  by (simp add: step_adda_def case_prod_beta Let_def)

lemma addx_pc: "cpc (step_addx b op m) = cpc m"
  by (simp add: step_addx_def case_prod_beta Let_def)

lemma add_pc: "cpc (step_add b op m) = cpc m + ea_ext_bytes (opf op 3 7) (opf op 0 7) (op_size_of (opf op 6 3))"
  by (simp add: step_add_def case_prod_beta Let_def)

lemma cmpm_pc: "cpc (step_cmpm op m) = cpc m"
  by (simp add: step_cmpm_def case_prod_beta Let_def)

lemma mul_pc: "cpc (step_mul op m) = cpc m + ea_ext_bytes (opf op 3 7) (opf op 0 7) 2"
  by (simp add: step_mul_def case_prod_beta Let_def)

lemma div_pc: "opf op 6 3 \<noteq> 3 \<Longrightarrow> cpc (step_8 op m) = cpc m + (decode_alu op - 2)"
  using bcd_form [of op] by (auto simp: step_8_def decode_alu_def bcd2_pc logic_pc Let_def)

lemma length_9D: "opf op 12 0xF = 9 \<or> opf op 12 0xF = 0xD \<Longrightarrow> cpc (step_9D b op m) = cpc m + (decode_alu op - 2)"
  by (auto simp: step_9D_def decode_alu_def adda_pc addx_pc add_pc Let_def)

lemma length_B: "opf op 12 0xF = 0xB \<Longrightarrow> cpc (step_B op m) = cpc m + (decode_alu op - 2)"
  by (auto simp: step_B_def decode_alu_def cmpm_pc case_prod_beta Let_def)

lemma length_C: "opf op 12 0xF = 0xC \<Longrightarrow> cpc (step_C op m) = cpc m + (decode_alu op - 2)"
  using bcd_form [of op] exg_pc [of op m]
  by (auto simp: step_C_def decode_alu_def bcd2_pc mul_pc logic_pc Let_def split: option.split)

lemma length_E: "opf op 6 3 = 3 \<Longrightarrow> ea_is_mem (opf op 3 7) (opf op 0 7) \<Longrightarrow>
    cpc (step_E op p m) = cpc m + ea_ext_bytes (opf op 3 7) (opf op 0 7) 2"
  "opf op 6 3 \<noteq> 3 \<Longrightarrow> cpc (step_E op p m) = cpc m"
  by (simp_all add: step_E_def case_prod_beta Let_def)

subsection \<open>The miscellaneous group\<close>

lemma movem_step_pc: "opf op 3 7 \<noteq> 7 \<or> opf op 0 7 \<noteq> 4 \<Longrightarrow> cpc (do_movem op m) = cpc m + (2 + ea_ext_bytes (opf op 3 7) (opf op 0 7) 4)"
  using ext_bytes_size(1) [of "opf op 3 7" "opf op 0 7" 2]
  by (auto simp: do_movem_def case_prod_beta Let_def) (auto simp: ea_ext_bytes_def)

text \<open>The instructions with an operand, in the order of the code's tests. An operand other than an immediate
  takes the same extension at any size.\<close>

definition straight_4_ea :: "u16 \<Rightarrow> bool" where
  "straight_4_ea op \<longleftrightarrow>
     (let sel = opf op 8 0xF; szf = opf op 6 3 in
      (op = 0x44FC \<or> op = 0x46FC \<or> \<not> (opf op 3 7 = 7 \<and> opf op 0 7 = 4)) \<and>
      op AND 0xFFC0 \<noteq> 0x4EC0 \<and> op AND 0xFFC0 \<noteq> 0x4E80 \<and> opf op 6 7 \<noteq> 5 \<and> opf op 6 7 \<noteq> 6 \<and>
      (op AND 0xFFC0 = 0x4800 \<or> op AND 0xFFC0 = 0x4840 \<or> opf op 6 7 = 7 \<or> op AND 0xFB80 = 0x4880 \<or>
       op AND 0xFFC0 = 0x40C0 \<or> op AND 0xFFC0 = 0x44C0 \<or> op AND 0xFFC0 = 0x46C0 \<or>
       (if szf = 3 then sel = 0xA else sel \<in> {0, 2, 4, 6, 0xA})))"

lemma not_4E: "op AND 0xFFC0 \<noteq> 0x4E40 \<Longrightarrow> op \<noteq> 0x4E70 \<and> op \<noteq> 0x4E71 \<and> op \<noteq> 0x4E72 \<and> op \<noteq> 0x4E73 \<and> op \<noteq> 0x4E75 \<and>
    op \<noteq> 0x4E76 \<and> op \<noteq> 0x4E77 \<and> op AND 0xFFF8 \<noteq> 0x4E50 \<and> op AND 0xFFF8 \<noteq> 0x4E58 \<and> op AND 0xFFF8 \<noteq> 0x4E60 \<and>
    op AND 0xFFF8 \<noteq> 0x4E68 \<and> op AND 0xFFF0 \<noteq> 0x4E40 \<and> op AND 0xFFF0 \<noteq> 0x4E60" for op :: u16
  using mask_narrow [of op "0xFFF8" _ "0xFFC0"] mask_narrow [of op "0xFFF0" _ "0xFFC0"] by auto

lemma swap_ext_pc: "cpc (step_swap r m) = cpc m" "cpc (step_ext op m) = cpc m"
  by (simp_all add: step_swap_def step_ext_def Let_def)

lemma operand_4_pc:
  assumes "opf op 3 7 \<noteq> 7 \<or> opf op 0 7 \<noteq> 4"
  shows "cpc (step_nbcd op m) = cpc m + ea_ext_bytes (opf op 3 7) (opf op 0 7) 4"
    "cpc (step_pea op m) = cpc m + ea_ext_bytes (opf op 3 7) (opf op 0 7) 4"
    "cpc (step_lea op m) = cpc m + ea_ext_bytes (opf op 3 7) (opf op 0 7) 4"
    "cpc (step_move_sr op m) = cpc m + ea_ext_bytes (opf op 3 7) (opf op 0 7) 4"
  using ext_bytes_size(1) [OF assms]
  by (auto simp: step_nbcd_def step_pea_def step_lea_def step_move_sr_def case_prod_beta Let_def)

lemma unary_4_pc:
  assumes "opf op 3 7 \<noteq> 7 \<or> opf op 0 7 \<noteq> 4"
    and "if opf op 6 3 = 3 then opf op 8 0xF = 0xA else opf op 8 0xF \<in> {0, 2, 4, 6, 0xA}"
  shows "cpc (step_4_unary op p m) = cpc m + ea_ext_bytes (opf op 3 7) (opf op 0 7) 4"
proof (cases "opf op 6 3 = 3")
  case True
  thus ?thesis using assms(2) ext_bytes_size(1) [OF assms(1), of 2]
    by (simp add: step_4_unary_def step_tas_def case_prod_beta Let_def)
next
  case False
  thus ?thesis using assms(2) ext_bytes_size(1) [OF assms(1), of "op_size_of (opf op 6 3)"]
    by (simp add: step_4_unary_def case_prod_beta Let_def)
qed

lemma length_4_ea:
  assumes "op AND 0xFFC0 \<noteq> 0x4E40" "straight_4_ea op" "op \<noteq> 0x44FC" "op \<noteq> 0x46FC"
  shows "cpc (step_4_ea op p m) = cpc m + (fst (decode_4 op) - 2)"
proof -
  let ?x = "ea_ext_bytes (opf op 3 7) (opf op 0 7) 4"
  have n: "opf op 3 7 \<noteq> 7 \<or> opf op 0 7 \<noteq> 4" and
    s: "op AND 0xFFC0 \<noteq> 0x4EC0" "op AND 0xFFC0 \<noteq> 0x4E80" "opf op 6 7 \<noteq> 5" "opf op 6 7 \<noteq> 6"
    using assms by (auto simp: straight_4_ea_def Let_def)
  have d: "fst (decode_4 op) = (if op AND 0xFFF8 = 0x4840 \<or> op AND 0xFFB8 = 0x4880 then 2
      else if op AND 0xFB80 = 0x4880 then 4 + ?x else 2 + ?x)"
    using not_4E [OF assms(1)] s ext_bytes_size(1) [OF n] by (simp add: decode_4_def Let_def)
  have e: "op AND 0xFB80 = 0x4880 \<Longrightarrow> op AND 0xFFC0 \<noteq> 0x4800 \<and> op AND 0xFFC0 \<noteq> 0x4840 \<and> opf op 6 7 \<noteq> 7"
    using mask_narrow [of op "0xFFC0" _ "0xFB80"] movem_form [of op] by auto
  have f: "op AND 0xFFC0 = 0x40C0 \<or> op AND 0xFFC0 = 0x44C0 \<or> op AND 0xFFC0 = 0x46C0 \<Longrightarrow> op AND 0xFB80 \<noteq> 0x4880"
    using mask_narrow [of op "0xFFC0" _ "0xFB80"] by auto
  show ?thesis using assms(2-) s e f operand_4_pc [OF n] unary_4_pc [OF n] movem_step_pc [OF n]
    by (auto simp: d step_4_ea_def straight_4_ea_def swap_ext_pc Let_def)
qed

definition straight_4 :: "u16 \<Rightarrow> bool" where
  "straight_4 op \<longleftrightarrow> (if op AND 0xFFC0 = 0x4E40
     then op = 0x4E71 \<or> op AND 0xFFF8 = 0x4E50 \<or> op AND 0xFFF8 = 0x4E58 \<or> op AND 0xFFF8 = 0x4E60 \<or> op AND 0xFFF8 = 0x4E68
     else straight_4_ea op)"

lemma link_pc: "cpc (step_link r m) = cpc m + 2" "cpc (step_unlk r m) = cpc m"
  by (simp_all add: step_link_def step_unlk_def case_prod_beta Let_def)

lemma length_4:
  assumes "straight_4 op"
  shows "cpc (step_4 op p m) = cpc m + (fst (decode_4 op) - 2)"
proof (cases "op AND 0xFFC0 = 0x4E40")
  case True
  hence "op = 0x4E71 \<or> op AND 0xFFF8 = 0x4E50 \<or> op AND 0xFFF8 = 0x4E58 \<or> op AND 0xFFF8 = 0x4E60 \<or> op AND 0xFFF8 = 0x4E68"
    using assms by (simp add: straight_4_def)
  thus ?thesis
    using mask_narrow [of op "0xFFF8" _ "0xFFF0"] True
    by (elim disjE) (auto simp: step_4_def decode_4_def link_pc Let_def)
next
  case False
  hence ea: "straight_4_ea op" using assms by (simp add: straight_4_def)
  have "step_4 op p m = step_4_ea op p m" using not_4E [OF False] by (simp add: step_4_def)
  moreover have "cpc (step_4_ea op p m) = cpc m + (fst (decode_4 op) - 2)" if "op = 0x44FC \<or> op = 0x46FC"
    using that by (elim disjE) (simp_all add: step_4_ea_def step_move_sr_def decode_4_def opf_def ea_ext_bytes_def case_prod_beta Let_def)
  ultimately show ?thesis using length_4_ea [OF False ea] by metis
qed

subsection \<open>Decoded lengths\<close>

definition straight :: "u16 \<Rightarrow> bool" where
  "straight op \<longleftrightarrow>
     (let top = opf op 12 0xF; mode = opf op 3 7; reg = opf op 0 7; szf = opf op 6 3 in
      if top = 0 then bit op 8 \<or> opf op 9 7 \<noteq> 7
      else if top = 4 then straight_4 op
      else if top = 5 then szf = 3 \<longrightarrow> mode \<noteq> 1 \<and> \<not> (mode = 7 \<and> reg = 4)
      else if top = 8 then szf \<noteq> 3
      else if top = 0xE then szf = 3 \<longrightarrow> ea_is_mem mode reg
      else top \<noteq> 6 \<and> top \<noteq> 0xA \<and> top \<noteq> 0xF)"

lemma straight_4_falls_through: "straight_4 op \<Longrightarrow> \<not> snd (decode_4 op)"
proof -
  assume s: "straight_4 op"
  have "op AND 0xFFF8 = 0x4E50 \<or> op AND 0xFFF8 = 0x4E58 \<or> op AND 0xFFF8 = 0x4E60 \<or> op AND 0xFFF8 = 0x4E68 \<Longrightarrow>
      op AND 0xFFF0 \<noteq> 0x4E40"
    using mask_narrow [of op "0xFFF8" _ "0xFFF0"] by auto
  with s show ?thesis using not_4E [of op]
    by (auto simp: straight_4_def straight_4_ea_def decode_4_def Let_def split: if_splits)
qed

lemma opf_bound: "opf op n 0xF < 16"
  using word_and_le1 [of "drop_bit n op" "0xF"] by (simp add: opf_def word_le_nat_alt)

lemma dispatch_length:
  assumes "straight op"
  shows "cpc (dispatch op p m) = cpc m + (fst (decode_op op) - 2) \<and> \<not> snd (decode_op op)"
proof -
  have "opf op 12 0xF \<in> {0, 1, 2, 3, 4, 5, 7, 8, 9, 0xB, 0xC, 0xD, 0xE}"
  proof -
    have "opf op 12 0xF \<noteq> 6 \<and> opf op 12 0xF \<noteq> 10 \<and> opf op 12 0xF \<noteq> 15" using assms by (auto simp: straight_def)
    thus ?thesis using opf_bound [of op 12] unfolding insert_iff empty_iff by presburger
  qed
  thus ?thesis using assms
    by (elim insertE emptyE)
       (simp_all add: dispatch_def decode_op_def straight_def length_0 length_move length_4 straight_4_falls_through length_5 length_7
          div_pc length_9D length_B length_C length_E Let_def)
qed

lemma ext_bytes_values: "ea_ext_bytes md r sz \<in> {0, 2, 4}"
  by (simp add: ea_ext_bytes_def)

lemma ext_bytes_sums: "2 + ea_ext_bytes md r sz \<in> {2, 4, 6, 8, 10}" "4 + ea_ext_bytes md r sz \<in> {2, 4, 6, 8, 10}"
  "6 + ea_ext_bytes md r sz \<in> {2, 4, 6, 8, 10}" "2 + ea_ext_bytes md r sz + ea_ext_bytes md' r' sz' \<in> {2, 4, 6, 8, 10}"
  using ext_bytes_values [of md r sz] ext_bytes_values [of md' r' sz'] by auto

lemma decoded_values: "fst (decode_op op) \<in> {2, 4, 6, 8, 10}"
proof -
  have "decode_0 op \<in> {2, 4, 6, 8, 10}" using ext_bytes_sums by (simp add: decode_0_def Let_def)
  moreover have "decode_move op \<in> {2, 4, 6, 8, 10}" using ext_bytes_sums(4) by (simp only: decode_move_def Let_def)
  moreover have "fst (decode_4 op) \<in> {2, 4, 6, 8, 10}" using ext_bytes_sums by (simp add: decode_4_def Let_def)
  moreover have "decode_alu op \<in> {2, 4, 6, 8, 10}" using ext_bytes_sums(1) by (simp only: decode_alu_def Let_def)
  ultimately show ?thesis using ext_bytes_sums(1) by (simp add: decode_op_def Let_def)
qed

text \<open>C29: The block decoder measures instructions as the interpreter executes them: an instruction that neither
  transfers control nor can trap, with a straight opcode, leaves the program counter the decoded length
  further on and does not end the block. MOVE, ALU, shift, MOVEM, LEA, PEA, LINK, bit and immediate instructions
  with every addressing mode are straight.\<close>

theorem decoded_length:
  assumes "halted (m_cpu m) = 0" "straight (fst (mac_read16 m (pc (m_cpu m))))"
  shows "let d = fst (m68k_decode_at (pc (m_cpu m)) m) in
    pc (m_cpu (m68k_step m)) = pc (m_cpu m) + dec_length d \<and> \<not> dec_ends_block d \<and> dec_length d \<in> {2, 4, 6, 8, 10}"
proof -
  let ?m = "upd_cpu (\<lambda>c. c\<lparr>instrs := instrs c + 1\<rparr>) m" and ?op = "fst (mac_read16 m (pc (m_cpu m)))"
  have e: "?m = put_regs (m_cpu ?m) m" by (simp add: put_regs_def)
  have "fst (mac_read16 ?m a) = fst (mac_read16 m a)" for a
    using regfree.read16 [of "m_cpu ?m" m a, folded e] by simp
  hence f: "fst (fetch16 ?m) = ?op" by (simp add: fetch16_def case_prod_beta)
  have "cpc (m68k_step m) = cpc m + 2 + (fst (decode_op ?op) - 2)"
    using assms(1) dispatch_length [OF assms(2)] f by (simp add: m68k_step_def Let_def case_prod_beta)
  moreover have "fst (m68k_decode_at (cpc m) m) =
      \<lparr>dec_length = fst (decode_op ?op), dec_ends_block = False, dec_opcode = ?op\<rparr>"
    using dispatch_length [OF assms(2)] decoded_values [of ?op] by (auto simp: m68k_decode_at_def case_prod_beta Let_def)
  ultimately show ?thesis using decoded_values [of ?op] by (simp add: Let_def)
qed

definition fetch_machine :: machine where
  "fetch_machine = user_machine\<lparr>m_ram := (m_ram user_machine)(0x1234 := 0x22, 0x1235 := 0x3C)\<rparr>"

theorem decoded_length_witness:
  "pc (m_cpu (m68k_step fetch_machine)) = 0x1234 + dec_length (fst (m68k_decode_at 0x1234 fetch_machine))"
proof -
  have p: "pc (m_cpu fetch_machine) = 0x1234" "halted (m_cpu fetch_machine) = 0"
    by (simp_all add: fetch_machine_def user_machine_cpu cpu_zero_def)
  have "fst (mac_read16 fetch_machine 0x1234) = 0x223C"
    by (simp add: fetch_machine_def user_machine_def ram_machine_def mac_mem_init_def MAC_RAM_SIZE_DEFAULT_def mac_read16_def mem_ptr_def ram_at_def
        place_byte_def MAC_ROM_BASE_def case_prod_beta Let_def)
  hence "straight (fst (mac_read16 fetch_machine (pc (m_cpu fetch_machine))))" by (simp add: p straight_def opf_def)
  from decoded_length [OF p(2) this] show ?thesis by (simp add: p Let_def)
qed

end
