(* ===== verification/CodeCache.thy ===== *)
theory CodeCache
  imports Prelude
begin

text \<open>
  jit/codecache.c: the arena for compiled blocks, with its bump, ring and free-list allocators. A pointer into
  the arena is its offset from the base, a null pointer is None. The free list is intrusive: the header
  of a free span, its size and the offset of the next span, is stored in the first eight bytes of the span; the
  model keeps the header at an offset in \<open>cc_hdr\<close>.
\<close>

subsection \<open>State\<close>

record cc_free_hdr =
  hd_size :: u32
  hd_next :: u32

record codecache =
  cc_hdr :: "u32 \<Rightarrow> cc_free_hdr"
  cc_used :: u32
  cc_cap :: u32
  cc_mode :: u8
  cc_free_head :: u32

definition CC_NIL :: u32 where "CC_NIL = 0xFFFFFFFF"
definition CC_ALIGN :: u32 where "CC_ALIGN = 8"
definition CC_MODE_BUMP :: u8 where "CC_MODE_BUMP = 0"
definition CC_MODE_LRU :: u8 where "CC_MODE_LRU = 1"
definition CC_MODE_FIFO :: u8 where "CC_MODE_FIFO = 2"
definition CC_HDR_SIZE :: u32 where "CC_HDR_SIZE = 8"

definition cc_align :: "u32 \<Rightarrow> u32" where
  "cc_align v = (v + (CC_ALIGN - 1)) AND NOT (CC_ALIGN - 1)"

text \<open>Stores to the fields of a header.\<close>

definition set_hdr :: "u32 \<Rightarrow> u32 \<Rightarrow> u32 \<Rightarrow> codecache \<Rightarrow> codecache" where
  "set_hdr o' s n cc = cc\<lparr>cc_hdr := (cc_hdr cc)(o' := \<lparr>hd_size = s, hd_next = n\<rparr>)\<rparr>"

text \<open>\<open>prev\<close>'s link, or the head of the list when there is no \<open>prev\<close>.\<close>

definition set_link :: "u32 \<Rightarrow> u32 \<Rightarrow> codecache \<Rightarrow> codecache" where
  "set_link prev n cc =
     (if prev = CC_NIL then cc\<lparr>cc_free_head := n\<rparr>
      else cc\<lparr>cc_hdr := (cc_hdr cc)(prev := (cc_hdr cc prev)\<lparr>hd_next := n\<rparr>)\<rparr>)"

text \<open>The whole arena as one free span, in the free-list mode.\<close>

definition whole_arena :: "codecache \<Rightarrow> codecache" where
  "whole_arena cc =
     (if cc_mode cc = CC_MODE_LRU \<and> cc_cap cc \<ge> CC_HDR_SIZE
      then (set_hdr 0 (cc_cap cc) CC_NIL cc)\<lparr>cc_free_head := 0\<rparr> else cc)"

definition codecache_init :: "(u32 \<Rightarrow> cc_free_hdr) \<Rightarrow> u32 \<Rightarrow> u8 \<Rightarrow> codecache" where
  "codecache_init arena cap mode =
     whole_arena \<lparr>cc_hdr = arena, cc_used = 0, cc_cap = cap AND NOT (CC_ALIGN - 1), cc_mode = mode, cc_free_head = CC_NIL\<rparr>"

definition codecache_reset :: "codecache \<Rightarrow> codecache" where
  "codecache_reset cc = whole_arena (cc\<lparr>cc_used := 0, cc_free_head := CC_NIL\<rparr>)"

subsection \<open>The free-list allocator\<close>

text \<open>Alignment of a request, at least the size of a header.\<close>

definition lru_round :: "u32 \<Rightarrow> u32" where
  "lru_round sz = (let sz = cc_align sz in if sz < CC_HDR_SIZE then CC_HDR_SIZE else sz)"

text \<open>The first-fit walk: the span before the one that fits, and that span.\<close>

partial_function (option) first_fit :: "u32 \<Rightarrow> codecache \<Rightarrow> u32 \<Rightarrow> u32 \<Rightarrow> (u32 \<times> u32) option option" where
  "first_fit sz cc prev cur =
     (if cur = CC_NIL then Some None
      else if hd_size (cc_hdr cc cur) \<ge> sz then Some (Some (prev, cur))
      else first_fit sz cc cur (hd_next (cc_hdr cc cur)))"

definition carve :: "u32 \<Rightarrow> u32 \<Rightarrow> u32 \<Rightarrow> codecache \<Rightarrow> codecache" where
  "carve sz prev cur cc =
     (let h = cc_hdr cc cur; leftover = hd_size h - sz in
      if leftover \<ge> CC_HDR_SIZE
      then let toff = cur + sz in set_link prev toff (set_hdr toff leftover (hd_next h) cc)
      else set_link prev (hd_next h) cc)"

text \<open>The eviction callback works on the cache and on the state \<open>'s\<close> of its owner; it returns how many bytes it
  gave back, 0 for none. None stands for a null callback.\<close>

partial_function (option) lru_retry ::
    "(codecache \<times> 's \<Rightarrow> u32 \<times> codecache \<times> 's) option \<Rightarrow> u32 \<Rightarrow> codecache \<times> 's \<Rightarrow> (u32 option \<times> codecache \<times> 's) option" where
  "lru_retry evict sz st =
     (case first_fit sz (fst st) CC_NIL (cc_free_head (fst st)) of
        None \<Rightarrow> None
      | Some (Some (prev, cur)) \<Rightarrow> Some (Some cur, carve sz prev cur (fst st), snd st)
      | Some None \<Rightarrow>
          (case evict of
             None \<Rightarrow> Some (None, st)
           | Some f \<Rightarrow> (let (n, st) = f st in if n = 0 then Some (None, st) else lru_retry evict sz st)))"

definition lru_alloc ::
    "(codecache \<times> 's \<Rightarrow> u32 \<times> codecache \<times> 's) option \<Rightarrow> u32 \<Rightarrow> codecache \<times> 's \<Rightarrow> (u32 option \<times> codecache \<times> 's) option" where
  "lru_alloc evict sz st =
     (let sz = lru_round sz in if sz > cc_cap (fst st) then Some (None, st) else lru_retry evict sz st)"

partial_function (option) free_place :: "u32 \<Rightarrow> codecache \<Rightarrow> u32 \<Rightarrow> u32 \<Rightarrow> (u32 \<times> u32) option" where
  "free_place offset cc prev cur =
     (if cur \<noteq> CC_NIL \<and> cur < offset then free_place offset cc cur (hd_next (cc_hdr cc cur)) else Some (prev, cur))"

definition free_at :: "u32 \<Rightarrow> u32 \<Rightarrow> u32 \<Rightarrow> u32 \<Rightarrow> codecache \<Rightarrow> codecache" where
  "free_at offset sz prev cur cc =
     (let cc = set_link prev offset (set_hdr offset sz cur cc);
          nh = cc_hdr cc offset; ch = cc_hdr cc cur;
          cc = (if cur \<noteq> CC_NIL \<and> offset + hd_size nh = cur
                then set_hdr offset (hd_size nh + hd_size ch) (hd_next ch) cc else cc);
          nh = cc_hdr cc offset; ph = cc_hdr cc prev
      in if prev \<noteq> CC_NIL \<and> prev + hd_size ph = offset
         then set_hdr prev (hd_size ph + hd_size nh) (hd_next nh) cc else cc)"

definition lru_free :: "u32 \<Rightarrow> u32 \<Rightarrow> codecache \<Rightarrow> codecache option" where
  "lru_free offset sz cc =
     (case free_place offset cc CC_NIL (cc_free_head cc) of
        None \<Rightarrow> None
      | Some (prev, cur) \<Rightarrow> Some (free_at offset (lru_round sz) prev cur cc))"

subsection \<open>The ring and the bump allocator\<close>

definition fifo_alloc :: "(u32 \<Rightarrow> u32 \<Rightarrow> 's \<Rightarrow> 's) option \<Rightarrow> u32 \<Rightarrow> codecache \<times> 's \<Rightarrow> u32 option \<times> codecache \<times> 's" where
  "fifo_alloc evict_range sz st =
     (let (cc, s) = st; sz = cc_align sz in
      if sz > cc_cap cc then (None, cc, s)
      else
        (let cc = (if cc_used cc + sz > cc_cap cc then cc\<lparr>cc_used := 0\<rparr> else cc);
             start = cc_used cc;
             s = (case evict_range of None \<Rightarrow> s | Some f \<Rightarrow> f start (start + sz) s)
         in (Some start, cc\<lparr>cc_used := cc_used cc + sz\<rparr>, s)))"

definition bump_alloc :: "u32 \<Rightarrow> codecache \<Rightarrow> u32 option \<times> codecache" where
  "bump_alloc sz cc =
     (let cc = cc\<lparr>cc_used := cc_align (cc_used cc)\<rparr> in
      if cc_used cc + sz > cc_cap cc then (None, cc)
      else (Some (cc_used cc), cc\<lparr>cc_used := cc_used cc + sz\<rparr>))"

subsection \<open>The interface\<close>

definition codecache_alloc ::
    "(codecache \<times> 's \<Rightarrow> u32 \<times> codecache \<times> 's) option \<Rightarrow> (u32 \<Rightarrow> u32 \<Rightarrow> 's \<Rightarrow> 's) option \<Rightarrow> u32 \<Rightarrow> codecache \<times> 's \<Rightarrow>
     (u32 option \<times> codecache \<times> 's) option" where
  "codecache_alloc evict evict_range sz st =
     (if cc_mode (fst st) = CC_MODE_LRU then lru_alloc evict sz st
      else if cc_mode (fst st) = CC_MODE_FIFO then Some (fifo_alloc evict_range sz st)
      else let (p, cc) = bump_alloc sz (fst st) in Some (p, cc, snd st))"

definition codecache_free :: "u32 \<Rightarrow> u32 \<Rightarrow> codecache \<Rightarrow> codecache option" where
  "codecache_free offset sz cc = (if cc_mode cc = CC_MODE_LRU then lru_free offset sz cc else Some cc)"

definition codecache_trim :: "u32 \<Rightarrow> u32 \<Rightarrow> u32 \<Rightarrow> codecache \<Rightarrow> codecache option" where
  "codecache_trim block actual reserved cc =
     (let actual = cc_align actual in
      if cc_mode cc = CC_MODE_LRU
      then let reserved = cc_align reserved
           in if reserved > actual then lru_free (block + actual) (reserved - actual) cc else Some cc
      else Some (cc\<lparr>cc_used := block + actual\<rparr>))"

subsection \<open>The free list\<close>

text \<open>The spans linked from \<open>p\<close> up to the offset \<open>q\<close>, and what a good list of spans is: aligned spans in the
  arena, in address order and with a gap between any two.\<close>

primrec seg :: "(u32 \<Rightarrow> cc_free_hdr) \<Rightarrow> u32 \<Rightarrow> (u32 \<times> u32) list \<Rightarrow> u32 \<Rightarrow> bool" where
  "seg h p [] q = (p = q)"
| "seg h p (s # ss) q = (p = fst s \<and> hd_size (h p) = snd s \<and> seg h (hd_next (h p)) ss q)"

definition span_ok :: "nat \<Rightarrow> u32 \<times> u32 \<Rightarrow> bool" where
  "span_ok cap s \<longleftrightarrow> 8 dvd unat (fst s) \<and> 8 dvd unat (snd s) \<and> 0 < unat (snd s) \<and> unat (fst s) + unat (snd s) \<le> cap"

definition apart :: "u32 \<times> u32 \<Rightarrow> u32 \<times> u32 \<Rightarrow> bool" where
  "apart s t \<longleftrightarrow> unat (fst s) + unat (snd s) < unat (fst t)"

definition spans_ok :: "nat \<Rightarrow> (u32 \<times> u32) list \<Rightarrow> bool" where
  "spans_ok cap ss \<longleftrightarrow> sorted_wrt apart ss \<and> (\<forall>s \<in> set ss. span_ok cap s)"

definition free_list :: "codecache \<Rightarrow> (u32 \<times> u32) list \<Rightarrow> bool" where
  "free_list cc ss \<longleftrightarrow> seg (cc_hdr cc) (cc_free_head cc) ss CC_NIL \<and> spans_ok (unat (cc_cap cc)) ss"

definition span_bytes :: "u32 \<times> u32 \<Rightarrow> nat set" where
  "span_bytes s = {unat (fst s) ..< unat (fst s) + unat (snd s)}"

definition bytes_of :: "(u32 \<times> u32) list \<Rightarrow> nat set" where
  "bytes_of ss = (\<Union>s \<in> set ss. span_bytes s)"

lemma bytes_of_simps [simp]: "bytes_of [] = {}" "bytes_of (s # ss) = span_bytes s \<union> bytes_of ss"
  "bytes_of (ss @ ts) = bytes_of ss \<union> bytes_of ts"
  by (auto simp: bytes_of_def)

lemma seg_append: "seg h p (ss @ ts) q \<longleftrightarrow> (\<exists>r. seg h p ss r \<and> seg h r ts q)"
  by (induction ss arbitrary: p) auto

lemma seg_upd [simp]: "k \<notin> fst ` set ss \<Longrightarrow> seg (h(k := v)) p ss q = seg h p ss q"
  by (induction ss arbitrary: p) auto

lemma nil_misaligned: "8 dvd unat p \<Longrightarrow> p \<noteq> CC_NIL"
  by (auto simp: CC_NIL_def)

lemma span_not_nil: "span_ok cap s \<Longrightarrow> fst s \<noteq> CC_NIL"
  by (simp add: span_ok_def nil_misaligned)

text \<open>The span before the rest of the list, as the code's \<open>prev\<close>.\<close>

definition before :: "(u32 \<times> u32) list \<Rightarrow> u32" where
  "before ss = (if ss = [] then CC_NIL else fst (last ss))"

lemma before_simps [simp]: "before [] = CC_NIL" "before (ss @ [s]) = fst s"
  by (simp_all add: before_def)

lemma first_fit_walk:
  "seg (cc_hdr cc) cur ts CC_NIL \<Longrightarrow> \<forall>s \<in> set ts. span_ok cap s \<Longrightarrow>
   first_fit sz cc (before ss) cur =
     (case dropWhile (\<lambda>s. snd s < sz) ts of [] \<Rightarrow> Some None
      | t # _ \<Rightarrow> Some (Some (before (ss @ takeWhile (\<lambda>s. snd s < sz) ts), fst t)))"
proof (induction ts arbitrary: cur ss)
  case Nil
  thus ?case by (subst first_fit.simps) simp
next
  case (Cons t ts)
  have n: "fst t \<noteq> CC_NIL" using Cons.prems span_not_nil [of cap t] by simp
  have e: "cur = fst t" "hd_size (cc_hdr cc (fst t)) = snd t" "seg (cc_hdr cc) (hd_next (cc_hdr cc (fst t))) ts CC_NIL"
    "\<forall>s \<in> set ts. span_ok cap s"
    using Cons.prems by auto
  show ?case
  proof (cases "snd t < sz")
    case True
    hence "\<not> sz \<le> snd t" by simp
    hence "first_fit sz cc (before ss) cur = first_fit sz cc (before (ss @ [t])) (hd_next (cc_hdr cc (fst t)))"
      using n e by (subst first_fit.simps) simp
    thus ?thesis using Cons.IH [OF e(3,4), of "ss @ [t]"] True
      by (cases "dropWhile (\<lambda>s. snd s < sz) ts") (simp_all del: dropWhile_eq_Nil_conv)
  next
    case False
    show ?thesis using n e by (subst first_fit.simps) (simp add: False leI [OF False])
  qed
qed

lemma free_place_walk:
  "seg (cc_hdr cc) cur ts CC_NIL \<Longrightarrow> \<forall>s \<in> set ts. span_ok cap s \<Longrightarrow>
   free_place off cc (before ss) cur =
     Some (before (ss @ takeWhile (\<lambda>s. fst s < off) ts),
           (case dropWhile (\<lambda>s. fst s < off) ts of [] \<Rightarrow> CC_NIL | t # _ \<Rightarrow> fst t))"
proof (induction ts arbitrary: cur ss)
  case Nil
  thus ?case by (subst free_place.simps) simp
next
  case (Cons t ts)
  have n: "fst t \<noteq> CC_NIL" using Cons.prems span_not_nil [of cap t] by simp
  have e: "cur = fst t" "hd_size (cc_hdr cc (fst t)) = snd t" "seg (cc_hdr cc) (hd_next (cc_hdr cc (fst t))) ts CC_NIL"
    "\<forall>s \<in> set ts. span_ok cap s"
    using Cons.prems by auto
  show ?case
  proof (cases "fst t < off")
    case True
    hence "free_place off cc (before ss) cur = free_place off cc (before (ss @ [t])) (hd_next (cc_hdr cc (fst t)))"
      using n e by (subst free_place.simps) simp
    thus ?thesis using Cons.IH [OF e(3,4), of "ss @ [t]"] True by simp
  next
    case False
    thus ?thesis using n e by (subst free_place.simps) simp
  qed
qed

lemma link_at:
  assumes "seg (cc_hdr cc) (cc_free_head cc) ss r" "distinct (map fst ss)" "CC_NIL \<notin> fst ` set ss"
  shows "seg (cc_hdr (set_link (before ss) n cc)) (cc_free_head (set_link (before ss) n cc)) ss n"
proof (cases ss rule: rev_cases)
  case Nil
  thus ?thesis by (simp add: set_link_def)
next
  case (snoc xs x)
  thus ?thesis using assms by (auto simp: set_link_def seg_append)
qed

lemma link_other: "k \<noteq> before ss \<or> ss = [] \<Longrightarrow> CC_NIL \<notin> fst ` set ss \<Longrightarrow> cc_hdr (set_link (before ss) n cc) k = cc_hdr cc k"
  by (cases ss rule: rev_cases) (auto simp: set_link_def)

lemma seg_cong: "\<forall>k \<in> fst ` set ss. h' k = h k \<Longrightarrow> seg h' p ss q = seg h p ss q"
  by (induction ss arbitrary: p) auto

lemma spans_ok_split:
  "spans_ok cap (ss @ t # ts) \<longleftrightarrow> spans_ok cap ss \<and> spans_ok cap ts \<and> span_ok cap t \<and>
     (\<forall>s \<in> set ss. apart s t) \<and> (\<forall>u \<in> set ts. apart t u)"
proof -
  have "apart s u" if "apart s t" "apart t u" for s u
    using that by (auto simp: apart_def)
  thus ?thesis by (auto simp: spans_ok_def sorted_wrt_append)
qed

lemma spans_distinct: "spans_ok cap ss \<Longrightarrow> distinct (map fst ss)"
  by (induction ss) (auto simp: spans_ok_def apart_def span_ok_def)

lemma spans_not_nil: "spans_ok cap ss \<Longrightarrow> CC_NIL \<notin> fst ` set ss"
  using span_not_nil by (fastforce simp: spans_ok_def)

lemma before_in: "ss \<noteq> [] \<Longrightarrow> before ss \<in> fst ` set ss"
  by (simp add: before_def)

text \<open>Relinking the list after \<open>ss\<close>: the spans of \<open>ss\<close> now lead to \<open>n\<close>, and every other header is as before.\<close>

lemma relink:
  assumes "seg (cc_hdr cc) (cc_free_head cc) ss r" "spans_ok cap ss"
  shows "seg (cc_hdr (set_link (before ss) n cc)) (cc_free_head (set_link (before ss) n cc)) ss n"
    and "k \<notin> fst ` set ss \<Longrightarrow> cc_hdr (set_link (before ss) n cc) k = cc_hdr cc k"
    and "\<forall>t \<in> set ts. fst t \<notin> fst ` set ss \<Longrightarrow> seg (cc_hdr (set_link (before ss) n cc)) p ts q = seg (cc_hdr cc) p ts q"
proof -
  note nil = spans_not_nil [OF assms(2)]
  show "seg (cc_hdr (set_link (before ss) n cc)) (cc_free_head (set_link (before ss) n cc)) ss n"
    by (rule link_at [OF assms(1) spans_distinct [OF assms(2)] nil])
  show o: "k \<notin> fst ` set ss \<Longrightarrow> cc_hdr (set_link (before ss) n cc) k = cc_hdr cc k" for k
    using link_other [OF _ nil, of k n cc] before_in [of ss] by auto
  show "\<forall>t \<in> set ts. fst t \<notin> fst ` set ss \<Longrightarrow> seg (cc_hdr (set_link (before ss) n cc)) p ts q = seg (cc_hdr cc) p ts q"
    by (rule seg_cong) (simp add: o)
qed

lemma set_link_fields [simp]: "cc_cap (set_link p n cc) = cc_cap cc" "cc_mode (set_link p n cc) = cc_mode cc"
  "cc_used (set_link p n cc) = cc_used cc"
  by (simp_all add: set_link_def)

lemma set_hdr_fields [simp]: "cc_cap (set_hdr p s n cc) = cc_cap cc" "cc_mode (set_hdr p s n cc) = cc_mode cc"
  "cc_used (set_hdr p s n cc) = cc_used cc" "cc_free_head (set_hdr p s n cc) = cc_free_head cc"
  "cc_hdr (set_hdr p s n cc) = (cc_hdr cc)(p := \<lparr>hd_size = s, hd_next = n\<rparr>)"
  by (simp_all add: set_hdr_def)

lemma unat_split: "sz \<le> n \<Longrightarrow> unat (n - sz) = unat n - unat sz" for n sz :: u32
  by (simp add: unat_sub)

lemma unat_offset: "unat c + unat sz < 2 ^ 32 \<Longrightarrow> unat (c + sz) = unat c + unat sz" for c sz :: u32
  using unat_add_lem [of c sz] by simp

lemma carve_spans:
  assumes "spans_ok cap (ss @ (c, n) # ts)" "sz \<le> n" "8 dvd unat sz" "0 < unat sz" "cap < 2 ^ 32"
  defines "m \<equiv> (if n - sz \<ge> CC_HDR_SIZE then [(c + sz, n - sz)] else [])"
  shows "spans_ok cap (ss @ m @ ts)" "bytes_of (ss @ (c, n) # ts) = span_bytes (c, sz) \<union> bytes_of (ss @ m @ ts)"
    "span_bytes (c, sz) \<inter> bytes_of (ss @ m @ ts) = {}" "\<not> n - sz \<ge> CC_HDR_SIZE \<Longrightarrow> n = sz"
proof -
  have p: "span_ok cap (c, n)" "\<forall>s \<in> set ss. apart s (c, n)" "\<forall>t \<in> set ts. apart (c, n) t" "spans_ok cap ss" "spans_ok cap ts"
    using assms(1) by (simp_all add: spans_ok_split)
  have n: "unat (n - sz) = unat n - unat sz" "unat sz \<le> unat n"
    using assms(2) by (simp_all add: unat_split word_le_nat_alt)
  have c: "unat (c + sz) = unat c + unat sz"
    using p(1) n(2) assms(5) by (intro unat_offset) (simp add: span_ok_def)
  have d: "8 dvd unat n - unat sz" using p(1) assms(3) by (simp add: span_ok_def dvd_diff_nat)
  have e: "\<not> n - sz \<ge> CC_HDR_SIZE \<Longrightarrow> unat n = unat sz"
  proof -
    assume "\<not> n - sz \<ge> CC_HDR_SIZE"
    hence "unat n - unat sz < 8" using n by (simp add: CC_HDR_SIZE_def word_le_nat_alt)
    with d show "unat n = unat sz" using n(2) by (auto elim: dvdE)
  qed
  thus "\<not> n - sz \<ge> CC_HDR_SIZE \<Longrightarrow> n = sz" by (simp add: word_unat_eq_iff)
  have "span_ok cap (c + sz, n - sz)" if "n - sz \<ge> CC_HDR_SIZE"
    using that p(1) d n c assms(3) by (auto simp: span_ok_def CC_HDR_SIZE_def word_le_nat_alt)
  moreover have "apart s (c + sz, n - sz)" if "s \<in> set ss" for s
    using p(2) that c by (auto simp: apart_def)
  moreover have "apart (c + sz, n - sz) t" if "t \<in> set ts" for t
    using p(3) that c n by (auto simp: apart_def)
  moreover have "apart s t" if "s \<in> set ss" "t \<in> set ts" for s t
    using p(2,3) that by (fastforce simp: apart_def)
  ultimately show "spans_ok cap (ss @ m @ ts)" using p(4,5)
    by (auto simp: m_def spans_ok_split) (auto simp: spans_ok_def sorted_wrt_append)
  have b: "span_bytes (c, n) = span_bytes (c, sz) \<union> bytes_of m" "span_bytes (c, sz) \<inter> bytes_of m = {}"
    using n c e by (auto simp: m_def span_bytes_def)
  thus "bytes_of (ss @ (c, n) # ts) = span_bytes (c, sz) \<union> bytes_of (ss @ m @ ts)" by auto
  have "span_bytes (c, n) \<inter> bytes_of ss = {}" "span_bytes (c, n) \<inter> bytes_of ts = {}"
    using p(2,3) by (fastforce simp: bytes_of_def span_bytes_def apart_def)+
  thus "span_bytes (c, sz) \<inter> bytes_of (ss @ m @ ts) = {}" using b by auto
qed

lemma carve_list:
  assumes "free_list cc (ss @ (c, n) # ts)" "sz \<le> n" "8 dvd unat sz" "0 < unat sz"
  shows "free_list (carve sz (before ss) c cc) (ss @ (if n - sz \<ge> CC_HDR_SIZE then [(c + sz, n - sz)] else []) @ ts)"
proof -
  let ?cap = "unat (cc_cap cc)"
  have ok: "spans_ok ?cap (ss @ (c, n) # ts)" and sg: "seg (cc_hdr cc) (cc_free_head cc) ss c" "hd_size (cc_hdr cc c) = n"
    "seg (cc_hdr cc) (hd_next (cc_hdr cc c)) ts CC_NIL"
    using assms(1) by (auto simp: free_list_def seg_append)
  have cap: "?cap < 2 ^ 32" using unat_bound [of "cc_cap cc"] by simp
  note sp = carve_spans [OF ok assms(2-4) cap]
  have oks: "spans_ok ?cap ss" using ok by (simp add: spans_ok_split)
  show ?thesis
  proof (cases "n - sz \<ge> CC_HDR_SIZE")
    case True
    let ?t = "c + sz" and ?c1 = "set_hdr (c + sz) (n - sz) (hd_next (cc_hdr cc c)) cc"
    have new: "spans_ok ?cap (ss @ (?t, n - sz) # ts)" using sp(1) True by simp
    have ap: "\<forall>s \<in> set ss. apart s (?t, n - sz)" "\<forall>u \<in> set ts. apart (?t, n - sz) u" and pos: "0 < unat (n - sz)"
      using new by (auto simp: spans_ok_split span_ok_def)
    have t1: "?t \<notin> fst ` set ss" using ap(1) by (fastforce simp: apart_def)
    have t2: "?t \<notin> fst ` set ts" using ap(2) by (fastforce simp: apart_def)
    have t3: "\<forall>u \<in> set ts. fst u \<notin> fst ` set ss" using ap by (fastforce simp: apart_def)
    have s1: "seg (cc_hdr ?c1) (cc_free_head ?c1) ss c" using sg(1) t1 by simp
    note r = relink [OF s1 oks, where n = ?t]
    have "seg (cc_hdr ?c1) (hd_next (cc_hdr cc c)) ts CC_NIL" using sg(3) t2 by simp
    hence "seg (cc_hdr (set_link (before ss) ?t ?c1)) (hd_next (cc_hdr cc c)) ts CC_NIL" using r(3) [OF t3] by simp
    moreover have "cc_hdr (set_link (before ss) ?t ?c1) ?t = \<lparr>hd_size = n - sz, hd_next = hd_next (cc_hdr cc c)\<rparr>"
      using r(2) [OF t1] by simp
    ultimately show ?thesis using True new r(1) sg(2)
      by (simp add: carve_def free_list_def seg_append Let_def)
  next
    case False
    have t3: "\<forall>u \<in> set ts. fst u \<notin> fst ` set ss" using ok by (fastforce simp: spans_ok_split apart_def)
    note r = relink [OF sg(1) oks, where n = "hd_next (cc_hdr cc c)"]
    have "seg (cc_hdr (set_link (before ss) (hd_next (cc_hdr cc c)) cc)) (hd_next (cc_hdr cc c)) ts CC_NIL"
      using r(3) [OF t3] sg(3) by simp
    thus ?thesis using False sp(1) r(1) sg(2) by (auto simp: carve_def free_list_def seg_append Let_def)
  qed
qed

subsection \<open>Freeing\<close>

text \<open>The list with a span put between \<open>ss\<close> and \<open>ts\<close>, joined with its neighbours.\<close>

definition join_right :: "u32 \<times> u32 \<Rightarrow> (u32 \<times> u32) list \<Rightarrow> (u32 \<times> u32) list" where
  "join_right s ts = (case ts of t # us \<Rightarrow> if fst s + snd s = fst t then (fst s, snd s + snd t) # us else s # ts | [] \<Rightarrow> [s])"

definition join_left :: "(u32 \<times> u32) list \<Rightarrow> (u32 \<times> u32) list \<Rightarrow> (u32 \<times> u32) list" where
  "join_left ss ts =
     (if ss \<noteq> [] \<and> fst (last ss) + snd (last ss) = fst (hd ts)
      then butlast ss @ (fst (last ss), snd (last ss) + snd (hd ts)) # tl ts else ss @ ts)"

lemma join_left_snoc: "join_left (xs @ [x]) ts =
    (if fst x + snd x = fst (hd ts) then xs @ (fst x, snd x + snd (hd ts)) # tl ts else xs @ x # ts)"
  by (simp add: join_left_def)

text \<open>The next free span begins after the new one, and the spans before end before it.\<close>

definition fits_between :: "nat \<Rightarrow> (u32 \<times> u32) list \<Rightarrow> u32 \<times> u32 \<Rightarrow> (u32 \<times> u32) list \<Rightarrow> bool" where
  "fits_between cap ss s ts \<longleftrightarrow> spans_ok cap (ss @ ts) \<and> span_ok cap s \<and>
     (\<forall>t \<in> set ss. unat (fst t) + unat (snd t) \<le> unat (fst s)) \<and> (\<forall>t \<in> set ts. unat (fst s) + unat (snd s) \<le> unat (fst t))"

lemma unat_end: "span_ok cap s \<Longrightarrow> cap < 2 ^ 32 \<Longrightarrow> unat (fst s + snd s) = unat (fst s) + unat (snd s)"
  by (rule unat_offset) (simp add: span_ok_def)

lemma span_gap: "span_ok cap s \<Longrightarrow> span_ok cap t \<Longrightarrow> cap < 2 ^ 32 \<Longrightarrow> unat (fst s) + unat (snd s) \<le> unat (fst t) \<Longrightarrow>
    fst s + snd s \<noteq> fst t \<Longrightarrow> apart s t"
  using unat_end [of cap s] by (simp add: apart_def word_unat_eq_iff)

lemma spans_ok_append: "spans_ok cap (ss @ ts) \<longleftrightarrow> spans_ok cap ss \<and> spans_ok cap ts \<and> (\<forall>s \<in> set ss. \<forall>t \<in> set ts. apart s t)"
  by (auto simp: spans_ok_def sorted_wrt_append)

lemma spans_ok_Cons: "spans_ok cap (s # ts) \<longleftrightarrow> span_ok cap s \<and> spans_ok cap ts \<and> (\<forall>t \<in> set ts. apart s t)"
  by (auto simp: spans_ok_def)

lemma join_right_ok:
  assumes "fits_between cap ss s ts" "cap < 2 ^ 32"
  shows "spans_ok cap (join_right s ts)" "bytes_of (join_right s ts) = span_bytes s \<union> bytes_of ts"
    "fst (hd (join_right s ts)) = fst s" "join_right s ts \<noteq> []"
proof -
  have f: "spans_ok cap ts" "span_ok cap s" "\<forall>t \<in> set ts. unat (fst s) + unat (snd s) \<le> unat (fst t)"
    using assms(1) by (simp_all add: fits_between_def spans_ok_append)
  note e = unat_end [OF f(2) assms(2)]
  have "spans_ok cap (join_right s ts) \<and> bytes_of (join_right s ts) = span_bytes s \<union> bytes_of ts \<and>
     fst (hd (join_right s ts)) = fst s \<and> join_right s ts \<noteq> []"
  proof (cases ts)
    case Nil
    thus ?thesis using f(2) by (simp add: join_right_def spans_ok_Cons) (simp add: spans_ok_def)
  next
    case (Cons t us)
    have t: "span_ok cap t" "spans_ok cap us" "\<forall>u \<in> set us. apart t u" using f(1) Cons by (simp_all add: spans_ok_Cons)
    show ?thesis
    proof (cases "fst s + snd s = fst t")
      case True
      hence a: "unat (fst t) = unat (fst s) + unat (snd s)" using e by simp
      have b: "unat (snd s + snd t) = unat (snd s) + unat (snd t)"
        using t(1) a assms(2) by (intro unat_offset) (simp add: span_ok_def)
      have "span_ok cap (fst s, snd s + snd t)" using f(2) t(1) a b by (simp add: span_ok_def)
      moreover have "\<forall>u \<in> set us. apart (fst s, snd s + snd t) u" using t(3) a b by (auto simp: apart_def)
      moreover have "span_bytes (fst s, snd s + snd t) = span_bytes s \<union> span_bytes t" using a b by (auto simp: span_bytes_def)
      ultimately show ?thesis using Cons True t(2) by (auto simp: join_right_def spans_ok_Cons)
    next
      case False
      have g: "apart s t" using span_gap [OF f(2) t(1) assms(2) _ False] f(3) Cons by simp
      moreover have "\<forall>u \<in> set us. apart s u" using t(3) g by (auto simp: apart_def)
      ultimately show ?thesis using Cons False f(1,2) t by (auto simp: join_right_def spans_ok_Cons)
    qed
  qed
  thus "spans_ok cap (join_right s ts)" "bytes_of (join_right s ts) = span_bytes s \<union> bytes_of ts"
    "fst (hd (join_right s ts)) = fst s" "join_right s ts \<noteq> []" by simp_all
qed

lemma join_left_ok:
  assumes "spans_ok cap ss" "spans_ok cap ts" "ts \<noteq> []" "cap < 2 ^ 32"
    and "\<forall>t \<in> set ss. unat (fst t) + unat (snd t) \<le> unat (fst (hd ts))"
  shows "spans_ok cap (join_left ss ts) \<and> bytes_of (join_left ss ts) = bytes_of ss \<union> bytes_of ts"
proof (cases ss rule: rev_cases)
  case Nil
  thus ?thesis using assms(2) by (simp add: join_left_def)
next
  case (snoc xs x)
  obtain t us where ts: "ts = t # us" using assms(3) by (cases ts) auto
  have t: "span_ok cap t" "spans_ok cap us" "\<forall>u \<in> set us. apart t u" using assms(2) ts by (simp_all add: spans_ok_Cons)
  have x: "span_ok cap x" "spans_ok cap xs" "\<forall>y \<in> set xs. apart y x"
    using assms(1) snoc by (simp_all add: spans_ok_append spans_ok_Cons)
  have le: "unat (fst x) + unat (snd x) \<le> unat (fst t)" using assms(5) snoc ts by simp
  show ?thesis
  proof (cases "fst x + snd x = fst t")
    case True
    hence a: "unat (fst t) = unat (fst x) + unat (snd x)" using unat_end [OF x(1) assms(4)] by simp
    have b: "unat (snd x + snd t) = unat (snd x) + unat (snd t)"
      using t(1) a assms(4) by (intro unat_offset) (simp add: span_ok_def)
    have "span_ok cap (fst x, snd x + snd t)" using x(1) t(1) a b by (simp add: span_ok_def)
    moreover have "\<forall>u \<in> set us. apart (fst x, snd x + snd t) u" using t(3) a b by (auto simp: apart_def)
    moreover have "\<forall>y \<in> set xs. apart y (fst x, snd x + snd t)" using x(3) by (auto simp: apart_def)
    moreover have "apart y u" if "y \<in> set xs" "u \<in> set us" for y u
      using x(3) t(3) that le by (fastforce simp: apart_def)
    moreover have "span_bytes (fst x, snd x + snd t) = span_bytes x \<union> span_bytes t" using a b by (auto simp: span_bytes_def)
    ultimately show ?thesis using x(2) t(2) snoc ts True
      by (auto simp: join_left_snoc spans_ok_append spans_ok_Cons)
  next
    case False
    have g: "apart x t" by (rule span_gap [OF x(1) t(1) assms(4) le False])
    have "\<forall>y \<in> set xs. apart y t" "\<forall>u \<in> set us. apart x u" using g x(3) t(3) by (fastforce simp: apart_def)+
    moreover have "apart y u" if "y \<in> set xs" "u \<in> set us" for y u
      using x(3) t(3) that le by (fastforce simp: apart_def)
    ultimately show ?thesis using x t g snoc ts False
      by (auto simp: join_left_snoc spans_ok_append spans_ok_Cons)
  qed
qed

text \<open>The list of the code follows.\<close>

lemma insert_list:
  assumes "free_list cc (ss @ ts)" "fits_between (unat (cc_cap cc)) ss (off, sz) ts"
  defines "cur \<equiv> (case ts of [] \<Rightarrow> CC_NIL | t # _ \<Rightarrow> fst t)"
  defines "cc1 \<equiv> set_link (before ss) off (set_hdr off sz cur cc)"
  shows "seg (cc_hdr cc1) (cc_free_head cc1) (ss @ (off, sz) # ts) CC_NIL"
    and "off \<notin> fst ` set ss" "off \<notin> fst ` set ts" "\<forall>t \<in> set ts. fst t \<notin> fst ` set ss"
proof -
  have ok: "spans_ok (unat (cc_cap cc)) ss" "spans_ok (unat (cc_cap cc)) ts" "\<forall>s \<in> set ss. \<forall>t \<in> set ts. apart s t"
    and f: "span_ok (unat (cc_cap cc)) (off, sz)" "\<forall>t \<in> set ss. unat (fst t) + unat (snd t) \<le> unat off"
      "\<forall>t \<in> set ts. unat off + unat sz \<le> unat (fst t)"
    using assms(2) by (simp_all add: fits_between_def spans_ok_append)
  have z: "0 < unat sz" using f(1) by (simp add: span_ok_def)
  have "0 < unat (snd s)" if "s \<in> set ss" for s using ok(1) that by (auto simp: spans_ok_def span_ok_def)
  thus n1: "off \<notin> fst ` set ss" using f(2) by fastforce
  show n2: "off \<notin> fst ` set ts" using f(3) z by fastforce
  show n3: "\<forall>t \<in> set ts. fst t \<notin> fst ` set ss" using ok(3) by (fastforce simp: apart_def)
  obtain r where r: "seg (cc_hdr cc) (cc_free_head cc) ss r" "seg (cc_hdr cc) r ts CC_NIL"
    using assms(1) by (auto simp: free_list_def seg_append)
  have c: "r = cur" using r(2) by (auto simp: cur_def split: list.splits)
  let ?c0 = "set_hdr off sz cur cc"
  have s: "seg (cc_hdr ?c0) (cc_free_head ?c0) ss r" "seg (cc_hdr ?c0) cur ts CC_NIL" using r n1 n2 c by simp_all
  note l = relink [OF s(1) ok(1), where n = off]
  have "cc_hdr cc1 off = \<lparr>hd_size = sz, hd_next = cur\<rparr>" using l(2) [OF n1] by (simp add: cc1_def)
  thus "seg (cc_hdr cc1) (cc_free_head cc1) (ss @ (off, sz) # ts) CC_NIL"
    using l(1) l(3) [OF n3] s(2) by (auto simp: cc1_def seg_append)
qed

lemma seg_merge:
  assumes "seg h p (ss @ s # t # us) q" "fst s \<notin> fst ` set ss" "fst s \<notin> fst ` set us"
  shows "seg (h(fst s := \<lparr>hd_size = hd_size (h (fst s)) + hd_size (h (fst t)), hd_next = hd_next (h (fst t))\<rparr>)) p
     (ss @ (fst s, snd s + snd t) # us) q"
  using assms by (auto simp: seg_append)

lemma free_at_list:
  assumes "free_list cc (ss @ ts)" "fits_between (unat (cc_cap cc)) ss (off, sz) ts"
  shows "free_list (free_at off sz (before ss) (case ts of [] \<Rightarrow> CC_NIL | t # _ \<Rightarrow> fst t) cc)
      (join_left ss (join_right (off, sz) ts))"
proof -
  let ?cap = "unat (cc_cap cc)" and ?cur = "case ts of [] \<Rightarrow> CC_NIL | t # _ \<Rightarrow> fst t"
  define c1 where "c1 = set_link (before ss) off (set_hdr off sz ?cur cc)"
  let ?nh = "cc_hdr c1 off" and ?ch = "cc_hdr c1 ?cur"
  define c2 where "c2 = (if ?cur \<noteq> CC_NIL \<and> off + hd_size ?nh = ?cur then set_hdr off (hd_size ?nh + hd_size ?ch) (hd_next ?ch) c1 else c1)"
  note ins = insert_list [OF assms, folded c1_def]
  have cap: "?cap < 2 ^ 32" using unat_bound [of "cc_cap cc"] by simp
  have ok: "spans_ok ?cap ss" "spans_ok ?cap ts" using assms(2) by (simp_all add: fits_between_def spans_ok_append)
  have nh: "hd_size ?nh = sz" using ins(1) by (auto simp: seg_append)
  have two: "seg (cc_hdr c2) (cc_free_head c2) (ss @ join_right (off, sz) ts) CC_NIL"
  proof (cases ts)
    case Nil
    thus ?thesis using ins(1) by (simp add: join_right_def c2_def)
  next
    case (Cons t us)
    have n: "fst t \<noteq> CC_NIL" using spans_not_nil [OF ok(2)] Cons by auto
    have d: "off \<notin> fst ` set us" using ins(3) Cons by simp
    show ?thesis
    proof (cases "off + sz = fst t")
      case True
      have "seg (cc_hdr c1) (cc_free_head c1) (ss @ (off, sz) # t # us) CC_NIL" using ins(1) Cons by simp
      from seg_merge [OF this] ins(2) d Cons n nh True show ?thesis by (simp add: join_right_def c2_def)
    next
      case False
      thus ?thesis using ins(1) Cons n nh by (simp add: join_right_def c2_def)
    qed
  qed
  note jr = join_right_ok [OF assms(2) cap]
  have le: "\<forall>t \<in> set ss. unat (fst t) + unat (snd t) \<le> unat (fst (hd (join_right (off, sz) ts)))"
    using assms(2) jr(3) by (simp add: fits_between_def)
  have fin: "spans_ok ?cap (join_left ss (join_right (off, sz) ts))"
    using join_left_ok [OF ok(1) jr(1,4) cap le] by simp
  have fa: "free_at off sz (before ss) ?cur cc =
      (if before ss \<noteq> CC_NIL \<and> before ss + hd_size (cc_hdr c2 (before ss)) = off
       then set_hdr (before ss) (hd_size (cc_hdr c2 (before ss)) + hd_size (cc_hdr c2 off)) (hd_next (cc_hdr c2 off)) c2 else c2)"
    by (simp only: free_at_def Let_def c1_def c2_def)
  have caps: "cc_cap (free_at off sz (before ss) ?cur cc) = cc_cap cc" by (simp add: free_at_def Let_def)
  obtain t us where j: "join_right (off, sz) ts = t # us" using jr(4) by (cases "join_right (off, sz) ts") auto
  have t: "fst t = off" using jr(3) j by simp
  have "seg (cc_hdr (free_at off sz (before ss) ?cur cc)) (cc_free_head (free_at off sz (before ss) ?cur cc))
      (join_left ss (join_right (off, sz) ts)) CC_NIL"
  proof (cases ss rule: rev_cases)
    case Nil
    have "free_at off sz (before ss) ?cur cc = c2" unfolding fa unfolding Nil before_simps by simp
    thus ?thesis using two Nil by (simp add: join_left_def)
  next
    case (snoc xs x)
    have n: "fst x \<noteq> CC_NIL" using spans_not_nil [OF ok(1)] snoc by auto
    have sx: "seg (cc_hdr c2) (cc_free_head c2) (xs @ x # t # us) CC_NIL" using two snoc j by simp
    hence hx: "hd_size (cc_hdr c2 (fst x)) = snd x" by (auto simp: seg_append)
    have d1: "fst x \<notin> fst ` set xs" using spans_distinct [OF ok(1)] snoc by simp
    have "set us \<subseteq> set ts" using j by (auto simp: join_right_def split: list.splits if_splits)
    hence d2: "fst x \<notin> fst ` set us" using ins(4) snoc by fastforce
    show ?thesis
    proof (cases "fst x + snd x = off")
      case True
      have "free_at off sz (before ss) ?cur cc = set_hdr (fst x) (snd x + hd_size (cc_hdr c2 off)) (hd_next (cc_hdr c2 off)) c2"
        using True n hx unfolding fa unfolding snoc before_simps by simp
      thus ?thesis using seg_merge [OF sx d1 d2] True hx unfolding j snoc join_left_snoc t by (simp only: set_hdr_fields list.sel simp_thms if_True t)
    next
      case False
      have "free_at off sz (before ss) ?cur cc = c2" using False hx unfolding fa unfolding snoc before_simps by simp
      thus ?thesis using sx False unfolding j snoc join_left_snoc by (simp only: list.sel simp_thms if_False t)
    qed
  qed
  thus ?thesis using fin caps by (simp add: free_list_def)
qed

subsection \<open>The allocator as a set of free bytes\<close>

lemma takeWhile_split: "ts = takeWhile P ts @ dropWhile P ts" by simp

lemma lru_alloc_spec:
  assumes "free_list cc ss" "0 < unat sz" "8 dvd unat sz"
  shows "\<exists>r cc'. lru_retry None sz (cc, st) = Some (r, cc', st) \<and> (r = None \<longrightarrow> cc' = cc \<and> (\<forall>s \<in> set ss. snd s < sz)) \<and>
     (\<forall>c. r = Some c \<longrightarrow> cc_cap cc' = cc_cap cc \<and> cc_mode cc' = cc_mode cc \<and> span_ok (unat (cc_cap cc)) (c, sz) \<and>
        (\<exists>ss'. free_list cc' ss' \<and> bytes_of ss = span_bytes (c, sz) \<union> bytes_of ss' \<and> span_bytes (c, sz) \<inter> bytes_of ss' = {}))"
proof -
  let ?cap = "unat (cc_cap cc)" and ?P = "\<lambda>s. snd s < sz"
  have ok: "spans_ok ?cap ss" and sg: "seg (cc_hdr cc) (cc_free_head cc) ss CC_NIL"
    using assms(1) by (simp_all add: free_list_def)
  have f: "first_fit sz cc CC_NIL (cc_free_head cc) = (case dropWhile ?P ss of [] \<Rightarrow> Some None
      | t # _ \<Rightarrow> Some (Some (before (takeWhile ?P ss), fst t)))"
    using first_fit_walk [OF sg, of ?cap sz "[]", unfolded append_Nil before_simps] ok unfolding spans_ok_def by blast
  show ?thesis
  proof (cases "dropWhile ?P ss")
    case Nil
    hence "\<forall>s \<in> set ss. snd s < sz" by simp
    thus ?thesis using f Nil by (subst lru_retry.simps) simp
  next
    case (Cons t us)
    obtain c n where t: "t = (c, n)" by (cases t)
    have e: "ss = takeWhile ?P ss @ (c, n) # us" using takeWhile_dropWhile_id [of ?P ss] Cons t by simp
    have n: "sz \<le> n" using hd_dropWhile [of ?P ss] Cons t by simp
    have cap: "?cap < 2 ^ 32" using unat_bound [of "cc_cap cc"] by simp
    have fl: "free_list cc (takeWhile ?P ss @ (c, n) # us)" using assms(1) e by simp
    note l = carve_list [OF fl n assms(3,2)]
    have okc: "spans_ok ?cap (takeWhile ?P ss @ (c, n) # us)" using ok e by simp
    note b = carve_spans(2,3) [OF okc n assms(3,2) cap]
    have "span_ok ?cap (c, n)" using okc by (simp add: spans_ok_split)
    hence so: "span_ok ?cap (c, sz)" using n assms(2,3) by (simp add: span_ok_def word_le_nat_alt)
    have r: "lru_retry None sz (cc, st) = Some (Some c, carve sz (before (takeWhile ?P ss)) c cc, st)"
      using f Cons t by (subst lru_retry.simps) simp
    have cf: "cc_cap (carve sz p c cc) = cc_cap cc" "cc_mode (carve sz p c cc) = cc_mode cc" for p
      by (simp_all add: carve_def Let_def)
    have "\<exists>ss'. free_list (carve sz (before (takeWhile ?P ss)) c cc) ss' \<and>
        bytes_of ss = span_bytes (c, sz) \<union> bytes_of ss' \<and> span_bytes (c, sz) \<inter> bytes_of ss' = {}"
      using l b [unfolded e [symmetric]] by blast
    thus ?thesis unfolding r using so cf by simp
  qed
qed

lemma not_low_bits: "v AND NOT 7 = push_bit 3 (drop_bit 3 v)" "8 dvd unat (v AND NOT 7)" for v :: u32
proof -
  have m: "(7 :: u32) = mask 3" by (simp add: mask_eq_exp_minus_1)
  show e: "v AND NOT 7 = push_bit 3 (drop_bit 3 v)"
    unfolding m by (rule bit_word_eqI) (auto simp: bit_simps)
  have "unat (push_bit 3 w) = (unat w * 8) mod 2 ^ 32" for w :: u32
    by (simp add: push_bit_eq_mult unat_word_ariths mult.commute)
  thus "8 dvd unat (v AND NOT 7)" unfolding e by (simp add: dvd_mod)
qed

lemma lru_round_ok: "8 dvd unat (lru_round v)" "0 < unat (lru_round v)"
proof -
  have "8 dvd unat (cc_align v)" using not_low_bits [of "v + 7"] by (simp add: cc_align_def CC_ALIGN_def)
  thus "8 dvd unat (lru_round v)" by (simp add: lru_round_def CC_HDR_SIZE_def Let_def)
  show "0 < unat (lru_round v)" by (auto simp: lru_round_def CC_HDR_SIZE_def word_less_nat_alt Let_def)
qed

lemma spans_fst_sorted: "spans_ok cap ss \<Longrightarrow> sorted_wrt (\<lambda>s t. fst s < fst t) ss"
  by (auto simp: spans_ok_def apart_def word_less_nat_alt elim!: sorted_wrt_mono_rel [rotated])

lemma dropWhile_sorted:
  fixes off :: u32
  assumes "sorted_wrt (\<lambda>s t. fst s < fst t) ss" "t \<in> set (dropWhile (\<lambda>s. fst s < off) ss)"
  shows "off \<le> fst t"
  using assms by (induction ss) (auto split: if_splits)

lemma span_overlap: "span_bytes s \<inter> span_bytes t = {} \<Longrightarrow> 0 < unat (snd s) \<Longrightarrow> 0 < unat (snd t) \<Longrightarrow>
    unat (fst s) + unat (snd s) \<le> unat (fst t) \<or> unat (fst t) + unat (snd t) \<le> unat (fst s)"
  by (auto simp: span_bytes_def disjoint_iff)

lemma lru_free_spec:
  assumes "free_list cc ss" "span_ok (unat (cc_cap cc)) (off, lru_round sz)" "span_bytes (off, lru_round sz) \<inter> bytes_of ss = {}"
  shows "\<exists>cc' ss'. lru_free off sz cc = Some cc' \<and> cc_cap cc' = cc_cap cc \<and> cc_mode cc' = cc_mode cc \<and>
     free_list cc' ss' \<and> bytes_of ss' = span_bytes (off, lru_round sz) \<union> bytes_of ss"
proof -
  let ?cap = "unat (cc_cap cc)" and ?P = "\<lambda>s. fst s < off" and ?s = "(off, lru_round sz)"
  let ?l = "takeWhile ?P ss" and ?r = "dropWhile ?P ss"
  have ok: "spans_ok ?cap ss" and sg: "seg (cc_hdr cc) (cc_free_head cc) ss CC_NIL"
    using assms(1) by (simp_all add: free_list_def)
  have ball: "\<forall>s \<in> set ss. span_ok ?cap s" using ok by (simp add: spans_ok_def)
  have f: "free_place off cc CC_NIL (cc_free_head cc) = Some (before ?l, case ?r of [] \<Rightarrow> CC_NIL | t # _ \<Rightarrow> fst t)"
    using free_place_walk [OF sg ball, of off "[]"] by simp
  have gap: "unat (fst t) + unat (snd t) \<le> unat off \<or> unat off + unat (lru_round sz) \<le> unat (fst t)" if "t \<in> set ss" for t
  proof -
    have "span_bytes ?s \<inter> span_bytes t = {}" using assms(3) that by (auto simp: bytes_of_def)
    from span_overlap [OF this] show ?thesis using assms(2) ball that by (auto simp: span_ok_def)
  qed
  have pos: "0 < unat (lru_round sz)" "\<forall>t \<in> set ss. 0 < unat (snd t)" using assms(2) ball by (auto simp: span_ok_def)
  have "unat (fst t) + unat (snd t) \<le> unat off" if "t \<in> set ?l" for t
  proof -
    have "t \<in> set ss" "fst t < off" using that by (auto dest: set_takeWhileD)
    thus ?thesis using gap [of t] by (auto simp: word_less_nat_alt)
  qed
  moreover have "unat off + unat (lru_round sz) \<le> unat (fst t)" if "t \<in> set ?r" for t
  proof -
    have "t \<in> set ss" "off \<le> fst t" using that dropWhile_sorted [OF spans_fst_sorted [OF ok] that] by (auto dest: set_dropWhileD)
    thus ?thesis using gap [of t] pos(2) by (fastforce simp: word_le_nat_alt)
  qed
  ultimately have fits: "fits_between ?cap ?l ?s ?r" using ok assms(2) by (simp add: fits_between_def)
  have cap: "?cap < 2 ^ 32" using unat_bound [of "cc_cap cc"] by simp
  have "free_list cc (?l @ ?r)" using assms(1) by simp
  note fl = free_at_list [OF this fits]
  have okl: "spans_ok ?cap ?l" using fits unfolding fits_between_def spans_ok_append by blast
  note jr = join_right_ok [OF fits cap]
  have "\<forall>t \<in> set ?l. unat (fst t) + unat (snd t) \<le> unat (fst (hd (join_right ?s ?r)))"
    using fits jr(3) by (simp add: fits_between_def)
  from join_left_ok [OF okl jr(1,4) cap this]
  have "bytes_of (join_left ?l (join_right ?s ?r)) = bytes_of ?l \<union> (span_bytes ?s \<union> bytes_of ?r)" using jr(2) by simp
  also have "\<dots> = span_bytes ?s \<union> bytes_of (?l @ ?r)" by (simp only: bytes_of_simps) blast
  finally have "bytes_of (join_left ?l (join_right ?s ?r)) = span_bytes ?s \<union> bytes_of ss" by simp
  moreover have "lru_free off sz cc = Some (free_at off (lru_round sz) (before ?l) (case ?r of [] \<Rightarrow> CC_NIL | t # _ \<Rightarrow> fst t) cc)"
    by (simp add: lru_free_def f)
  moreover have "cc_cap (free_at off z p c cc) = cc_cap cc" "cc_mode (free_at off z p c cc) = cc_mode cc" for z p c
    by (simp_all add: free_at_def Let_def)
  ultimately show ?thesis using fl by blast
qed

subsection \<open>Clients\<close>

text \<open>The blocks a client holds, and what it may do: allocate, be refused, give a block back, give the tail of one
  back, and store into the blocks it holds (headers lie at multiples of eight).\<close>

inductive cc_step :: "codecache \<times> (u32 \<times> u32) list \<Rightarrow> codecache \<times> (u32 \<times> u32) list \<Rightarrow> bool" where
  alloc: "codecache_alloc None None sz (cc, ()) = Some (Some p, cc', ()) \<Longrightarrow> cc_step (cc, live) (cc', (p, lru_round sz) # live)"
| refuse: "codecache_alloc None None sz (cc, ()) = Some (None, cc', ()) \<Longrightarrow> cc_step (cc, live) (cc', live)"
| release: "s \<in> set live \<Longrightarrow> codecache_free (fst s) (snd s) cc = Some cc' \<Longrightarrow> cc_step (cc, live) (cc', remove1 s live)"
| trim: "(p, n) \<in> set live \<Longrightarrow> 0 < actual \<Longrightarrow> actual \<le> n \<Longrightarrow> codecache_trim p actual n cc = Some cc' \<Longrightarrow>
    cc_step (cc, live) (cc', (p, cc_align actual) # remove1 (p, n) live)"
| emit: "\<forall>k. 8 dvd unat k \<and> unat k \<notin> bytes_of live \<longrightarrow> h k = cc_hdr cc k \<Longrightarrow> cc_step (cc, live) (cc\<lparr>cc_hdr := h\<rparr>, live)"

definition cc_inv :: "nat \<Rightarrow> codecache \<times> (u32 \<times> u32) list \<Rightarrow> bool" where
  "cc_inv cap = (\<lambda>(cc, live). cc_mode cc = CC_MODE_LRU \<and> unat (cc_cap cc) = cap \<and>
     (\<forall>s \<in> set live. span_ok cap s) \<and> sorted_wrt (\<lambda>s t. span_bytes s \<inter> span_bytes t = {}) live \<and>
     (\<exists>ss. free_list cc ss \<and> bytes_of ss \<inter> bytes_of live = {} \<and> bytes_of ss \<union> bytes_of live = {..<cap}))"

lemma cc_invI:
  "cc_mode cc = CC_MODE_LRU \<Longrightarrow> unat (cc_cap cc) = cap \<Longrightarrow> \<forall>s \<in> set live. span_ok cap s \<Longrightarrow>
   sorted_wrt (\<lambda>s t. span_bytes s \<inter> span_bytes t = {}) live \<Longrightarrow> free_list cc ss \<Longrightarrow> bytes_of ss \<inter> bytes_of live = {} \<Longrightarrow>
   bytes_of ss \<union> bytes_of live = {..<cap} \<Longrightarrow> cc_inv cap (cc, live)"
  by (auto simp: cc_inv_def)

lemma span_in_arena: "span_ok cap s \<Longrightarrow> span_bytes s \<subseteq> {..<cap}"
  by (auto simp: span_ok_def span_bytes_def)

text \<open>Taking a block out of the list of live blocks.\<close>

lemma remove_live:
  assumes "s \<in> set live" "sorted_wrt (\<lambda>s t. span_bytes s \<inter> span_bytes t = {}) live"
  shows "bytes_of live = span_bytes s \<union> bytes_of (remove1 s live)" "span_bytes s \<inter> bytes_of (remove1 s live) = {}"
    "sorted_wrt (\<lambda>s t. span_bytes s \<inter> span_bytes t = {}) (remove1 s live)"
proof -
  obtain xs ys where l: "live = xs @ s # ys" "s \<notin> set xs" using split_list_first [OF assms(1)] by blast
  hence r: "remove1 s live = xs @ ys" by (simp add: remove1_append)
  show "bytes_of live = span_bytes s \<union> bytes_of (remove1 s live)" unfolding r unfolding l(1) by auto
  show "span_bytes s \<inter> bytes_of (remove1 s live) = {}" "sorted_wrt (\<lambda>s t. span_bytes s \<inter> span_bytes t = {}) (remove1 s live)"
    using assms(2) unfolding r unfolding l(1) by (auto simp: sorted_wrt_append bytes_of_def)
qed

lemma unat_align: "unat v + 7 < 2 ^ 32 \<Longrightarrow> unat (cc_align v) = (unat v + 7) div 8 * 8"
proof -
  assume "unat v + 7 < 2 ^ 32"
  hence u: "unat (v + 7) = unat v + 7" using unat_offset [of v 7] by simp
  have "unat (cc_align v) = unat (push_bit 3 (drop_bit 3 (v + 7)))"
    using not_low_bits(1) [of "v + 7"] by (simp add: cc_align_def CC_ALIGN_def)
  also have "\<dots> = ((unat v + 7) div 8 * 8) mod 2 ^ 32"
    using \<open>unat v + 7 < 2 ^ 32\<close>
    by (simp only: push_bit_eq_mult unat_word_ariths unat_drop_bit_eq drop_bit_eq_div u) (simp add: mult.commute)
  also have "\<dots> = (unat v + 7) div 8 * 8"
    using \<open>unat v + 7 < 2 ^ 32\<close> div_times_less_eq_dividend [of "unat v + 7" 8] by (intro mod_less) linarith
  finally show ?thesis .
qed

lemma align_id: "8 dvd unat v \<Longrightarrow> cc_align v = v"
proof -
  assume d: "8 dvd unat v"
  have "unat v \<noteq> 2 ^ 32 - k" if "0 < k" "k < 8" for k :: nat
  proof
    assume "unat v = 2 ^ 32 - k"
    hence "8 dvd 2 ^ 32 - k" using d by simp
    hence "8 dvd k" using that dvd_diffD1 [of 8 "2 ^ 32" k] by simp
    thus False using that by (auto dest: dvd_imp_le)
  qed
  from this [of 1] this [of 2] this [of 3] this [of 4] this [of 5] this [of 6] this [of 7] have "unat v + 7 < 2 ^ 32"
    using unat_bound [of v] by simp
  from unat_align [OF this] show ?thesis using d by (auto simp: word_unat_eq_iff elim!: dvdE)
qed

lemma round_id: "8 dvd unat v \<Longrightarrow> 0 < unat v \<Longrightarrow> lru_round v = v"
proof -
  assume v: "8 dvd unat v" "0 < unat v"
  hence "8 \<le> unat v" by (rule dvd_imp_le)
  thus ?thesis using align_id [OF v(1)] by (simp add: lru_round_def CC_HDR_SIZE_def word_less_nat_alt Let_def)
qed

lemma alloc_inv:
  assumes "cc_inv cap (cc, live)" "codecache_alloc None None sz (cc, ()) = Some (r, cc', ())"
  shows "case r of None \<Rightarrow> cc' = cc | Some p \<Rightarrow> cc_inv cap (cc', (p, lru_round sz) # live)"
proof -
  obtain ss where i: "cc_mode cc = CC_MODE_LRU" "unat (cc_cap cc) = cap" "\<forall>s \<in> set live. span_ok cap s"
      "sorted_wrt (\<lambda>s t. span_bytes s \<inter> span_bytes t = {}) live"
    and f: "free_list cc ss" "bytes_of ss \<inter> bytes_of live = {}" "bytes_of ss \<union> bytes_of live = {..<cap}"
    using assms(1) by (auto simp: cc_inv_def)
  have a: "lru_alloc None sz (cc, ()) = Some (r, cc', ())" using assms(2) i(1) by (simp add: codecache_alloc_def)
  show ?thesis
  proof (cases "lru_round sz > cc_cap cc")
    case True
    thus ?thesis using a by (simp add: lru_alloc_def Let_def)
  next
    case False
    hence l: "lru_retry None (lru_round sz) (cc, ()) = Some (r, cc', ())" using a by (simp add: lru_alloc_def Let_def)
    note sp = lru_alloc_spec [OF f(1) lru_round_ok(2,1), of sz "()", unfolded l, simplified]
    show ?thesis
    proof (cases r)
      case None
      thus ?thesis using sp by auto
    next
      case (Some p)
      then obtain ss' where n: "cc_cap cc' = cc_cap cc" "cc_mode cc' = cc_mode cc" "span_ok cap (p, lru_round sz)"
          "free_list cc' ss'" "bytes_of ss = span_bytes (p, lru_round sz) \<union> bytes_of ss'"
          "span_bytes (p, lru_round sz) \<inter> bytes_of ss' = {}"
        using sp i(2) by auto
      have "\<forall>t \<in> set live. span_bytes (p, lru_round sz) \<inter> span_bytes t = {}" using f(2) n(5) by (auto simp: bytes_of_def)
      moreover have "bytes_of ss' \<inter> bytes_of ((p, lru_round sz) # live) = {}" using f(2) n(5,6) by auto
      moreover have "bytes_of ss' \<union> bytes_of ((p, lru_round sz) # live) = {..<cap}" using f(3) n(5) by auto
      ultimately show ?thesis using Some i n by (auto simp: cc_inv_def)
    qed
  qed
qed

lemma release_inv:
  assumes "cc_inv cap (cc, live)" "s \<in> set live"
  shows "\<exists>cc'. codecache_free (fst s) (snd s) cc = Some cc' \<and> cc_inv cap (cc', remove1 s live)"
proof -
  obtain ss where i: "cc_mode cc = CC_MODE_LRU" "unat (cc_cap cc) = cap" "\<forall>s \<in> set live. span_ok cap s"
      "sorted_wrt (\<lambda>s t. span_bytes s \<inter> span_bytes t = {}) live"
    and f: "free_list cc ss" "bytes_of ss \<inter> bytes_of live = {}" "bytes_of ss \<union> bytes_of live = {..<cap}"
    using assms(1) by (auto simp: cc_inv_def)
  have so: "span_ok cap s" using i(3) assms(2) by blast
  hence r: "lru_round (snd s) = snd s" by (simp add: span_ok_def round_id)
  note rm = remove_live [OF assms(2) i(4)]
  have "span_bytes s \<inter> bytes_of ss = {}" using f(2) rm(1) by auto
  then obtain cc' ss' where n: "lru_free (fst s) (snd s) cc = Some cc'" "cc_cap cc' = cc_cap cc" "cc_mode cc' = cc_mode cc"
      "free_list cc' ss'" "bytes_of ss' = span_bytes s \<union> bytes_of ss"
    using lru_free_spec [OF f(1), of "fst s" "snd s"] so i(2) r by auto
  have l: "\<forall>t \<in> set (remove1 s live). span_ok cap t" using i(3) set_remove1_subset [of s live] by blast
  have "bytes_of ss' \<inter> bytes_of (remove1 s live) = {}" "bytes_of ss' \<union> bytes_of (remove1 s live) = {..<cap}"
    using n(5) rm(1,2) f(2,3) by blast+
  with l have "cc_inv cap (cc', remove1 s live)" using i n rm(3) by (intro cc_invI [where ss = ss']) simp_all
  thus ?thesis using n(1) i(1) by (auto simp: codecache_free_def)
qed

lemma split_sets:
  "F \<inter> (N \<union> L) = {} \<Longrightarrow> N \<inter> L = {} \<Longrightarrow> N = S \<union> T \<Longrightarrow> S \<inter> T = {} \<Longrightarrow> F \<union> (N \<union> L) = C \<Longrightarrow>
   (T \<union> F) \<inter> (S \<union> L) = {} \<and> (T \<union> F) \<union> (S \<union> L) = C"
  by auto

lemma trim_inv:
  assumes "cc_inv cap (cc, live)" "(p, n) \<in> set live" "0 < actual" "actual \<le> n"
  shows "\<exists>cc'. codecache_trim p actual n cc = Some cc' \<and> cc_inv cap (cc', (p, cc_align actual) # remove1 (p, n) live)"
proof -
  obtain ss where i: "cc_mode cc = CC_MODE_LRU" "unat (cc_cap cc) = cap" "\<forall>s \<in> set live. span_ok cap s"
      "sorted_wrt (\<lambda>s t. span_bytes s \<inter> span_bytes t = {}) live"
    and f: "free_list cc ss" "bytes_of ss \<inter> bytes_of live = {}" "bytes_of ss \<union> bytes_of live = {..<cap}"
    using assms(1) by (auto simp: cc_inv_def)
  let ?A = "cc_align actual" and ?l = "remove1 (p, n) live"
  have so: "8 dvd unat p" "8 dvd unat n" "0 < unat n" "unat p + unat n \<le> cap" using i(3) assms(2) by (auto simp: span_ok_def)
  have cap: "cap < 2 ^ 32" using unat_bound [of "cc_cap cc"] i(2) by simp
  have le: "unat actual \<le> unat n" "0 < unat actual" using assms(3,4) by (simp_all add: word_le_nat_alt word_less_nat_alt)
  obtain k where k: "unat n = 8 * k" using so(2) by (elim dvdE)
  have "k < 536870912" using k so(4) cap by simp
  hence "unat actual + 7 < 2 ^ 32" using le(1) k by simp
  note A = unat_align [OF this]
  have A2: "8 dvd unat ?A" "0 < unat ?A" "unat ?A \<le> unat n" 
    unfolding A k using le [unfolded k] by presburger+
  have An: "?A \<le> n" using A2(3) by (simp add: word_le_nat_alt)
  have d: "unat (n - ?A) = unat n - unat ?A" by (rule unat_split [OF An])
  have pa: "unat (p + ?A) = unat p + unat ?A" using so(4) A2(3) cap by (intro unat_offset) linarith
  note rm = remove_live [OF assms(2) i(4)]
  have l: "\<forall>t \<in> set ((p, ?A) # ?l). span_ok cap t"
    using i(3) set_remove1_subset [of "(p, n)" live] so A2 by (auto simp: span_ok_def)
  have sub: "span_bytes (p, ?A) \<subseteq> span_bytes (p, n)" using A2(3) by (auto simp: span_bytes_def)
  have srt: "sorted_wrt (\<lambda>s t. span_bytes s \<inter> span_bytes t = {}) ((p, ?A) # ?l)"
  proof -
    have "\<forall>t \<in> set ?l. span_bytes (p, n) \<inter> span_bytes t = {}" using rm(2) unfolding bytes_of_def by blast
    hence "\<forall>t \<in> set ?l. span_bytes (p, ?A) \<inter> span_bytes t = {}" using sub by blast
    thus ?thesis using rm(3) by simp
  qed
  show ?thesis
  proof (cases "?A < n")
    case True
    hence lt: "unat ?A < unat n" by (simp add: word_less_nat_alt)
    have sp: "span_ok cap (p + ?A, n - ?A)" using so A2 d pa lt by (simp add: span_ok_def dvd_diff_nat)
    hence r: "lru_round (n - ?A) = n - ?A" by (simp add: span_ok_def round_id)
    have u: "span_bytes (p, n) = span_bytes (p, ?A) \<union> span_bytes (p + ?A, n - ?A)" "span_bytes (p, ?A) \<inter> span_bytes (p + ?A, n - ?A) = {}"
      using pa d A2(3) by (auto simp: span_bytes_def)
    have "span_bytes (p + ?A, n - ?A) \<inter> bytes_of ss = {}" using f(2) rm(1) u(1) by blast
    then obtain cc' ss' where t: "lru_free (p + ?A) (n - ?A) cc = Some cc'" "cc_cap cc' = cc_cap cc" "cc_mode cc' = cc_mode cc"
        "free_list cc' ss'" "bytes_of ss' = span_bytes (p + ?A, n - ?A) \<union> bytes_of ss"
      using lru_free_spec [OF f(1), of "p + ?A" "n - ?A"] sp i(2) r by auto
    have "bytes_of ss' \<inter> bytes_of ((p, ?A) # ?l) = {}" "bytes_of ss' \<union> bytes_of ((p, ?A) # ?l) = {..<cap}"
      using split_sets [OF f(2) [unfolded rm(1)] rm(2) u f(3) [unfolded rm(1)]] t(5) by simp_all
    hence "cc_inv cap (cc', (p, ?A) # ?l)" using i t l srt by (intro cc_invI [where ss = ss']) simp_all
    moreover have "codecache_trim p actual n cc = Some cc'"
      using t(1) i(1) True align_id [OF so(2)] by (simp add: codecache_trim_def Let_def)
    ultimately show ?thesis by blast
  next
    case False
    hence e: "?A = n" using An by simp
    have "bytes_of ss \<inter> bytes_of ((p, ?A) # ?l) = {}" "bytes_of ss \<union> bytes_of ((p, ?A) # ?l) = {..<cap}"
      using rm(1) f(2,3) e by simp_all
    hence "cc_inv cap (cc, (p, ?A) # ?l)" using i f l srt by (intro cc_invI [where ss = ss]) simp_all
    thus ?thesis using i(1) e align_id [OF so(2)] by (simp add: codecache_trim_def Let_def)
  qed
qed

lemma emit_inv:
  assumes "cc_inv cap (cc, live)" "\<forall>k. 8 dvd unat k \<and> unat k \<notin> bytes_of live \<longrightarrow> h k = cc_hdr cc k"
  shows "cc_inv cap (cc\<lparr>cc_hdr := h\<rparr>, live)"
proof -
  obtain ss where f: "free_list cc ss" "bytes_of ss \<inter> bytes_of live = {}" "bytes_of ss \<union> bytes_of live = {..<cap}"
    using assms(1) by (auto simp: cc_inv_def)
  have "h k = cc_hdr cc k" if k: "k \<in> fst ` set ss" for k
  proof -
    obtain s where s: "s \<in> set ss" "k = fst s" using k by (auto simp: image_iff)
    hence "span_ok (unat (cc_cap cc)) s" using f(1) by (simp add: free_list_def spans_ok_def)
    hence "8 dvd unat k" "unat k \<in> span_bytes s" using s by (auto simp: span_ok_def span_bytes_def)
    hence "unat k \<notin> bytes_of live" using s f(2) by (auto simp: bytes_of_def)
    thus ?thesis using assms(2) \<open>8 dvd unat k\<close> by blast
  qed
  hence "free_list (cc\<lparr>cc_hdr := h\<rparr>) ss" using f(1) seg_cong [of ss h "cc_hdr cc"] by (simp add: free_list_def)
  thus ?thesis using assms(1) f by (auto simp: cc_inv_def)
qed

lemma rounded_cap: "8 \<le> cap \<Longrightarrow> 8 \<le> unat (cap AND NOT 7)" for cap :: u32
proof -
  assume c: "8 \<le> cap"
  let ?c = "cap AND NOT 7"
  have "unat ?c = unat cap div 8 * 8 mod 2 ^ 32"
    by (simp only: not_low_bits(1) push_bit_eq_mult unat_word_ariths unat_drop_bit_eq drop_bit_eq_div) (simp add: mult.commute mod_mult_right_eq)
  hence u: "unat ?c = unat cap div 8 * 8"
    using div_times_less_eq_dividend [of "unat cap" 8] unat_bound [of cap] by (simp add: mod_less_eq_dividend)
  have "8 \<le> unat cap" using c by (simp add: word_le_nat_alt)
  thus "8 \<le> unat ?c" unfolding u by presburger
qed

lemma init_inv:
  assumes "8 \<le> cap"
  shows "cc_inv (unat (cap AND NOT 7)) (codecache_init arena cap CC_MODE_LRU, [])"
proof -
  let ?c = "cap AND NOT 7"
  note p = rounded_cap [OF assms]
  hence ge: "?c \<ge> CC_HDR_SIZE" by (simp add: CC_HDR_SIZE_def word_le_nat_alt)
  have "span_ok (unat ?c) (0, ?c)" using p not_low_bits(2) [of cap] by (simp add: span_ok_def)
  hence "spans_ok (unat ?c) [(0, ?c)]" by (simp add: spans_ok_def)
  hence "free_list (codecache_init arena cap CC_MODE_LRU) [(0, ?c)]"
    using ge by (simp add: free_list_def codecache_init_def whole_arena_def CC_ALIGN_def Let_def)
  thus ?thesis
    by (intro cc_invI [where ss = "[(0, ?c)]"])
       (auto simp: codecache_init_def whole_arena_def CC_ALIGN_def span_bytes_def Let_def)
qed

lemma step_inv: "cc_step st st' \<Longrightarrow> cc_inv cap st \<Longrightarrow> cc_inv cap st'"
proof (induction rule: cc_step.induct)
  case (alloc sz cc p cc' live)
  thus ?case using alloc_inv [OF alloc(2) alloc(1)] by simp
next
  case (refuse sz cc cc' live)
  thus ?case using alloc_inv [OF refuse(2) refuse(1)] by simp
next
  case (release s live cc cc')
  thus ?case using release_inv [OF release(3) release(1)] by auto
next
  case (trim p n live actual cc cc')
  thus ?case using trim_inv [OF trim(5) trim(1-3)] by auto
next
  case (emit live h cc)
  thus ?case using emit_inv [OF emit(2) emit(1)] by simp
qed

lemma steps_inv: "cc_step\<^sup>*\<^sup>* st st' \<Longrightarrow> cc_inv cap st \<Longrightarrow> cc_inv cap st'"
  by (induction rule: rtranclp_induct) (auto intro: step_inv)

lemma sorted_wrt_trichotomy: "sorted_wrt P ss \<Longrightarrow> s \<in> set ss \<Longrightarrow> t \<in> set ss \<Longrightarrow> s = t \<or> P s t \<or> P t s"
  by (induction ss) auto

text \<open>Free bytes in a row belong to one span.\<close>

lemma run_in_span:
  assumes "spans_ok cap ss" "{a..<a + n} \<subseteq> bytes_of ss" "0 < n"
  shows "\<exists>s \<in> set ss. n \<le> unat (snd s)"
proof -
  have "a \<in> bytes_of ss" using assms(2,3) by force
  then obtain s where s: "s \<in> set ss" "a \<in> span_bytes s" unfolding bytes_of_def by blast
  have "n \<le> unat (snd s)"
  proof (rule ccontr)
    assume "\<not> n \<le> unat (snd s)"
    let ?e = "unat (fst s) + unat (snd s)"
    have "?e \<in> {a..<a + n}" using s(2) \<open>\<not> n \<le> unat (snd s)\<close> by (auto simp: span_bytes_def)
    then obtain t where t: "t \<in> set ss" "?e \<in> span_bytes t" using assms(2) unfolding bytes_of_def by blast
    have "s = t \<or> apart s t \<or> apart t s"
      using assms(1) s(1) t(1) by (intro sorted_wrt_trichotomy [of _ ss]) (simp_all add: spans_ok_def)
    thus False using t(2) by (auto simp: span_bytes_def apart_def)
  qed
  thus ?thesis using s(1) by blast
qed

lemma set_singleton_list:
  assumes "set xs = {x}" "distinct xs"
  shows "xs = [x]"
proof -
  have "length xs = 1" using distinct_card [OF assms(2)] by (simp add: assms(1))
  then obtain y where "xs = [y]" by (metis One_nat_def length_0_conv length_Suc_conv)
  thus ?thesis using assms(1) by simp
qed

lemma whole_span:
  assumes "spans_ok cap ss" "bytes_of ss = {..<cap}" "0 < cap"
  shows "\<exists>s. ss = [s] \<and> unat (fst s) = 0 \<and> unat (snd s) = cap"
proof -
  have "{0..<0 + cap} \<subseteq> bytes_of ss" by (simp add: assms(2) lessThan_atLeast0)
  from run_in_span [OF assms(1) this assms(3)] obtain s where s: "s \<in> set ss" "cap \<le> unat (snd s)" by blast
  have b: "\<forall>t \<in> set ss. span_ok cap t" using assms(1) by (simp add: spans_ok_def)
  have "span_ok cap s" using b s(1) by blast
  hence z: "unat (fst s) = 0" "unat (snd s) = cap" using s(2) unfolding span_ok_def by linarith+
  have "t = s" if t: "t \<in> set ss" for t
  proof -
    have "span_ok cap t" using b t by blast
    hence "\<not> apart s t" "\<not> apart t s" using z unfolding span_ok_def apart_def by linarith+
    thus ?thesis using sorted_wrt_trichotomy [OF _ s(1) t, of apart] assms(1) by (simp add: spans_ok_def)
  qed
  hence "set ss = {s}" using s(1) by blast
  moreover have "distinct ss" using spans_distinct [OF assms(1)] by (simp add: distinct_map)
  ultimately have "ss = [s]" by (rule set_singleton_list)
  thus ?thesis using z by blast
qed

text \<open>C32: Blocks of the code cache never overlap: whatever the compiler allocates, trims, gives back and stores into
  its own blocks, the blocks it holds are apart and inside the arena, each can be given back, and when
  all have been given back the arena is one free span again.\<close>

theorem code_blocks_apart:
  assumes "8 \<le> cap" "cc_step\<^sup>*\<^sup>* (codecache_init arena cap CC_MODE_LRU, []) (cc, live)"
  shows "sorted_wrt (\<lambda>s t. span_bytes s \<inter> span_bytes t = {}) live \<and>
     (\<forall>s \<in> set live. span_bytes s \<subseteq> {..<unat (cap AND NOT 7)} \<and> codecache_free (fst s) (snd s) cc \<noteq> None) \<and>
     (live = [] \<longrightarrow> cc_free_head cc = 0 \<and> cc_hdr cc 0 = \<lparr>hd_size = cap AND NOT 7, hd_next = CC_NIL\<rparr>)"
proof -
  let ?c = "unat (cap AND NOT 7)"
  have i: "cc_inv ?c (cc, live)" by (rule steps_inv [OF assms(2) init_inv [OF assms(1)]])
  obtain ss where s: "unat (cc_cap cc) = ?c" "\<forall>s \<in> set live. span_ok ?c s" "sorted_wrt (\<lambda>s t. span_bytes s \<inter> span_bytes t = {}) live"
      "free_list cc ss" "bytes_of ss \<union> bytes_of live = {..<?c}"
    using i by (auto simp: cc_inv_def)
  have "codecache_free (fst t) (snd t) cc \<noteq> None" if "t \<in> set live" for t using release_inv [OF i that] by auto
  moreover have "cc_free_head cc = 0 \<and> cc_hdr cc 0 = \<lparr>hd_size = cap AND NOT 7, hd_next = CC_NIL\<rparr>" if l: "live = []"
  proof -
    have "0 < ?c" using rounded_cap [OF assms(1)] by simp
    then obtain t where t: "ss = [t]" "unat (fst t) = 0" "unat (snd t) = ?c"
      using whole_span [of ?c ss] s l unfolding free_list_def by auto
    hence "fst t = 0" "snd t = cap AND NOT 7" by (simp_all add: word_unat_eq_iff)
    thus ?thesis using s(4) t(1) by (auto simp: free_list_def)
  qed
  ultimately show ?thesis using s(2,3) span_in_arena by blast
qed




text \<open>A client that compiles two blocks into an arena of 64 bytes.\<close>

definition two_blocks :: codecache where
  "two_blocks = carve 24 CC_NIL 16 (carve 16 CC_NIL 0 (codecache_init (\<lambda>_. \<lparr>hd_size = 0, hd_next = 0\<rparr>) 64 CC_MODE_LRU))"

lemmas cc_consts = CC_NIL_def CC_ALIGN_def CC_HDR_SIZE_def CC_MODE_LRU_def CC_MODE_FIFO_def CC_MODE_BUMP_def

lemma two_blocks_steps:
  "cc_step\<^sup>*\<^sup>* (codecache_init (\<lambda>_. \<lparr>hd_size = 0, hd_next = 0\<rparr>) 64 CC_MODE_LRU, []) (two_blocks, [(16, 24), (0, 16)])"
proof -
  let ?i = "codecache_init (\<lambda>_. \<lparr>hd_size = 0, hd_next = 0\<rparr>) 64 CC_MODE_LRU"
  have r: "lru_round 10 = 16" "lru_round 20 = 24" by (simp_all add: lru_round_def cc_align_def cc_consts Let_def)
  have i: "cc_mode ?i = CC_MODE_LRU" "cc_cap ?i = 64" "cc_free_head ?i = 0" "cc_hdr ?i 0 = \<lparr>hd_size = 64, hd_next = CC_NIL\<rparr>"
    by (simp_all add: codecache_init_def whole_arena_def set_hdr_def cc_consts Let_def)
  let ?j = "carve 16 CC_NIL 0 ?i"
  have j: "cc_mode ?j = CC_MODE_LRU" "cc_cap ?j = 64" "cc_free_head ?j = 16" "cc_hdr ?j 16 = \<lparr>hd_size = 48, hd_next = CC_NIL\<rparr>"
    using i by (simp_all add: carve_def set_link_def cc_consts Let_def)
  have "codecache_alloc None None 10 (?i, ()) = Some (Some 0, ?j, ())"
    using i r by (simp add: codecache_alloc_def lru_alloc_def lru_retry.simps first_fit.simps cc_consts Let_def)
  from cc_step.alloc [OF this, of "[]"] have a: "cc_step (?i, []) (?j, [(0, 16)])" using r by simp
  have "codecache_alloc None None 20 (?j, ()) = Some (Some 16, two_blocks, ())"
    using j r by (simp add: codecache_alloc_def lru_alloc_def lru_retry.simps first_fit.simps cc_consts two_blocks_def Let_def)
  from cc_step.alloc [OF this, of "[(0, 16)]"] have "cc_step (?j, [(0, 16)]) (two_blocks, [(16, 24), (0, 16)])" using r by simp
  with a show ?thesis by (meson converse_rtranclp_into_rtranclp rtranclp.rtrancl_refl)
qed

theorem code_blocks_apart_witness: "span_bytes (16, 24) \<inter> span_bytes (0, 16) = {} \<and> codecache_free 16 24 two_blocks \<noteq> None"
  using code_blocks_apart [OF _ two_blocks_steps] by simp


end
