(* ===== verification/Dispatcher.thy ===== *)
theory Dispatcher
  imports Sony CodeCache
begin

text \<open>
  jit/dispatcher.c: the table of compiled blocks, its invalidation when the guest writes over compiled code, and the
  eviction callbacks of the code cache. A block is an object on the heap, named by an address; the chain of
  a bucket, linked by \<open>hash_next\<close> in the source, is the list of its blocks, the head first. The code of a block is given by
  its offset in the arena, and the entry points by their offsets in the code.
\<close>

subsection \<open>State\<close>

record m68k_block =
  b_pc_start :: u32
  b_pc_end :: u32
  b_n_ops :: u32
  b_code :: u32
  b_code_size :: u32
  b_entry_off :: u32
  b_body_off :: u32
  b_chain_entry_off :: u32
  b_sr_loaded :: bool
  b_inline_ops :: u32
  b_helper_ops :: u32
  b_predicted_next :: "nat option"
  b_predicted_next_pc :: u32
  b_predicted_next_entry :: "u32 option"
  b_cache_sig :: u32
  b_last_used_cycle :: u64
  b_last_op :: u16
  b_last_op_pc :: u32

record dispatcher =
  ds_cc :: codecache
  ds_heap :: "nat \<Rightarrow> m68k_block option"
  ds_buckets :: "nat \<Rightarrow> nat list"
  ds_arena_resets :: u64
  ds_smc_invalidations :: u64
  ds_code_pages :: "nat \<Rightarrow> u8"
  ds_dirty_pages :: "u16 list"
  ds_smc_overflow :: bool
  ds_chain_budget :: u32

definition M68K_JIT_BLOCK_BUCKETS :: nat where "M68K_JIT_BLOCK_BUCKETS = 2048"

subsection \<open>The table\<close>

definition bucket_of :: "u32 \<Rightarrow> nat" where
  "bucket_of p = unat (drop_bit 1 p AND 0x7FF)"

text \<open>A field of a block through its address.\<close>

definition block_is :: "(m68k_block \<Rightarrow> bool) \<Rightarrow> dispatcher \<Rightarrow> nat \<Rightarrow> bool" where
  "block_is P d a = (case ds_heap d a of None \<Rightarrow> False | Some b \<Rightarrow> P b)"

definition upd_block :: "(m68k_block \<Rightarrow> m68k_block) \<Rightarrow> nat \<Rightarrow> dispatcher \<Rightarrow> dispatcher" where
  "upd_block f a d = d\<lparr>ds_heap := (ds_heap d)(a := map_option f (ds_heap d a))\<rparr>"

definition find_block :: "dispatcher \<Rightarrow> u32 \<Rightarrow> nat option" where
  "find_block d p = find (block_is (\<lambda>b. b_pc_start b = p) d) (ds_buckets d (bucket_of p))"

definition insert_block :: "nat \<Rightarrow> dispatcher \<Rightarrow> dispatcher" where
  "insert_block a d =
     (case ds_heap d a of None \<Rightarrow> d
      | Some b \<Rightarrow> (let bk = bucket_of (b_pc_start b) in d\<lparr>ds_buckets := (ds_buckets d)(bk := a # ds_buckets d bk)\<rparr>))"

definition m68k_block_free :: "nat \<Rightarrow> dispatcher \<Rightarrow> dispatcher" where
  "m68k_block_free a d = d\<lparr>ds_heap := (ds_heap d)(a := None)\<rparr>"

definition free_all_blocks :: "dispatcher \<Rightarrow> dispatcher" where
  "free_all_blocks d =
     fold (\<lambda>i d. (fold m68k_block_free (ds_buckets d i) d)\<lparr>ds_buckets := (ds_buckets d)(i := [])\<rparr>) [0..<M68K_JIT_BLOCK_BUCKETS] d"

subsection \<open>Self-modifying code\<close>

definition page_marked :: "u32 \<Rightarrow> (nat \<Rightarrow> u8) \<Rightarrow> bool" where
  "page_marked page pages \<longleftrightarrow> pages (unat (drop_bit 3 page)) AND push_bit (unat (page AND 7)) 1 \<noteq> 0"

definition mark_page :: "u32 \<Rightarrow> (nat \<Rightarrow> u8) \<Rightarrow> nat \<Rightarrow> u8" where
  "mark_page page pages =
     pages(unat (drop_bit 3 page) := pages (unat (drop_bit 3 page)) OR push_bit (unat (page AND 7)) 1)"

definition page_of :: "u32 \<Rightarrow> u32" where "page_of addr = drop_bit 8 addr AND 0xFFFF"

definition smc_watch :: "u32 \<Rightarrow> dispatcher \<Rightarrow> dispatcher" where
  "smc_watch addr d =
     (let page = page_of addr in
      if \<not> page_marked page (ds_code_pages d) then d
      else
        (let d = d\<lparr>ds_chain_budget := 0\<rparr> in
         if \<exists>p \<in> set (ds_dirty_pages d). ucast p = page then d
         else if length (ds_dirty_pages d) < 256 then d\<lparr>ds_dirty_pages := ds_dirty_pages d @ [ucast page]\<rparr>
         else d\<lparr>ds_smc_overflow := True\<rparr>))"

text \<open>The loop that marks the pages of a block; it may not end when the block touches the end of the address space.\<close>

partial_function (option) mark_from :: "u32 \<Rightarrow> u32 \<Rightarrow> (nat \<Rightarrow> u8) \<Rightarrow> (nat \<Rightarrow> u8) option" where
  "mark_from a e pages = (if a < e then mark_from (a + 256) e (mark_page (page_of a) pages) else Some pages)"

definition smc_mark_block :: "nat \<Rightarrow> dispatcher \<Rightarrow> dispatcher option" where
  "smc_mark_block a d =
     (case ds_heap d a of None \<Rightarrow> Some d
      | Some b \<Rightarrow>
          (case mark_from (b_pc_start b) (b_pc_end b) (ds_code_pages d) of None \<Rightarrow> None
           | Some pages \<Rightarrow>
               (let last = page_of (if b_pc_end b \<noteq> 0 then b_pc_end b - 1 else 0)
                in Some (d\<lparr>ds_code_pages := mark_page last pages\<rparr>))))"

text \<open>The loop over a chain that unlinks and frees the blocks that satisfy \<open>P\<close>.\<close>

fun drop_chain :: "(m68k_block \<Rightarrow> bool) \<Rightarrow> nat list \<Rightarrow> dispatcher \<Rightarrow> nat list \<times> dispatcher" where
  "drop_chain P [] d = ([], d)"
| "drop_chain P (a # as) d =
     (if block_is P d a then drop_chain P as ((m68k_block_free a d)\<lparr>ds_smc_invalidations := ds_smc_invalidations d + 1\<rparr>)
      else (let (as, d) = drop_chain P as d in (a # as, d)))"

definition drop_bucket :: "(m68k_block \<Rightarrow> bool) \<Rightarrow> nat \<Rightarrow> dispatcher \<Rightarrow> dispatcher" where
  "drop_bucket P i d = (let (as, d) = drop_chain P (ds_buckets d i) d in d\<lparr>ds_buckets := (ds_buckets d)(i := as)\<rparr>)"

definition drop_blocks :: "(m68k_block \<Rightarrow> bool) \<Rightarrow> dispatcher \<Rightarrow> dispatcher" where
  "drop_blocks P = fold (drop_bucket P) [0..<M68K_JIT_BLOCK_BUCKETS]"

definition smc_drop_range :: "u32 \<Rightarrow> u32 \<Rightarrow> dispatcher \<Rightarrow> dispatcher" where
  "smc_drop_range lo hi = drop_blocks (\<lambda>b. b_pc_start b < hi \<and> b_pc_end b > lo)"

definition no_prediction :: "m68k_block \<Rightarrow> m68k_block" where
  "no_prediction b = b\<lparr>b_predicted_next := None, b_predicted_next_pc := 0xFFFFFFFF, b_predicted_next_entry := None\<rparr>"

text \<open>Clears the predictions that satisfy \<open>P\<close> of the blocks in the table.\<close>

definition clear_prediction :: "(m68k_block \<Rightarrow> bool) \<Rightarrow> nat \<Rightarrow> dispatcher \<Rightarrow> dispatcher" where
  "clear_prediction P a d = (if block_is P d a then upd_block no_prediction a d else d)"

definition clear_predictions :: "(m68k_block \<Rightarrow> bool) \<Rightarrow> dispatcher \<Rightarrow> dispatcher" where
  "clear_predictions P = fold (\<lambda>i d. fold (clear_prediction P) (ds_buckets d i) d) [0..<M68K_JIT_BLOCK_BUCKETS]"

definition smc_flush :: "dispatcher \<Rightarrow> bool \<times> dispatcher" where
  "smc_flush d =
     (if \<not> ds_smc_overflow d \<and> ds_dirty_pages d = [] then (False, d)
      else
        (let d = (if ds_smc_overflow d
                  then (let d = free_all_blocks d in
                        d\<lparr>ds_cc := codecache_reset (ds_cc d), ds_code_pages := (\<lambda>_. 0), ds_arena_resets := ds_arena_resets d + 1\<rparr>)
                  else fold (\<lambda>p d. let base = push_bit 8 (ucast p) in smc_drop_range base (base + 256) d) (ds_dirty_pages d) d);
             d = d\<lparr>ds_dirty_pages := [], ds_smc_overflow := False\<rparr>
         in (True, clear_predictions (\<lambda>_. True) d)))"

subsection \<open>Eviction\<close>

text \<open>The scan for the block with the lowest tag: the first one below the best so far.\<close>

definition colder :: "dispatcher \<Rightarrow> nat \<Rightarrow> nat \<Rightarrow> u64 \<times> (nat \<times> nat) option \<Rightarrow> u64 \<times> (nat \<times> nat) option" where
  "colder d i a best =
     (case ds_heap d a of None \<Rightarrow> best
      | Some b \<Rightarrow> if b_last_used_cycle b < fst best then (b_last_used_cycle b, Some (i, a)) else best)"

definition coldest_block :: "dispatcher \<Rightarrow> (nat \<times> nat) option" where
  "coldest_block d = snd (fold (\<lambda>i. fold (colder d i) (ds_buckets d i)) [0..<M68K_JIT_BLOCK_BUCKETS] (- 1, None))"

definition lru_evict_cb :: "dispatcher \<Rightarrow> (u32 \<times> dispatcher) option" where
  "lru_evict_cb d =
     (case coldest_block d of None \<Rightarrow> Some (0, d)
      | Some (i, c) \<Rightarrow>
          (case ds_heap d c of None \<Rightarrow> Some (0, d)
           | Some b \<Rightarrow>
               (let d = d\<lparr>ds_buckets := (ds_buckets d)(i := remove1 c (ds_buckets d i))\<rparr>;
                    d = clear_predictions (\<lambda>x. b_predicted_next x = Some c) d;
                    d = d\<lparr>ds_smc_invalidations := ds_smc_invalidations d + 1\<rparr>;
                    d = m68k_block_free c d
                in case codecache_free (b_code b) (b_code_size b) (ds_cc d) of None \<Rightarrow> None
                   | Some cc \<Rightarrow> Some (b_code_size b, d\<lparr>ds_cc := cc\<rparr>))))"

definition table :: "dispatcher \<Rightarrow> nat list" where
  "table d = concat (map (ds_buckets d) [0..<M68K_JIT_BLOCK_BUCKETS])"

definition fifo_evict_range_cb :: "u32 \<Rightarrow> u32 \<Rightarrow> dispatcher \<Rightarrow> dispatcher" where
  "fifo_evict_range_cb start e d =
     (let P = (\<lambda>b. b_code b < e \<and> b_code b + b_code_size b > start);
          dropped_any = (\<exists>a \<in> set (table d). block_is P d a);
          d = drop_blocks P d
      in if dropped_any then clear_predictions (\<lambda>_. True) d else d)"

definition m68k_dispatcher_init_ex :: "(u32 \<Rightarrow> cc_free_hdr) \<Rightarrow> u32 \<Rightarrow> u8 \<Rightarrow> dispatcher" where
  "m68k_dispatcher_init_ex arena arena_kb mode =
     \<lparr>ds_cc = codecache_init arena (arena_kb * 1024) mode, ds_heap = (\<lambda>_. None), ds_buckets = (\<lambda>_. []),
      ds_arena_resets = 0, ds_smc_invalidations = 0, ds_code_pages = (\<lambda>_. 0), ds_dirty_pages = [], ds_smc_overflow = False,
      ds_chain_budget = 0\<rparr>"

subsection \<open>The blocks in the table\<close>

text \<open>Every chain holds distinct live blocks of its own bucket.\<close>

definition disp_ok :: "dispatcher \<Rightarrow> bool" where
  "disp_ok d \<longleftrightarrow>
     (\<forall>i. distinct (ds_buckets d i)) \<and>
     (\<forall>i. \<forall>a \<in> set (ds_buckets d i). \<exists>b. ds_heap d a = Some b \<and> bucket_of (b_pc_start b) = i)"

definition cached :: "dispatcher \<Rightarrow> nat \<Rightarrow> m68k_block \<Rightarrow> bool" where
  "cached d a b \<longleftrightarrow> a \<in> set (ds_buckets d (bucket_of (b_pc_start b))) \<and> ds_heap d a = Some b"

lemma bucket_bound: "bucket_of p < M68K_JIT_BLOCK_BUCKETS"
proof -
  have "drop_bit 1 p AND 0x7FF \<le> 0x7FF" by (rule word_and_le1)
  thus ?thesis by (simp add: bucket_of_def M68K_JIT_BLOCK_BUCKETS_def word_le_nat_alt)
qed

lemma disp_okD:
  assumes "disp_ok d" "a \<in> set (ds_buckets d i)"
  shows "\<exists>b. cached d a b \<and> bucket_of (b_pc_start b) = i" "i < M68K_JIT_BLOCK_BUCKETS"
    "a \<in> set (ds_buckets d j) \<Longrightarrow> i = j"
proof -
  have h: "\<And>i a. a \<in> set (ds_buckets d i) \<Longrightarrow> \<exists>b. ds_heap d a = Some b \<and> bucket_of (b_pc_start b) = i"
    using assms(1) by (simp add: disp_ok_def)
  obtain b where b: "ds_heap d a = Some b" "bucket_of (b_pc_start b) = i" using h [OF assms(2)] by blast
  thus "\<exists>b. cached d a b \<and> bucket_of (b_pc_start b) = i" using assms(2) by (auto simp: cached_def)
  show "i < M68K_JIT_BLOCK_BUCKETS" using b(2) bucket_bound by auto
  show "a \<in> set (ds_buckets d j) \<Longrightarrow> i = j" using b h [of a j] by auto
qed

lemma block_is_Some [simp]: "ds_heap d a = Some b \<Longrightarrow> block_is P d a \<longleftrightarrow> P b"
  by (simp add: block_is_def)

lemma mem_table: "disp_ok d \<Longrightarrow> a \<in> set (table d) \<longleftrightarrow> (\<exists>b. cached d a b)"
  using disp_okD(1,2) [of d a] bucket_bound
  by (fastforce simp: table_def cached_def)

text \<open>Insertion and lookup.\<close>

lemma cached_insert:
  assumes "disp_ok d" "ds_heap d a = Some b" "\<not> cached d a b"
  shows "disp_ok (insert_block a d)" "cached (insert_block a d) x y \<longleftrightarrow> cached d x y \<or> x = a \<and> y = b"
proof -
  have n: "a \<notin> set (ds_buckets d i)" for i
    using disp_okD(1) [OF assms(1), of a i] assms(2,3) by (auto simp: cached_def)
  show "disp_ok (insert_block a d)" using assms(1,2) n by (auto simp: disp_ok_def insert_block_def Let_def)
  show "cached (insert_block a d) x y \<longleftrightarrow> cached d x y \<or> x = a \<and> y = b"
    using assms(2) by (auto simp: cached_def insert_block_def Let_def)
qed

lemma find_block_cached:
  assumes "disp_ok d"
  shows "find_block d p = None \<longleftrightarrow> (\<forall>a b. cached d a b \<longrightarrow> b_pc_start b \<noteq> p)"
    "find_block d p = Some a \<Longrightarrow> \<exists>b. cached d a b \<and> b_pc_start b = p"
proof -
  have h: "a \<in> set (ds_buckets d i) \<Longrightarrow> \<exists>b. ds_heap d a = Some b \<and> bucket_of (b_pc_start b) = i" for a i
    using assms by (simp add: disp_ok_def)
  show "find_block d p = None \<longleftrightarrow> (\<forall>a b. cached d a b \<longrightarrow> b_pc_start b \<noteq> p)"
    using h [of _ "bucket_of p"] by (fastforce simp: find_block_def find_None_iff cached_def)
  assume "find_block d p = Some a"
  hence "a \<in> set (ds_buckets d (bucket_of p)) \<and> block_is (\<lambda>b. b_pc_start b = p) d a"
    by (auto simp: find_block_def find_Some_iff)
  moreover then obtain b where "ds_heap d a = Some b" using h by blast
  ultimately show "\<exists>b. cached d a b \<and> b_pc_start b = p" by (auto simp: cached_def)
qed

subsection \<open>Dropping blocks\<close>

lemma drop_chain_filter:
  assumes "distinct as"
  shows "fst (drop_chain P as d) = filter (\<lambda>a. \<not> block_is P d a) as \<and>
    (\<exists>n. snd (drop_chain P as d) =
       d\<lparr>ds_heap := (\<lambda>a. if a \<in> set as \<and> block_is P d a then None else ds_heap d a), ds_smc_invalidations := n\<rparr>)"
  using assms
proof (induction "as" arbitrary: d)
  case Nil
  show ?case by (auto intro: exI [of _ "ds_smc_invalidations d"])
next
  case (Cons a "as")
  show ?case
  proof (cases "block_is P d a")
    case True
    let ?d = "(m68k_block_free a d)\<lparr>ds_smc_invalidations := ds_smc_invalidations d + 1\<rparr>"
    have n: "a \<notin> set as" using Cons.prems by simp
    have e: "block_is P ?d x \<longleftrightarrow> block_is P d x" if "x \<in> set as" for x
      using that n by (auto simp: block_is_def m68k_block_free_def)
    have f: "filter (\<lambda>x. \<not> block_is P ?d x) as = filter (\<lambda>x. \<not> block_is P d x) as"
      by (intro filter_cong) (simp_all add: e)
    have h: "(\<lambda>x. if x \<in> set as \<and> block_is P ?d x then None else ds_heap ?d x)
        = (\<lambda>x. if x \<in> set (a # as) \<and> block_is P d x then None else ds_heap d x)"
    proof
      fix x
      show "(if x \<in> set as \<and> block_is P ?d x then None else ds_heap ?d x)
        = (if x \<in> set (a # as) \<and> block_is P d x then None else ds_heap d x)"
        using e [of x] True by (auto simp: m68k_block_free_def)
    qed
    from Cons.IH [of ?d] Cons.prems obtain m where
      "fst (drop_chain P as ?d) = filter (\<lambda>x. \<not> block_is P d x) as"
      "snd (drop_chain P as ?d) = ?d\<lparr>ds_heap := (\<lambda>x. if x \<in> set (a # as) \<and> block_is P d x then None else ds_heap d x),
         ds_smc_invalidations := m\<rparr>" unfolding f h by auto
    thus ?thesis using True by (auto simp: m68k_block_free_def)
  next
    case False
    from Cons.IH [of d] Cons.prems obtain m where
      i: "fst (drop_chain P as d) = filter (\<lambda>a. \<not> block_is P d a) as"
      "snd (drop_chain P as d) = d\<lparr>ds_heap := (\<lambda>a. if a \<in> set as \<and> block_is P d a then None else ds_heap d a),
         ds_smc_invalidations := m\<rparr>" by auto
    have "(\<lambda>x. if x \<in> set as \<and> block_is P d x then None else ds_heap d x)
        = (\<lambda>x. if x \<in> set (a # as) \<and> block_is P d x then None else ds_heap d x)" using False by auto
    thus ?thesis using False i by (auto simp: case_prod_beta Let_def)
  qed
qed

lemma drop_bucket_eq:
  assumes "distinct (ds_buckets d i)"
  shows "\<exists>n. drop_bucket P i d = d\<lparr>ds_heap := (\<lambda>a. if a \<in> set (ds_buckets d i) \<and> block_is P d a then None else ds_heap d a),
     ds_buckets := (ds_buckets d)(i := filter (\<lambda>a. \<not> block_is P d a) (ds_buckets d i)), ds_smc_invalidations := n\<rparr>"
proof -
  obtain n where "fst (drop_chain P (ds_buckets d i) d) = filter (\<lambda>a. \<not> block_is P d a) (ds_buckets d i)"
    "snd (drop_chain P (ds_buckets d i) d) =
       d\<lparr>ds_heap := (\<lambda>a. if a \<in> set (ds_buckets d i) \<and> block_is P d a then None else ds_heap d a), ds_smc_invalidations := n\<rparr>"
    using drop_chain_filter [OF assms, of P d] by blast
  thus ?thesis by (intro exI [of _ n]) (simp add: drop_bucket_def case_prod_beta Let_def)
qed

lemma drop_upto:
  assumes "disp_ok d"
  shows "\<exists>k. fold (drop_bucket P) [0..<n] d =
    d\<lparr>ds_heap := (\<lambda>a. if (\<exists>i<n. a \<in> set (ds_buckets d i)) \<and> block_is P d a then None else ds_heap d a),
      ds_buckets := (\<lambda>i. if i < n then filter (\<lambda>a. \<not> block_is P d a) (ds_buckets d i) else ds_buckets d i),
      ds_smc_invalidations := k\<rparr>"
proof (induction n)
  case 0
  show ?case by (auto intro: exI [of _ "ds_smc_invalidations d"])
next
  case (Suc n)
  let ?h = "\<lambda>n a. if (\<exists>i<n. a \<in> set (ds_buckets d i)) \<and> block_is P d a then None else ds_heap d a"
  let ?b = "\<lambda>n i. if i < n then filter (\<lambda>a. \<not> block_is P d a) (ds_buckets d i) else ds_buckets d i"
  obtain k where k: "fold (drop_bucket P) [0..<n] d = d\<lparr>ds_heap := ?h n, ds_buckets := ?b n, ds_smc_invalidations := k\<rparr>"
    using Suc by blast
  define e where "e = d\<lparr>ds_heap := ?h n, ds_buckets := ?b n, ds_smc_invalidations := k\<rparr>"
  have e: "ds_heap e = ?h n" "ds_buckets e = ?b n" "ds_buckets e n = ds_buckets d n" by (simp_all add: e_def)
  have d: "distinct (ds_buckets e n)" using assms e(3) by (simp add: disp_ok_def)
  have o: "\<not> (\<exists>i<n. a \<in> set (ds_buckets d i))" if "a \<in> set (ds_buckets d n)" for a
    using disp_okD(3) [OF assms that] by auto
  have p: "block_is P e a \<longleftrightarrow> block_is P d a" if "a \<in> set (ds_buckets d n)" for a
    using o [OF that] by (simp add: block_is_def e(1))
  have h: "(\<lambda>a. if a \<in> set (ds_buckets e n) \<and> block_is P e a then None else ds_heap e a) = ?h (Suc n)"
  proof
    fix a
    show "(if a \<in> set (ds_buckets e n) \<and> block_is P e a then None else ds_heap e a) = ?h (Suc n) a"
      unfolding e(1,3) by (cases "a \<in> set (ds_buckets d n)") (auto simp: p less_Suc_eq dest: o)
  qed
  have "filter (\<lambda>a. \<not> block_is P e a) (ds_buckets e n) = filter (\<lambda>a. \<not> block_is P d a) (ds_buckets d n)"
    unfolding e(3) using p by (intro filter_cong) auto
  hence b: "(ds_buckets e)(n := filter (\<lambda>a. \<not> block_is P e a) (ds_buckets e n)) = ?b (Suc n)"
    unfolding e(2) by (auto simp: fun_eq_iff less_Suc_eq)
  obtain l where "drop_bucket P n e = e\<lparr>ds_heap := ?h (Suc n), ds_buckets := ?b (Suc n), ds_smc_invalidations := l\<rparr>"
    using drop_bucket_eq [OF d, of P] unfolding h b by blast
  hence "fold (drop_bucket P) [0..<Suc n] d = d\<lparr>ds_heap := ?h (Suc n), ds_buckets := ?b (Suc n), ds_smc_invalidations := l\<rparr>"
    by (simp add: k e_def)
  thus ?case by blast
qed

text \<open>The blocks that do not satisfy \<open>P\<close> are still there, unchanged, and no others.\<close>

lemma cached_drop:
  assumes "disp_ok d"
  shows "disp_ok (drop_blocks P d)" "cached (drop_blocks P d) a b \<longleftrightarrow> cached d a b \<and> \<not> P b"
    "ds_code_pages (drop_blocks P d) = ds_code_pages d" "ds_dirty_pages (drop_blocks P d) = ds_dirty_pages d"
    "ds_smc_overflow (drop_blocks P d) = ds_smc_overflow d" "ds_cc (drop_blocks P d) = ds_cc d"
proof -
  let ?N = M68K_JIT_BLOCK_BUCKETS and ?e = "drop_blocks P d"
  obtain k where k: "?e = d\<lparr>ds_heap := (\<lambda>a. if (\<exists>i<?N. a \<in> set (ds_buckets d i)) \<and> block_is P d a then None else ds_heap d a),
      ds_buckets := (\<lambda>i. if i < ?N then filter (\<lambda>a. \<not> block_is P d a) (ds_buckets d i) else ds_buckets d i),
      ds_smc_invalidations := k\<rparr>"
    using drop_upto [OF assms, of P ?N] unfolding drop_blocks_def by blast
  show "ds_code_pages ?e = ds_code_pages d" "ds_dirty_pages ?e = ds_dirty_pages d" "ds_smc_overflow ?e = ds_smc_overflow d"
    "ds_cc ?e = ds_cc d" by (simp_all add: k)
  have o: "i \<ge> ?N \<Longrightarrow> ds_buckets d i = []" for i
    using disp_okD(2) [OF assms, of _ i] by (cases "ds_buckets d i") auto
  have bk: "ds_buckets ?e i = filter (\<lambda>a. \<not> block_is P d a) (ds_buckets d i)" for i using o [of i] by (simp add: k)
  have hp: "ds_heap ?e a = ds_heap d a" if "\<not> block_is P d a" for a using that by (simp add: k)
  show "disp_ok ?e" unfolding disp_ok_def bk using assms hp by (auto simp: disp_ok_def)
  show "cached ?e a b \<longleftrightarrow> cached d a b \<and> \<not> P b"
  proof
    assume c: "cached ?e a b"
    hence "a \<in> set (ds_buckets d (bucket_of (b_pc_start b))) \<and> \<not> block_is P d a" by (simp add: cached_def bk)
    thus "cached d a b \<and> \<not> P b" using c hp by (auto simp: cached_def block_is_def)
  next
    assume "cached d a b \<and> \<not> P b"
    thus "cached ?e a b" using hp [of a] by (auto simp: cached_def bk block_is_def)
  qed
qed

lemma cached_free_all:
  shows "\<not> cached (free_all_blocks d) a b" "disp_ok d \<Longrightarrow> disp_ok (free_all_blocks d)"
proof -
  let ?f = "\<lambda>i d. (fold m68k_block_free (ds_buckets d i) d)\<lparr>ds_buckets := (ds_buckets d)(i := [])\<rparr>"
  have g: "ds_buckets (fold ?f is d) = (\<lambda>i. if i \<in> set is then [] else ds_buckets d i)" for "is"
    by (induction "is" arbitrary: d) auto
  have b: "ds_buckets (free_all_blocks d) i = (if i < M68K_JIT_BLOCK_BUCKETS then [] else ds_buckets d i)" for i
    unfolding free_all_blocks_def g by simp
  show "\<not> cached (free_all_blocks d) a b" using bucket_bound by (simp add: cached_def b)
  assume "disp_ok d"
  hence "ds_buckets d i = []" if "i \<ge> M68K_JIT_BLOCK_BUCKETS" for i
    using disp_okD(2) [of d _ i] that by (cases "ds_buckets d i") auto
  thus "disp_ok (free_all_blocks d)" by (simp add: disp_ok_def b)
qed

subsection \<open>Clearing predictions\<close>

lemma clear_chain:
  "distinct as \<Longrightarrow> fold (clear_prediction P) as d =
     d\<lparr>ds_heap := (\<lambda>a. if a \<in> set as \<and> block_is P d a then map_option no_prediction (ds_heap d a) else ds_heap d a)\<rparr>"
proof (induction "as" arbitrary: d)
  case (Cons a "as")
  have n: "a \<notin> set as" using Cons.prems by simp
  let ?d = "clear_prediction P a d"
  have h: "ds_heap ?d x = (if x = a \<and> block_is P d x then map_option no_prediction (ds_heap d x) else ds_heap d x)" for x
    by (auto simp: clear_prediction_def upd_block_def)
  have e: "block_is P ?d x \<longleftrightarrow> block_is P d x" if "x \<in> set as" for x
    using h [of x] that n by (auto simp: block_is_def)
  have f: "(\<lambda>x. if x \<in> set as \<and> block_is P ?d x then map_option no_prediction (ds_heap ?d x) else ds_heap ?d x)
      = (\<lambda>x. if x \<in> set (a # as) \<and> block_is P d x then map_option no_prediction (ds_heap d x) else ds_heap d x)"
  proof
    fix x
    show "(if x \<in> set as \<and> block_is P ?d x then map_option no_prediction (ds_heap ?d x) else ds_heap ?d x)
      = (if x \<in> set (a # as) \<and> block_is P d x then map_option no_prediction (ds_heap d x) else ds_heap d x)"
      using h [of x] e [of x] n by auto
  qed
  have "?d\<lparr>ds_heap := g\<rparr> = d\<lparr>ds_heap := g\<rparr>" for g by (simp add: clear_prediction_def upd_block_def)
  thus ?case using Cons.IH [of ?d] Cons.prems f by simp
qed simp

lemma clear_upto:
  assumes "disp_ok d"
  shows "fold (\<lambda>i d. fold (clear_prediction P) (ds_buckets d i) d) [0..<n] d =
    d\<lparr>ds_heap := (\<lambda>a. if (\<exists>i<n. a \<in> set (ds_buckets d i)) \<and> block_is P d a then map_option no_prediction (ds_heap d a) else ds_heap d a)\<rparr>"
proof (induction n)
  case (Suc n)
  let ?h = "\<lambda>n a. if (\<exists>i<n. a \<in> set (ds_buckets d i)) \<and> block_is P d a then map_option no_prediction (ds_heap d a) else ds_heap d a"
  define e where "e = d\<lparr>ds_heap := ?h n\<rparr>"
  have e: "ds_heap e = ?h n" "ds_buckets e n = ds_buckets d n" by (simp_all add: e_def)
  have d: "distinct (ds_buckets e n)" using assms e(2) by (simp add: disp_ok_def)
  have o: "\<not> (\<exists>i<n. a \<in> set (ds_buckets d i))" if "a \<in> set (ds_buckets d n)" for a
    using disp_okD(3) [OF assms that] by auto
  have p: "block_is P e a \<longleftrightarrow> block_is P d a" if "a \<in> set (ds_buckets d n)" for a
  proof -
    have "ds_heap e a = ds_heap d a" unfolding e(1) using o [OF that] by (simp only: simp_thms if_False)
    thus ?thesis by (simp only: block_is_def)
  qed
  have "(\<lambda>a. if a \<in> set (ds_buckets e n) \<and> block_is P e a then map_option no_prediction (ds_heap e a) else ds_heap e a) = ?h (Suc n)"
  proof
    fix a
    show "(if a \<in> set (ds_buckets e n) \<and> block_is P e a then map_option no_prediction (ds_heap e a) else ds_heap e a) = ?h (Suc n) a"
      unfolding e by (cases "a \<in> set (ds_buckets d n)") (auto simp: p less_Suc_eq dest: o)
  qed
  hence "fold (clear_prediction P) (ds_buckets e n) e = e\<lparr>ds_heap := ?h (Suc n)\<rparr>" by (simp only: clear_chain [OF d, of P])
  moreover have "fold (\<lambda>i d. fold (clear_prediction P) (ds_buckets d i) d) [0..<n] d = e" using Suc by (simp only: e_def)
  ultimately have "fold (\<lambda>i d. fold (clear_prediction P) (ds_buckets d i) d) [0..<Suc n] d = e\<lparr>ds_heap := ?h (Suc n)\<rparr>" by simp
  also have "\<dots> = d\<lparr>ds_heap := ?h (Suc n)\<rparr>" by (simp add: e_def)
  finally show ?case .
qed simp

lemma cached_clear:
  assumes "disp_ok d"
  shows "disp_ok (clear_predictions P d)"
    "cached (clear_predictions P d) a b \<longleftrightarrow> (\<exists>b0. cached d a b0 \<and> b = (if P b0 then no_prediction b0 else b0))"
    "ds_code_pages (clear_predictions P d) = ds_code_pages d" "ds_dirty_pages (clear_predictions P d) = ds_dirty_pages d"
    "ds_smc_overflow (clear_predictions P d) = ds_smc_overflow d" "ds_cc (clear_predictions P d) = ds_cc d"
proof -
  let ?e = "clear_predictions P d" and ?N = M68K_JIT_BLOCK_BUCKETS
  have k: "?e = d\<lparr>ds_heap := (\<lambda>a. if (\<exists>i<?N. a \<in> set (ds_buckets d i)) \<and> block_is P d a then map_option no_prediction (ds_heap d a)
      else ds_heap d a)\<rparr>"
    unfolding clear_predictions_def by (rule clear_upto [OF assms])
  show "ds_code_pages ?e = ds_code_pages d" "ds_dirty_pages ?e = ds_dirty_pages d" "ds_smc_overflow ?e = ds_smc_overflow d"
    "ds_cc ?e = ds_cc d" by (simp_all add: k)
  have s: "b_pc_start (no_prediction x) = b_pc_start x" for x by (simp add: no_prediction_def)
  have h: "ds_heap ?e a = (if block_is P d a then map_option no_prediction (ds_heap d a) else ds_heap d a)"
    if "a \<in> set (ds_buckets d i)" for a i
    using that disp_okD(2) [OF assms that] by (auto simp: k)
  have bk: "ds_buckets ?e = ds_buckets d" by (simp add: k)
  have ok: "a \<in> set (ds_buckets d i) \<Longrightarrow> \<exists>b. ds_heap d a = Some b \<and> bucket_of (b_pc_start b) = i" for a i
    using assms by (simp add: disp_ok_def)
  show "disp_ok ?e" unfolding disp_ok_def bk
  proof (intro conjI allI ballI)
    show "distinct (ds_buckets d i)" for i using assms by (simp add: disp_ok_def)
    show "\<exists>b. ds_heap ?e a = Some b \<and> bucket_of (b_pc_start b) = i" if "a \<in> set (ds_buckets d i)" for i a
      using ok [OF that] h [OF that] by (auto simp: s)
  qed
  show "cached ?e a b \<longleftrightarrow> (\<exists>b0. cached d a b0 \<and> b = (if P b0 then no_prediction b0 else b0))"
  proof
    assume c: "cached ?e a b"
    hence i: "a \<in> set (ds_buckets d (bucket_of (b_pc_start b)))" by (simp add: cached_def bk)
    then obtain b0 where b0: "ds_heap d a = Some b0" "bucket_of (b_pc_start b0) = bucket_of (b_pc_start b)" using ok by blast
    hence "cached d a b0" using i by (simp add: cached_def)
    thus "\<exists>b0. cached d a b0 \<and> b = (if P b0 then no_prediction b0 else b0)"
      using c h [OF i] b0 by (auto simp: cached_def intro!: exI [of _ b0])
  next
    assume "\<exists>b0. cached d a b0 \<and> b = (if P b0 then no_prediction b0 else b0)"
    then obtain b0 where b0: "cached d a b0" "b = (if P b0 then no_prediction b0 else b0)" by blast
    thus "cached ?e a b" using h [of a "bucket_of (b_pc_start b0)"] by (auto simp: cached_def bk s)
  qed
qed

subsection \<open>Pages\<close>


lemma mark_page_marked:
  "page_marked p (mark_page q pages) \<longleftrightarrow> page_marked p pages \<or> p = q"
proof -
  have u: "unat x = unat y \<longleftrightarrow> x = y" for x y :: u32 by (rule word_unat_eq_iff [symmetric])
  have b: "(w OR push_bit k 1) AND push_bit j 1 \<noteq> 0 \<longleftrightarrow> w AND push_bit j 1 \<noteq> 0 \<or> j = k" if "j < 8" "k < 8" for w :: u8 and j k
  proof -
    have "w AND push_bit j 1 = 0 \<longleftrightarrow> \<not> bit w j" for w :: u8 by (simp add: push_bit_of_1 and_exp_eq_0_iff_not_bit)
    moreover have "bit (w OR push_bit k 1) j \<longleftrightarrow> bit w j \<or> j = k" using that by (auto simp: bit_simps)
    ultimately show ?thesis by simp
  qed
  have l: "unat (x AND 7) < 8" for x :: u32
  proof -
    have "x AND 7 \<le> 7" by (rule word_and_le1)
    thus ?thesis by (simp add: word_le_nat_alt)
  qed
  have i: "drop_bit 3 p = drop_bit 3 q \<and> p AND 7 = q AND 7 \<longleftrightarrow> p = q"
  proof -
    have m: "(7 :: u32) = mask 3" by (simp add: mask_eq_exp_minus_1)
    have "push_bit 3 (drop_bit 3 w) + (w AND 7) = w" for w :: u32
      unfolding m take_bit_eq_mask [symmetric] by (rule bits_ident)
    thus ?thesis by metis
  qed
  show ?thesis
  proof (cases "drop_bit 3 p = drop_bit 3 q")
    case True
    thus ?thesis using b [OF l l, of "pages (unat (drop_bit 3 q))" q p] i by (simp add: page_marked_def mark_page_def u)
  next
    case False
    hence "unat (drop_bit 3 p) \<noteq> unat (drop_bit 3 q)" "p \<noteq> q" by (auto simp: u)
    thus ?thesis by (simp add: page_marked_def mark_page_def)
  qed
qed

lemma page_of_bound: "unat (page_of x) = unat x div 256 mod 65536"
proof -
  have "(0xFFFF :: u32) = mask 16" by (simp add: mask_eq_exp_minus_1)
  hence "page_of x = take_bit 16 (drop_bit 8 x)" by (simp add: page_of_def take_bit_eq_mask)
  thus ?thesis by (simp add: take_bit_eq_mod unat_mod_distrib drop_bit_eq_div unat_div_distrib)
qed

lemma page_eq: "page_of x = page_of y \<longleftrightarrow> unat x div 256 mod 65536 = unat y div 256 mod 65536"
  by (simp add: word_unat_eq_iff page_of_bound)

text \<open>The marking loop ends and marks every page a block touches.\<close>

lemma mark_from_ends:
  assumes "unat e + 256 \<le> 2 ^ 32"
  shows "\<exists>pages'. mark_from a e pages = Some pages' \<and>
     (\<forall>p. page_marked p pages' \<longleftrightarrow> page_marked p pages \<or> (\<exists>j. unat a + 256 * j < unat e \<and> p = page_of (a + of_nat (256 * j))))"
proof (induction "unat e - unat a" arbitrary: a pages rule: less_induct)
  case less
  show ?case
  proof (cases "a < e")
    case False
    hence "\<not> unat a + 256 * j < unat e" for j by (simp add: word_less_nat_alt)
    thus ?thesis using False by (subst mark_from.simps) simp
  next
    case True
    have a: "unat (a + 256) = unat a + 256" using True assms by (simp add: word_less_nat_alt unat_word_ariths)
    have d: "unat e - unat (a + 256) < unat e - unat a" using a True by (simp add: word_less_nat_alt)
    from less.hyps [OF d, of "mark_page (page_of a) pages"] obtain q where
      q: "mark_from (a + 256) e (mark_page (page_of a) pages) = Some q"
        "\<And>p. page_marked p q \<longleftrightarrow> page_marked p (mark_page (page_of a) pages) \<or>
           (\<exists>j. unat (a + 256) + 256 * j < unat e \<and> p = page_of ((a + 256) + of_nat (256 * j)))" by blast
    have "(\<exists>j. unat a + 256 * j < unat e \<and> p = page_of (a + of_nat (256 * j))) \<longleftrightarrow>
      p = page_of a \<or> (\<exists>j. unat (a + 256) + 256 * j < unat e \<and> p = page_of ((a + 256) + of_nat (256 * j)))" for p
    proof -
      have e: "(\<exists>j. Q j) \<longleftrightarrow> Q 0 \<or> (\<exists>j. Q (Suc j))" for Q :: "nat \<Rightarrow> bool" by (metis not0_implies_Suc)
      have s: "(a + 256) + of_nat (256 * j) = a + of_nat (256 * Suc j)" for j by (simp add: algebra_simps)
      show ?thesis by (subst e) (use True in \<open>simp add: a s word_less_nat_alt add_ac\<close>)
    qed
    thus ?thesis using True q by (subst mark_from.simps) (auto simp: mark_page_marked)
  qed
qed

text \<open>Every page a block occupies, by the last 16 bits of its number.\<close>

definition pages_cover :: "(nat \<Rightarrow> u8) \<Rightarrow> m68k_block \<Rightarrow> bool" where
  "pages_cover pages b \<longleftrightarrow> (\<forall>x. b_pc_start b \<le> x \<and> x < b_pc_end b \<longrightarrow> page_marked (page_of x) pages)"

lemma last_page:
  fixes s x e :: nat
  assumes "s \<le> x" "x < e"
  shows "(\<exists>j. s + 256 * j < e \<and> x div 256 = (s + 256 * j) div 256) \<or> x div 256 = (e - 1) div 256"
proof -
  let ?j = "(x - s) div 256"
  have j: "s + 256 * ?j \<le> x" "x < s + 256 * ?j + 256" using assms by linarith+
  consider "x div 256 = (s + 256 * ?j) div 256" | "x div 256 = (s + 256 * ?j) div 256 + 1" using j by linarith
  thus ?thesis
  proof cases
    case 1
    thus ?thesis using j assms by (intro disjI1 exI [of _ ?j]) linarith
  next
    case 2
    moreover have "s + 256 * Suc ?j = (s + 256 * ?j) + 256" by simp
    hence "(s + 256 * Suc ?j) div 256 = (s + 256 * ?j) div 256 + 1" by (simp only: div_add_self2 zero_neq_numeral not_False_eq_True)
    ultimately have d: "x div 256 = (s + 256 * Suc ?j) div 256" by (simp only:)
    show ?thesis
    proof (cases "s + 256 * Suc ?j < e")
      case True
      thus ?thesis using d by blast
    next
      case False
      hence "e - 1 < s + 256 * Suc ?j" "x \<le> e - 1" using assms by linarith+
      hence "(e - 1) div 256 \<le> (s + 256 * Suc ?j) div 256" "x div 256 \<le> (e - 1) div 256" by (simp_all add: div_le_mono)
      thus ?thesis using d by simp
    qed
  qed
qed

lemma mark_block_covers:
  assumes "ds_heap d a = Some b" "unat (b_pc_end b) + 256 \<le> 2 ^ 32"
  shows "\<exists>pages. smc_mark_block a d = Some (d\<lparr>ds_code_pages := pages\<rparr>) \<and> pages_cover pages b \<and>
     (\<forall>p. page_marked p (ds_code_pages d) \<longrightarrow> page_marked p pages)"
proof -
  let ?s = "b_pc_start b" and ?e = "b_pc_end b"
  obtain q where q: "mark_from ?s ?e (ds_code_pages d) = Some q"
    "\<And>p. page_marked p q \<longleftrightarrow> page_marked p (ds_code_pages d) \<or> (\<exists>j. unat ?s + 256 * j < unat ?e \<and> p = page_of (?s + of_nat (256 * j)))"
    using mark_from_ends [OF assms(2), of ?s "ds_code_pages d"] by blast
  let ?p = "mark_page (page_of (if ?e \<noteq> 0 then ?e - 1 else 0)) q"
  have "page_marked (page_of x) ?p" if x: "?s \<le> x" "x < ?e" for x
  proof -
    have u: "unat ?s \<le> unat x" "unat x < unat ?e" using x by (simp_all add: word_le_nat_alt word_less_nat_alt)
    from last_page [OF u] show ?thesis
    proof (elim disjE exE conjE)
      fix j
      assume j: "unat ?s + 256 * j < unat ?e" "unat x div 256 = (unat ?s + 256 * j) div 256"
      have "unat (?s + of_nat (256 * j)) = unat ?s + 256 * j"
        using j(1) unat_bound [of ?e] by (simp only: unat_word_ariths unat_of_nat) simp
      hence "page_of x = page_of (?s + of_nat (256 * j))" unfolding page_eq using j(2) by simp
      thus ?thesis using j(1) unfolding mark_page_marked q(2) by blast
    next
      assume l: "unat x div 256 = (unat ?e - 1) div 256"
      have "1 \<le> ?e" using u by (simp add: word_le_nat_alt)
      hence "unat (?e - 1) = unat ?e - 1" by (simp add: unat_sub)
      hence "page_of x = page_of (?e - 1)" unfolding page_eq using l by simp
      moreover have "?e \<noteq> 0" using u by auto
      ultimately show ?thesis by (simp add: mark_page_marked)
    qed
  qed
  hence "pages_cover ?p b" by (auto simp: pages_cover_def)
  moreover have "smc_mark_block a d = Some (d\<lparr>ds_code_pages := ?p\<rparr>)" using assms(1) q(1) by (simp add: smc_mark_block_def Let_def)
  moreover have "\<forall>p. page_marked p (ds_code_pages d) \<longrightarrow> page_marked p ?p" by (simp add: mark_page_marked q(2))
  ultimately show ?thesis by blast
qed


subsection \<open>Watched writes\<close>

lemma ucast_page: "ucast (ucast (page_of x) :: u16) = page_of x"
proof -
  have m: "(0xFFFF :: u32) = mask 16" by (simp add: mask_eq_exp_minus_1)
  show ?thesis unfolding page_of_def m by (rule bit_word_eqI) (auto simp: bit_simps)
qed

lemma watch_frame [simp]:
  "ds_heap (smc_watch w d) = ds_heap d" "ds_buckets (smc_watch w d) = ds_buckets d" "ds_code_pages (smc_watch w d) = ds_code_pages d"
  "ds_cc (smc_watch w d) = ds_cc d" "disp_ok (smc_watch w d) = disp_ok d" "cached (smc_watch w d) = cached d"
  by (simp_all add: smc_watch_def Let_def disp_ok_def cached_def fun_eq_iff)

lemma watches_frame [simp]:
  "ds_code_pages (fold smc_watch ws d) = ds_code_pages d" "disp_ok (fold smc_watch ws d) = disp_ok d"
  "cached (fold smc_watch ws d) = cached d" "ds_cc (fold smc_watch ws d) = ds_cc d"
  by (induction ws arbitrary: d) simp_all

text \<open>A page in the queue, or a full flush pending.\<close>

definition pending :: "dispatcher \<Rightarrow> u32 \<Rightarrow> bool" where
  "pending d p \<longleftrightarrow> ds_smc_overflow d \<or> (\<exists>q \<in> set (ds_dirty_pages d). ucast q = p)"

lemma pending_watch: "pending (smc_watch w d) p \<longleftrightarrow> pending d p \<or> page_marked (page_of w) (ds_code_pages d) \<and> pending (smc_watch w d) p"
  "page_marked (page_of w) (ds_code_pages d) \<Longrightarrow> pending (smc_watch w d) (page_of w)"
  by (auto simp: pending_def smc_watch_def Let_def ucast_page)

lemma pending_mono: "pending d p \<Longrightarrow> pending (fold smc_watch ws d) p"
proof (induction ws arbitrary: d)
  case (Cons w ws)
  thus ?case using pending_watch(1) [of w d p] by simp
qed simp

lemma pending_watches:
  "w \<in> set ws \<Longrightarrow> page_marked (page_of w) (ds_code_pages d) \<Longrightarrow> pending (fold smc_watch ws d) (page_of w)"
proof (induction ws arbitrary: d)
  case (Cons x xs)
  show ?case
  proof (cases "x = w")
    case True
    thus ?thesis using pending_watch(2) [of w d] Cons.prems pending_mono by simp
  next
    case False
    thus ?thesis using Cons by simp
  qed
qed simp

lemma dirty_watches:
  assumes "\<not> ds_smc_overflow d" "length (ds_dirty_pages d) + length ws \<le> 256"
  shows "\<not> ds_smc_overflow (fold smc_watch ws d) \<and>
     set (ds_dirty_pages (fold smc_watch ws d)) \<subseteq> set (ds_dirty_pages d) \<union> (\<lambda>w. ucast (page_of w)) ` set ws"
  using assms
proof (induction ws arbitrary: d)
  case (Cons w ws)
  have o: "\<not> ds_smc_overflow (smc_watch w d)" "length (ds_dirty_pages (smc_watch w d)) + length ws \<le> 256"
    "set (ds_dirty_pages (smc_watch w d)) \<subseteq> set (ds_dirty_pages d) \<union> {ucast (page_of w)}"
    using Cons.prems by (auto simp: smc_watch_def Let_def)
  show ?case using Cons.IH [OF o(1,2)] o(3) by auto
qed simp

text \<open>What is left after a flush.\<close>

definition on_page :: "u16 \<Rightarrow> m68k_block \<Rightarrow> bool" where
  "on_page p b \<longleftrightarrow> unat (b_pc_start b) < 256 * unat p + 256 \<and> 256 * unat p < unat (b_pc_end b)"

lemma page_range: "b_pc_start b < push_bit 8 (ucast p) + 256 \<and> push_bit 8 (ucast p) < b_pc_end b \<longleftrightarrow> on_page p b"
  for p :: u16
proof -
  have b: "unat p < 65536" using unat_bound [of p] by simp
  have p: "unat (push_bit 8 (ucast p) :: u32) = 256 * unat p"
  proof -
    have "unat (ucast p :: u32) = unat p" using b by (simp add: unsigned_ucast_eq take_bit_nat_eq_self)
    thus ?thesis using b by (simp only: push_bit_eq_mult unat_word_ariths) simp
  qed
  moreover have "unat (push_bit 8 (ucast p) + 256 :: u32) = 256 * unat p + 256" using b by (simp add: unat_word_ariths p)
  ultimately show ?thesis by (auto simp: on_page_def word_less_nat_alt)
qed

lemma cached_drops:
  fixes ps :: "u16 list"
  assumes "disp_ok d"
  shows "disp_ok (fold (\<lambda>p. smc_drop_range (push_bit 8 (ucast p)) (push_bit 8 (ucast p) + 256)) ps d)
    \<and> (cached (fold (\<lambda>p. smc_drop_range (push_bit 8 (ucast p)) (push_bit 8 (ucast p) + 256)) ps d) a b \<longleftrightarrow>
       cached d a b \<and> (\<forall>p \<in> set ps. \<not> on_page p b))"
  using assms
proof (induction ps arbitrary: d)
  case (Cons p ps)
  have c: "disp_ok (smc_drop_range (push_bit 8 (ucast p)) (push_bit 8 (ucast p) + 256) d)"
    "cached (smc_drop_range (push_bit 8 (ucast p)) (push_bit 8 (ucast p) + 256) d) a b \<longleftrightarrow> cached d a b \<and> \<not> on_page p b"
    unfolding smc_drop_range_def page_range using cached_drop(1,2) [OF Cons.prems] by simp_all
  show ?case using Cons.IH [OF c(1)] c(2) by auto
qed simp

lemma cached_flush:
  assumes "disp_ok d"
  shows "disp_ok (snd (smc_flush d))"
    "fst (smc_flush d) \<Longrightarrow> cached (snd (smc_flush d)) a b \<longleftrightarrow>
       \<not> ds_smc_overflow d \<and> (\<exists>b0. cached d a b0 \<and> (\<forall>p \<in> set (ds_dirty_pages d). \<not> on_page p b0) \<and> b = no_prediction b0)"
    "\<not> fst (smc_flush d) \<Longrightarrow> \<not> ds_smc_overflow d \<and> ds_dirty_pages d = [] \<and> snd (smc_flush d) = d"
proof -
  have pure: "disp_ok (d\<lparr>ds_dirty_pages := x, ds_smc_overflow := y\<rparr>) = disp_ok d"
    "cached (d\<lparr>ds_dirty_pages := x, ds_smc_overflow := y\<rparr>) = cached d"
    "disp_ok (d\<lparr>ds_cc := c, ds_code_pages := g, ds_arena_resets := n\<rparr>) = disp_ok d"
    "cached (d\<lparr>ds_cc := c, ds_code_pages := g, ds_arena_resets := n\<rparr>) = cached d" for d x y c g n
    by (simp_all add: disp_ok_def cached_def fun_eq_iff)
  have all: "disp_ok (snd (smc_flush d)) \<and> (fst (smc_flush d) \<longrightarrow> (cached (snd (smc_flush d)) a b \<longleftrightarrow>
       \<not> ds_smc_overflow d \<and> (\<exists>b0. cached d a b0 \<and> (\<forall>p \<in> set (ds_dirty_pages d). \<not> on_page p b0) \<and> b = no_prediction b0))) \<and>
    (\<not> fst (smc_flush d) \<longrightarrow> \<not> ds_smc_overflow d \<and> ds_dirty_pages d = [] \<and> snd (smc_flush d) = d)"
  proof (cases "\<not> ds_smc_overflow d \<and> ds_dirty_pages d = []")
    case True
    thus ?thesis using assms by (simp add: smc_flush_def)
  next
    case dirty: False
    show ?thesis
    proof (cases "ds_smc_overflow d")
      case True
      define e where "e = (free_all_blocks d)\<lparr>ds_cc := codecache_reset (ds_cc (free_all_blocks d)), ds_code_pages := (\<lambda>_. 0),
        ds_arena_resets := ds_arena_resets (free_all_blocks d) + 1\<rparr>"
      have s: "smc_flush d = (True, clear_predictions (\<lambda>_. True) (e\<lparr>ds_dirty_pages := [], ds_smc_overflow := False\<rparr>))"
        using True by (simp add: smc_flush_def e_def Let_def)
      have ok: "disp_ok (e\<lparr>ds_dirty_pages := [], ds_smc_overflow := False\<rparr>)" "\<not> cached (e\<lparr>ds_dirty_pages := [], ds_smc_overflow := False\<rparr>) x y" for x y
        unfolding e_def pure using cached_free_all [of d] assms by auto
      show ?thesis unfolding s using cached_clear(1,2) [OF ok(1)] ok(2) True by simp
    next
      case False
      define e where "e = fold (\<lambda>p. smc_drop_range (push_bit 8 (ucast p)) (push_bit 8 (ucast p) + 256)) (ds_dirty_pages d) d"
      have s: "smc_flush d = (True, clear_predictions (\<lambda>_. True) (e\<lparr>ds_dirty_pages := [], ds_smc_overflow := False\<rparr>))"
        using False dirty by (simp add: smc_flush_def e_def Let_def)
      have ok: "disp_ok (e\<lparr>ds_dirty_pages := [], ds_smc_overflow := False\<rparr>)"
        "cached (e\<lparr>ds_dirty_pages := [], ds_smc_overflow := False\<rparr>) x y \<longleftrightarrow> cached d x y \<and> (\<forall>p \<in> set (ds_dirty_pages d). \<not> on_page p y)" for x y
        unfolding e_def pure using cached_drops [OF assms, of "ds_dirty_pages d"] by auto
      show ?thesis unfolding s using cached_clear(1,2) [OF ok(1)] ok(2) False by auto
    qed
  qed
  thus "disp_ok (snd (smc_flush d))"
    "fst (smc_flush d) \<Longrightarrow> cached (snd (smc_flush d)) a b \<longleftrightarrow>
       \<not> ds_smc_overflow d \<and> (\<exists>b0. cached d a b0 \<and> (\<forall>p \<in> set (ds_dirty_pages d). \<not> on_page p b0) \<and> b = no_prediction b0)"
    "\<not> fst (smc_flush d) \<Longrightarrow> \<not> ds_smc_overflow d \<and> ds_dirty_pages d = [] \<and> snd (smc_flush d) = d" by blast+
qed

subsection \<open>Guest writes and the block table\<close>

definition write_all :: "(u32 \<times> u8) list \<Rightarrow> machine \<Rightarrow> machine" where
  "write_all ws m = fold (\<lambda>(w, v) m. mac_write8 m w v) ws m"

lemma write_ram_watch:
  assumes "\<not> m_overlay m" "m_ram_size m \<noteq> 0" "w AND 0xFFFFFF < MAC_ROM_BASE"
  shows "m_watch (mac_write8 m w v) = m_watch m @ [w AND 0xFFFFFF]" "\<not> m_overlay (mac_write8 m w v)"
    "m_ram_size (mac_write8 m w v) \<noteq> 0"
  using assms by (simp_all add: mac_write8_def ram_store_def Let_def)

lemma write_all_watch:
  assumes "\<not> m_overlay m" "m_ram_size m \<noteq> 0" "\<forall>(w, v) \<in> set ws. w AND 0xFFFFFF < MAC_ROM_BASE"
  shows "m_watch (write_all ws m) = m_watch m @ map (\<lambda>(w, v). w AND 0xFFFFFF) ws"
  using assms
proof (induction ws arbitrary: m)
  case (Cons x ws)
  obtain w v where x: "x = (w, v)" by (cases x)
  have "w AND 0xFFFFFF < MAC_ROM_BASE" using Cons.prems(3) x by simp
  note s = write_ram_watch [OF Cons.prems(1,2) this, of v]
  show ?case using Cons.IH [OF s(2,3)] Cons.prems(3) s(1) x by (simp add: write_all_def)
qed (simp add: write_all_def)

text \<open>The write watch is called for every write, in order; between blocks the queue is flushed.\<close>

definition after_writes :: "(u32 \<times> u8) list \<Rightarrow> machine \<Rightarrow> dispatcher \<Rightarrow> dispatcher" where
  "after_writes ws m d = snd (smc_flush (fold smc_watch (drop (length (m_watch m)) (m_watch (write_all ws m))) d))"

text \<open>The table keeps its blocks apart and marked, and their code lies in the 24-bit address space.\<close>

definition table_inv :: "dispatcher \<Rightarrow> bool" where
  "table_inv d \<longleftrightarrow> disp_ok d \<and>
     (\<forall>a b. cached d a b \<longrightarrow> pages_cover (ds_code_pages d) b \<and> b_pc_end b \<le> 0x1000000)"

lemma addr_page:
  assumes "b_pc_start b \<le> w" "w < b_pc_end b" "b_pc_end b \<le> 0x1000000"
  shows "on_page (ucast (page_of w)) b"
proof -
  have u: "unat (b_pc_start b) \<le> unat w" "unat w < unat (b_pc_end b)" "unat (b_pc_end b) \<le> 0x1000000"
    using assms by (simp_all add: word_le_nat_alt word_less_nat_alt)
  have "unat (ucast (page_of w) :: u16) = unat (page_of w)"
    by (simp add: unsigned_ucast_eq take_bit_nat_eq_self page_of_bound)
  also have "\<dots> = unat w div 256" using u by (simp add: page_of_bound)
  finally show ?thesis using u by (simp add: on_page_def) linarith?
qed

lemma smc_flush_writes:
  assumes "table_inv d" "ds_dirty_pages d = []" "\<not> ds_smc_overflow d"
    and "\<not> m_overlay m" "m_ram_size m \<noteq> 0" "\<forall>(w, v) \<in> set ws. w AND 0xFFFFFF < MAC_ROM_BASE"
  shows "\<forall>(w, v) \<in> set ws. \<forall>a b. cached (after_writes ws m d) a b \<longrightarrow> \<not> (b_pc_start b \<le> w AND 0xFFFFFF \<and> w AND 0xFFFFFF < b_pc_end b)"
    and "length ws \<le> 256 \<Longrightarrow> cached d a b \<Longrightarrow> \<forall>(w, v) \<in> set ws. \<not> on_page (ucast (page_of (w AND 0xFFFFFF))) b \<Longrightarrow>
       cached (after_writes ws m d) a b \<or> cached (after_writes ws m d) a (no_prediction b)"
proof -
  let ?ws = "map (\<lambda>(w, v). w AND 0xFFFFFF) ws"
  let ?d = "fold smc_watch ?ws d"
  have e: "after_writes ws m d = snd (smc_flush ?d)"
    unfolding after_writes_def write_all_watch [OF assms(4-6)] by simp
  have ok: "disp_ok ?d" and c: "cached ?d = cached d" using assms(1) by (simp_all add: table_inv_def)
  note f = cached_flush [OF ok, unfolded c]
  show "\<forall>(w, v) \<in> set ws. \<forall>a b. cached (after_writes ws m d) a b \<longrightarrow> \<not> (b_pc_start b \<le> w AND 0xFFFFFF \<and> w AND 0xFFFFFF < b_pc_end b)"
  proof (clarify)
    fix w :: u32 and v :: u8 and a b
    let ?w = "w AND 0xFFFFFF"
    assume i: "(w, v) \<in> set ws" and b: "cached (after_writes ws m d) a b" "b_pc_start b \<le> ?w" "?w < b_pc_end b"
    have wi: "?w \<in> set ?ws" using i by force
    obtain b0 where b0: "cached d a b0" "b_pc_start b0 = b_pc_start b" "b_pc_end b0 = b_pc_end b"
      "fst (smc_flush ?d) \<Longrightarrow> \<not> ds_smc_overflow ?d \<and> (\<forall>p \<in> set (ds_dirty_pages ?d). \<not> on_page p b)"
    proof (cases "fst (smc_flush ?d)")
      case True
      then obtain b0 where "\<not> ds_smc_overflow ?d" "cached d a b0" "\<forall>p \<in> set (ds_dirty_pages ?d). \<not> on_page p b0" "b = no_prediction b0"
        using f(2) b(1) unfolding e by blast
      thus ?thesis using that [of b0] by (simp add: no_prediction_def on_page_def)
    next
      case False
      hence "cached d a b" using f(3) b(1) c unfolding e by simp
      thus ?thesis using that [of b] False by simp
    qed
    have r: "b_pc_start b0 \<le> ?w" "?w < b_pc_end b0" "b_pc_end b0 \<le> 0x1000000" "pages_cover (ds_code_pages d) b0"
    proof -
      have "pages_cover (ds_code_pages d) b0 \<and> b_pc_end b0 \<le> 0x1000000" using assms(1) b0(1) unfolding table_inv_def by blast
      thus "b_pc_start b0 \<le> ?w" "?w < b_pc_end b0" "b_pc_end b0 \<le> 0x1000000" "pages_cover (ds_code_pages d) b0"
        using b(2,3) b0(2,3) by simp_all
    qed
    have "page_marked (page_of ?w) (ds_code_pages d)" using r by (simp add: pages_cover_def)
    hence p: "pending ?d (page_of ?w)" by (rule pending_watches [OF wi])
    show False
    proof (cases "fst (smc_flush ?d)")
      case True
      then obtain q where q: "q \<in> set (ds_dirty_pages ?d)" "ucast q = page_of ?w" using p b0(4) by (auto simp: pending_def)
      have "(ucast (ucast q :: u32) :: u16) = q" by (rule bit_word_eqI) (auto simp: bit_simps)
      hence "q = ucast (page_of ?w)" using q(2) by simp
      hence "on_page q b0" using addr_page [OF r(1-3)] by simp
      thus False using b0(2,3) conjunct2 [OF b0(4) [OF True]] q(1) by (auto simp: on_page_def)
    next
      case False
      thus False using f(3) p by (simp add: pending_def)
    qed
  qed
  assume l: "length ws \<le> 256" and cb: "cached d a b" and n: "\<forall>(w, v) \<in> set ws. \<not> on_page (ucast (page_of (w AND 0xFFFFFF))) b"
  have q: "\<not> ds_smc_overflow ?d" "set (ds_dirty_pages ?d) \<subseteq> (\<lambda>w. ucast (page_of w)) ` set ?ws"
    using dirty_watches [of d ?ws] assms(2,3) l by simp_all
  have "\<forall>p \<in> set (ds_dirty_pages ?d). \<not> on_page p b" using q(2) n by auto
  thus "cached (after_writes ws m d) a b \<or> cached (after_writes ws m d) a (no_prediction b)"
    using f(2,3) q(1) cb unfolding e c by (cases "fst (smc_flush ?d)") auto
qed

text \<open>C37: Code the guest has overwritten is never run from the table: after any sequence of byte writes to RAM, reported to the
  dispatcher by the write watch, the flush between two blocks leaves no block that contains a written
  address, and as long as the queue of pages does not overflow it drops no block whose pages were not written.\<close>

theorem smc_drops_overwritten:
  assumes "table_inv d" "ds_dirty_pages d = []" "\<not> ds_smc_overflow d"
    and "\<not> m_overlay m" "m_ram_size m \<noteq> 0" "\<forall>(w, v) \<in> set ws. w AND 0xFFFFFF < MAC_ROM_BASE"
  shows "(\<forall>(w, v) \<in> set ws. \<forall>a b. cached (after_writes ws m d) a b \<longrightarrow> \<not> (b_pc_start b \<le> w AND 0xFFFFFF \<and> w AND 0xFFFFFF < b_pc_end b)) \<and>
    (length ws \<le> 256 \<longrightarrow> (\<forall>a b. cached d a b \<and> (\<forall>(w, v) \<in> set ws. \<not> on_page (ucast (page_of (w AND 0xFFFFFF))) b) \<longrightarrow>
       cached (after_writes ws m d) a b \<or> cached (after_writes ws m d) a (no_prediction b)))"
  by (intro conjI impI allI smc_flush_writes [OF assms]) simp_all

subsection \<open>Predictions\<close>

definition predictions_ok :: "dispatcher \<Rightarrow> bool" where
  "predictions_ok d \<longleftrightarrow> (\<forall>a b c. cached d a b \<longrightarrow> b_predicted_next b = Some c \<longrightarrow> (\<exists>b'. cached d c b'))"

lemma no_prediction_none [simp]: "b_predicted_next (no_prediction b) = None" "b_pc_start (no_prediction b) = b_pc_start b"
  "b_last_used_cycle (no_prediction b) = b_last_used_cycle b"
  by (simp_all add: no_prediction_def)

lemma flush_predictions: "disp_ok d \<Longrightarrow> predictions_ok d \<Longrightarrow> predictions_ok (snd (smc_flush d))"
  using cached_flush [of d] by (cases "fst (smc_flush d)") (auto simp: predictions_ok_def)

lemma fifo_cached:
  assumes "disp_ok d"
  defines "P \<equiv> \<lambda>s e b. b_code b < e \<and> b_code b + b_code_size b > s"
  shows "disp_ok (fifo_evict_range_cb s e d)"
    "cached (fifo_evict_range_cb s e d) a b \<Longrightarrow> \<not> P s e b"
    "predictions_ok d \<Longrightarrow> predictions_ok (fifo_evict_range_cb s e d)"
proof -
  let ?any = "\<exists>a \<in> set (table d). block_is (P s e) d a"
  let ?d = "drop_blocks (P s e) d"
  note dr = cached_drop [OF assms(1), of "P s e"]
  note cl = cached_clear [OF dr(1), of "\<lambda>_. True"]
  have f: "fifo_evict_range_cb s e d = (if ?any then clear_predictions (\<lambda>_. True) ?d else ?d)"
    by (simp add: fifo_evict_range_cb_def P_def Let_def)
  show "disp_ok (fifo_evict_range_cb s e d)" using dr(1) cl(1) by (simp add: f)
  have np: "P s e (no_prediction b) = P s e b" for b by (simp add: P_def no_prediction_def)
  show "cached (fifo_evict_range_cb s e d) a b \<Longrightarrow> \<not> P s e b" using dr(2) cl(2) by (auto simp: f np split: if_splits)
  assume p: "predictions_ok d"
  show "predictions_ok (fifo_evict_range_cb s e d)"
  proof (cases ?any)
    case True
    thus ?thesis using cl(2) by (auto simp: f predictions_ok_def)
  next
    case False
    have "cached ?d a b \<longleftrightarrow> cached d a b" for a b
    proof -
      have "\<not> P s e b" if "cached d a b"
      proof -
        have "a \<in> set (table d)" "ds_heap d a = Some b" using mem_table [OF assms(1)] that by (auto simp: cached_def)
        thus ?thesis using False block_is_Some by blast
      qed
      thus ?thesis using dr(2) by blast
    qed
    thus ?thesis using False p by (simp add: f predictions_ok_def)
  qed
qed


subsection \<open>The coldest block\<close>

lemma fold_colder:
  "case fold (colder d i) as (t, r) of (t', r') \<Rightarrow>
     t' \<le> t \<and> (\<forall>a \<in> set as. \<forall>b. ds_heap d a = Some b \<longrightarrow> t' \<le> b_last_used_cycle b) \<and>
     (r' = r \<and> t' = t \<or> (\<exists>a b. a \<in> set as \<and> ds_heap d a = Some b \<and> r' = Some (i, a) \<and> t' = b_last_used_cycle b \<and> t' < t))"
proof (induction "as" arbitrary: t r)
  case (Cons a "as")
  obtain t1 r1 where s: "colder d i a (t, r) = (t1, r1)" by (cases "colder d i a (t, r)")
  have o: "t1 \<le> t \<and> (\<forall>b. ds_heap d a = Some b \<longrightarrow> t1 \<le> b_last_used_cycle b) \<and>
     (r1 = r \<and> t1 = t \<or> (\<exists>b. ds_heap d a = Some b \<and> r1 = Some (i, a) \<and> t1 = b_last_used_cycle b \<and> t1 < t))"
    using s by (auto simp: colder_def split: option.splits if_splits)
  obtain t2 r2 where f: "fold (colder d i) as (t1, r1) = (t2, r2)" by (cases "fold (colder d i) as (t1, r1)")
  have i: "t2 \<le> t1 \<and> (\<forall>a \<in> set as. \<forall>b. ds_heap d a = Some b \<longrightarrow> t2 \<le> b_last_used_cycle b) \<and>
     (r2 = r1 \<and> t2 = t1 \<or> (\<exists>a b. a \<in> set as \<and> ds_heap d a = Some b \<and> r2 = Some (i, a) \<and> t2 = b_last_used_cycle b \<and> t2 < t1))"
    using Cons.IH [of t1 r1] f by simp
  have "t2 \<le> t" using i o by (meson order_trans)
  moreover have "\<forall>x \<in> set (a # as). \<forall>b. ds_heap d x = Some b \<longrightarrow> t2 \<le> b_last_used_cycle b" using i o by (metis order_trans set_ConsD)
  moreover have "r2 = r \<and> t2 = t \<or> (\<exists>x b. x \<in> set (a # as) \<and> ds_heap d x = Some b \<and> r2 = Some (i, x) \<and> t2 = b_last_used_cycle b \<and> t2 < t)"
    using i o by (metis list.set_intros order_less_le_trans)
  ultimately show ?case using s f by simp
qed simp

lemma fold_coldest:
  "case fold (\<lambda>i. fold (colder d i) (ds_buckets d i)) ks (t, r) of (t', r') \<Rightarrow>
     t' \<le> t \<and> (\<forall>i \<in> set ks. \<forall>a \<in> set (ds_buckets d i). \<forall>b. ds_heap d a = Some b \<longrightarrow> t' \<le> b_last_used_cycle b) \<and>
     (r' = r \<and> t' = t \<or> (\<exists>i a b. a \<in> set (ds_buckets d i) \<and> ds_heap d a = Some b \<and> r' = Some (i, a) \<and> t' = b_last_used_cycle b \<and> t' < t))"
proof (induction ks arbitrary: t r)
  case (Cons i ks)
  obtain t1 r1 where s: "fold (colder d i) (ds_buckets d i) (t, r) = (t1, r1)" by (cases "fold (colder d i) (ds_buckets d i) (t, r)")
  note o = fold_colder [where d = d and i = i and as = "ds_buckets d i" and t = t and r = r, unfolded s prod.case]
  obtain t2 r2 where f: "fold (\<lambda>i. fold (colder d i) (ds_buckets d i)) ks (t1, r1) = (t2, r2)"
    by (cases "fold (\<lambda>i. fold (colder d i) (ds_buckets d i)) ks (t1, r1)")
  note h = Cons.IH [of t1 r1, unfolded f prod.case]
  have "t2 \<le> t" using h o by (meson order_trans)
  moreover have "\<forall>j \<in> set (i # ks). \<forall>a \<in> set (ds_buckets d j). \<forall>b. ds_heap d a = Some b \<longrightarrow> t2 \<le> b_last_used_cycle b"
    using h o by (metis order_trans set_ConsD)
  moreover have "r2 = r \<and> t2 = t \<or> (\<exists>i a b. a \<in> set (ds_buckets d i) \<and> ds_heap d a = Some b \<and> r2 = Some (i, a) \<and> t2 = b_last_used_cycle b \<and> t2 < t)"
    using h o by (metis order_less_le_trans)
  ultimately show ?case using s f by simp
qed simp

lemma coldest_is_minimal:
  assumes "disp_ok d" "coldest_block d = Some (i, c)"
  shows "\<exists>b. cached d c b \<and> i = bucket_of (b_pc_start b) \<and> (\<forall>x y. cached d x y \<longrightarrow> b_last_used_cycle b \<le> b_last_used_cycle y)"
proof -
  obtain t where f: "fold (\<lambda>i. fold (colder d i) (ds_buckets d i)) [0..<M68K_JIT_BLOCK_BUCKETS] (- 1, None) = (t, Some (i, c))"
    using assms(2) by (cases "fold (\<lambda>i. fold (colder d i) (ds_buckets d i)) [0..<M68K_JIT_BLOCK_BUCKETS] (- 1, None)") (simp add: coldest_block_def)
  note h = fold_coldest [where d = d and ks = "[0..<M68K_JIT_BLOCK_BUCKETS]" and t = "- 1" and r = None, unfolded f prod.case]
  then obtain b where b: "c \<in> set (ds_buckets d i)" "ds_heap d c = Some b" "t = b_last_used_cycle b" by auto
  have i: "i = bucket_of (b_pc_start b)" using disp_okD(1) [OF assms(1) b(1)] b(2) by (auto simp: cached_def)
  have "t \<le> b_last_used_cycle y" if "cached d x y" for x y
  proof -
    have "bucket_of (b_pc_start y) \<in> set [0..<M68K_JIT_BLOCK_BUCKETS]" using bucket_bound by simp
    thus ?thesis using h that by (auto simp: cached_def)
  qed
  thus ?thesis using b i by (auto simp: cached_def)
qed

lemma lru_cached:
  assumes "disp_ok d" "lru_evict_cb d = Some (n, d')" "coldest_block d = Some (i, c)"
  shows "disp_ok d'" "cached d' a b \<longleftrightarrow> a \<noteq> c \<and> (\<exists>b0. cached d a b0 \<and> b = (if b_predicted_next b0 = Some c then no_prediction b0 else b0))"
proof -
  obtain v where v: "cached d c v" "i = bucket_of (b_pc_start v)" using coldest_is_minimal [OF assms(1,3)] by blast
  hence hv: "ds_heap d c = Some v" by (simp add: cached_def)
  define d1 where "d1 = d\<lparr>ds_buckets := (ds_buckets d)(i := remove1 c (ds_buckets d i))\<rparr>"
  define d2 where "d2 = clear_predictions (\<lambda>x. b_predicted_next x = Some c) d1"
  define d3 where "d3 = m68k_block_free c (d2\<lparr>ds_smc_invalidations := ds_smc_invalidations d2 + 1\<rparr>)"
  obtain cc where e: "d' = d3\<lparr>ds_cc := cc\<rparr>"
    using assms(2,3) hv unfolding lru_evict_cb_def d3_def d2_def d1_def
    by (auto simp: Let_def split: option.splits)
  have dis: "distinct (ds_buckets d j)" for j using assms(1) by (simp add: disp_ok_def)
  have b1: "set (ds_buckets d1 j) = set (ds_buckets d j) - {c}" for j
  proof (cases "j = i")
    case True
    thus ?thesis using dis [of i] by (simp add: d1_def set_remove1_eq)
  next
    case False
    hence "c \<notin> set (ds_buckets d j)" using disp_okD(3) [OF assms(1), of c j i] v by (auto simp: cached_def)
    thus ?thesis using False by (simp add: d1_def)
  qed
  have ok1: "disp_ok d1"
    using assms(1) dis b1 unfolding disp_ok_def by (auto simp: d1_def)
  have c1: "cached d1 x y \<longleftrightarrow> cached d x y \<and> x \<noteq> c" for x y
    using b1 [of "bucket_of (b_pc_start y)"] by (auto simp: cached_def d1_def)
  note cl = cached_clear [OF ok1, of "\<lambda>x. b_predicted_next x = Some c", folded d2_def]
  have nc: "c \<notin> set (ds_buckets d2 j)" for j
  proof
    assume "c \<in> set (ds_buckets d2 j)"
    then obtain y where "cached d2 c y" using disp_okD(1) [OF cl(1)] by blast
    thus False using cl(2) c1 by blast
  qed
  have f: "ds_buckets d' = ds_buckets d2" "ds_heap d' = (ds_heap d2)(c := None)"
    by (simp_all add: e d3_def m68k_block_free_def)
  show "disp_ok d'" unfolding disp_ok_def f using cl(1) nc by (fastforce simp: disp_ok_def)
  have "cached d' a b \<longleftrightarrow> cached d2 a b" using nc by (auto simp: cached_def f)
  also have "\<dots> \<longleftrightarrow> a \<noteq> c \<and> (\<exists>b0. cached d a b0 \<and> b = (if b_predicted_next b0 = Some c then no_prediction b0 else b0))"
    using cl(2) c1 by blast
  finally show "cached d' a b \<longleftrightarrow> a \<noteq> c \<and> (\<exists>b0. cached d a b0 \<and> b = (if b_predicted_next b0 = Some c then no_prediction b0 else b0))" .
qed

lemma lru_predictions:
  assumes "disp_ok d" "predictions_ok d" "lru_evict_cb d = Some (n, d')"
  shows "disp_ok d'" "predictions_ok d'"
proof -
  have "disp_ok d' \<and> predictions_ok d'"
  proof (cases "coldest_block d")
    case None
    hence "d' = d" using assms(3) by (simp add: lru_evict_cb_def)
    thus ?thesis using assms(1,2) by blast
  next
    case (Some ic)
    obtain i c where ic: "coldest_block d = Some (i, c)" using Some by (cases ic) simp
    note l = lru_cached [OF assms(1,3) ic]
    have "\<exists>b'. cached d' x b'" if h: "cached d' a b" "b_predicted_next b = Some x" for a b x
    proof -
      obtain b0 where b0: "cached d a b0" "b = (if b_predicted_next b0 = Some c then no_prediction b0 else b0)"
        using h(1) [unfolded l(2)] by (elim conjE exE)
      have n: "b_predicted_next b0 \<noteq> Some c"
      proof
        assume "b_predicted_next b0 = Some c"
        hence "b = no_prediction b0" using b0(2) by (simp only: if_True refl)
        thus False using h(2) by (simp only: no_prediction_none option.distinct)
      qed
      hence e: "b = b0" using b0(2) n by (simp only: if_False)
      hence "x \<noteq> c" using n h(2) by blast
      note e = e this
      have "\<exists>y. cached d x y" using assms(2) b0(1) h(2) e(1) unfolding predictions_ok_def by blast
      then obtain y where y: "cached d x y" by blast
      have "cached d' x (if b_predicted_next y = Some c then no_prediction y else y)"
        unfolding l(2) using e(2) y by (intro conjI exI [of _ y]) simp_all
      thus ?thesis by blast
    qed
    hence "predictions_ok d'" unfolding predictions_ok_def by blast
    thus ?thesis using l(1) by blast
  qed
  thus "disp_ok d'" "predictions_ok d'" by simp_all
qed

lemma evictions_ok:
  assumes "disp_ok d" "predictions_ok d"
  shows "disp_ok (snd (smc_flush d)) \<and> predictions_ok (snd (smc_flush d))"
    and "disp_ok (fifo_evict_range_cb s e d) \<and> predictions_ok (fifo_evict_range_cb s e d)"
    and "cached (fifo_evict_range_cb s e d) a b \<Longrightarrow> \<not> (b_code b < e \<and> b_code b + b_code_size b > s)"
    and "lru_evict_cb d = Some (n, d') \<Longrightarrow> disp_ok d' \<and> predictions_ok d' \<and>
       ((\<forall>a b. cached d a b \<longrightarrow> b_last_used_cycle b = - 1) \<or>
        (\<exists>c v. cached d c v \<and> (\<forall>x y. cached d x y \<longrightarrow> b_last_used_cycle v \<le> b_last_used_cycle y) \<and>
          (\<forall>x. (\<exists>y. cached d' x y) \<longleftrightarrow> x \<noteq> c \<and> (\<exists>y. cached d x y))))"
proof -
  show "disp_ok (snd (smc_flush d)) \<and> predictions_ok (snd (smc_flush d))"
    using cached_flush(1) flush_predictions assms by blast
  show "disp_ok (fifo_evict_range_cb s e d) \<and> predictions_ok (fifo_evict_range_cb s e d)"
    using fifo_cached(1,3) assms by blast
  show "cached (fifo_evict_range_cb s e d) a b \<Longrightarrow> \<not> (b_code b < e \<and> b_code b + b_code_size b > s)"
    using fifo_cached(2) [OF assms(1)] by blast
  assume l: "lru_evict_cb d = Some (n, d')"
  have "(\<forall>a b. cached d a b \<longrightarrow> b_last_used_cycle b = - 1) \<or>
        (\<exists>c v. cached d c v \<and> (\<forall>x y. cached d x y \<longrightarrow> b_last_used_cycle v \<le> b_last_used_cycle y) \<and>
          (\<forall>x. (\<exists>y. cached d' x y) \<longleftrightarrow> x \<noteq> c \<and> (\<exists>y. cached d x y)))"
  proof (cases "coldest_block d")
    case None
    then obtain t where f: "fold (\<lambda>i. fold (colder d i) (ds_buckets d i)) [0..<M68K_JIT_BLOCK_BUCKETS] (- 1, None) = (t, None)"
      by (cases "fold (\<lambda>i. fold (colder d i) (ds_buckets d i)) [0..<M68K_JIT_BLOCK_BUCKETS] (- 1, None)") (simp add: coldest_block_def)
    note h = fold_coldest [where d = d and ks = "[0..<M68K_JIT_BLOCK_BUCKETS]" and t = "- 1" and r = None, unfolded f prod.case]
    have "b_last_used_cycle b = - 1" if "cached d a b" for a b
    proof -
      have "t = - 1" using h by simp
      moreover have "bucket_of (b_pc_start b) \<in> set [0..<M68K_JIT_BLOCK_BUCKETS]" using bucket_bound by simp
      ultimately have "- 1 \<le> b_last_used_cycle b" using h that unfolding cached_def by blast
      thus ?thesis by (simp add: word_order.extremum_unique)
    qed
    thus ?thesis by blast
  next
    case (Some ic)
    obtain i c where ic: "coldest_block d = Some (i, c)" using Some by (cases ic) simp
    have "\<forall>x. (\<exists>y. cached d' x y) \<longleftrightarrow> x \<noteq> c \<and> (\<exists>y. cached d x y)" using lru_cached(2) [OF assms(1) l ic] by auto
    thus ?thesis using coldest_is_minimal [OF assms(1) ic] by blast
  qed
  thus "disp_ok d' \<and> predictions_ok d' \<and> ((\<forall>a b. cached d a b \<longrightarrow> b_last_used_cycle b = - 1) \<or>
        (\<exists>c v. cached d c v \<and> (\<forall>x y. cached d x y \<longrightarrow> b_last_used_cycle v \<le> b_last_used_cycle y) \<and>
          (\<forall>x. (\<exists>y. cached d' x y) \<longleftrightarrow> x \<noteq> c \<and> (\<exists>y. cached d x y))))"
    using lru_predictions [OF assms l] by blast
qed

text \<open>C38: No eviction leaves a dangling link: flushing overwritten code, evacuating a range of the ring and evicting from the
  free-list arena keep the table well formed and every predicted successor of a block in the table in the table; the ring
  evacuation leaves no block in its range, and the free-list eviction removes the least recently used block and no other.\<close>

theorem evictions_keep_predictions:
  assumes "disp_ok d" "predictions_ok d"
  shows "disp_ok (snd (smc_flush d)) \<and> predictions_ok (snd (smc_flush d)) \<and>
    disp_ok (fifo_evict_range_cb s e d) \<and> predictions_ok (fifo_evict_range_cb s e d) \<and>
    (\<forall>a b. cached (fifo_evict_range_cb s e d) a b \<longrightarrow> \<not> (b_code b < e \<and> b_code b + b_code_size b > s)) \<and>
    (\<forall>n d'. lru_evict_cb d = Some (n, d') \<longrightarrow> disp_ok d' \<and> predictions_ok d' \<and>
       ((\<forall>a b. cached d a b \<longrightarrow> b_last_used_cycle b = - 1) \<or>
        (\<exists>c v. cached d c v \<and> (\<forall>x y. cached d x y \<longrightarrow> b_last_used_cycle v \<le> b_last_used_cycle y) \<and>
          (\<forall>x. (\<exists>y. cached d' x y) \<longleftrightarrow> x \<noteq> c \<and> (\<exists>y. cached d x y)))))"
  using evictions_ok(1,2) [OF assms] evictions_ok(3) [OF assms] evictions_ok(4) [OF assms] by (intro conjI allI impI) blast+

subsection \<open>A table with one block\<close>

definition one_block :: m68k_block where
  "one_block = \<lparr>b_pc_start = 0x1000, b_pc_end = 0x1008, b_n_ops = 3, b_code = 0, b_code_size = 64, b_entry_off = 20, b_body_off = 26,
     b_chain_entry_off = 26, b_sr_loaded = False, b_inline_ops = 3, b_helper_ops = 0, b_predicted_next = Some 7,
     b_predicted_next_pc = 0x1000, b_predicted_next_entry = Some 26, b_cache_sig = 0, b_last_used_cycle = 5, b_last_op = 0x60F8,
     b_last_op_pc = 0x1006\<rparr>"

definition one_table :: dispatcher where
  "one_table = (insert_block 7 ((m68k_dispatcher_init_ex (\<lambda>_. \<lparr>hd_size = 0, hd_next = 0\<rparr>) 1024 CC_MODE_FIFO)\<lparr>ds_heap := [7 \<mapsto> one_block]\<rparr>))
     \<lparr>ds_code_pages := mark_page 0x10 (\<lambda>_. 0)\<rparr>"

lemma one_bucket: "bucket_of 0x1000 = 0"
  by (simp add: bucket_of_def)

lemma one_table_fields: "ds_heap one_table = [7 \<mapsto> one_block]" "ds_buckets one_table = (\<lambda>_. [])(0 := [7])"
  "ds_dirty_pages one_table = []" "ds_smc_overflow one_table = False" "ds_code_pages one_table = mark_page 0x10 (\<lambda>_. 0)"
  by (simp_all add: one_table_def insert_block_def m68k_dispatcher_init_ex_def one_block_def one_bucket Let_def)

lemma cached_one: "cached one_table a b \<longleftrightarrow> a = 7 \<and> b = one_block"
  by (auto simp: cached_def one_table_fields one_bucket one_block_def)

lemma one_table_ok: "disp_ok one_table" "table_inv one_table" "predictions_ok one_table"
proof -
  show ok: "disp_ok one_table" by (simp add: disp_ok_def one_table_fields one_bucket one_block_def)
  have "page_of x = 0x10" if "0x1000 \<le> x" "x < 0x1008" for x
    using that by (simp add: word_unat_eq_iff page_of_bound word_le_nat_alt word_less_nat_alt)
  hence "pages_cover (ds_code_pages one_table) one_block" by (simp add: pages_cover_def one_block_def one_table_fields mark_page_marked)
  thus "table_inv one_table" using ok by (simp add: table_inv_def cached_one one_block_def)
  show "predictions_ok one_table" by (simp add: predictions_ok_def cached_one one_block_def)
qed

lemma smc_drops_overwritten_witness: "\<not> cached (after_writes [(0x1007, 0x4E :: u8)] ram_machine one_table) 7 (no_prediction one_block)"
proof -
  have "\<forall>(w, v) \<in> set [(0x1007, 0x4E :: u8)]. \<forall>a b. cached (after_writes [(0x1007, 0x4E :: u8)] ram_machine one_table) a b \<longrightarrow>
      \<not> (b_pc_start b \<le> w AND 0xFFFFFF \<and> w AND 0xFFFFFF < b_pc_end b)"
    by (rule conjunct1 [OF smc_drops_overwritten]) (simp_all add: one_table_ok one_table_fields ram_machine_def mac_mem_init_def MAC_RAM_SIZE_DEFAULT_def MAC_ROM_BASE_def Let_def)
  hence "\<not> (cached (after_writes [(0x1007, 0x4E :: u8)] ram_machine one_table) 7 b \<and> b_pc_start b \<le> 0x1007 \<and> 0x1007 < b_pc_end b)" for b
    by simp
  from this [of "no_prediction one_block"] show ?thesis by (simp add: one_block_def no_prediction_def)
qed

lemma evictions_keep_predictions_witness: "\<not> cached (fifo_evict_range_cb 32 96 one_table) 7 one_block"
proof -
  have "cached (fifo_evict_range_cb 32 96 one_table) a b \<Longrightarrow> \<not> (b_code b < 96 \<and> b_code b + b_code_size b > 32)" for a b
    using evictions_keep_predictions [OF one_table_ok(1,3), of 32 96] by simp
  from this [of 7 one_block] show ?thesis by (auto simp: one_block_def)
qed

end
