(* ===== verification/Successors.thy ===== *)
theory Successors
  imports Dispatcher DecodeLength
begin

text \<open>
  The successors of a block that are known without running it (m68k_block_static_successors), with which the dispatcher
  compiles ahead, and the interpreter.
\<close>



lemma push_pc [simp]: "cpc (push32 v m) = cpc m"
  by (simp add: push32_def set_areg_def Let_def)








end
