(* ===== verification/Xtensa.thy ===== *)
theory Xtensa
  imports Prelude
begin

text \<open>
  jit/emit_xtensa.c and jit/xtensa_sim.c: the encoder of Xtensa instructions that packs them into words of the
  code arena, and the simulator that executes them on the host. The two are written independently in
  the source, from the fields of the instruction word; a \<open>u8\<close> argument is a register number or a shift amount.
\<close>

subsection \<open>The encoder's buffer\<close>

text \<open>\<open>xe_buf\<close> holds the bytes of the buffer, \<open>xe_acc\<close> the bytes of the word in progress.\<close>

record xt_emit =
  xe_buf :: "nat \<Rightarrow> u8"
  xe_len :: u32
  xe_cap :: u32
  xe_overflow :: bool
  xe_acc :: u32

definition xt_init :: "(nat \<Rightarrow> u8) \<Rightarrow> u32 \<Rightarrow> xt_emit" where
  "xt_init buf cap = \<lparr>xe_buf = buf, xe_len = 0, xe_cap = cap, xe_overflow = False, xe_acc = 0\<rparr>"

text \<open>A 32-bit store, least significant byte first.\<close>

definition store32_le :: "nat \<Rightarrow> u32 \<Rightarrow> (nat \<Rightarrow> u8) \<Rightarrow> nat \<Rightarrow> u8" where
  "store32_le i w buf = buf(i := ucast w, i + 1 := ucast (drop_bit 8 w), i + 2 := ucast (drop_bit 16 w), i + 3 := ucast (drop_bit 24 w))"

definition xt_flush_pending :: "xt_emit \<Rightarrow> xt_emit" where
  "xt_flush_pending e =
     (if xe_len e AND 3 \<noteq> 0
      then e\<lparr>xe_buf := store32_le (unat (xe_len e AND NOT 3)) (xe_acc e) (xe_buf e)\<rparr> else e)"

definition emit_byte_packed :: "u8 \<Rightarrow> xt_emit \<Rightarrow> xt_emit" where
  "emit_byte_packed b e =
     (let k = unat (xe_len e AND 3);
          e = e\<lparr>xe_acc := xe_acc e OR push_bit (k * 8) (ucast b)\<rparr>;
          e = e\<lparr>xe_len := xe_len e + 1\<rparr>
      in if xe_len e AND 3 = 0
         then e\<lparr>xe_buf := store32_le (unat (xe_len e - 4)) (xe_acc e) (xe_buf e), xe_acc := 0\<rparr> else e)"

text \<open>The number of bytes emitted and the new state, in a build without assertions.\<close>

definition emit24 :: "u32 \<Rightarrow> xt_emit \<Rightarrow> u32 \<times> xt_emit" where
  "emit24 w e =
     (if xe_len e + 3 > xe_cap e then (0, e\<lparr>xe_overflow := True\<rparr>)
      else (3, emit_byte_packed (ucast (drop_bit 16 w AND 0xFF))
                 (emit_byte_packed (ucast (drop_bit 8 w AND 0xFF)) (emit_byte_packed (ucast (w AND 0xFF)) e))))"

definition xt_raw32 :: "u32 \<Rightarrow> xt_emit \<Rightarrow> u32 \<times> xt_emit" where
  "xt_raw32 word e =
     (if xe_len e + 4 > xe_cap e then (0, e\<lparr>xe_overflow := True\<rparr>)
      else (4, e\<lparr>xe_buf := store32_le (unat (xe_len e)) word (xe_buf e), xe_len := xe_len e + 4\<rparr>))"

subsection \<open>Instruction formats\<close>

definition nib :: "nat \<Rightarrow> u8 \<Rightarrow> u32" where
  "nib n v = push_bit n (ucast (v AND 0xF))"

definition enc_rrr :: "u8 \<Rightarrow> u8 \<Rightarrow> u8 \<Rightarrow> u8 \<Rightarrow> u8 \<Rightarrow> u32" where
  "enc_rrr op2 op1 r s t = nib 20 op2 OR nib 16 op1 OR nib 12 r OR nib 8 s OR nib 4 t OR 0"

definition enc_rri8 :: "u8 \<Rightarrow> u8 \<Rightarrow> u8 \<Rightarrow> u8 \<Rightarrow> u32" where
  "enc_rri8 r s t imm8 = push_bit 16 (ucast imm8) OR nib 12 r OR nib 8 s OR nib 4 t OR 2"

definition enc_bxxz :: "u8 \<Rightarrow> u8 \<Rightarrow> int \<Rightarrow> u32" where
  "enc_bxxz sel as rel =
     (let off = rel - 4; imm12 = word_of_int off AND 0xFFF in push_bit 12 imm12 OR nib 8 as OR nib 4 sel OR 6)"

subsection \<open>The emitters\<close>

type_synonym emitter = "xt_emit \<Rightarrow> u32 \<times> xt_emit"

definition xt_and :: "u8 \<Rightarrow> u8 \<Rightarrow> u8 \<Rightarrow> emitter" where "xt_and ar as at = emit24 (enc_rrr 0x1 0 ar as at)"
definition xt_or :: "u8 \<Rightarrow> u8 \<Rightarrow> u8 \<Rightarrow> emitter" where "xt_or ar as at = emit24 (enc_rrr 0x2 0 ar as at)"
definition xt_xor :: "u8 \<Rightarrow> u8 \<Rightarrow> u8 \<Rightarrow> emitter" where "xt_xor ar as at = emit24 (enc_rrr 0x3 0 ar as at)"
definition xt_add :: "u8 \<Rightarrow> u8 \<Rightarrow> u8 \<Rightarrow> emitter" where "xt_add ar as at = emit24 (enc_rrr 0x8 0 ar as at)"
definition xt_addx2 :: "u8 \<Rightarrow> u8 \<Rightarrow> u8 \<Rightarrow> emitter" where "xt_addx2 ar as at = emit24 (enc_rrr 0x9 0 ar as at)"
definition xt_addx4 :: "u8 \<Rightarrow> u8 \<Rightarrow> u8 \<Rightarrow> emitter" where "xt_addx4 ar as at = emit24 (enc_rrr 0xA 0 ar as at)"
definition xt_sub :: "u8 \<Rightarrow> u8 \<Rightarrow> u8 \<Rightarrow> emitter" where "xt_sub ar as at = emit24 (enc_rrr 0xC 0 ar as at)"
definition xt_mov :: "u8 \<Rightarrow> u8 \<Rightarrow> emitter" where "xt_mov ar as = xt_or ar as as"
definition xt_mull :: "u8 \<Rightarrow> u8 \<Rightarrow> u8 \<Rightarrow> emitter" where "xt_mull ar as at = emit24 (enc_rrr 0x8 0x2 ar as at)"

definition xt_addi :: "u8 \<Rightarrow> u8 \<Rightarrow> int \<Rightarrow> emitter" where "xt_addi at as imm = emit24 (enc_rri8 0xC as at (word_of_int imm))"

definition xt_movi :: "u8 \<Rightarrow> int \<Rightarrow> emitter" where
  "xt_movi at imm =
     (let v = (word_of_int imm :: u32) AND 0xFFF
      in emit24 (enc_rri8 0xA (ucast (drop_bit 8 v AND 0xF)) at (ucast (v AND 0xFF))))"

definition xt_l8ui :: "u8 \<Rightarrow> u8 \<Rightarrow> u32 \<Rightarrow> emitter" where "xt_l8ui at as off = emit24 (enc_rri8 0x0 as at (ucast off))"
definition xt_s8i :: "u8 \<Rightarrow> u8 \<Rightarrow> u32 \<Rightarrow> emitter" where "xt_s8i at as off = emit24 (enc_rri8 0x4 as at (ucast off))"
definition xt_l16ui :: "u8 \<Rightarrow> u8 \<Rightarrow> u32 \<Rightarrow> emitter" where "xt_l16ui at as off = emit24 (enc_rri8 0x1 as at (ucast (drop_bit 1 off)))"
definition xt_s16i :: "u8 \<Rightarrow> u8 \<Rightarrow> u32 \<Rightarrow> emitter" where "xt_s16i at as off = emit24 (enc_rri8 0x5 as at (ucast (drop_bit 1 off)))"
definition xt_l32i :: "u8 \<Rightarrow> u8 \<Rightarrow> u32 \<Rightarrow> emitter" where "xt_l32i at as off = emit24 (enc_rri8 0x2 as at (ucast (drop_bit 2 off)))"
definition xt_s32i :: "u8 \<Rightarrow> u8 \<Rightarrow> u32 \<Rightarrow> emitter" where "xt_s32i at as off = emit24 (enc_rri8 0x6 as at (ucast (drop_bit 2 off)))"

definition xt_l32r :: "u8 \<Rightarrow> u32 \<Rightarrow> emitter" where
  "xt_l32r at lit_offset = (let imm16 = (ucast lit_offset :: u16) in emit24 (push_bit 8 (ucast imm16) OR nib 4 at OR 1))"

definition xt_beqz :: "u8 \<Rightarrow> int \<Rightarrow> emitter" where "xt_beqz as rel = emit24 (enc_bxxz 0x1 as rel)"
definition xt_bnez :: "u8 \<Rightarrow> int \<Rightarrow> emitter" where "xt_bnez as rel = emit24 (enc_bxxz 0x5 as rel)"

definition xt_j :: "int \<Rightarrow> emitter" where
  "xt_j rel = (let off = rel - 4; imm18 = word_of_int off AND 0x3FFFF in emit24 (push_bit 6 imm18 OR 0x06))"

definition xt_call0 :: "int \<Rightarrow> emitter" where
  "xt_call0 rel = (let off = drop_bit 2 (rel - 4); imm18 = word_of_int off AND 0x3FFFF in emit24 (push_bit 6 imm18 OR 0x05))"

definition xt_jx :: "u8 \<Rightarrow> emitter" where "xt_jx as = emit24 (nib 8 as OR 0xA0 OR 0)"
definition xt_callx0 :: "u8 \<Rightarrow> emitter" where "xt_callx0 as = emit24 (nib 8 as OR 0xC0 OR 0)"
definition xt_ret :: emitter where "xt_ret = emit24 0x000080"

definition xt_slli :: "u8 \<Rightarrow> u8 \<Rightarrow> u8 \<Rightarrow> emitter" where
  "xt_slli ar as sa =
     (let sa1 = 32 - sa; op2 = drop_bit 4 sa1 AND 1 in emit24 (enc_rrr op2 0x1 ar as (sa1 AND 0xF)))"

definition xt_extui :: "u8 \<Rightarrow> u8 \<Rightarrow> u8 \<Rightarrow> u8 \<Rightarrow> emitter" where
  "xt_extui ar at shiftimm maskimm =
     (let sh_lo4 = shiftimm AND 0xF; sh_hi1 = drop_bit 4 shiftimm AND 1
      in emit24 (enc_rrr (maskimm AND 0xF) (0x4 OR sh_hi1) ar sh_lo4 at))"

definition xt_srli :: "u8 \<Rightarrow> u8 \<Rightarrow> u8 \<Rightarrow> emitter" where
  "xt_srli ar as sa = (if sa \<le> 15 then emit24 (enc_rrr 0x4 0x1 ar sa as) else xt_extui ar as sa (31 - sa))"

definition xt_srai :: "u8 \<Rightarrow> u8 \<Rightarrow> u8 \<Rightarrow> emitter" where
  "xt_srai ar as sa = (let op2 = 0x2 OR (drop_bit 4 sa AND 1) in emit24 (enc_rrr op2 0x1 ar (sa AND 0xF) as))"

subsection \<open>The simulator\<close>

datatype xt_status = XT_SIM_RUN | XT_SIM_RETURNED | XT_SIM_BAD_OPCODE | XT_SIM_OUT_OF_RANGE

text \<open>\<open>xs_user\<close> is everything outside the registers of the simulator: the memory the host pointers reach, the code
  included, and the guest.\<close>

record 'w xt_sim =
  xs_a :: "nat \<Rightarrow> u32"
  xs_code_size :: u32
  xs_pc :: u32
  xs_count :: u64
  xs_status :: xt_status
  xs_user :: 'w

text \<open>What the owner of the simulator supplies: its callbacks, None for a null pointer, and the memory behind a
  host pointer, a byte at a time from where it points.\<close>

record ('w, 'p) xt_env =
  xv_code :: "'w \<Rightarrow> nat \<Rightarrow> u8"
  xv_peek :: "'w \<Rightarrow> 'p \<Rightarrow> nat \<Rightarrow> u8"
  xv_poke :: "'p \<Rightarrow> nat \<Rightarrow> u8 \<Rightarrow> 'w \<Rightarrow> 'w"
  xv_translate :: "('w \<Rightarrow> u32 \<Rightarrow> 'p option) option"
  xv_read_literal :: "('w \<Rightarrow> u32 \<Rightarrow> u32) option"
  xv_call_thunk :: "(u32 \<Rightarrow> 'w xt_sim \<Rightarrow> 'w xt_sim) option"

definition xt_sim_init :: "'w \<Rightarrow> u32 \<Rightarrow> 'w xt_sim" where
  "xt_sim_init w code_size =
     \<lparr>xs_a = (\<lambda>_. 0), xs_code_size = code_size, xs_pc = 0, xs_count = 0, xs_status = XT_SIM_RUN, xs_user = w\<rparr>"

definition fetch24 :: "('w, 'p) xt_env \<Rightarrow> 'w xt_sim \<Rightarrow> u32 \<times> 'w xt_sim" where
  "fetch24 v s =
     (if xs_pc s + 3 > xs_code_size s then (0, s\<lparr>xs_status := XT_SIM_OUT_OF_RANGE\<rparr>)
      else
        (let c = (\<lambda>i. ucast (xv_code v (xs_user s) (unat (xs_pc s + i))) :: u32)
         in (c 0 OR push_bit 8 (c 1) OR push_bit 16 (c 2), s\<lparr>xs_pc := xs_pc s + 3\<rparr>)))"

definition sign_extend :: "u32 \<Rightarrow> nat \<Rightarrow> u32" where
  "sign_extend v bits = (let m = push_bit (bits - 1) 1 in (v XOR m) - m)"

definition fld :: "nat \<Rightarrow> u32 \<Rightarrow> nat" where
  "fld n w = unat (drop_bit n w AND 0xF)"

definition set_a :: "nat \<Rightarrow> u32 \<Rightarrow> 'w xt_sim \<Rightarrow> 'w xt_sim" where
  "set_a i x s = s\<lparr>xs_a := (xs_a s)(i := x)\<rparr>"

definition sim_ptr :: "('w, 'p) xt_env \<Rightarrow> 'w xt_sim \<Rightarrow> u32 \<Rightarrow> 'p option" where
  "sim_ptr v s addr = (case xv_translate v of None \<Rightarrow> None | Some f \<Rightarrow> f (xs_user s) addr)"

text \<open>Little-endian accesses of n bytes through a host pointer; a null pointer reads 0 and ignores a store.\<close>

definition sim_load :: "('w, 'p) xt_env \<Rightarrow> nat \<Rightarrow> u32 \<Rightarrow> 'w xt_sim \<Rightarrow> u32" where
  "sim_load v n addr s =
     (case sim_ptr v s addr of None \<Rightarrow> 0
      | Some p \<Rightarrow> foldr (\<lambda>i x. push_bit 8 x OR ucast (xv_peek v (xs_user s) p i)) [0..<n] 0)"

definition sim_store :: "('w, 'p) xt_env \<Rightarrow> nat \<Rightarrow> u32 \<Rightarrow> u32 \<Rightarrow> 'w xt_sim \<Rightarrow> 'w xt_sim" where
  "sim_store v n addr x s =
     (case sim_ptr v s addr of None \<Rightarrow> s
      | Some p \<Rightarrow> s\<lparr>xs_user := fold (\<lambda>i. xv_poke v p i (ucast (drop_bit (8 * i) x))) [0..<n] (xs_user s)\<rparr>)"

definition step_l32r :: "('w, 'p) xt_env \<Rightarrow> u32 \<Rightarrow> u32 \<Rightarrow> 'w xt_sim \<Rightarrow> 'w xt_sim" where
  "step_l32r v pc_start w s =
     (let imm16 = drop_bit 8 w AND 0xFFFF; rel = sign_extend imm16 16;
          target = ((pc_start + 3) AND NOT 3) + push_bit 2 rel;
          val = (case xv_read_literal v of None \<Rightarrow> 0 | Some f \<Rightarrow> f (xs_user s) target)
      in set_a (fld 4 w) val s)"

definition step_rri8 :: "('w, 'p) xt_env \<Rightarrow> u32 \<Rightarrow> 'w xt_sim \<Rightarrow> 'w xt_sim" where
  "step_rri8 v w s =
     (let r = fld 12 w; t = fld 4 w; sr = fld 8 w; imm = drop_bit 16 w AND 0xFF; a = xs_a s in
      if r = 0x0 then set_a t (sim_load v 1 (a sr + imm) s) s
      else if r = 0x4 then sim_store v 1 (a sr + imm) (a t) s
      else if r = 0x1 then set_a t (sim_load v 2 (a sr + push_bit 1 imm) s) s
      else if r = 0x5 then sim_store v 2 (a sr + push_bit 1 imm) (a t) s
      else if r = 0x2 then set_a t (sim_load v 4 (a sr + push_bit 2 imm) s) s
      else if r = 0x6 then sim_store v 4 (a sr + push_bit 2 imm) (a t) s
      else if r = 0xC then set_a t (a sr + sign_extend imm 8) s
      else if r = 0xA then set_a t (sign_extend (push_bit 8 (of_nat sr) OR imm) 12) s
      else s\<lparr>xs_status := XT_SIM_BAD_OPCODE\<rparr>)"

definition step_call0 :: "u32 \<Rightarrow> u32 \<Rightarrow> 'w xt_sim \<Rightarrow> 'w xt_sim" where
  "step_call0 pc_start w s =
     (let off = sign_extend (drop_bit 6 w AND 0x3FFFF) 18; target = (pc_start AND NOT 3) + 4 + push_bit 2 off
      in (set_a 0 (xs_pc s) s)\<lparr>xs_pc := target\<rparr>)"

definition step_j :: "u32 \<Rightarrow> u32 \<Rightarrow> 'w xt_sim \<Rightarrow> 'w xt_sim" where
  "step_j pc_start w s = s\<lparr>xs_pc := pc_start + 4 + sign_extend (drop_bit 6 w AND 0x3FFFF) 18\<rparr>"

definition step_bz :: "u32 \<Rightarrow> u32 \<Rightarrow> 'w xt_sim \<Rightarrow> 'w xt_sim" where
  "step_bz pc_start w s =
     (let sel = fld 4 w; target = pc_start + 4 + sign_extend (drop_bit 12 w AND 0xFFF) 12; z = (xs_a s (fld 8 w) = 0) in
      if sel = 0x1 then (if z then s\<lparr>xs_pc := target\<rparr> else s)
      else if sel = 0x5 then (if \<not> z then s\<lparr>xs_pc := target\<rparr> else s)
      else s\<lparr>xs_status := XT_SIM_BAD_OPCODE\<rparr>)"

definition SENTINEL_RET :: u32 where "SENTINEL_RET = 0"

definition step_special :: "('w, 'p) xt_env \<Rightarrow> nat \<Rightarrow> nat \<Rightarrow> 'w xt_sim \<Rightarrow> 'w xt_sim option" where
  "step_special v sr t s =
     (if t = 0xA then
        (let target = xs_a s sr in
         if sr = 0 \<and> target = SENTINEL_RET then Some (s\<lparr>xs_status := XT_SIM_RETURNED\<rparr>) else Some (s\<lparr>xs_pc := target\<rparr>))
      else if t = 0xC then
        (let fn_token = xs_a s sr; s = set_a 0 (xs_pc s) s
         in Some (case xv_call_thunk v of None \<Rightarrow> s | Some f \<Rightarrow> f fn_token s))
      else if t = 0x8 then
        (if xs_a s 0 = SENTINEL_RET then Some (s\<lparr>xs_status := XT_SIM_RETURNED\<rparr>) else Some (s\<lparr>xs_pc := xs_a s 0\<rparr>))
      else None)"

text \<open>The result of an arithmetic, logical or shift instruction, None for an unknown one.\<close>

definition alu_result :: "(nat \<Rightarrow> u32) \<Rightarrow> nat \<Rightarrow> nat \<Rightarrow> nat \<Rightarrow> nat \<Rightarrow> u32 option" where
  "alu_result a op2 op1 sr t =
     (if op1 = 0 \<and> op2 = 0x1 then Some (a sr AND a t)
      else if op1 = 0 \<and> op2 = 0x2 then Some (a sr OR a t)
      else if op1 = 0 \<and> op2 = 0x3 then Some (a sr XOR a t)
      else if op1 = 0 \<and> op2 = 0x8 then Some (a sr + a t)
      else if op1 = 0 \<and> op2 = 0x9 then Some (push_bit 1 (a sr) + a t)
      else if op1 = 0 \<and> op2 = 0xA then Some (push_bit 2 (a sr) + a t)
      else if op1 = 0 \<and> op2 = 0xC then Some (a sr - a t)
      else if op1 = 2 \<and> op2 = 8 then Some (a sr * a t)
      else if op1 = 1 \<and> (op2 = 0 \<or> op2 = 1) then
        (let sa1 = op2 * 16 + t; sa = 32 - sa1 in Some (if sa \<ge> 32 then 0 else push_bit sa (a sr)))
      else if op1 = 1 \<and> (op2 = 2 \<or> op2 = 3) then
        (let sa = (op2 mod 2) * 16 + sr in Some (signed_drop_bit sa (a t)))
      else if op1 = 1 \<and> op2 = 4 then Some (drop_bit sr (a t))
      else if op1 = 4 \<or> op1 = 5 then
        (let shift = (op1 mod 2) * 16 + sr; width = op2 + 1; mask = push_bit width 1 - 1 in Some (drop_bit shift (a t) AND mask))
      else None)"

definition step_rrr :: "('w, 'p) xt_env \<Rightarrow> u32 \<Rightarrow> 'w xt_sim \<Rightarrow> 'w xt_sim" where
  "step_rrr v w s =
     (let op2 = fld 20 w; op1 = fld 16 w; r = fld 12 w; sr = fld 8 w; t = fld 4 w;
          special = (if op1 = 0 \<and> op2 = 0 \<and> r = 0 then step_special v sr t s else None) in
      case special of Some s' \<Rightarrow> s'
      | None \<Rightarrow> (case alu_result (xs_a s) op2 op1 sr t of
                   Some x \<Rightarrow> set_a r x s | None \<Rightarrow> s\<lparr>xs_status := XT_SIM_BAD_OPCODE\<rparr>))"

definition xt_step :: "('w, 'p) xt_env \<Rightarrow> 'w xt_sim \<Rightarrow> 'w xt_sim" where
  "xt_step v s =
     (let pc_start = xs_pc s; (w, s) = fetch24 v s; op0 = fld 0 w in
      if xs_status s \<noteq> XT_SIM_RUN then s
      else if op0 = 0x1 then step_l32r v pc_start w s
      else if op0 = 0x2 then step_rri8 v w s
      else if w AND 0x3F = 0x05 then step_call0 pc_start w s
      else if w AND 0x3F = 0x06 then step_j pc_start w s
      else if op0 = 0x6 then step_bz pc_start w s
      else if op0 = 0x0 then step_rrr v w s
      else s\<lparr>xs_status := XT_SIM_BAD_OPCODE\<rparr>)"

fun xt_sim_run :: "nat \<Rightarrow> ('w, 'p) xt_env \<Rightarrow> 'w xt_sim \<Rightarrow> 'w xt_sim" where
  "xt_sim_run 0 v s = s"
| "xt_sim_run (Suc n) v s =
     (if xs_status s = XT_SIM_RUN
      then (let s = xt_step v s in xt_sim_run n v (s\<lparr>xs_count := xs_count s + 1\<rparr>)) else s)"

end
