(* ===== verification/XtensaCorrect.thy ===== *)
theory XtensaCorrect
  imports Xtensa
begin

text \<open>
  The encoder against the simulator: an instruction emitted by emit_xtensa.c and executed by xtensa_sim.c does
  what the instruction is for, and the packed byte stream gives back the words that were emitted.
\<close>

subsection \<open>Fields of an instruction word\<close>

text \<open>The \<open>n\<close> bits at \<open>m\<close>: fields of a disjunction are taken one operand at a time.\<close>

definition field :: "nat \<Rightarrow> nat \<Rightarrow> u32 \<Rightarrow> u32" where
  "field m n w = drop_bit m w AND mask n"

lemma field_or [simp]: "field m n (x OR y) = field m n x OR field m n y"
  by (simp add: field_def bit.conj_disj_distrib2)

lemma field_0 [simp]: "field m n 0 = 0"
  by (simp add: field_def)

lemma field_push: "n + k \<le> m \<Longrightarrow> v AND mask n = v \<Longrightarrow> field m j (push_bit k v) = 0"
  "m + j \<le> k \<Longrightarrow> field m j (push_bit k v) = 0"
  "n \<le> j \<Longrightarrow> k + n \<le> 32 \<Longrightarrow> v AND mask n = v \<Longrightarrow> field k j (push_bit k v) = v" for v :: u32
proof -
  have b: "bit v i \<Longrightarrow> i < n" if "v AND mask n = v" for i v
  proof -
    assume "bit v i"
    hence "bit (v AND mask n) i" using that by simp
    thus "i < n" by (simp add: bit_simps)
  qed
  show "n + k \<le> m \<Longrightarrow> v AND mask n = v \<Longrightarrow> field m j (push_bit k v) = 0"
    unfolding field_def by (rule bit_word_eqI) (auto simp: bit_simps dest: b)
  show "m + j \<le> k \<Longrightarrow> field m j (push_bit k v) = 0"
    unfolding field_def by (rule bit_word_eqI) (auto simp: bit_simps)
  show "n \<le> j \<Longrightarrow> k + n \<le> 32 \<Longrightarrow> v AND mask n = v \<Longrightarrow> field k j (push_bit k v) = v"
    unfolding field_def by (rule bit_word_eqI) (auto simp: bit_simps dest: b)
qed

lemma nib_push: "nib k v = push_bit k (ucast (v AND mask 4))"
  by (simp add: nib_def mask_eq_exp_minus_1)

lemma nib_fits: "ucast (v AND mask 4) AND mask 4 = (ucast (v AND mask 4) :: u32)" for v :: u8
  by (rule bit_word_eqI) (auto simp: bit_simps)

lemma byte_fits: "ucast v AND mask 8 = (ucast v :: u32)" for v :: u8
  by (rule bit_word_eqI) (auto simp: bit_simps dest: bit_imp_le_length)

lemma field_nib: "k + 4 \<le> m \<Longrightarrow> field m j (nib k v) = 0" "m + j \<le> k \<Longrightarrow> field m j (nib k v) = 0"
  "4 \<le> j \<Longrightarrow> k + 4 \<le> 32 \<Longrightarrow> field k j (nib k v) = ucast (v AND mask 4)"
proof -
  show "k + 4 \<le> m \<Longrightarrow> field m j (nib k v) = 0"
    unfolding nib_push by (rule field_push(1) [where n = 4]) (simp_all add: nib_fits)
  show "m + j \<le> k \<Longrightarrow> field m j (nib k v) = 0"
    unfolding nib_push by (rule field_push(2))
  show "4 \<le> j \<Longrightarrow> k + 4 \<le> 32 \<Longrightarrow> field k j (nib k v) = ucast (v AND mask 4)"
    unfolding nib_push by (rule field_push(3) [where n = 4]) (simp_all add: nib_fits)
qed

lemma fld_field: "fld n w = unat (field n 4 w)"
  by (simp add: fld_def field_def mask_eq_exp_minus_1)

lemma small_nib: "v < 16 \<Longrightarrow> v AND mask 4 = v" for v :: u8
  by (rule less_mask_eq) simp

lemma rrr_fields [simp]:
  "field 20 4 (enc_rrr o2 o1 r s t) = ucast (o2 AND mask 4)" "field 16 4 (enc_rrr o2 o1 r s t) = ucast (o1 AND mask 4)"
  "field 12 4 (enc_rrr o2 o1 r s t) = ucast (r AND mask 4)" "field 8 4 (enc_rrr o2 o1 r s t) = ucast (s AND mask 4)"
  "field 4 4 (enc_rrr o2 o1 r s t) = ucast (t AND mask 4)" "field 0 4 (enc_rrr o2 o1 r s t) = 0"
  by (simp_all add: enc_rrr_def field_nib)

lemma field_const: "field m n (numeral k) = drop_bit m (numeral k) AND mask n"
  by (simp add: field_def)

lemma rri8_fields [simp]:
  "field 16 8 (enc_rri8 r s t b) = ucast b"
  "field 12 4 (enc_rri8 r s t b) = ucast (r AND mask 4)" "field 8 4 (enc_rri8 r s t b) = ucast (s AND mask 4)"
  "field 4 4 (enc_rri8 r s t b) = ucast (t AND mask 4)" "field 0 4 (enc_rri8 r s t b) = 2"
  by (simp_all add: enc_rri8_def field_nib field_push(2) field_push(3) [OF _ _ byte_fits] field_const) (simp add: mask_eq_exp_minus_1)

lemma bxxz_fields [simp]:
  "field 12 12 (enc_bxxz q s rel) = word_of_int (rel - 4) AND mask 12" "field 8 4 (enc_bxxz q s rel) = ucast (s AND mask 4)"
  "field 4 4 (enc_bxxz q s rel) = ucast (q AND mask 4)" "field 0 4 (enc_bxxz q s rel) = 6"
proof -
  define v :: u32 where "v = word_of_int (rel - 4) AND mask 12"
  have f: "v AND mask 12 = v" by (simp add: v_def)
  have "(0xFFF :: u32) = mask 12" by (simp add: mask_eq_exp_minus_1)
  hence e: "enc_bxxz q s rel = push_bit 12 v OR nib 8 s OR nib 4 q OR 6"
    by (simp add: enc_bxxz_def v_def Let_def)
  show "field 12 12 (enc_bxxz q s rel) = word_of_int (rel - 4) AND mask 12"
    unfolding e v_def [symmetric] by (simp add: field_nib field_push(3) [OF _ _ f] field_const)
  show "field 8 4 (enc_bxxz q s rel) = ucast (s AND mask 4)"
    "field 4 4 (enc_bxxz q s rel) = ucast (q AND mask 4)" "field 0 4 (enc_bxxz q s rel) = 6"
    unfolding e by (simp_all add: field_nib field_push(2) field_const) (simp add: mask_eq_exp_minus_1)
qed

subsection \<open>Instructions and their meaning\<close>

text \<open>One constructor for each emitter, with the emitter's arguments.\<close>

datatype xt_insn =
  I_and u8 u8 u8 | I_or u8 u8 u8 | I_xor u8 u8 u8 | I_add u8 u8 u8 | I_addx2 u8 u8 u8 | I_addx4 u8 u8 u8 | I_sub u8 u8 u8
| I_mov u8 u8 | I_mull u8 u8 u8 | I_addi u8 u8 int | I_movi u8 int
| I_l8ui u8 u8 u32 | I_s8i u8 u8 u32 | I_l16ui u8 u8 u32 | I_s16i u8 u8 u32 | I_l32i u8 u8 u32 | I_s32i u8 u8 u32
| I_l32r u8 u32 | I_beqz u8 int | I_bnez u8 int | I_j int | I_call0 int | I_jx u8 | I_callx0 u8 | I_ret
| I_slli u8 u8 u8 | I_srli u8 u8 u8 | I_srai u8 u8 u8 | I_extui u8 u8 u8 u8

fun emit_insn :: "xt_insn \<Rightarrow> emitter" where
  "emit_insn (I_and r s t) = xt_and r s t" | "emit_insn (I_or r s t) = xt_or r s t" | "emit_insn (I_xor r s t) = xt_xor r s t"
| "emit_insn (I_add r s t) = xt_add r s t" | "emit_insn (I_addx2 r s t) = xt_addx2 r s t" | "emit_insn (I_addx4 r s t) = xt_addx4 r s t"
| "emit_insn (I_sub r s t) = xt_sub r s t" | "emit_insn (I_mov r s) = xt_mov r s" | "emit_insn (I_mull r s t) = xt_mull r s t"
| "emit_insn (I_addi t s i) = xt_addi t s i" | "emit_insn (I_movi t i) = xt_movi t i"
| "emit_insn (I_l8ui t s off) = xt_l8ui t s off" | "emit_insn (I_s8i t s off) = xt_s8i t s off"
| "emit_insn (I_l16ui t s off) = xt_l16ui t s off" | "emit_insn (I_s16i t s off) = xt_s16i t s off"
| "emit_insn (I_l32i t s off) = xt_l32i t s off" | "emit_insn (I_s32i t s off) = xt_s32i t s off"
| "emit_insn (I_l32r t n) = xt_l32r t n" | "emit_insn (I_beqz s rel) = xt_beqz s rel" | "emit_insn (I_bnez s rel) = xt_bnez s rel"
| "emit_insn (I_j rel) = xt_j rel" | "emit_insn (I_call0 rel) = xt_call0 rel" | "emit_insn (I_jx s) = xt_jx s"
| "emit_insn (I_callx0 s) = xt_callx0 s" | "emit_insn I_ret = xt_ret"
| "emit_insn (I_slli r s n) = xt_slli r s n" | "emit_insn (I_srli r s n) = xt_srli r s n" | "emit_insn (I_srai r s n) = xt_srai r s n"
| "emit_insn (I_extui r t n k) = xt_extui r t n k"

text \<open>The ranges the encoder asserts, and the register numbers.\<close>

fun valid_insn :: "xt_insn \<Rightarrow> bool" where
  "valid_insn (I_mov r s) = (r < 16 \<and> s < 16)"
| "valid_insn (I_and r s t) = (r < 16 \<and> s < 16 \<and> t < 16)" | "valid_insn (I_or r s t) = (r < 16 \<and> s < 16 \<and> t < 16)"
| "valid_insn (I_xor r s t) = (r < 16 \<and> s < 16 \<and> t < 16)" | "valid_insn (I_add r s t) = (r < 16 \<and> s < 16 \<and> t < 16)"
| "valid_insn (I_addx2 r s t) = (r < 16 \<and> s < 16 \<and> t < 16)" | "valid_insn (I_addx4 r s t) = (r < 16 \<and> s < 16 \<and> t < 16)"
| "valid_insn (I_sub r s t) = (r < 16 \<and> s < 16 \<and> t < 16)" | "valid_insn (I_mull r s t) = (r < 16 \<and> s < 16 \<and> t < 16)"
| "valid_insn (I_addi t s i) = (t < 16 \<and> s < 16 \<and> -128 \<le> i \<and> i \<le> 127)"
| "valid_insn (I_movi t i) = (t < 16 \<and> -2048 \<le> i \<and> i \<le> 2047)"
| "valid_insn (I_l8ui t s off) = (t < 16 \<and> s < 16 \<and> off \<le> 255)" | "valid_insn (I_s8i t s off) = (t < 16 \<and> s < 16 \<and> off \<le> 255)"
| "valid_insn (I_l16ui t s off) = (t < 16 \<and> s < 16 \<and> off \<le> 510 \<and> off AND 1 = 0)"
| "valid_insn (I_s16i t s off) = (t < 16 \<and> s < 16 \<and> off \<le> 510 \<and> off AND 1 = 0)"
| "valid_insn (I_l32i t s off) = (t < 16 \<and> s < 16 \<and> off \<le> 1020 \<and> off AND 3 = 0)"
| "valid_insn (I_s32i t s off) = (t < 16 \<and> s < 16 \<and> off \<le> 1020 \<and> off AND 3 = 0)"
| "valid_insn (I_l32r t n) = (t < 16)"
| "valid_insn (I_beqz s rel) = (s < 16 \<and> -2048 \<le> rel - 4 \<and> rel - 4 \<le> 2047)"
| "valid_insn (I_bnez s rel) = (s < 16 \<and> -2048 \<le> rel - 4 \<and> rel - 4 \<le> 2047)"
| "valid_insn (I_j rel) = (- (2 ^ 17) \<le> rel - 4 \<and> rel - 4 < 2 ^ 17)"
| "valid_insn (I_call0 rel) = (4 dvd rel \<and> - (2 ^ 17) \<le> (rel - 4) div 4 \<and> (rel - 4) div 4 < 2 ^ 17)"
| "valid_insn (I_jx s) = (s < 16)" | "valid_insn (I_callx0 s) = (s < 16)" | "valid_insn I_ret = True"
| "valid_insn (I_slli r s n) = (r < 16 \<and> s < 16 \<and> 1 \<le> n \<and> n \<le> 31)"
| "valid_insn (I_srli r s n) = (r < 16 \<and> s < 16 \<and> n \<le> 31)" | "valid_insn (I_srai r s n) = (r < 16 \<and> s < 16 \<and> n \<le> 31)"
| "valid_insn (I_extui r t n k) = (r < 16 \<and> t < 16 \<and> n \<le> 31 \<and> k \<le> 15)"

text \<open>What an instruction at the program counter means: \<open>sp\<close> writes a register and goes on, \<open>goto\<close> goes elsewhere.\<close>

definition reg_of :: "'w xt_sim \<Rightarrow> u8 \<Rightarrow> u32" where "reg_of s r = xs_a s (unat r)"

definition put_reg :: "u8 \<Rightarrow> u32 \<Rightarrow> 'w xt_sim \<Rightarrow> 'w xt_sim" where
  "put_reg r x s = s\<lparr>xs_a := (xs_a s)(unat r := x), xs_pc := xs_pc s + 3\<rparr>"

definition next_insn :: "'w xt_sim \<Rightarrow> 'w xt_sim" where "next_insn s = s\<lparr>xs_pc := xs_pc s + 3\<rparr>"

definition goto :: "u32 \<Rightarrow> 'w xt_sim \<Rightarrow> 'w xt_sim" where "goto p s = s\<lparr>xs_pc := p\<rparr>"

fun insn_sem :: "('w, 'p) xt_env \<Rightarrow> xt_insn \<Rightarrow> 'w xt_sim \<Rightarrow> 'w xt_sim" where
  "insn_sem v (I_and r x y) s = put_reg r (reg_of s x AND reg_of s y) s"
| "insn_sem v (I_or r x y) s = put_reg r (reg_of s x OR reg_of s y) s"
| "insn_sem v (I_xor r x y) s = put_reg r (reg_of s x XOR reg_of s y) s"
| "insn_sem v (I_add r x y) s = put_reg r (reg_of s x + reg_of s y) s"
| "insn_sem v (I_addx2 r x y) s = put_reg r (2 * reg_of s x + reg_of s y) s"
| "insn_sem v (I_addx4 r x y) s = put_reg r (4 * reg_of s x + reg_of s y) s"
| "insn_sem v (I_sub r x y) s = put_reg r (reg_of s x - reg_of s y) s"
| "insn_sem v (I_mov r x) s = put_reg r (reg_of s x) s"
| "insn_sem v (I_mull r x y) s = put_reg r (reg_of s x * reg_of s y) s"
| "insn_sem v (I_addi r x i) s = put_reg r (reg_of s x + word_of_int i) s"
| "insn_sem v (I_movi r i) s = put_reg r (word_of_int i) s"
| "insn_sem v (I_l8ui r x off) s = put_reg r (sim_load v 1 (reg_of s x + off) s) s"
| "insn_sem v (I_l16ui r x off) s = put_reg r (sim_load v 2 (reg_of s x + off) s) s"
| "insn_sem v (I_l32i r x off) s = put_reg r (sim_load v 4 (reg_of s x + off) s) s"
| "insn_sem v (I_s8i r x off) s = sim_store v 1 (reg_of s x + off) (reg_of s r) (next_insn s)"
| "insn_sem v (I_s16i r x off) s = sim_store v 2 (reg_of s x + off) (reg_of s r) (next_insn s)"
| "insn_sem v (I_s32i r x off) s = sim_store v 4 (reg_of s x + off) (reg_of s r) (next_insn s)"
| "insn_sem v (I_l32r r n) s = put_reg r
     (case xv_read_literal v of None \<Rightarrow> 0
      | Some f \<Rightarrow> f (xs_user s) (((xs_pc s + 3) AND NOT 3) + 4 * scast (ucast n :: u16))) s"
| "insn_sem v (I_beqz x rel) s = (if reg_of s x = 0 then goto (xs_pc s + word_of_int rel) s else next_insn s)"
| "insn_sem v (I_bnez x rel) s = (if reg_of s x \<noteq> 0 then goto (xs_pc s + word_of_int rel) s else next_insn s)"
| "insn_sem v (I_j rel) s = goto (xs_pc s + word_of_int rel) s"
| "insn_sem v (I_call0 rel) s = goto ((xs_pc s AND NOT 3) + word_of_int rel) (put_reg 0 (xs_pc s + 3) s)"
| "insn_sem v (I_jx x) s =
     (if x = 0 \<and> reg_of s x = SENTINEL_RET then (next_insn s)\<lparr>xs_status := XT_SIM_RETURNED\<rparr> else goto (reg_of s x) s)"
| "insn_sem v (I_callx0 x) s =
     (let s' = put_reg 0 (xs_pc s + 3) s in case xv_call_thunk v of None \<Rightarrow> s' | Some f \<Rightarrow> f (reg_of s x) s')"
| "insn_sem v I_ret s =
     (if reg_of s 0 = SENTINEL_RET then (next_insn s)\<lparr>xs_status := XT_SIM_RETURNED\<rparr> else goto (reg_of s 0) s)"
| "insn_sem v (I_slli r x n) s = put_reg r (push_bit (unat n) (reg_of s x)) s"
| "insn_sem v (I_srli r x n) s = put_reg r (drop_bit (unat n) (reg_of s x)) s"
| "insn_sem v (I_srai r x n) s = put_reg r (signed_drop_bit (unat n) (reg_of s x)) s"
| "insn_sem v (I_extui r x n k) s = put_reg r (take_bit (unat k + 1) (drop_bit (unat n) (reg_of s x))) s"

subsection \<open>Immediates\<close>

lemma xor_bit: "v XOR 2 ^ k = (if bit v k then v - 2 ^ k else v + 2 ^ k)" if "k < 32" for v :: u32
proof -
  have a: "x + 2 ^ k = x XOR 2 ^ k" if "\<not> bit x k" for x :: u32
    by (rule disjunctive_add_eq_xor) (simp add: and_exp_eq_0_iff_not_bit that)
  show ?thesis
  proof (cases "bit v k")
    case True
    have "\<not> bit (v XOR 2 ^ k) k" using True that by (simp add: bit_simps)
    from a [OF this] have "(v XOR 2 ^ k) + 2 ^ k = v" by (simp add: xor.assoc)
    thus ?thesis using True by (simp add: eq_diff_eq)
  next
    case False
    thus ?thesis using a [of v] by simp
  qed
qed

lemma sign_extend_int:
  assumes "0 < n" "n < 32" "- (2 ^ (n - 1)) \<le> i" "i < 2 ^ (n - 1)"
  shows "sign_extend (word_of_int i AND mask n) n = word_of_int i"
proof -
  obtain k where k: "n = Suc k" using assms(1) by (cases n) auto
  let ?j = "take_bit n i"
  have v: "(word_of_int i :: u32) AND mask n = word_of_int ?j"
    using assms(2) by (intro bit_word_eqI) (auto simp: bit_simps)
  have j: "?j = (if 0 \<le> i then i else i + 2 * 2 ^ k)"
  proof (cases "0 \<le> i")
    case True
    thus ?thesis using assms(4) k by (simp add: take_bit_int_eq_self)
  next
    case False
    have "?j = (i + 2 ^ n) mod 2 ^ n" by (simp add: take_bit_eq_mod)
    also have "\<dots> = i + 2 ^ n" using False assms(3) k by (intro mod_pos_pos_trivial) simp_all
    finally show ?thesis using False k by simp
  qed
  have "0 \<le> ?j" "?j < 2 * 2 ^ k" using k by (simp_all add: take_bit_int_less_exp [of "Suc k", simplified])
  note r = bit_int_ge [OF this]
  have "bit (word_of_int ?j :: u32) k = bit ?j k" using assms(2) k by (simp only: bit_word_of_int_iff) simp
  hence b: "bit (word_of_int ?j :: u32) k \<longleftrightarrow> i < 0"
    using r assms(3,4) k unfolding j by (simp split: if_splits)
  have "sign_extend (word_of_int ?j) n = (word_of_int ?j XOR 2 ^ k) - (2 ^ k :: u32)"
    by (simp add: sign_extend_def k push_bit_of_1 Let_def)
  also have "\<dots> = word_of_int ?j + (if i < 0 then - (2 * 2 ^ k) else 0)"
    using xor_bit [of k "word_of_int ?j"] b assms(2) k by simp
  also have "\<dots> = word_of_int i" unfolding j by simp
  finally show ?thesis by (simp add: v)
qed

subsection \<open>Execution of the encoded instructions\<close>

fun insn_word :: "xt_insn \<Rightarrow> u32" where
  "insn_word (I_and r s t) = enc_rrr 0x1 0 r s t" | "insn_word (I_or r s t) = enc_rrr 0x2 0 r s t"
| "insn_word (I_xor r s t) = enc_rrr 0x3 0 r s t" | "insn_word (I_add r s t) = enc_rrr 0x8 0 r s t"
| "insn_word (I_addx2 r s t) = enc_rrr 0x9 0 r s t" | "insn_word (I_addx4 r s t) = enc_rrr 0xA 0 r s t"
| "insn_word (I_sub r s t) = enc_rrr 0xC 0 r s t" | "insn_word (I_mov r s) = enc_rrr 0x2 0 r s s"
| "insn_word (I_mull r s t) = enc_rrr 0x8 0x2 r s t"
| "insn_word (I_addi t s i) = enc_rri8 0xC s t (word_of_int i)"
| "insn_word (I_movi t i) = (let v = (word_of_int i :: u32) AND 0xFFF
     in enc_rri8 0xA (ucast (drop_bit 8 v AND 0xF)) t (ucast (v AND 0xFF)))"
| "insn_word (I_l8ui t s off) = enc_rri8 0x0 s t (ucast off)" | "insn_word (I_s8i t s off) = enc_rri8 0x4 s t (ucast off)"
| "insn_word (I_l16ui t s off) = enc_rri8 0x1 s t (ucast (drop_bit 1 off))"
| "insn_word (I_s16i t s off) = enc_rri8 0x5 s t (ucast (drop_bit 1 off))"
| "insn_word (I_l32i t s off) = enc_rri8 0x2 s t (ucast (drop_bit 2 off))"
| "insn_word (I_s32i t s off) = enc_rri8 0x6 s t (ucast (drop_bit 2 off))"
| "insn_word (I_l32r t n) = push_bit 8 (ucast (ucast n :: u16)) OR nib 4 t OR 1"
| "insn_word (I_beqz s rel) = enc_bxxz 0x1 s rel" | "insn_word (I_bnez s rel) = enc_bxxz 0x5 s rel"
| "insn_word (I_j rel) = push_bit 6 (word_of_int (rel - 4) AND 0x3FFFF) OR 0x06"
| "insn_word (I_call0 rel) = push_bit 6 (word_of_int (drop_bit 2 (rel - 4)) AND 0x3FFFF) OR 0x05"
| "insn_word (I_jx s) = nib 8 s OR 0xA0 OR 0" | "insn_word (I_callx0 s) = nib 8 s OR 0xC0 OR 0" | "insn_word I_ret = 0x80"
| "insn_word (I_slli r s n) = (let sa1 = 32 - n in enc_rrr (drop_bit 4 sa1 AND 1) 0x1 r s (sa1 AND 0xF))"
| "insn_word (I_srli r s n) = (if n \<le> 15 then enc_rrr 0x4 0x1 r n s
     else enc_rrr ((31 - n) AND 0xF) (0x4 OR (drop_bit 4 n AND 1)) r (n AND 0xF) s)"
| "insn_word (I_srai r s n) = enc_rrr (0x2 OR (drop_bit 4 n AND 1)) 0x1 r (n AND 0xF) s"
| "insn_word (I_extui r t n k) = enc_rrr (k AND 0xF) (0x4 OR (drop_bit 4 n AND 1)) r (n AND 0xF) t"

lemmas xt_defs = xt_and_def xt_or_def xt_xor_def xt_add_def xt_addx2_def xt_addx4_def xt_sub_def xt_mov_def xt_mull_def xt_addi_def
  xt_movi_def xt_l8ui_def xt_s8i_def xt_l16ui_def xt_s16i_def xt_l32i_def xt_s32i_def xt_l32r_def xt_beqz_def xt_bnez_def xt_j_def
  xt_call0_def xt_jx_def xt_callx0_def xt_ret_def xt_slli_def xt_srli_def xt_srai_def xt_extui_def

lemma emit_insn_word: "emit_insn i = emit24 (insn_word i)"
  by (cases i) (simp_all add: xt_defs Let_def)

text \<open>The program counter is at the word \<open>w\<close>.\<close>

definition at_word :: "('w, 'p) xt_env \<Rightarrow> 'w xt_sim \<Rightarrow> u32 \<Rightarrow> bool" where
  "at_word v s w \<longleftrightarrow> fetch24 v s = (w, next_insn s) \<and> xs_status s = XT_SIM_RUN"

lemma low6: "field 0 4 w = 0 \<Longrightarrow> w AND 0x3F \<noteq> 5 \<and> w AND 0x3F \<noteq> 6" for w :: u32
proof -
  assume z: "field 0 4 w = 0"
  have "(w AND 0x3F) AND 0xF = field 0 4 w" by (simp add: field_def and.assoc mask_eq_exp_minus_1)
  thus ?thesis using z by auto
qed

lemma next_insn_fields [simp]: "xs_status (next_insn s) = xs_status s" "xs_a (next_insn s) = xs_a s" "xs_user (next_insn s) = xs_user s"
  "xs_pc (next_insn s) = xs_pc s + 3"
  by (simp_all add: next_insn_def)

lemma unat_nib: "r < 16 \<Longrightarrow> unat (ucast (r AND mask 4) :: u32) = unat r" for r :: u8
proof -
  assume "r < 16"
  moreover have "unat r < 2 ^ 32" using unat_bound [of r] by simp
  ultimately show ?thesis by (simp add: small_nib unsigned_ucast_eq take_bit_nat_eq_self)
qed

lemma exec_rrr:
  assumes "at_word v s (enc_rrr o2 o1 r x y)" "o2 < 16" "o1 < 16" "r < 16" "x < 16" "y < 16" "o1 \<noteq> 0 \<or> o2 \<noteq> 0"
    "alu_result (xs_a s) (unat o2) (unat o1) (unat x) (unat y) = Some z"
  shows "xt_step v s = put_reg r z s"
proof -
  have "xt_step v s = step_rrr v (enc_rrr o2 o1 r x y) (next_insn s)"
    using assms(1) low6 [of "enc_rrr o2 o1 r x y"] by (simp add: xt_step_def at_word_def fld_field Let_def)
  moreover have "unat o1 \<noteq> 0 \<or> unat o2 \<noteq> 0" using assms(7) by (simp add: unat_eq_0)
  ultimately show ?thesis using assms(2-6,8)
    by (auto simp: step_rrr_def fld_field unat_nib set_a_def put_reg_def next_insn_def Let_def)
qed

lemma exec_rri8:
  assumes "at_word v s (enc_rri8 k x y b)"
  shows "xt_step v s = step_rri8 v (enc_rri8 k x y b) (next_insn s)"
  using assms by (simp add: xt_step_def at_word_def fld_field Let_def)

text \<open>Shift amounts and immediates in their fields.\<close>

lemma shift_halves: "unat (n AND 0xF) = unat n mod 16" "n \<le> 31 \<Longrightarrow> unat (drop_bit 4 n AND 1) = unat n div 16" for n :: u8
proof -
  have "n AND 0xF = take_bit 4 n" by (simp add: take_bit_eq_mask mask_eq_exp_minus_1)
  thus "unat (n AND 0xF) = unat n mod 16" by (simp add: unsigned_take_bit_eq take_bit_eq_mod unat_mod_distrib)
  assume n: "n \<le> 31"
  have "drop_bit 4 n AND 1 = take_bit 1 (drop_bit 4 n)" by (simp add: take_bit_eq_mask)
  hence "unat (drop_bit 4 n AND 1) = unat n div 16 mod 2"
    by (simp add: take_bit_eq_mod drop_bit_eq_div unat_mod_distrib unat_div_distrib)
  thus "unat (drop_bit 4 n AND 1) = unat n div 16" using n by (simp add: word_le_nat_alt)
qed

lemma or_small: "unat b < 2 \<Longrightarrow> unat (2 OR b) = 2 + unat b \<and> unat (4 OR b) = 4 + unat b" for b :: u8
proof -
  assume "unat b < 2"
  hence "b = 0 \<or> b = 1" by (auto simp: less_2_cases_iff word_unat_eq_iff)
  thus ?thesis by auto
qed

lemma scast_field: "sign_extend (ucast h) 16 = scast h" for h :: u16
proof -
  have e: "(ucast h :: u32) = scast h AND mask 16"
  proof (rule bit_word_eqI)
    fix n assume n: "n < LENGTH(32)"
    show "bit (ucast h :: u32) n = bit (scast h AND mask 16 :: u32) n"
    proof (cases "n < 16")
      case True
      hence "min 15 n = n" by simp
      thus ?thesis using True n by (simp add: bit_simps)
    next
      case False
      hence "\<not> bit h n" using bit_imp_le_length [of h n] by auto
      thus ?thesis using False by (simp add: bit_simps)
    qed
  qed
  have s: "(scast h :: u32) = word_of_int (sint h)" by (rule scast_eq)
  have "- (2 ^ (16 - 1)) \<le> sint h" "sint h < 2 ^ (16 - 1)" using sint_range_size [of h] by (simp_all add: word_size)
  from sign_extend_int [OF _ _ this] show ?thesis unfolding e s by simp
qed

lemma byte_of_int: "(ucast (word_of_int i :: u8) :: u32) = word_of_int i AND mask 8"
  by (rule bit_word_eqI) (auto simp: bit_simps)

lemma offset_byte: "off \<le> 255 \<Longrightarrow> ucast (ucast off :: u8) = off"
  "off \<le> 510 \<Longrightarrow> off AND 1 = 0 \<Longrightarrow> push_bit 1 (ucast (ucast (drop_bit 1 off) :: u8)) = off"
  "off \<le> 1020 \<Longrightarrow> off AND 3 = 0 \<Longrightarrow> push_bit 2 (ucast (ucast (drop_bit 2 off) :: u8)) = off" for off :: u32
proof -
  have c: "ucast (ucast w :: u8) = take_bit 8 w" for w :: u32
    by (rule bit_word_eqI) (auto simp: bit_simps)
  have s: "take_bit 8 w = w" if "unat w < 256" for w :: u32
    unfolding take_bit_eq_mask by (rule less_mask_eq) (use that in \<open>simp add: word_less_nat_alt\<close>)
  have d: "push_bit k (drop_bit k w) = w" if "w AND mask k = 0" for k and w :: u32
    using that bits_ident [of k w] by (simp add: take_bit_eq_mask)
  show "off \<le> 255 \<Longrightarrow> ucast (ucast off :: u8) = off" by (simp add: c s word_le_nat_alt)
  show "push_bit 1 (ucast (ucast (drop_bit 1 off) :: u8)) = off" if "off \<le> 510" "off AND 1 = 0"
  proof -
    have "unat (drop_bit 1 off) < 256" using that(1) by (simp add: unat_drop_bit_eq drop_bit_eq_div word_le_nat_alt unat_div_distrib)
    thus ?thesis using d [of off 1] that(2) by (simp only: c s) simp
  qed
  show "push_bit 2 (ucast (ucast (drop_bit 2 off) :: u8)) = off" if "off \<le> 1020" "off AND 3 = 0"
  proof -
    have "unat (drop_bit 2 off) < 256" using that(1) by (simp add: unat_drop_bit_eq drop_bit_eq_div word_le_nat_alt unat_div_distrib)
    moreover have "off AND mask 2 = 0" using that(2) by (simp add: mask_eq_exp_minus_1)
    ultimately show ?thesis using d [of off 2] by (simp only: c s)
  qed
qed

text \<open>Arithmetic and shifts, then memory, then transfers of control.\<close>

lemma exec_alu:
  assumes "valid_insn i" "at_word v s (insn_word i)"
  shows "i = I_and r x y \<Longrightarrow> xt_step v s = insn_sem v i s" "i = I_or r x y \<Longrightarrow> xt_step v s = insn_sem v i s"
    "i = I_xor r x y \<Longrightarrow> xt_step v s = insn_sem v i s" "i = I_add r x y \<Longrightarrow> xt_step v s = insn_sem v i s"
    "i = I_addx2 r x y \<Longrightarrow> xt_step v s = insn_sem v i s" "i = I_addx4 r x y \<Longrightarrow> xt_step v s = insn_sem v i s"
    "i = I_sub r x y \<Longrightarrow> xt_step v s = insn_sem v i s" "i = I_mov r x \<Longrightarrow> xt_step v s = insn_sem v i s"
    "i = I_mull r x y \<Longrightarrow> xt_step v s = insn_sem v i s"
  using assms
  by (auto intro!: exec_rrr simp: alu_result_def reg_of_def push_bit_eq_mult mult.commute)

lemma nibble_bounds: "n AND 0xF < 16" "unat n < 2 \<Longrightarrow> 4 OR n < 16 \<and> 2 OR n < 16 \<and> n < 16" for n :: u8
proof -
  show "n AND 0xF < 16" using word_and_le1 [of n "0xF"] by (simp add: word_less_nat_alt word_le_nat_alt)
  show "4 OR n < 16 \<and> 2 OR n < 16 \<and> n < 16" if "unat n < 2"
    using or_small [OF that] that by (simp add: word_less_nat_alt)
qed

lemma exec_srai: "valid_insn (I_srai r x n) \<Longrightarrow> at_word v s (insn_word (I_srai r x n)) \<Longrightarrow> xt_step v s = insn_sem v (I_srai r x n) s"
proof -
  assume a: "valid_insn (I_srai r x n)" "at_word v s (insn_word (I_srai r x n))"
  have n: "unat n \<le> 31" "n \<le> 31" using a(1) by (simp_all add: word_le_nat_alt)
  let ?h = "drop_bit 4 n AND 1"
  have h: "unat ?h = unat n div 16" "unat ?h < 2" using shift_halves(2) [OF n(2)] n(1) by simp_all
  have o: "unat (2 OR ?h) = 2 + unat n div 16" using or_small [OF h(2)] h(1) by simp
  have h2: "unat n div 16 = 0 \<or> unat n div 16 = Suc 0" using h by auto
  have d: "unat n div 16 * 16 + unat n mod 16 = unat n" by simp
  have e: "alu_result (xs_a s) (unat (2 OR ?h)) (unat (1 :: u8)) (unat (n AND 0xF)) (unat x) = Some (signed_drop_bit (unat n) (reg_of s x))"
    using h2 d by (elim disjE) (simp_all add: alu_result_def o shift_halves(1) reg_of_def Let_def)
  have b: "2 OR ?h < 16" "1 < (16 :: u8)" using nibble_bounds(2) [OF h(2)] by simp_all
  have r: "r < 16" "x < 16" using a(1) by simp_all
  have "xt_step v s = put_reg r (signed_drop_bit (unat n) (reg_of s x)) s"
    by (rule exec_rrr [OF a(2) [unfolded insn_word.simps] b r(1) nibble_bounds(1) r(2) _ e]) simp
  thus ?thesis by simp
qed

lemma exec_extui:
  assumes "n \<le> 31" "k \<le> 15" "r < 16" "x < 16"
    "at_word v s (enc_rrr (k AND 0xF) (0x4 OR (drop_bit 4 n AND 1)) r (n AND 0xF) x)"
  shows "xt_step v s = put_reg r (take_bit (unat k + 1) (drop_bit (unat n) (reg_of s x))) s"
proof -
  let ?h = "drop_bit 4 n AND 1"
  have h: "unat ?h = unat n div 16" "unat ?h < 2" using shift_halves(2) [OF assms(1)] assms(1) by (simp_all add: word_le_nat_alt)
  have o: "unat (4 OR ?h) = 4 + unat n div 16" using or_small [OF h(2)] h(1) by simp
  have h2: "unat n div 16 = 0 \<or> unat n div 16 = Suc 0" using h by auto
  have k: "unat k mod 16 = unat k" using assms(2) by (simp add: word_le_nat_alt)
  have "unat n div 16 * 16 + unat n mod 16 = unat n" by (rule div_mult_mod_eq)
  moreover have "(4 + unat n div 16) mod 2 = unat n div 16" using h2 by (elim disjE) simp_all
  ultimately have "(4 + unat n div 16) mod 2 * 16 + unat n mod 16 = unat n" by (simp only:)
  moreover have "w AND (push_bit j 1 - 1) = take_bit j w" for w :: u32 and j
    by (simp add: take_bit_eq_mask mask_eq_exp_minus_1 push_bit_of_1)
  ultimately have "alu_result (xs_a s) (unat (k AND 0xF)) (unat (4 OR ?h)) (unat (n AND 0xF)) (unat x) =
      Some (take_bit (unat k + 1) (drop_bit (unat n) (reg_of s x)))"
    using h2 by (elim disjE) (simp_all add: alu_result_def o k shift_halves(1) reg_of_def Let_def)
  note e = this
  have z: "4 OR ?h \<noteq> 0"
  proof
    assume "4 OR ?h = 0"
    thus False using o by simp
  qed
  have b: "4 OR ?h < 16" using nibble_bounds(2) [OF h(2)] by blast
  show ?thesis
    by (rule exec_rrr [OF assms(5) nibble_bounds(1) b assms(3) nibble_bounds(1) assms(4) disjI1 [OF z] e])
qed

lemma exec_slli: "valid_insn (I_slli r x n) \<Longrightarrow> at_word v s (insn_word (I_slli r x n)) \<Longrightarrow> xt_step v s = insn_sem v (I_slli r x n) s"
proof -
  assume a: "valid_insn (I_slli r x n)" "at_word v s (insn_word (I_slli r x n))"
  have n: "1 \<le> unat n" "unat n \<le> 31" using a(1) by (simp_all add: word_le_nat_alt)
  let ?m = "32 - n" and ?h = "drop_bit 4 (32 - n) AND 1"
  have m: "unat ?m = 32 - unat n" using n by (simp add: unat_sub word_le_nat_alt)
  have m31: "?m \<le> 31" using n m by (simp add: word_le_nat_alt)
  have h: "unat ?h = (32 - unat n) div 16" using shift_halves(2) [OF m31] m by simp
  have h2: "(32 - unat n) div 16 = 0 \<or> (32 - unat n) div 16 = Suc 0" using n by auto
  have l: "unat (?m AND 0xF) = (32 - unat n) mod 16" using shift_halves(1) [of ?m] m by simp
  have "32 - ((32 - unat n) div 16 * 16 + (32 - unat n) mod 16) = unat n" using n by simp
  hence "alu_result (xs_a s) (unat ?h) (unat (1 :: u8)) (unat x) (unat (?m AND 0xF)) = Some (push_bit (unat n) (reg_of s x))"
    using h2 n by (elim disjE) (simp_all add: alu_result_def h l reg_of_def Let_def)
  note e = this
  have b: "?h < 16" "1 < (16 :: u8)" using h h2 by (auto simp: word_less_nat_alt)
  have r: "r < 16" "x < 16" using a(1) by simp_all
  have "xt_step v s = put_reg r (push_bit (unat n) (reg_of s x)) s"
    by (rule exec_rrr [OF a(2) [unfolded insn_word.simps Let_def] b r nibble_bounds(1) _ e]) simp
  thus ?thesis by simp
qed

lemma exec_srli: "valid_insn (I_srli r x n) \<Longrightarrow> at_word v s (insn_word (I_srli r x n)) \<Longrightarrow> xt_step v s = insn_sem v (I_srli r x n) s"
proof -
  assume a: "valid_insn (I_srli r x n)" "at_word v s (insn_word (I_srli r x n))"
  have b: "r < 16" "x < 16" "n \<le> 31" using a(1) by simp_all
  show ?thesis
  proof (cases "n \<le> 15")
    case True
    hence w: "at_word v s (enc_rrr 0x4 0x1 r n x)" "n < 16" using a(2) by (simp_all add: word_le_nat_alt word_less_nat_alt)
    have "alu_result (xs_a s) (unat (4 :: u8)) (unat (1 :: u8)) (unat n) (unat x) = Some (drop_bit (unat n) (reg_of s x))"
      by (simp add: alu_result_def reg_of_def)
    from exec_rrr [OF w(1) _ _ b(1) w(2) b(2) _ this] show ?thesis by simp
  next
    case False
    have n: "16 \<le> unat n" "unat n \<le> 31" using False b(3) by (simp_all add: word_le_nat_alt)
    have w: "at_word v s (enc_rrr ((31 - n) AND 0xF) (0x4 OR (drop_bit 4 n AND 1)) r (n AND 0xF) x)" using a(2) False by simp
    have k: "unat (31 - n) = 31 - unat n" using n by (simp add: unat_sub word_le_nat_alt)
    hence "31 - n \<le> 15" using n by (simp add: word_le_nat_alt)
    from exec_extui [OF b(3) this b(1,2) w]
    have "xt_step v s = put_reg r (take_bit (unat (31 - n) + 1) (drop_bit (unat n) (reg_of s x))) s" .
    moreover have "take_bit (unat (31 - n) + 1) (drop_bit (unat n) u) = drop_bit (unat n) u" for u :: u32
      using n k by (intro bit_word_eqI) (auto simp: bit_simps dest: bit_imp_le_length)
    ultimately show ?thesis by simp
  qed
qed


lemma rri8_step:
  assumes "at_word v s (enc_rri8 k x y b)" "k < 16" "x < 16" "y < 16"
  shows "xt_step v s = (let s' = next_insn s; imm = ucast b :: u32; a = xs_a s; r = unat k; t = unat y; sr = unat x in
      if r = 0x0 then set_a t (sim_load v 1 (a sr + imm) s') s'
      else if r = 0x4 then sim_store v 1 (a sr + imm) (a t) s'
      else if r = 0x1 then set_a t (sim_load v 2 (a sr + push_bit 1 imm) s') s'
      else if r = 0x5 then sim_store v 2 (a sr + push_bit 1 imm) (a t) s'
      else if r = 0x2 then set_a t (sim_load v 4 (a sr + push_bit 2 imm) s') s'
      else if r = 0x6 then sim_store v 4 (a sr + push_bit 2 imm) (a t) s'
      else if r = 0xC then set_a t (a sr + sign_extend imm 8) s'
      else if r = 0xA then set_a t (sign_extend (push_bit 8 (of_nat sr) OR imm) 12) s'
      else s'\<lparr>xs_status := XT_SIM_BAD_OPCODE\<rparr>)"
proof -
  have i: "drop_bit 16 (enc_rri8 k x y b) AND 0xFF = ucast b"
    using rri8_fields(1) [of k x y b] by (simp add: field_def mask_eq_exp_minus_1)
  show ?thesis using assms(2-4)
    by (simp add: exec_rri8 [OF assms(1)] step_rri8_def fld_field unat_nib i Let_def)
qed

lemma put_set: "set_a (unat r) x (next_insn s) = put_reg r x s"
  by (simp add: set_a_def next_insn_def put_reg_def)

lemma sim_load_next: "sim_load v n p (next_insn s) = sim_load v n p s"
  by (simp add: sim_load_def sim_ptr_def split: option.split)

lemma scale2: "push_bit 2 (w :: u32) = 4 * w" "push_bit 1 w = 2 * w" by (simp_all add: push_bit_eq_mult mult.commute)

lemma exec_mem:
  assumes "valid_insn i" "at_word v s (insn_word i)"
  shows "i = I_l8ui t x off \<Longrightarrow> xt_step v s = insn_sem v i s" "i = I_s8i t x off \<Longrightarrow> xt_step v s = insn_sem v i s"
    "i = I_l16ui t x off \<Longrightarrow> xt_step v s = insn_sem v i s" "i = I_s16i t x off \<Longrightarrow> xt_step v s = insn_sem v i s"
    "i = I_l32i t x off \<Longrightarrow> xt_step v s = insn_sem v i s" "i = I_s32i t x off \<Longrightarrow> xt_step v s = insn_sem v i s"
proof -
  have o: "off \<le> 510 \<Longrightarrow> off AND 1 = 0 \<Longrightarrow> ucast (ucast (drop_bit (Suc 0) off) :: u8) * 2 = off"
    using offset_byte(2) [of off] by (simp add: push_bit_eq_mult)
  note r = put_set sim_load_next reg_of_def Let_def
  show "xt_step v s = insn_sem v i s" if "i = I_l8ui t x off"
    using assms that by (simp add: rri8_step [of v s 0 x t] offset_byte(1) r)
  show "xt_step v s = insn_sem v i s" if "i = I_s8i t x off"
    using assms that by (simp add: rri8_step [of v s 4 x t] offset_byte(1) r)
  show "xt_step v s = insn_sem v i s" if "i = I_l16ui t x off"
    using assms that by (simp add: rri8_step [of v s 1 x t] o r)
  show "xt_step v s = insn_sem v i s" if "i = I_s16i t x off"
    using assms that by (simp add: rri8_step [of v s 5 x t] o r)
  show "xt_step v s = insn_sem v i s" if "i = I_l32i t x off"
    using assms that by (simp add: rri8_step [of v s 2 x t] offset_byte(3) r)
  show "xt_step v s = insn_sem v i s" if "i = I_s32i t x off"
    using assms that by (simp add: rri8_step [of v s 6 x t] offset_byte(3) r)
qed

lemma exec_addi: "valid_insn (I_addi t x i) \<Longrightarrow> at_word v s (insn_word (I_addi t x i)) \<Longrightarrow> xt_step v s = insn_sem v (I_addi t x i) s"
proof -
  assume a: "valid_insn (I_addi t x i)" "at_word v s (insn_word (I_addi t x i))"
  have "sign_extend (ucast (word_of_int i :: u8)) 8 = word_of_int i"
    unfolding byte_of_int by (rule sign_extend_int) (use a(1) in simp_all)
  moreover have "at_word v s (enc_rri8 0xC x t (word_of_int i))" using a(2) by simp
  ultimately show ?thesis using a(1) by (simp add: rri8_step [of v s "0xC" x t "word_of_int i"] put_set reg_of_def Let_def)
qed

lemma exec_movi: "valid_insn (I_movi t i) \<Longrightarrow> at_word v s (insn_word (I_movi t i)) \<Longrightarrow> xt_step v s = insn_sem v (I_movi t i) s"
proof -
  assume a: "valid_insn (I_movi t i)" "at_word v s (insn_word (I_movi t i))"
  define w where "w = (word_of_int i :: u32) AND mask 12"
  define h where "h = (ucast (drop_bit 8 w AND 0xF) :: u8)"
  have m: "(word_of_int i :: u32) AND 0xFFF = w" by (simp add: w_def mask_eq_exp_minus_1)
  have hm: "h = ucast (drop_bit 8 w AND mask 4)" by (simp add: h_def mask_eq_exp_minus_1)
  have h16: "h < 16"
  proof -
    have "h AND mask 4 = h" unfolding hm by (rule bit_word_eqI) (auto simp: bit_simps)
    thus ?thesis using and_mask_less' [of 4 h] by simp
  qed
  have "push_bit 8 (of_nat (unat h)) OR ucast (ucast (w AND 0xFF) :: u8) = w"
  proof -
    have "(of_nat (unat h) :: u32) = ucast h" by simp
    moreover have "w AND 0xFF = w AND mask 8" by (simp add: mask_eq_exp_minus_1)
    ultimately show ?thesis unfolding hm
      by (simp only:) (rule bit_word_eqI, auto simp: bit_simps w_def)
  qed
  moreover have "sign_extend w 12 = word_of_int i"
    unfolding w_def by (rule sign_extend_int) (use a(1) in simp_all)
  moreover have w: "at_word v s (enc_rri8 0xA h t (ucast (w AND 0xFF)))" using a(2) by (simp add: m h_def Let_def)
  ultimately show ?thesis using a(1) h16 by (simp add: rri8_step [OF w] put_set Let_def)
qed


lemma exec_l32r: "valid_insn (I_l32r t n) \<Longrightarrow> at_word v s (insn_word (I_l32r t n)) \<Longrightarrow> xt_step v s = insn_sem v (I_l32r t n) s"
proof -
  assume a: "valid_insn (I_l32r t n)" "at_word v s (insn_word (I_l32r t n))"
  define h where "h = (ucast n :: u16)"
  define w where "w = push_bit 8 (ucast h) OR nib 4 t OR (1 :: u32)"
  have fit: "ucast h AND mask 16 = (ucast h :: u32)" by (rule bit_word_eqI) (auto simp: bit_simps dest: bit_imp_le_length)
  have one: "field m j 1 = drop_bit m 1 AND mask j" for m j by (simp add: field_def)
  have f: "field 0 4 w = 1" "field 4 4 w = ucast (t AND mask 4)" "field 8 16 w = ucast h"
    by (simp_all add: w_def field_nib field_push(2) field_push(3) [OF _ _ fit] one drop_bit_eq_div)
       (simp add: field_def mask_eq_exp_minus_1)?
  have i: "drop_bit 8 w AND 0xFFFF = ucast h" using f(3) by (simp add: field_def mask_eq_exp_minus_1)
  have "at_word v s w" using a(2) by (simp add: w_def h_def)
  hence "xt_step v s = step_l32r v (xs_pc s) w (next_insn s)"
    by (simp add: xt_step_def at_word_def fld_field f Let_def)
  moreover have "unat (ucast (t AND mask 4) :: u32) = unat t" using a(1) by (simp add: unat_nib)
  ultimately have "xt_step v s = set_a (unat t) (case xv_read_literal v of None \<Rightarrow> 0
      | Some f \<Rightarrow> f (xs_user s) (((xs_pc s + 3) AND NOT 3) + 4 * scast h)) (next_insn s)"
    by (simp only: step_l32r_def i fld_field f Let_def scast_field scale2 next_insn_fields)
  thus ?thesis by (simp only: put_set insn_sem.simps h_def)
qed

lemma branch_target: "p + 4 + word_of_int (rel - 4) = p + (word_of_int rel :: u32)"
  by simp

lemma exec_bz:
  assumes "at_word v s (enc_bxxz q x rel)" "q < 16" "x < 16" "-2048 \<le> rel - 4" "rel - 4 \<le> 2047" "q = 1 \<or> q = 5"
  shows "xt_step v s = (if (reg_of s x = 0) = (q = 1) then goto (xs_pc s + word_of_int rel) s else next_insn s)"
proof -
  let ?w = "enc_bxxz q x rel"
  have c: "?w AND 0x3F \<noteq> 5 \<and> ?w AND 0x3F \<noteq> 6"
  proof -
    have "drop_bit 4 (?w AND 0x3F) AND 3 = field 4 4 ?w AND 3"
      by (simp add: field_def and.assoc mask_eq_exp_minus_1 drop_bit_and)
    hence n: "drop_bit 4 (?w AND 0x3F) AND 3 = 1" using assms(6) by (auto simp: mask_eq_exp_minus_1)
    show ?thesis
    proof (intro conjI notI)
      show False if "?w AND 0x3F = 5" using n unfolding that by simp
      show False if "?w AND 0x3F = 6" using n unfolding that by simp
    qed
  qed
  have i: "drop_bit 12 ?w AND 0xFFF = word_of_int (rel - 4) AND mask 12"
    using bxxz_fields(1) [of q x rel] by (simp add: field_def mask_eq_exp_minus_1)
  have e: "sign_extend (word_of_int (rel - 4) AND mask 12) 12 = word_of_int (rel - 4)"
    by (rule sign_extend_int) (use assms(4,5) in simp_all)
  have "xt_step v s = step_bz (xs_pc s) ?w (next_insn s)"
    using assms(1) c by (simp add: xt_step_def at_word_def fld_field Let_def)
  moreover have "unat (ucast (x AND mask 4) :: u32) = unat x" "unat (ucast (q AND mask 4) :: u32) = unat q"
    using assms(2,3) by (simp_all add: unat_nib)
  ultimately have "xt_step v s = (if (reg_of s x = 0) = (unat q = 1) then goto (xs_pc s + 4 + word_of_int (rel - 4)) (next_insn s) else next_insn s)"
    using assms(6) unfolding step_bz_def fld_field i e bxxz_fields Let_def by (auto simp: reg_of_def goto_def)
  moreover have "unat q = 1 \<longleftrightarrow> q = 1" using assms(6) by auto
  ultimately show ?thesis by (simp only: branch_target) (simp add: goto_def next_insn_def)
qed

text \<open>The 18-bit displacement of a jump or a call.\<close>

lemma jump_fields:
  fixes u c :: u32
  assumes "c = 5 \<or> c = 6"
  shows "(push_bit 6 (u AND 0x3FFFF) OR c) AND 0x3F = c"
    "drop_bit 6 (push_bit 6 (u AND 0x3FFFF) OR c) AND 0x3FFFF = u AND mask 18"
    "field 0 4 (push_bit 6 (u AND 0x3FFFF) OR c) = c"
proof -
  have m: "(0x3FFFF :: u32) = mask 18" "(0x3F :: u32) = mask 6" by (simp_all add: mask_eq_exp_minus_1)
  have fit: "(u AND mask 18) AND mask 18 = u AND mask 18" by (simp add: and.assoc)
  show "(push_bit 6 (u AND 0x3FFFF) OR c) AND 0x3F = c"
    using field_push(2) [of 0 6 6 "u AND mask 18"] assms unfolding m field_def
    by (auto simp: bit.conj_disj_distrib2) (simp_all add: mask_eq_exp_minus_1)
  show "drop_bit 6 (push_bit 6 (u AND 0x3FFFF) OR c) AND 0x3FFFF = u AND mask 18"
    using field_push(3) [of 18 18 6 "u AND mask 18", OF _ _ fit] assms unfolding m field_def
    by (auto simp: bit.conj_disj_distrib2)
  show "field 0 4 (push_bit 6 (u AND 0x3FFFF) OR c) = c"
    using field_push(2) [of 0 4 6 "u AND mask 18"] assms unfolding m
    by (auto simp: field_const) (simp_all add: mask_eq_exp_minus_1)
qed

lemma step_jump:
  assumes "at_word v s w"
  shows "w AND 0x3F = 6 \<Longrightarrow> field 0 4 w = 6 \<Longrightarrow> xt_step v s = step_j (xs_pc s) w (next_insn s)"
    "w AND 0x3F = 5 \<Longrightarrow> field 0 4 w = 5 \<Longrightarrow> xt_step v s = step_call0 (xs_pc s) w (next_insn s)"
  using assms by (simp_all add: xt_step_def at_word_def fld_field Let_def)

lemma exec_j: "valid_insn (I_j rel) \<Longrightarrow> at_word v s (insn_word (I_j rel)) \<Longrightarrow> xt_step v s = insn_sem v (I_j rel) s"
proof -
  assume a: "valid_insn (I_j rel)" "at_word v s (insn_word (I_j rel))"
  let ?w = "push_bit 6 (word_of_int (rel - 4) AND 0x3FFFF) OR (6 :: u32)"
  note f = jump_fields [of 6 "word_of_int (rel - 4)", OF disjI2 [OF refl]]
  have e: "sign_extend (word_of_int (rel - 4) AND mask 18) 18 = word_of_int (rel - 4)"
    by (rule sign_extend_int) (use a(1) in simp_all)
  have "at_word v s ?w" using a(2) by simp
  hence "xt_step v s = step_j (xs_pc s) ?w (next_insn s)"
    by (rule step_jump(1)) (rule f)+
  thus ?thesis by (simp only: step_j_def f(2) e branch_target insn_sem.simps) (simp add: goto_def next_insn_def)
qed

lemma exec_call0: "valid_insn (I_call0 rel) \<Longrightarrow> at_word v s (insn_word (I_call0 rel)) \<Longrightarrow> xt_step v s = insn_sem v (I_call0 rel) s"
proof -
  assume a: "valid_insn (I_call0 rel)" "at_word v s (insn_word (I_call0 rel))"
  define d where "d = drop_bit 2 (rel - 4)"
  have d: "d = (rel - 4) div 4" by (simp add: d_def drop_bit_eq_div)
  let ?w = "push_bit 6 (word_of_int d AND 0x3FFFF) OR (5 :: u32)"
  note f = jump_fields [of 5 "word_of_int d", OF disjI1 [OF refl]]
  have e: "sign_extend (word_of_int d AND mask 18) 18 = word_of_int d"
    by (rule sign_extend_int) (use a(1) in \<open>simp_all only: d valid_insn.simps, simp_all\<close>)
  have "at_word v s ?w" using a(2) by (simp add: d_def)
  hence "xt_step v s = step_call0 (xs_pc s) ?w (next_insn s)"
    by (rule step_jump(2)) (rule f)+
  moreover have "4 + push_bit 2 (word_of_int d) = (word_of_int rel :: u32)"
  proof -
    have "4 dvd rel" using a(1) by simp
    hence r: "rel = 4 * d + 4" unfolding d by presburger
    show ?thesis by (simp only: scale2) (simp add: r)
  qed
  ultimately have "xt_step v s = (set_a 0 (xs_pc s + 3) (next_insn s))\<lparr>xs_pc := (xs_pc s AND NOT 3) + word_of_int rel\<rparr>"
    by (simp only: step_call0_def f(2) e add.assoc Let_def next_insn_fields)
  thus ?thesis by (simp add: set_a_def goto_def put_reg_def next_insn_def)
qed

text \<open>The instructions of the CALLX group.\<close>

lemma exec_special:
  assumes "at_word v s (enc_rrr 0 0 0 x t)" "x < 16" "t < 16" "step_special v (unat x) (unat t) (next_insn s) = Some s'"
  shows "xt_step v s = s'"
proof -
  have "xt_step v s = step_rrr v (enc_rrr 0 0 0 x t) (next_insn s)"
    using assms(1) low6 [of "enc_rrr 0 0 0 x t"] by (simp add: xt_step_def at_word_def fld_field Let_def)
  thus ?thesis using assms(2-4) by (simp add: step_rrr_def fld_field unat_nib Let_def)
qed

lemma special_words: "nib 8 x OR 0xA0 = enc_rrr 0 0 0 x 0xA" "nib 8 x OR 0xC0 = enc_rrr 0 0 0 x 0xC" "nib 8 x OR 0xA0 OR 0 = enc_rrr 0 0 0 x 0xA" "nib 8 x OR 0xC0 OR 0 = enc_rrr 0 0 0 x 0xC"
  "0x80 = enc_rrr 0 0 0 0 0x8"
  by (simp_all add: enc_rrr_def nib_def)

lemma exec_ctl:
  assumes "valid_insn i" "at_word v s (insn_word i)"
  shows "i = I_jx x \<Longrightarrow> xt_step v s = insn_sem v i s" "i = I_callx0 x \<Longrightarrow> xt_step v s = insn_sem v i s"
    "i = I_ret \<Longrightarrow> xt_step v s = insn_sem v i s"
    "i = I_beqz x rel \<Longrightarrow> xt_step v s = insn_sem v i s" "i = I_bnez x rel \<Longrightarrow> xt_step v s = insn_sem v i s"
proof -
  have z: "unat x = 0 \<longleftrightarrow> x = 0" by (rule unat_eq_0)
  show "xt_step v s = insn_sem v i s" if "i = I_jx x"
    by (rule exec_special [of v s x "0xA"])
       (use assms that in \<open>auto simp: special_words step_special_def reg_of_def goto_def next_insn_def z Let_def\<close>)
  show "xt_step v s = insn_sem v i s" if "i = I_callx0 x"
    by (rule exec_special [of v s x "0xC"])
       (use assms that in \<open>simp_all add: special_words step_special_def reg_of_def put_set [of 0, simplified] Let_def split: option.split\<close>)
  show "xt_step v s = insn_sem v i s" if "i = I_ret"
    by (rule exec_special [of v s 0 "0x8"])
       (use assms that in \<open>simp_all add: special_words step_special_def reg_of_def goto_def next_insn_def Let_def\<close>)
  show "xt_step v s = insn_sem v i s" if "i = I_beqz x rel"
    using assms that exec_bz [of v s 1 x rel] by simp
  show "xt_step v s = insn_sem v i s" if "i = I_bnez x rel"
    using assms that exec_bz [of v s 5 x rel] by simp
qed

lemma insn_executes:
  assumes "valid_insn i" "at_word v s (insn_word i)"
  shows "xt_step v s = insn_sem v i s"
proof (cases i)
  case (I_extui r t n k)
  have "k AND 0xF = k AND mask 4" by (simp add: mask_eq_exp_minus_1)
  show ?thesis using exec_extui [of n k r t v s] assms I_extui by simp
qed (use assms exec_alu exec_mem exec_ctl exec_addi exec_movi exec_l32r exec_j exec_call0 exec_slli exec_srli exec_srai in metis)+


subsection \<open>The byte stream\<close>

text \<open>\<open>emitted e bs\<close>: the bytes of the full words are in the buffer, the others in the accumulator, whose unused bytes are 0.\<close>

definition emitted :: "xt_emit \<Rightarrow> u8 list \<Rightarrow> bool" where
  "emitted e bs \<longleftrightarrow> unat (xe_len e) = length bs \<and>
     (let q = 4 * (length bs div 4) in
      (\<forall>i < q. xe_buf e i = bs ! i) \<and>
      (\<forall>j < 4. ucast (drop_bit (8 * j) (xe_acc e)) = (if q + j < length bs then bs ! (q + j) else 0)))"

lemma emitted_init: "emitted (xt_init buf cap) []"
  by (simp add: emitted_def xt_init_def)

lemma len_low: "unat (w AND 3) = unat w mod 4" "w AND 3 = 0 \<longleftrightarrow> unat w mod 4 = 0" "unat (w AND NOT 3) = 4 * (unat w div 4)" for w :: u32
proof -
  have m: "w AND 3 = w AND mask 2" by (simp add: mask_eq_exp_minus_1)
  show a: "unat (w AND 3) = unat w mod 4" unfolding m by (simp add: take_bit_eq_mod flip: take_bit_eq_mask) (simp add: unat_mod_distrib)
  show "w AND 3 = 0 \<longleftrightarrow> unat w mod 4 = 0" using a unat_eq_0 [of "w AND 3"] by simp
  have "w AND 3 OR w AND NOT 3 = w" by (simp add: flip: bit.conj_disj_distrib)
  moreover have "w AND 3 OR w AND NOT 3 = (w AND 3) + (w AND NOT 3)"
    by (rule disjunctive_add_eq_or [symmetric]) (simp add: ac_simps)
  ultimately have "w AND NOT 3 = w - (w AND 3)" by (simp add: eq_diff_eq ac_simps)
  moreover have "w AND 3 \<le> w" by (rule word_and_le2)
  ultimately have "unat (w AND NOT 3) = unat w - unat w mod 4" using a by (simp only: unat_sub)
  thus "unat (w AND NOT 3) = 4 * (unat w div 4)" by (simp add: minus_mod_eq_mult_div)
qed

lemma store32_byte: "j < 4 \<Longrightarrow> store32_le i w buf (i + j) = ucast (drop_bit (8 * j) w)" "k < i \<Longrightarrow> store32_le i w buf k = buf k"
  by (auto simp: store32_le_def less_Suc_eq numeral_eq_Suc)

lemma acc_byte: "j < 4 \<Longrightarrow> k < 4 \<Longrightarrow> ucast (drop_bit (8 * j) (a OR push_bit (k * 8) (ucast b))) = (ucast (drop_bit (8 * j) a) OR (if j = k then b else 0))"
  for a :: u32 and b :: u8
  by (rule bit_word_eqI) (auto simp: bit_simps dest: bit_imp_le_length)

lemma emitted_byte:
  assumes "emitted e bs" "length bs + 1 < 2 ^ 32"
  shows "emitted (emit_byte_packed b e) (bs @ [b])"
proof -
  let ?n = "length bs" and ?a = "xe_acc e OR push_bit (unat (xe_len e AND 3) * 8) (ucast b)"
  have n: "unat (xe_len e) = ?n" and i: "\<And>i. i < 4 * (?n div 4) \<Longrightarrow> xe_buf e i = bs ! i"
    and a: "\<And>j. j < 4 \<Longrightarrow> ucast (drop_bit (8 * j) (xe_acc e)) = (if 4 * (?n div 4) + j < ?n then bs ! (4 * (?n div 4) + j) else 0)"
    using assms(1) by (simp_all add: emitted_def Let_def)
  have n1: "unat (xe_len e + 1) = Suc ?n" using assms(2) n by (simp add: unat_word_ariths)
  have k: "unat (xe_len e AND 3) = ?n mod 4" by (simp add: len_low n)
  have b: "ucast (drop_bit (8 * j) ?a) = (if 4 * (?n div 4) + j < Suc ?n then (bs @ [b]) ! (4 * (?n div 4) + j) else 0)" if "j < 4" for j
  proof -
    have "?n = 4 * (?n div 4) + ?n mod 4" by simp
    hence "4 * (?n div 4) + j < ?n \<longleftrightarrow> j < ?n mod 4" "4 * (?n div 4) + j < Suc ?n \<longleftrightarrow> j \<le> ?n mod 4"
      "j = ?n mod 4 \<Longrightarrow> 4 * (?n div 4) + j = ?n" by linarith+
    moreover have r: "length bs mod 4 < 4" by simp
    ultimately show ?thesis using that unfolding k acc_byte [OF that r] a [OF that] by (auto simp: nth_append)
  qed
  show ?thesis
  proof (cases "Suc ?n mod 4 = 0")
    case False
    hence "Suc ?n div 4 = ?n div 4" "(xe_len e + 1) AND 3 \<noteq> 0" by (simp_all add: div_Suc len_low n1)
    moreover have "i < ?n" if "i < 4 * (?n div 4)" for i using that by linarith
    ultimately show ?thesis using b i by (simp add: emit_byte_packed_def emitted_def n1 nth_append Let_def)
  next
    case True
    hence q: "Suc ?n div 4 = Suc (?n div 4)" "(xe_len e + 1) AND 3 = 0" "4 * (?n div 4) + 3 = ?n"
      using div_mult_mod_eq [of "Suc ?n" 4] by (simp_all add: div_Suc len_low n1) presburger?
    have "unat (xe_len e + 1 - 4) = 4 * (?n div 4)"
    proof -
      have "4 \<le> xe_len e + 1" using q(3) n1 by (simp add: word_le_nat_alt)
      hence "unat (xe_len e + 1 - 4) = unat (xe_len e + 1) - unat (4 :: u32)" by (rule unat_sub)
      thus ?thesis using q(3) n1 by (simp only:) simp
    qed
    note p = this
    have w: "store32_le (4 * (?n div 4)) ?a (xe_buf e) i = (bs @ [b]) ! i" if "i < 4 * (Suc ?n div 4)" for i
    proof (cases "i < 4 * (?n div 4)")
      case True
      hence "i < ?n" by linarith
      thus ?thesis using i True by (simp add: store32_byte(2) nth_append)
    next
      case False
      then obtain j where j: "i = 4 * (?n div 4) + j" using le_Suc_ex not_less by blast
      moreover have "j < 4" using that j q by simp
      ultimately show ?thesis using b [of j] q(3) by (simp add: store32_byte(1))
    qed
    have "4 * (Suc ?n div 4) = Suc ?n" using q by simp
    thus ?thesis using w q(2) p by (simp add: emit_byte_packed_def emitted_def n1 Let_def)
  qed
qed

lemma emitted_flush:
  assumes "emitted e bs" "i < length bs"
  shows "xe_buf (xt_flush_pending e) i = bs ! i"
proof -
  let ?q = "4 * (length bs div 4)"
  have n: "unat (xe_len e) = length bs" and f: "\<And>i. i < ?q \<Longrightarrow> xe_buf e i = bs ! i"
    and a: "\<And>j. j < 4 \<Longrightarrow> ucast (drop_bit (8 * j) (xe_acc e)) = (if ?q + j < length bs then bs ! (?q + j) else 0)"
    using assms(1) by (simp_all add: emitted_def Let_def)
  show ?thesis
  proof (cases "i < ?q")
    case True
    thus ?thesis using f store32_byte(2) [of i ?q "xe_acc e" "xe_buf e"]
      by (simp only: xt_flush_pending_def len_low(3) n) simp
  next
    case False
    then obtain j where j: "i = ?q + j" using le_Suc_ex not_less by blast
    moreover have "j < 4" "length bs mod 4 \<noteq> 0" using assms(2) j by presburger+
    ultimately show ?thesis using a [of j] assms(2) store32_byte(1) [of j ?q "xe_acc e" "xe_buf e"]
      by (simp only: xt_flush_pending_def len_low(2,3) n) simp
  qed
qed

definition word_bytes :: "u32 \<Rightarrow> u8 list" where
  "word_bytes w = [ucast w, ucast (drop_bit 8 w), ucast (drop_bit 16 w)]"

lemma byte_mask: "ucast (x AND 0xFF) = (ucast x :: u8)" for x :: u32
proof -
  have "x AND 0xFF = x AND mask 8" by (simp add: mask_eq_exp_minus_1)
  thus ?thesis by (simp only:) (rule bit_word_eqI, auto simp: bit_simps)
qed

lemma packed_frame [simp]: "xe_cap (emit_byte_packed b e) = xe_cap e" "xe_overflow (emit_byte_packed b e) = xe_overflow e"
  by (simp_all add: emit_byte_packed_def Let_def)

lemma emitted24:
  assumes "emitted e bs" "length bs + 3 \<le> unat (xe_cap e)"
  shows "emitted (snd (emit24 w e)) (bs @ word_bytes w)" "fst (emit24 w e) = 3"
    "xe_cap (snd (emit24 w e)) = xe_cap e" "xe_overflow (snd (emit24 w e)) = xe_overflow e"
proof -
  have c: "unat (xe_cap e) < 2 ^ 32" using unat_bound [of "xe_cap e"] by simp
  have n: "unat (xe_len e) = length bs" using assms(1) by (simp add: emitted_def)
  have "unat (xe_len e + 3) = length bs + 3" using assms(2) c n by (simp add: unat_word_ariths)
  hence f: "\<not> xe_len e + 3 > xe_cap e" using assms(2) by (simp add: word_less_nat_alt)
  have "emitted (emit_byte_packed (ucast (drop_bit 16 w)) (emit_byte_packed (ucast (drop_bit 8 w)) (emit_byte_packed (ucast w) e)))
      (((bs @ [ucast w]) @ [ucast (drop_bit 8 w)]) @ [ucast (drop_bit 16 w)])"
    by (intro emitted_byte assms(1)) (use assms(2) c in simp_all)
  thus "emitted (snd (emit24 w e)) (bs @ word_bytes w)" using f by (simp add: emit24_def word_bytes_def byte_mask)
  show "fst (emit24 w e) = 3" "xe_cap (snd (emit24 w e)) = xe_cap e" "xe_overflow (snd (emit24 w e)) = xe_overflow e"
    using f by (simp_all add: emit24_def)
qed

text \<open>The emitters called one after another.\<close>

fun emit_all :: "xt_insn list \<Rightarrow> xt_emit \<Rightarrow> xt_emit" where
  "emit_all [] e = e"
| "emit_all (i # is) e = emit_all is (snd (emit_insn i e))"

definition insn_bytes :: "xt_insn list \<Rightarrow> u8 list" where
  "insn_bytes is = concat (map (\<lambda>i. word_bytes (insn_word i)) is)"

lemma insn_bytes_Cons [simp]: "insn_bytes [] = []" "insn_bytes (i # is) = word_bytes (insn_word i) @ insn_bytes is"
  by (simp_all add: insn_bytes_def)

lemma length_insn_bytes [simp]: "length (insn_bytes is) = 3 * length is"
  by (induction "is") (simp_all add: word_bytes_def)

lemma nth_insn_bytes: "k < length is \<Longrightarrow> j < 3 \<Longrightarrow> insn_bytes is ! (3 * k + j) = word_bytes (insn_word (is ! k)) ! j"
proof (induction "is" arbitrary: k)
  case (Cons i "is")
  have b: "(word_bytes w @ zs) ! j = word_bytes w ! j" "(word_bytes w @ zs) ! (3 * Suc m + j) = zs ! (3 * m + j)" for w m zs
    using Cons.prems(2) by (auto simp: nth_append word_bytes_def less_Suc_eq numeral_eq_Suc)
  show ?case
  proof (cases k)
    case 0
    thus ?thesis using b(1) by simp
  next
    case (Suc m)
    thus ?thesis using b(2) [of "insn_word i" "insn_bytes is" m] Cons.IH [of m] Cons.prems by simp
  qed
qed simp

lemma emitted_all:
  assumes "emitted e bs" "length bs + 3 * length is \<le> unat (xe_cap e)"
  shows "emitted (emit_all is e) (bs @ insn_bytes is) \<and> xe_overflow (emit_all is e) = xe_overflow e"
  using assms
proof (induction "is" arbitrary: e bs)
  case (Cons i "is")
  have "length bs + 3 \<le> unat (xe_cap e)" using Cons.prems(2) by simp
  note s = emitted24 [OF Cons.prems(1) this, of "insn_word i"]
  have "length (bs @ word_bytes (insn_word i)) + 3 * length is \<le> unat (xe_cap (snd (emit24 (insn_word i) e)))"
    using Cons.prems(2) s(3) by (simp add: word_bytes_def)
  from Cons.IH [OF s(1) this] show ?case using s(4) by (simp add: emit_insn_word)
qed simp

text \<open>What the simulator fetches is the word that was emitted.\<close>

lemma word_fits: "field 24 8 (enc_rrr o2 o1 r x t) = 0" "field 24 8 (enc_rri8 r x t b) = 0" "field 24 8 (enc_bxxz q x rel) = 0"
proof -
  show "field 24 8 (enc_rrr o2 o1 r x t) = 0" by (simp add: enc_rrr_def field_nib)
  show "field 24 8 (enc_rri8 r x t b) = 0"
    by (simp add: enc_rri8_def field_nib field_push(1) [OF _ byte_fits] field_const)
  have f: "(u AND mask 12) AND mask 12 = u AND mask 12" for u :: u32 by (simp add: and.assoc)
  have m: "(0xFFF :: u32) = mask 12" by (simp add: mask_eq_exp_minus_1)
  show "field 24 8 (enc_bxxz q x rel) = 0" unfolding enc_bxxz_def Let_def m
    by (simp add: field_nib field_push(1) [OF _ f] field_const del: push_bit_and)
qed

lemma insn_word_fits: "field 24 8 (insn_word i) = 0"
proof -
  have f: "(u AND mask 18) AND mask 18 = u AND mask 18" for u :: u32 by (simp add: and.assoc)
  have m: "(0x3FFFF :: u32) = mask 18" by (simp add: mask_eq_exp_minus_1)
  have j: "field 24 8 (push_bit 6 (u AND mask 18)) = 0" for u :: u32 by (rule field_push(1) [OF _ f]) simp
  have h: "field 24 8 (push_bit 8 (ucast h)) = 0" for h :: u16
    by (rule field_push(1) [where n = 16]) (simp, rule bit_word_eqI, auto simp: bit_simps dest: bit_imp_le_length)
  have one: "field 24 8 1 = 0" by (simp add: field_def)
  show ?thesis
    by (cases i; simp only: insn_word.simps m Let_def field_or j h word_fits split: if_split; simp add: word_fits field_nib field_const one)
qed

lemma word_of_bytes:
  assumes "field 24 8 w = 0"
  shows "ucast (ucast w :: u8) OR push_bit 8 (ucast (ucast (drop_bit 8 w) :: u8)) OR push_bit 16 (ucast (ucast (drop_bit 16 w) :: u8)) = w"
proof (rule bit_word_eqI)
  fix n assume n: "n < LENGTH(32)"
  have "\<not> bit w n" if "24 \<le> n"
  proof
    assume "bit w n"
    hence "bit (field 24 8 w) (n - 24)" using that n by (auto simp: field_def bit_simps)
    thus False using assms by simp
  qed
  thus "bit (ucast (ucast w :: u8) OR push_bit 8 (ucast (ucast (drop_bit 8 w) :: u8)) OR push_bit 16 (ucast (ucast (drop_bit 16 w) :: u8)) :: u32) n = bit w n"
    using n by (cases "n < 8"; cases "n < 16"; cases "n < 24") (auto simp: bit_simps)
qed

lemma fetch_emitted:
  assumes "B + 3 * length is \<le> unat (xs_code_size s)" "k < length is" "unat (xs_pc s) = B + 3 * k" "xs_status s = XT_SIM_RUN"
    "\<And>i. i < 3 * length is \<Longrightarrow> xv_code v (xs_user s) (B + i) = insn_bytes is ! i"
  shows "at_word v s (insn_word (is ! k))"
proof -
  have c: "unat (xs_code_size s) < 2 ^ 32" using unat_bound [of "xs_code_size s"] by simp
  have p: "unat (xs_pc s + of_nat j) = B + 3 * k + j" if "j \<le> 3" for j
    using assms(1-3) c that by (simp add: unat_word_ariths unat_of_nat)
  have "\<not> xs_pc s + 3 > xs_code_size s" using p [of 3] assms(1,2) by (simp add: word_less_nat_alt)
  moreover have "xv_code v (xs_user s) (unat (xs_pc s + of_nat j)) = word_bytes (insn_word (is ! k)) ! j" if "j < 3" for j
    using assms(2) assms(5) [of "3 * k + j"] that p [of j] nth_insn_bytes [OF assms(2) that] by (simp add: add.assoc)
  from this [of 0] this [of 1] this [of 2]
  have "xv_code v (xs_user s) (unat (xs_pc s)) = ucast (insn_word (is ! k))"
    "xv_code v (xs_user s) (unat (xs_pc s + 1)) = ucast (drop_bit 8 (insn_word (is ! k)))"
    "xv_code v (xs_user s) (unat (xs_pc s + 2)) = ucast (drop_bit 16 (insn_word (is ! k)))"
    by (simp_all add: word_bytes_def)
  ultimately show ?thesis using assms(4) word_of_bytes [OF insn_word_fits, of "is ! k"]
    by (simp add: at_word_def fetch24_def next_insn_def Let_def)
qed


subsection \<open>The encoder never writes past its buffer\<close>

lemma store32_frame: "i + 4 \<le> n \<Longrightarrow> n \<le> k \<Longrightarrow> store32_le i w buf k = buf k"
  by (simp add: store32_le_def)

text \<open>The buffer ends at a word boundary, and its length stays within its capacity.\<close>

definition within :: "xt_emit \<Rightarrow> bool" where
  "within e \<longleftrightarrow> unat (xe_cap e) mod 4 = 0 \<and> xe_len e \<le> xe_cap e"

lemma byte_within:
  assumes "unat (xe_cap e) mod 4 = 0" "xe_len e < xe_cap e"
  shows "within (emit_byte_packed b e)" "xe_len (emit_byte_packed b e) = xe_len e + 1"
    "unat (xe_cap e) \<le> k \<Longrightarrow> xe_buf (emit_byte_packed b e) k = xe_buf e k"
proof -
  have n: "unat (xe_len e) < unat (xe_cap e)" using assms(2) by (simp add: word_less_nat_alt)
  have n1: "unat (xe_len e + 1) = unat (xe_len e) + 1"
    using n unat_bound [of "xe_cap e"] by (simp add: unat_word_ariths)
  show "within (emit_byte_packed b e)"
    using n n1 assms(1) by (simp add: within_def emit_byte_packed_def Let_def word_le_nat_alt)
  show "xe_len (emit_byte_packed b e) = xe_len e + 1" by (simp add: emit_byte_packed_def Let_def)
  show "xe_buf (emit_byte_packed b e) k = xe_buf e k" if "unat (xe_cap e) \<le> k"
  proof (cases "(xe_len e + 1) AND 3 = 0")
    case True
    hence "unat (xe_len e + 1) mod 4 = 0" by (simp add: len_low)
    hence "4 \<le> unat (xe_len e + 1)" using n1 by (cases "unat (xe_len e + 1) < 4") simp_all
    hence "unat (xe_len e + 1 - 4) = unat (xe_len e + 1) - unat (4 :: u32)"
      by (intro unat_sub) (simp add: word_le_nat_alt)
    hence p: "unat (xe_len e + 1 - 4) + 4 \<le> unat (xe_cap e)" using n n1 \<open>4 \<le> unat (xe_len e + 1)\<close> by (simp only:) simp
    have "xe_buf (emit_byte_packed b e) k = store32_le (unat (xe_len e + 1 - 4))
        (xe_acc e OR push_bit (unat (xe_len e AND 3) * 8) (ucast b)) (xe_buf e) k"
      using True by (simp add: emit_byte_packed_def Let_def)
    also have "\<dots> = xe_buf e k" by (rule store32_frame [OF p that])
    finally show ?thesis .
  qed (simp add: emit_byte_packed_def Let_def)
qed

lemma emit24_within:
  assumes "within e"
  shows "within (snd (emit24 w e))" "unat (xe_cap e) \<le> k \<Longrightarrow> xe_buf (snd (emit24 w e)) k = xe_buf e k"
    "xe_cap (snd (emit24 w e)) = xe_cap e"
proof -
  let ?e1 = "emit_byte_packed (ucast w) e"
  let ?e2 = "emit_byte_packed (ucast (drop_bit 8 w)) ?e1"
  let ?e3 = "emit_byte_packed (ucast (drop_bit 16 w)) ?e2"
  have "within (snd (emit24 w e)) \<and> (unat (xe_cap e) \<le> k \<longrightarrow> xe_buf (snd (emit24 w e)) k = xe_buf e k)"
  proof (cases "xe_len e + 3 > xe_cap e")
    case True
    thus ?thesis using assms by (simp add: emit24_def within_def)
  next
    case False
    have c: "unat (xe_cap e) mod 4 = 0" using assms by (simp add: within_def)
    have "unat (xe_len e) \<le> unat (xe_cap e)" using assms by (simp add: within_def word_le_nat_alt)
    moreover have "unat (xe_cap e) + 3 < 2 ^ 32" using c unat_bound [of "xe_cap e"] by simp presburger
    ultimately have "unat (xe_len e + 3) = unat (xe_len e) + 3" by (simp add: unat_word_ariths)
    hence n: "unat (xe_len e) + 3 \<le> unat (xe_cap e)" using False by (simp add: not_less word_le_nat_alt)
    hence u: "unat (xe_len e + 1) = unat (xe_len e) + 1" "unat (xe_len e + 1 + 1) = unat (xe_len e) + 2"
      using unat_bound [of "xe_cap e"] by (simp_all add: unat_word_ariths)
    have l: "xe_len e < xe_cap e" "xe_len e + 1 < xe_cap e" "xe_len e + 1 + 1 < xe_cap e"
      using n u by (simp_all only: word_less_nat_alt)
    note s1 = byte_within [of e, OF c l(1)]
    note s2 = byte_within [of ?e1, unfolded packed_frame s1(2), OF c l(2)]
    note s3 = byte_within [of ?e2, unfolded packed_frame s2(2) s1(2), OF c l(3)]
    show ?thesis using False s1(3) s2(3) s3(1,3) by (simp add: emit24_def byte_mask)
  qed
  thus "within (snd (emit24 w e))" "unat (xe_cap e) \<le> k \<Longrightarrow> xe_buf (snd (emit24 w e)) k = xe_buf e k" by simp_all
  show "xe_cap (snd (emit24 w e)) = xe_cap e" by (simp add: emit24_def)
qed


lemma emit_all_within:
  "within e \<Longrightarrow> within (emit_all is e) \<and> xe_cap (emit_all is e) = xe_cap e \<and>
     (\<forall>k. unat (xe_cap e) \<le> k \<longrightarrow> xe_buf (emit_all is e) k = xe_buf e k)"
proof (induction "is" arbitrary: e)
  case (Cons i "is")
  note s = emit24_within [OF Cons.prems, where w = "insn_word i"]
  from Cons.IH [OF s(1)] s(2,3) show ?case by (simp add: emit_insn_word)
qed simp

lemma flush_within:
  assumes "within e" "unat (xe_cap e) \<le> k"
  shows "xe_buf (xt_flush_pending e) k = xe_buf e k"
proof (cases "xe_len e AND 3 = 0")
  case False
  have "unat (xe_len e) \<le> unat (xe_cap e)" "unat (xe_cap e) mod 4 = 0" "unat (xe_len e) mod 4 \<noteq> 0"
    using assms(1) False by (simp_all add: within_def word_le_nat_alt len_low)
  hence "4 * (unat (xe_len e) div 4) + 4 \<le> unat (xe_cap e)" by presburger
  from store32_frame [OF this assms(2)] show ?thesis by (simp only: xt_flush_pending_def len_low(3)) simp
qed (simp add: xt_flush_pending_def)

subsection \<open>The properties\<close>

text \<open>C35: Any sequence of emissions into a buffer of whole words, flushed at the end, leaves every byte after the buffer
  as it was: an instruction that does not fit is refused instead of written.\<close>

theorem encoder_stays_in_buffer:
  assumes "4 dvd unat cap" "unat cap \<le> k"
  shows "xe_buf (xt_flush_pending (emit_all is (xt_init buf cap))) k = buf k"
proof -
  let ?e = "xt_init buf cap"
  have w: "within ?e" using assms(1) by (simp add: within_def xt_init_def dvd_eq_mod_eq_0)
  have c: "xe_cap ?e = cap" "xe_buf ?e = buf" by (simp_all add: xt_init_def)
  show ?thesis using emit_all_within [OF w, of "is"] flush_within [of "emit_all is ?e" k] assms(2) c by simp
qed

lemma encoder_stays_in_buffer_witness:
  "xe_buf (xt_flush_pending (emit_all [I_ret, I_ret] (xt_init (\<lambda>_. 0xEE) 4))) 4 = 0xEE"
  by (rule encoder_stays_in_buffer) simp_all

text \<open>C34: A program emitted into a large enough buffer and flushed is executed instruction by instruction by the simulator:
  at the address of the k-th instruction a step has exactly the effect that instruction is for (register result, memory
  access, branch target, call, return), for every argument the encoder accepts, including the shift of more than 15 that
  has no encoding of its own.\<close>

theorem emitted_code_executes:
  assumes "\<forall>i\<in>set is. valid_insn i" "3 * length is \<le> unat cap"
    and "\<forall>i < 3 * length is. xv_code v (xs_user s) i = xe_buf (xt_flush_pending (emit_all is (xt_init buf cap))) i"
    and "3 * length is \<le> unat (xs_code_size s)"
    and "k < length is" "xs_pc s = of_nat (3 * k)" "xs_status s = XT_SIM_RUN"
  shows "\<not> xe_overflow (emit_all is (xt_init buf cap)) \<and> xt_step v s = insn_sem v (is ! k) s"
proof -
  have e: "emitted (emit_all is (xt_init buf cap)) (insn_bytes is) \<and> xe_overflow (emit_all is (xt_init buf cap)) = False"
    using emitted_all [OF emitted_init, of "is" buf cap] assms(2) by (simp add: xt_init_def)
  have "unat (xs_pc s) = 3 * k"
    using assms(2,5) unat_bound [of cap] unfolding assms(6) unat_of_nat by simp
  note pc = this
  have "at_word v s (insn_word (is ! k))"
    by (rule fetch_emitted [where B = 0, simplified, OF assms(4,5) pc assms(7)]) (use assms(3) emitted_flush [OF conjunct1 [OF e]] in simp)
  moreover have "valid_insn (is ! k)" using assms(1,5) by simp
  ultimately show ?thesis using e insn_executes by blast
qed

definition wit_code :: "nat \<Rightarrow> u8" where
  "wit_code = xe_buf (xt_flush_pending (emit_all [I_movi 2 (-5), I_srli 2 2 20] (xt_init (\<lambda>_. 0) 8)))"

definition wit_env :: "(unit, unit) xt_env" where
  "wit_env = \<lparr>xv_code = \<lambda>_. wit_code, xv_peek = \<lambda>_ _ _. 0, xv_poke = \<lambda>_ _ _ w. w, xv_translate = None, xv_read_literal = None,
     xv_call_thunk = None\<rparr>"

definition wit_sim :: "unit xt_sim" where
  "wit_sim = (xt_sim_init () 6)\<lparr>xs_pc := 3\<rparr>"

lemma emitted_code_executes_witness:
  "xt_step wit_env wit_sim = insn_sem wit_env (I_srli 2 2 20) wit_sim"
proof -
  have "\<not> xe_overflow (emit_all [I_movi 2 (-5), I_srli 2 2 20] (xt_init (\<lambda>_. 0) 8)) \<and>
      xt_step wit_env wit_sim = insn_sem wit_env ([I_movi 2 (-5), I_srli 2 2 20] ! 1) wit_sim"
    by (rule emitted_code_executes) (simp_all add: wit_env_def wit_code_def wit_sim_def xt_sim_init_def)
  thus ?thesis by simp
qed

end
