(* ===== verification/HostSim.thy ===== *)
theory HostSim
  imports JitHelpers Xtensa
begin

text \<open>
  jit/dispatcher.c, the host build: how a compiled block runs in the simulator. The 32-bit addresses of the generated
  code are sentinels that translate maps to the register file, to a stack, to the guest's RAM and ROM and to the code of the
  block; CALLX0 gets the number of a helper. \<open>offsetof\<close> and \<open>sizeof\<close> are those of the usual C layout of
  \<open>m68k_cpu\<close>.
\<close>

subsection \<open>The register file as bytes\<close>

definition word_byte :: "'a::len word \<Rightarrow> nat \<Rightarrow> u8" where
  "word_byte w j = ucast (drop_bit (8 * j) w)"

definition put_byte :: "nat \<Rightarrow> u8 \<Rightarrow> 'a::len word \<Rightarrow> 'a word" where
  "put_byte j b w = (w AND NOT (push_bit (8 * j) 0xFF)) OR push_bit (8 * j) (ucast b)"

definition OFF_D :: "nat \<Rightarrow> u32" where "OFF_D n = of_nat (n * 4)"
definition OFF_A :: "nat \<Rightarrow> u32" where "OFF_A n = 32 + of_nat (n * 4)"
definition OFF_PC :: u32 where "OFF_PC = 64"
definition OFF_SR :: u32 where "OFF_SR = 68"
definition OFF_CYCLES :: u32 where "OFF_CYCLES = 80"
definition OFF_JITRETPC :: u32 where "OFF_JITRETPC = 100"
definition OFF_JIT_ARG1 :: u32 where "OFF_JIT_ARG1 = 104"
definition OFF_JIT_ARG2 :: u32 where "OFF_JIT_ARG2 = 108"

text \<open>Padding reads as 0; so do the two pointers at the end, \<open>current_block\<close> and \<open>mem\<close>, which only code emitted for the
  ESP32 uses.\<close>

definition cpu_byte :: "m68k_cpu \<Rightarrow> nat \<Rightarrow> u8" where
  "cpu_byte c k =
     (if k < 32 then word_byte (dreg c (k div 4)) (k mod 4)
      else if k < 64 then word_byte (areg c ((k - 32) div 4)) (k mod 4)
      else if k < 68 then word_byte (pc c) (k - 64)
      else if k < 70 then word_byte (sr c) (k - 68)
      else if k < 72 then 0
      else if k < 76 then word_byte (usp c) (k - 72)
      else if k < 80 then word_byte (ssp c) (k - 76)
      else if k < 88 then word_byte (cycles c) (k - 80)
      else if k < 96 then word_byte (instrs c) (k - 88)
      else if k = 96 then stopped c else if k = 97 then halted c else if k = 98 then exit_code c else if k = 99 then pending_irq c
      else if k < 104 then word_byte (jit_ret_pc c) (k - 100)
      else if k < 108 then word_byte (jit_arg1 c) (k - 104)
      else if k < 112 then word_byte (jit_arg2 c) (k - 108)
      else if 120 \<le> k \<and> k < 124 then word_byte (chain_budget c) (k - 120)
      else 0)"

definition cpu_poke :: "nat \<Rightarrow> u8 \<Rightarrow> m68k_cpu \<Rightarrow> m68k_cpu" where
  "cpu_poke k b c =
     (if k < 32 then c\<lparr>dreg := (dreg c)(k div 4 := put_byte (k mod 4) b (dreg c (k div 4)))\<rparr>
      else if k < 64 then c\<lparr>areg := (areg c)((k - 32) div 4 := put_byte (k mod 4) b (areg c ((k - 32) div 4)))\<rparr>
      else if k < 68 then c\<lparr>pc := put_byte (k - 64) b (pc c)\<rparr>
      else if k < 70 then c\<lparr>sr := put_byte (k - 68) b (sr c)\<rparr>
      else if k < 72 then c
      else if k < 76 then c\<lparr>usp := put_byte (k - 72) b (usp c)\<rparr>
      else if k < 80 then c\<lparr>ssp := put_byte (k - 76) b (ssp c)\<rparr>
      else if k < 88 then c\<lparr>cycles := put_byte (k - 80) b (cycles c)\<rparr>
      else if k < 96 then c\<lparr>instrs := put_byte (k - 88) b (instrs c)\<rparr>
      else if k = 96 then c\<lparr>stopped := b\<rparr> else if k = 97 then c\<lparr>halted := b\<rparr>
      else if k = 98 then c\<lparr>exit_code := b\<rparr> else if k = 99 then c\<lparr>pending_irq := b\<rparr>
      else if k < 104 then c\<lparr>jit_ret_pc := put_byte (k - 100) b (jit_ret_pc c)\<rparr>
      else if k < 108 then c\<lparr>jit_arg1 := put_byte (k - 104) b (jit_arg1 c)\<rparr>
      else if k < 112 then c\<lparr>jit_arg2 := put_byte (k - 108) b (jit_arg2 c)\<rparr>
      else if 120 \<le> k \<and> k < 124 then c\<lparr>chain_budget := put_byte (k - 120) b (chain_budget c)\<rparr>
      else c)"

definition SIZEOF_CPU :: u32 where "SIZEOF_CPU = 136"

subsection \<open>The memory behind the sentinels\<close>

record host =
  h_mach :: machine
  h_stack :: "nat \<Rightarrow> u8"
  h_code :: "nat \<Rightarrow> u8"
  h_code_size :: u32

datatype host_ptr = PCpu nat | PStack nat | PRam nat | PRom nat | PCode nat

definition HOST_CPU_BASE :: u32 where "HOST_CPU_BASE = 0x40000000"
definition HOST_STACK_BASE :: u32 where "HOST_STACK_BASE = 0x50000000"
definition HOST_STACK_TOP :: u32 where "HOST_STACK_TOP = HOST_STACK_BASE + 0x800"
definition HOST_RAM_BASE :: u32 where "HOST_RAM_BASE = 0x60000000"

definition host_peek :: "host \<Rightarrow> host_ptr \<Rightarrow> nat \<Rightarrow> u8" where
  "host_peek w p i =
     (case p of
        PCpu k \<Rightarrow> cpu_byte (m_cpu (h_mach w)) (k + i)
      | PStack k \<Rightarrow> h_stack w (k + i)
      | PRam k \<Rightarrow> m_ram (h_mach w) (k + i)
      | PRom k \<Rightarrow> (case m_rom (h_mach w) of None \<Rightarrow> 0 | Some r \<Rightarrow> r (k + i))
      | PCode k \<Rightarrow> h_code w (k + i))"

definition host_poke :: "host_ptr \<Rightarrow> nat \<Rightarrow> u8 \<Rightarrow> host \<Rightarrow> host" where
  "host_poke p i b w =
     (case p of
        PCpu k \<Rightarrow> w\<lparr>h_mach := upd_cpu (cpu_poke (k + i) b) (h_mach w)\<rparr>
      | PStack k \<Rightarrow> w\<lparr>h_stack := (h_stack w)(k + i := b)\<rparr>
      | PRam k \<Rightarrow> w\<lparr>h_mach := (h_mach w)\<lparr>m_ram := (m_ram (h_mach w))(k + i := b)\<rparr>\<rparr>
      | PRom k \<Rightarrow> w\<lparr>h_mach := (h_mach w)\<lparr>m_rom := map_option (\<lambda>r. r(k + i := b)) (m_rom (h_mach w))\<rparr>\<rparr>
      | PCode k \<Rightarrow> w\<lparr>h_code := (h_code w)(k + i := b)\<rparr>)"

definition sim_translate :: "host \<Rightarrow> u32 \<Rightarrow> host_ptr option" where
  "sim_translate w addr =
     (let m = h_mach w; guest = addr - HOST_RAM_BASE in
      if addr \<ge> HOST_CPU_BASE \<and> addr < HOST_CPU_BASE + SIZEOF_CPU then Some (PCpu (unat (addr - HOST_CPU_BASE)))
      else if addr \<ge> HOST_STACK_BASE \<and> addr < HOST_STACK_BASE + 0x800 then Some (PStack (unat (addr - HOST_STACK_BASE)))
      else if guest < 0x400000 \<and> guest AND (m_ram_size m - 1) < m_ram_size m then Some (PRam (unat (guest AND (m_ram_size m - 1))))
      else if m_rom m \<noteq> None \<and> guest \<ge> 0x400000 \<and> guest < 0x400000 + m_rom_size m then Some (PRom (unat (guest - 0x400000)))
      else if addr < h_code_size w then Some (PCode (unat addr))
      else None)"

definition sim_read_literal :: "host \<Rightarrow> u32 \<Rightarrow> u32" where
  "sim_read_literal w addr =
     (if addr + 4 > h_code_size w then 0
      else
        (let p = (\<lambda>i. ucast (h_code w (unat addr + i)) :: u32)
         in p 0 OR push_bit 8 (p 1) OR push_bit 16 (p 2) OR push_bit 24 (p 3)))"

subsection \<open>Literals and helpers\<close>

text \<open>The literal_id numbers.\<close>

definition ADDR_CPU_BASE :: nat where "ADDR_CPU_BASE = 0"
definition HELPER_M68K_STEP :: nat where "HELPER_M68K_STEP = 1"
definition ADDR_RAM_BASE :: nat where "ADDR_RAM_BASE = 2"
definition LITERAL_RAM_BOUNDS :: nat where "LITERAL_RAM_BOUNDS = 3"
definition LITERAL_BCC_PC :: nat where "LITERAL_BCC_PC = 4"
definition LITERAL_ROM_BOUNDS :: nat where "LITERAL_ROM_BOUNDS = 38"
definition LITERAL_ROM_BASE :: nat where "LITERAL_ROM_BASE = 39"
definition ADDR_ROM_HOST_BASE :: nat where "ADDR_ROM_HOST_BASE = 40"
definition LITERAL_RAM_BOUNDS_BYTE :: nat where "LITERAL_RAM_BOUNDS_BYTE = 41"
definition LITERAL_ROM_BOUNDS_BYTE :: nat where "LITERAL_ROM_BOUNDS_BYTE = 42"
definition LITERAL_COUNT :: nat where "LITERAL_COUNT = 43"

text \<open>The helpers, in the order of their numbers from HELPER_JIT_ORI_B_MMIO, 5, on.\<close>

definition jit_helpers :: "(machine \<Rightarrow> machine) list" where
  "jit_helpers =
     [m68k_jit_ori_b_mmio, m68k_jit_btst_b_mmio, m68k_jit_movem_l_postinc_to_regs, m68k_jit_movem_l_predec_from_regs,
      m68k_jit_movem_w_to_mem, m68k_jit_movem_l_to_mem, m68k_jit_move_w_postinc_to_dn, m68k_jit_rts_mmio, m68k_jit_bsr_s_mmio,
      m68k_jit_bsr_w_mmio, m68k_jit_move_l_postinc_to_dn_mmio, m68k_jit_move_b_addr_to_dn_mmio, m68k_jit_move_b_dn_to_addr_mmio,
      m68k_jit_move_l_dn_to_anpi_mmio, m68k_jit_move_b_addr_to_an_mmio, m68k_jit_move_b_imm_to_addr_mmio, m68k_jit_fline_trap,
      m68k_jit_move_l_an_to_dn_mmio, m68k_jit_clr_w_anpi_mmio, m68k_jit_tst_b_mmio, m68k_jit_aline_trap, m68k_jit_move_anpi_to_sr,
      m68k_jit_rte, m68k_jit_bitop_dn_an_mmio, m68k_jit_move_l_xxxw_to_an_mmio, m68k_jit_move_b_addr_to_addr_mmio,
      m68k_jit_move_l_addr_to_addr_mmio, m68k_jit_move_w_addr_to_dn_mmio, m68k_jit_move_b_postinc_to_dn_mmio,
      m68k_jit_movea_l_addr_to_am_mmio, m68k_jit_cmp_w_addr_dn_mmio, m68k_jit_move_w_addr_to_postinc_mmio,
      m68k_jit_movea_w_addr_to_am_mmio]"

definition sim_call :: "u32 \<Rightarrow> host xt_sim \<Rightarrow> host xt_sim" where
  "sim_call fn_token s =
     (let n = unat fn_token;
          f = (if n = HELPER_M68K_STEP then m68k_step
               else if 5 \<le> n \<and> n < 5 + length jit_helpers then jit_helpers ! (n - 5) else id)
      in s\<lparr>xs_user := (xs_user s)\<lparr>h_mach := f (h_mach (xs_user s))\<rparr>\<rparr>)"

definition host_env :: "(host, host_ptr) xt_env" where
  "host_env = \<lparr>xv_code = h_code, xv_peek = host_peek, xv_poke = host_poke, xv_translate = Some sim_translate,
     xv_read_literal = Some sim_read_literal, xv_call_thunk = Some sim_call\<rparr>"

definition pow2_size :: "u32 \<Rightarrow> bool" where "pow2_size sz \<longleftrightarrow> \<not> (sz = 0 \<or> sz AND (sz - 1) \<noteq> 0)"

definition ram_bounds_mask :: "machine \<Rightarrow> u32" where
  "ram_bounds_mask m =
     (if m_overlay m then 0xFFFFFFFF else if \<not> pow2_size (m_ram_size m) then 0xFFFFFFFF else NOT (m_ram_size m - 1) OR 1)"

definition rom_bounds_mask :: "machine \<Rightarrow> u32" where
  "rom_bounds_mask m =
     (if m_overlay m then 0xFFFFFFFF else if \<not> pow2_size (m_rom_size m) then 0xFFFFFFFF else NOT (m_rom_size m - 1) OR 1)"

definition ram_bounds_mask_byte :: "machine \<Rightarrow> u32" where
  "ram_bounds_mask_byte m =
     (if m_overlay m then 0xFFFFFFFF else if \<not> pow2_size (m_ram_size m) then 0xFFFFFFFF else NOT (m_ram_size m - 1))"

definition rom_bounds_mask_byte :: "machine \<Rightarrow> u32" where
  "rom_bounds_mask_byte m =
     (if m_overlay m then 0xFFFFFFFF else if \<not> pow2_size (m_rom_size m) then 0xFFFFFFFF else NOT (m_rom_size m - 1))"

definition helper_addr :: "nat \<Rightarrow> machine \<Rightarrow> u32" where
  "helper_addr n m =
     (if n = ADDR_CPU_BASE then HOST_CPU_BASE
      else if n = HELPER_M68K_STEP then of_nat HELPER_M68K_STEP
      else if n = ADDR_RAM_BASE then HOST_RAM_BASE
      else if n = LITERAL_RAM_BOUNDS then ram_bounds_mask m
      else if 5 \<le> n \<and> n < 5 + length jit_helpers then of_nat n
      else if n = LITERAL_ROM_BOUNDS then rom_bounds_mask m
      else if n = LITERAL_ROM_BASE then (if m_rom m \<noteq> None then MAC_ROM_BASE else 0xFFFFFFFF)
      else if n = ADDR_ROM_HOST_BASE then (if m_rom m \<noteq> None then HOST_RAM_BASE else 0)
      else if n = LITERAL_RAM_BOUNDS_BYTE then ram_bounds_mask_byte m
      else if n = LITERAL_ROM_BOUNDS_BYTE then rom_bounds_mask_byte m
      else 0)"

end
