(* ===== verification/HostSimCorrect.thy ===== *)
theory HostSimCorrect
  imports HostSim XtensaCorrect
begin

text \<open>
  jit/dispatcher.c, the host build: what loads and stores of compiled code do to the fields of the register file, and the bounds
  probe with which compiled code decides that an address lies in RAM.
\<close>

subsection \<open>Fields of the register file through the simulator\<close>

abbreviation hcpu :: "host xt_sim \<Rightarrow> m68k_cpu" where "hcpu s \<equiv> m_cpu (h_mach (xs_user s))"

definition upd_hcpu :: "(m68k_cpu \<Rightarrow> m68k_cpu) \<Rightarrow> host xt_sim \<Rightarrow> host xt_sim" where
  "upd_hcpu f s = s\<lparr>xs_user := (xs_user s)\<lparr>h_mach := upd_cpu f (h_mach (xs_user s))\<rparr>\<rparr>"

lemma upd_hcpu_fields [simp]: "hcpu (upd_hcpu f s) = f (hcpu s)" "xs_a (upd_hcpu f s) = xs_a s" "xs_pc (upd_hcpu f s) = xs_pc s"
  "xs_status (upd_hcpu f s) = xs_status s" "h_code (xs_user (upd_hcpu f s)) = h_code (xs_user s)"
  "xs_code_size (upd_hcpu f s) = xs_code_size s" "h_code_size (xs_user (upd_hcpu f s)) = h_code_size (xs_user s)"
  by (simp_all add: upd_hcpu_def)

lemma upd_hcpu_comp [simp]: "upd_hcpu f (upd_hcpu g s) = upd_hcpu (\<lambda>c. f (g c)) s"
  by (simp add: upd_hcpu_def)

lemma four: "[0..<4] = [0, 1, 2, 3 :: nat]" "[0..<2] = [0, 1 :: nat]"
  by (simp_all add: upt_rec)

lemma bit_word_byte: "bit (word_byte w j) i \<longleftrightarrow> i < 8 \<and> bit w (8 * j + i)" for w :: "'a::len word"
  by (auto simp: word_byte_def bit_simps)

lemma bit_put_byte: "bit (put_byte j b w) n \<longleftrightarrow> n < LENGTH('a) \<and> (if 8 * j \<le> n \<and> n < 8 * j + 8 then bit b (n - 8 * j) else bit w n)"
  for w :: "'a::len word"
proof -
  have m: "(0xFF :: 'a word) = mask 8" by (simp add: mask_eq_exp_minus_1)
  show ?thesis unfolding put_byte_def m by (auto simp: bit_simps dest: bit_imp_le_length)
qed

lemma four_cases: "n < 32 \<Longrightarrow> n < 8 \<or> (8 \<le> n \<and> n < 16) \<or> (16 \<le> n \<and> n < 24) \<or> (24 \<le> n \<and> n < 32)" for n :: nat
  by linarith

lemma join_bytes: "push_bit 8 (push_bit 8 (push_bit 8 (ucast (word_byte w 3)) OR ucast (word_byte w 2)) OR ucast (word_byte w (Suc 0))) OR ucast (word_byte w 0) = w" for w :: u32
proof (rule bit_word_eqI)
  fix n assume "n < LENGTH(32)"
  hence "n < 32" by simp
  from four_cases [OF this]
  show "bit (push_bit 8 (push_bit 8 (push_bit 8 (ucast (word_byte w 3)) OR ucast (word_byte w 2)) OR ucast (word_byte w (Suc 0))) OR ucast (word_byte w 0) :: u32) n = bit w n"
    by (elim disjE) (auto simp: bit_push_bit_iff bit_or_iff bit_ucast_iff bit_word_byte)
qed

lemma join_bytes16: "push_bit 8 (ucast (word_byte w (Suc 0))) OR ucast (word_byte w 0) = (ucast w :: u32)" for w :: u16
proof (rule bit_word_eqI)
  fix n assume n: "n < LENGTH(32)"
  have "bit w n \<Longrightarrow> n < 16" by (auto dest: bit_imp_le_length)
  hence "n < 8 \<or> (8 \<le> n \<and> n < 16) \<or> (16 \<le> n \<and> \<not> bit w n)" by linarith
  thus "bit (push_bit 8 (ucast (word_byte w (Suc 0))) OR ucast (word_byte w 0) :: u32) n = bit (ucast w :: u32) n"
    using n by (elim disjE) (auto simp: bit_push_bit_iff bit_or_iff bit_ucast_iff bit_word_byte)
qed

lemma put_bytes: "put_byte 3 (ucast (drop_bit 24 x)) (put_byte 2 (ucast (drop_bit 16 x)) (put_byte (Suc 0) (ucast (drop_bit 8 x)) (put_byte 0 (ucast x) w))) = x"
  for x w :: u32
proof (rule bit_word_eqI)
  fix n assume "n < LENGTH(32)"
  hence "n < 32" by simp
  from four_cases [OF this]
  show "bit (put_byte 3 (ucast (drop_bit 24 x)) (put_byte 2 (ucast (drop_bit 16 x)) (put_byte (Suc 0) (ucast (drop_bit 8 x)) (put_byte 0 (ucast x) w)))) n = bit x n"
    by (elim disjE) (simp_all add: bit_put_byte bit_ucast_iff bit_drop_bit_eq, auto)
qed

lemma put_bytes16: "put_byte (Suc 0) (ucast (drop_bit 8 x)) (put_byte 0 (ucast x) w) = (ucast x :: u16)" for x :: u32
proof (rule bit_word_eqI)
  fix n assume "n < LENGTH(16)"
  hence "n < 8 \<or> (8 \<le> n \<and> n < 16)" by auto
  thus "bit (put_byte (Suc 0) (ucast (drop_bit 8 x)) (put_byte 0 (ucast x) w)) n = bit (ucast x :: u16) n"
    by (elim disjE) (simp_all add: bit_put_byte bit_ucast_iff bit_drop_bit_eq, auto)
qed

lemma put_bytes64: "put_byte 3 (ucast (drop_bit 24 x)) (put_byte 2 (ucast (drop_bit 16 x)) (put_byte (Suc 0) (ucast (drop_bit 8 x)) (put_byte 0 (ucast x) w)))
    = (w AND NOT (mask 32)) OR ucast x"
  for x :: u32 and w :: u64
proof (rule bit_word_eqI)
  fix n assume n: "n < LENGTH(64)"
  have "n < 8 \<or> (8 \<le> n \<and> n < 16) \<or> (16 \<le> n \<and> n < 24) \<or> (24 \<le> n \<and> n < 32) \<or> (32 \<le> n \<and> \<not> bit x n)"
    using bit_imp_le_length [of x n] by auto
  thus "bit (put_byte 3 (ucast (drop_bit 24 x)) (put_byte 2 (ucast (drop_bit 16 x)) (put_byte (Suc 0) (ucast (drop_bit 8 x)) (put_byte 0 (ucast x) w)))) n
    = bit ((w AND NOT (mask 32)) OR ucast x) n"
    using n by (elim disjE) (simp_all add: bit_put_byte bit_ucast_iff bit_drop_bit_eq bit_or_iff bit_and_iff bit_not_iff bit_mask_iff, auto)
qed

lemma host_env_fields [simp]: "xv_code host_env = h_code" "xv_peek host_env = host_peek" "xv_poke host_env = host_poke"
  "xv_translate host_env = Some sim_translate" "xv_read_literal host_env = Some sim_read_literal" "xv_call_thunk host_env = Some sim_call"
  by (simp_all add: host_env_def)

lemma cpu_ptr: "unat off < 136 \<Longrightarrow> sim_ptr host_env s (HOST_CPU_BASE + off) = Some (PCpu (unat off))"
proof -
  assume o: "unat off < 136"
  have u: "unat (HOST_CPU_BASE + off) = 0x40000000 + unat off" using o by (simp add: HOST_CPU_BASE_def unat_word_ariths)
  have "HOST_CPU_BASE + off \<ge> HOST_CPU_BASE" "HOST_CPU_BASE + off < HOST_CPU_BASE + SIZEOF_CPU"
    using o u by (simp_all add: word_le_nat_alt word_less_nat_alt HOST_CPU_BASE_def SIZEOF_CPU_def)
  thus ?thesis by (simp add: sim_ptr_def sim_translate_def Let_def)
qed

lemma load4:
  assumes "unat off < 136" "\<And>i. i < 4 \<Longrightarrow> cpu_byte (hcpu s) (unat off + i) = word_byte w i"
  shows "sim_load host_env 4 (HOST_CPU_BASE + off) s = w"
proof -
  have "sim_load host_env 4 (HOST_CPU_BASE + off) s =
      push_bit 8 (push_bit 8 (push_bit 8 (ucast (word_byte w 3)) OR ucast (word_byte w 2)) OR ucast (word_byte w (Suc 0))) OR ucast (word_byte w 0)"
    using assms(2) [of 0] assms(2) [of 1] assms(2) [of 2] assms(2) [of 3]
    by (simp add: sim_load_def cpu_ptr [OF assms(1)] four host_peek_def)
  thus ?thesis by (simp only: join_bytes)
qed

lemma store4:
  assumes "unat off < 136" "\<And>c. cpu_poke (unat off + 3) (ucast (drop_bit 24 x)) (cpu_poke (unat off + 2) (ucast (drop_bit 16 x))
     (cpu_poke (unat off + 1) (ucast (drop_bit 8 x)) (cpu_poke (unat off) (ucast x) c))) = f c"
  shows "sim_store host_env 4 (HOST_CPU_BASE + off) x s = upd_hcpu f s"
  using assms(2) [of "hcpu s"]
  by (simp add: sim_store_def cpu_ptr [OF assms(1)] four host_poke_def upd_hcpu_def)

lemma off_bound: "n < 8 \<Longrightarrow> unat (OFF_D n) = 4 * n" "n < 8 \<Longrightarrow> unat (OFF_A n) = 32 + 4 * n"
  by (simp_all add: OFF_D_def OFF_A_def unat_word_ariths unat_of_nat)

lemma word_div: "i < 4 \<Longrightarrow> (4 * n + i) div 4 = n" "i < 4 \<Longrightarrow> (4 * n + i) mod 4 = i" "i < 4 \<Longrightarrow> (32 + 4 * n + i) mod 4 = i"
  for i n :: nat
proof -
  assume i: "i < 4"
  thus "(4 * n + i) div 4 = n" "(4 * n + i) mod 4 = i" by simp_all
  have "32 + 4 * n + i = i + (8 + n) * 4" by simp
  thus "(32 + 4 * n + i) mod 4 = i" using i by (simp only: mod_mult_self1 mod_less)
qed

lemma load_D: "n < 8 \<Longrightarrow> sim_load host_env 4 (HOST_CPU_BASE + OFF_D n) s = dreg (hcpu s) n"
  by (rule load4) (simp_all add: off_bound cpu_byte_def word_div)

lemma load_A: "n < 8 \<Longrightarrow> sim_load host_env 4 (HOST_CPU_BASE + OFF_A n) s = areg (hcpu s) n"
  by (rule load4) (simp_all add: off_bound cpu_byte_def word_div)

lemma load_PC: "sim_load host_env 4 (HOST_CPU_BASE + OFF_PC) s = pc (hcpu s)"
  by (rule load4) (simp_all add: OFF_PC_def cpu_byte_def)

lemma load_CYCLES: "sim_load host_env 4 (HOST_CPU_BASE + OFF_CYCLES) s = ucast (cycles (hcpu s))"
proof (rule load4)
  show "unat OFF_CYCLES < 136" by (simp add: OFF_CYCLES_def)
  fix i :: nat assume "i < 4"
  moreover have "word_byte (ucast w :: u32) i = word_byte w i" if "i < 4" for w :: u64
    using that by (intro bit_word_eqI) (auto simp: word_byte_def bit_simps)
  ultimately show "cpu_byte (hcpu s) (unat OFF_CYCLES + i) = word_byte (ucast (cycles (hcpu s)) :: u32) i"
    by (simp add: cpu_byte_def OFF_CYCLES_def)
qed

lemma load_SR: "sim_load host_env 2 (HOST_CPU_BASE + OFF_SR) s = ucast (sr (hcpu s))"
  by (simp add: sim_load_def cpu_ptr OFF_SR_def four host_peek_def cpu_byte_def join_bytes16)

lemma poke_D: "n < 8 \<Longrightarrow> i < 4 \<Longrightarrow> cpu_poke (4 * n + i) b c = c\<lparr>dreg := (dreg c)(n := put_byte i b (dreg c n))\<rparr>"
  by (simp add: cpu_poke_def word_div)

lemma poke_A: "n < 8 \<Longrightarrow> i < 4 \<Longrightarrow> cpu_poke (32 + 4 * n + i) b c = c\<lparr>areg := (areg c)(n := put_byte i b (areg c n))\<rparr>"
  by (simp add: cpu_poke_def word_div)

lemma store_D: "n < 8 \<Longrightarrow> sim_store host_env 4 (HOST_CPU_BASE + OFF_D n) x s = upd_hcpu (\<lambda>c. c\<lparr>dreg := (dreg c)(n := x)\<rparr>) s"
proof (rule store4)
  assume n: "n < 8"
  show "unat (OFF_D n) < 136" using n by (simp add: off_bound)
  show "cpu_poke (unat (OFF_D n) + 3) (ucast (drop_bit 24 x)) (cpu_poke (unat (OFF_D n) + 2) (ucast (drop_bit 16 x))
     (cpu_poke (unat (OFF_D n) + 1) (ucast (drop_bit 8 x)) (cpu_poke (unat (OFF_D n)) (ucast x) c))) = c\<lparr>dreg := (dreg c)(n := x)\<rparr>" for c
    using poke_D [OF n, of 0] poke_D [OF n, of 1] poke_D [OF n, of 2] poke_D [OF n, of 3] n put_bytes [of x "dreg c n"]
    by (simp add: off_bound)
qed

lemma store_A: "n < 8 \<Longrightarrow> sim_store host_env 4 (HOST_CPU_BASE + OFF_A n) x s = upd_hcpu (\<lambda>c. c\<lparr>areg := (areg c)(n := x)\<rparr>) s"
proof (rule store4)
  assume n: "n < 8"
  show "unat (OFF_A n) < 136" using n by (simp add: off_bound)
  show "cpu_poke (unat (OFF_A n) + 3) (ucast (drop_bit 24 x)) (cpu_poke (unat (OFF_A n) + 2) (ucast (drop_bit 16 x))
     (cpu_poke (unat (OFF_A n) + 1) (ucast (drop_bit 8 x)) (cpu_poke (unat (OFF_A n)) (ucast x) c))) = c\<lparr>areg := (areg c)(n := x)\<rparr>" for c
    using poke_A [OF n, of 0] poke_A [OF n, of 1] poke_A [OF n, of 2] poke_A [OF n, of 3] n put_bytes [of x "areg c n"]
    by (simp add: off_bound)
qed

lemma store_PC: "sim_store host_env 4 (HOST_CPU_BASE + OFF_PC) x s = upd_hcpu (\<lambda>c. c\<lparr>pc := x\<rparr>) s"
  by (rule store4) (simp_all add: OFF_PC_def cpu_poke_def put_bytes)

lemma store_CYCLES: "sim_store host_env 4 (HOST_CPU_BASE + OFF_CYCLES) x s =
    upd_hcpu (\<lambda>c. c\<lparr>cycles := (cycles c AND NOT (mask 32)) OR ucast x\<rparr>) s"
  by (rule store4) (simp_all add: OFF_CYCLES_def put_bytes64 [symmetric] cpu_poke_def)

lemma store_SR: "sim_store host_env 2 (HOST_CPU_BASE + OFF_SR) x s = upd_hcpu (\<lambda>c. c\<lparr>sr := ucast x\<rparr>) s"
  by (simp add: sim_store_def cpu_ptr OFF_SR_def four host_poke_def upd_hcpu_def cpu_poke_def put_bytes16)


subsection \<open>The probe for the fast path to memory\<close>






end
