(* ===== verification/Codegen.thy ===== *)
theory Codegen
  imports HostSimCorrect Decode CodeCache
begin

text \<open>
  jit/codegen.c: the block compiler. Here are its state during a compilation, the emitters for instructions that work on
  registers, and the bridge to the interpreter for all others. A call \<open>xt_and(e, 11, 8, 9)\<close> of the source is \<open>put (I_and 11 8 9)\<close> here: it goes to the encoder of
  Xtensa, and it is also noted in \<open>cg_code\<close>, the instructions emitted so far.
\<close>

subsection \<open>State of a compilation\<close>

text \<open>Xtensa registers with a fixed use in a block.\<close>

definition R_ARG :: u8 where "R_ARG = 2"
definition R_CPU :: u8 where "R_CPU = 3"
definition R_CACHE0 :: u8 where "R_CACHE0 = 4"
definition R_HELP :: u8 where "R_HELP = 13"
definition R_SR :: u8 where "R_SR = 14"

definition G_D :: "nat \<Rightarrow> nat" where "G_D n = n mod 8"
definition G_A :: "nat \<Rightarrow> nat" where "G_A n = 8 + n mod 8"

text \<open>\<open>rc_xt\<close> is None where the source has -1.\<close>

record regcache =
  rc_xt :: "nat \<Rightarrow> u8 option"
  rc_guest :: "nat \<Rightarrow> nat"
  rc_active :: nat
  rc_dirty :: u16

text \<open>The buffer and the register cache of a block, and the static variables of the file. \<open>cg_mach\<close> is the machine
  whose memory is read while compiling.\<close>

record cg =
  cg_e :: xt_emit
  cg_code :: "xt_insn list"
  cg_rc :: regcache
  cg_mach :: machine
  g_helper_touched_mask :: u16
  g_helper_sr_mask :: u8
  g_helper_arg_mask :: u8
  g_helper_terminal_no_fastpath :: bool
  g_pc_acc :: int
  g_cyc_acc :: int
  g_sr_dirty :: bool
  g_block_emitted_callx0 :: bool
  g_sext_src_reg :: int
  g_sext_valid :: bool
  g_pc_lit_valid :: bool
  g_pc_lit_val :: u32
  g_pc_lit_off :: u32
  g_pc_lit_entry_off :: u32

definition put :: "xt_insn \<Rightarrow> cg \<Rightarrow> cg" where
  "put i g = g\<lparr>cg_e := snd (emit_insn i (cg_e g)), cg_code := cg_code g @ [i]\<rparr>"

definition puts :: "xt_insn list \<Rightarrow> cg \<Rightarrow> cg" where "puts is = fold put is"

definition align_up_4 :: "u32 \<Rightarrow> u32" where "align_up_4 v = (v + 3) AND NOT 3"

definition emit_l32r_at :: "u8 \<Rightarrow> u32 \<Rightarrow> u32 \<Rightarrow> cg \<Rightarrow> cg" where
  "emit_l32r_at at lit_off pc_off =
     (let pc_aligned = (pc_off + 3) AND NOT 3; dist = pc_aligned - lit_off in put (I_l32r at (0x10000 - drop_bit 2 dist)))"

subsection \<open>The register cache\<close>

definition cache_xt_slot :: "nat \<Rightarrow> u8" where "cache_xt_slot slot = R_CACHE0 + of_nat slot"

definition cache_lookup :: "regcache \<Rightarrow> nat \<Rightarrow> u8 option" where "cache_lookup rc gi = rc_xt rc gi"

text \<open>The offset of a guest register in the register file.\<close>

definition g_off :: "nat \<Rightarrow> u32" where "g_off gi = (if gi < 8 then OFF_D gi else OFF_A (gi - 8))"

definition emit_read_g :: "nat \<Rightarrow> u8 \<Rightarrow> cg \<Rightarrow> cg" where
  "emit_read_g gi dst g =
     (case cache_lookup (cg_rc g) gi of
        Some xr \<Rightarrow> if xr \<noteq> dst then put (I_mov dst xr) g else g
      | None \<Rightarrow> put (I_l32i dst R_CPU (g_off gi)) g)"

definition emit_read_g_in :: "nat \<Rightarrow> u8 \<Rightarrow> cg \<Rightarrow> u8 \<times> cg" where
  "emit_read_g_in gi scratch g =
     (case cache_lookup (cg_rc g) gi of
        Some xr \<Rightarrow> (xr, g)
      | None \<Rightarrow> (scratch, put (I_l32i scratch R_CPU (g_off gi)) g))"

text \<open>The loop that marks the slot of a guest register dirty.\<close>

definition mark_slot :: "nat \<Rightarrow> regcache \<Rightarrow> regcache" where
  "mark_slot gi rc =
     (case find (\<lambda>i. rc_guest rc i = gi) [0..<rc_active rc] of
        None \<Rightarrow> rc
      | Some i \<Rightarrow> rc\<lparr>rc_dirty := rc_dirty rc OR push_bit i 1\<rparr>)"

definition mark_dirty :: "nat \<Rightarrow> cg \<Rightarrow> cg" where
  "mark_dirty gi g = g\<lparr>cg_rc := mark_slot gi (cg_rc g)\<rparr>"

definition emit_write_g :: "nat \<Rightarrow> u8 \<Rightarrow> cg \<Rightarrow> cg" where
  "emit_write_g gi src g =
     (case cache_lookup (cg_rc g) gi of
        Some xr \<Rightarrow> mark_dirty gi (if xr \<noteq> src then put (I_mov xr src) g else g)
      | None \<Rightarrow> put (I_s32i src R_CPU (g_off gi)) g)"

definition emit_cache_flush :: "cg \<Rightarrow> cg" where
  "emit_cache_flush g =
     (let rc = cg_rc g;
          g = fold (\<lambda>i g. if bit (rc_dirty rc) i then put (I_s32i (cache_xt_slot i) R_CPU (g_off (rc_guest rc i))) g else g)
                [0..<rc_active rc] g
      in g\<lparr>cg_rc := (cg_rc g)\<lparr>rc_dirty := 0\<rparr>\<rparr>)"

definition emit_cache_reload :: "cg \<Rightarrow> cg" where
  "emit_cache_reload g =
     (let rc = cg_rc g;
          g = fold (\<lambda>i g. if bit (g_helper_touched_mask g) (rc_guest rc i)
                          then put (I_l32i (cache_xt_slot i) R_CPU (g_off (rc_guest rc i))) g else g)
                [0..<rc_active rc] g
      in g\<lparr>cg_rc := (cg_rc g)\<lparr>rc_dirty := 0\<rparr>\<rparr>)"

subsection \<open>Constants, deferred program counter and cycles, status register\<close>

definition emit_load_imm32 :: "u8 \<Rightarrow> u8 \<Rightarrow> u32 \<Rightarrow> cg \<Rightarrow> cg" where
  "emit_load_imm32 dst tmp val g =
     fold (\<lambda>sh. puts [I_slli dst dst 8, I_movi tmp (uint (drop_bit sh val AND 0xFF)), I_or dst dst tmp])
       [16, 8, 0] (put (I_movi dst (uint (drop_bit 24 val AND 0xFF))) g)"

definition emit_load_imm :: "u8 \<Rightarrow> u8 \<Rightarrow> u32 \<Rightarrow> cg \<Rightarrow> cg" where
  "emit_load_imm dst tmp val g =
     (let sv = sint val in if sv \<ge> -2048 \<and> sv \<le> 2047 then put (I_movi dst sv) g else emit_load_imm32 dst tmp val g)"

text \<open>Add a constant to \<open>dst\<close>, by way of \<open>tmp\<close> when it has no short form.\<close>

definition add_const :: "u8 \<Rightarrow> u8 \<Rightarrow> u8 \<Rightarrow> int \<Rightarrow> cg \<Rightarrow> cg" where
  "add_const dst tmp tmp2 k g =
     (if k \<ge> -128 \<and> k \<le> 127 then put (I_addi dst dst k) g
      else put (I_add dst dst tmp) (emit_load_imm tmp tmp2 (word_of_int k) g))"

definition emit_advance_flush :: "cg \<Rightarrow> cg" where
  "emit_advance_flush g =
     (let g = (if g_pc_acc g \<noteq> 0 then
                 (put (I_s32i 8 R_CPU OFF_PC) (add_const 8 9 10 (g_pc_acc g) (put (I_l32i 8 R_CPU OFF_PC) g)))\<lparr>g_pc_acc := 0\<rparr>
               else g)
      in if g_cyc_acc g \<noteq> 0 then
           (put (I_s32i 8 R_CPU OFF_CYCLES)
             (add_const 8 9 10 (g_cyc_acc g) (put (I_l32i 8 R_CPU OFF_CYCLES) g)))\<lparr>g_cyc_acc := 0\<rparr>
         else g)"

definition emit_advance :: "int \<Rightarrow> int \<Rightarrow> cg \<Rightarrow> cg" where
  "emit_advance pc_delta cyc g = g\<lparr>g_pc_acc := g_pc_acc g + pc_delta, g_cyc_acc := g_cyc_acc g + cyc\<rparr>"

definition sext_memo_invalidate :: "cg \<Rightarrow> cg" where "sext_memo_invalidate g = g\<lparr>g_sext_valid := False\<rparr>"

definition emit_sr_flush :: "cg \<Rightarrow> cg" where
  "emit_sr_flush g = (if g_sr_dirty g then (put (I_s16i R_SR R_CPU OFF_SR) g)\<lparr>g_sr_dirty := False\<rparr> else g)"

definition emit_sr_reload :: "cg \<Rightarrow> cg" where
  "emit_sr_reload g = (put (I_l16ui R_SR R_CPU OFF_SR) g)\<lparr>g_sr_dirty := False\<rparr>"

text \<open>The bridge to \<open>m68k_step\<close>.\<close>

definition emit_helper_step :: "u32 \<Rightarrow> u32 \<Rightarrow> bool \<Rightarrow> cg \<Rightarrow> cg" where
  "emit_helper_step helper_lit_off entry_off is_last_op g =
     (let g = g\<lparr>g_block_emitted_callx0 := True\<rparr>;
          g = emit_sr_flush (emit_cache_flush (emit_advance_flush g));
          g = put (I_mov R_ARG R_CPU) g;
          g = emit_l32r_at R_HELP helper_lit_off (entry_off + xe_len (cg_e g)) g;
          g = put (I_callx0 R_HELP) g;
          g = (if \<not> is_last_op then emit_cache_reload (emit_sr_reload g) else g)
      in sext_memo_invalidate g)"

subsection \<open>Condition codes\<close>

definition emit_logic_flags :: "u8 \<Rightarrow> cg \<Rightarrow> cg" where
  "emit_logic_flags vreg g =
     (let (vreg, g) = (if vreg = 10 \<or> vreg = 11 then (9, put (I_mov 9 vreg) g) else (vreg, g));
          g = puts [I_movi 10 (-16), I_and R_SR R_SR 10, I_extui 11 vreg 31 0, I_slli 11 11 3, I_or R_SR R_SR 11,
                    I_movi 11 0x04, I_bnez vreg 6, I_or R_SR R_SR 11] g
      in sext_memo_invalidate (g\<lparr>g_sr_dirty := True\<rparr>))"

definition emit_logic_flags_const :: "u32 \<Rightarrow> cg \<Rightarrow> cg" where
  "emit_logic_flags_const val g =
     (let n = (val AND 0x80000000 \<noteq> 0); z = (val = 0);
          ccr_bits = (if n then 0x08 else 0) OR (if z then 0x04 else 0) :: u32;
          g = puts [I_movi 10 (-16), I_and R_SR R_SR 10] g;
          g = (if ccr_bits \<noteq> 0 then puts [I_movi 10 (uint ccr_bits), I_or R_SR R_SR 10] g else g)
      in sext_memo_invalidate (g\<lparr>g_sr_dirty := True\<rparr>))"

definition CCR_MASK_ALL :: u8 where "CCR_MASK_ALL = 0x1F"

text \<open>The first instructions compute the carry or borrow into a11, the next the overflow into a12.\<close>

definition carry_insns :: "bool \<Rightarrow> u8 \<Rightarrow> u8 \<Rightarrow> u8 \<Rightarrow> xt_insn list" where
  "carry_insns is_sub s d r =
     (if \<not> is_sub then [I_and 11 s d, I_or 12 s d, I_movi 13 (-1), I_xor 13 r 13]
      else [I_movi 13 (-1), I_xor 13 d 13, I_and 11 13 s, I_or 12 13 s, I_mov 13 r])
     @ [I_and 12 12 13, I_or 11 11 12, I_extui 11 11 31 1]"

definition overflow_insns :: "bool \<Rightarrow> u8 \<Rightarrow> u8 \<Rightarrow> u8 \<Rightarrow> xt_insn list" where
  "overflow_insns is_sub s d r =
     [if \<not> is_sub then I_xor 12 s r else I_xor 12 s d, I_xor 13 d r, I_and 12 12 13, I_extui 12 12 31 1]"

text \<open>The mask always includes N, Z, V and C, so that only the branch for the full mask is ever taken.\<close>

definition emit_addsub_flags_long_masked :: "bool \<Rightarrow> bool \<Rightarrow> u8 \<Rightarrow> u8 \<Rightarrow> u8 \<Rightarrow> u8 \<Rightarrow> cg \<Rightarrow> cg" where
  "emit_addsub_flags_long_masked is_sub keep_x s d r cc_mask g =
     (let g = puts (carry_insns is_sub s d r @ overflow_insns is_sub s d r
                @ [I_extui 13 r 31 1, I_slli 12 12 1, I_or 8 11 12, I_slli 13 13 3, I_or 8 8 13]
                @ (if \<not> keep_x then [I_slli 9 11 4, I_or 8 8 9] else [])
                @ [I_movi 9 0x04, I_bnez r 6, I_or 8 8 9, I_movi 12 (if keep_x then -16 else -32),
                   I_and R_SR R_SR 12, I_or R_SR R_SR 8]) g
      in g\<lparr>g_sr_dirty := True\<rparr>)"

definition emit_addsub_flags_long_ex :: "bool \<Rightarrow> bool \<Rightarrow> u8 \<Rightarrow> u8 \<Rightarrow> u8 \<Rightarrow> cg \<Rightarrow> cg" where
  "emit_addsub_flags_long_ex is_sub keep_x s d r =
     emit_addsub_flags_long_masked is_sub keep_x s d r (if keep_x then CCR_MASK_ALL AND NOT 0x10 else CCR_MASK_ALL)"

definition emit_addsub_flags_long :: "bool \<Rightarrow> bool \<Rightarrow> cg \<Rightarrow> cg" where
  "emit_addsub_flags_long is_sub keep_x = emit_addsub_flags_long_ex is_sub keep_x 8 9 10"

subsection \<open>Moves\<close>

text \<open>The register an emitter computes the new value of a guest register in: its slot, or a scratch register.\<close>

definition dst_of :: "nat \<Rightarrow> u8 \<Rightarrow> cg \<Rightarrow> u8" where
  "dst_of gi scratch g = (case cache_lookup (cg_rc g) gi of Some xr \<Rightarrow> xr | None \<Rightarrow> scratch)"

text \<open>The value is in that register now: the slot becomes dirty, or the scratch register is stored.\<close>

definition commit_g :: "nat \<Rightarrow> u8 \<Rightarrow> cg \<Rightarrow> cg" where
  "commit_g gi scratch g =
     (if cache_lookup (cg_rc g) gi \<noteq> None then mark_dirty gi g else put (I_s32i scratch R_CPU (g_off gi)) g)"

definition emit_moveq :: "u16 \<Rightarrow> bool \<Rightarrow> cg \<Rightarrow> cg" where
  "emit_moveq op skip_flags g =
     (let dn = opf op 9 7; imm = sint (ucast (op AND 0xFF) :: u8); dst = dst_of (G_D dn) 8 g;
          g = commit_g (G_D dn) 8 (put (I_movi dst imm) g);
          g = (if \<not> skip_flags then emit_logic_flags_const (word_of_int imm) g else g)
      in emit_advance 2 4 g)"

definition emit_move_l_imm_dn :: "nat \<Rightarrow> u32 \<Rightarrow> bool \<Rightarrow> cg \<Rightarrow> cg" where
  "emit_move_l_imm_dn dn imm skip_flags g =
     (let g = commit_g (G_D dn) 8 (emit_load_imm (dst_of (G_D dn) 8 g) 10 imm g);
          g = (if \<not> skip_flags then emit_logic_flags_const imm g else g)
      in emit_advance 6 8 g)"

definition emit_movea_l_imm :: "nat \<Rightarrow> u32 \<Rightarrow> cg \<Rightarrow> cg" where
  "emit_movea_l_imm an imm g = emit_advance 6 8 (commit_g (G_A an) 8 (emit_load_imm (dst_of (G_A an) 8 g) 10 imm g))"

text \<open>MOVE.L from a register to Dn; the arm for an address register repeats the code of \<open>emit_move_l_dd\<close>.\<close>

definition move_l_reg :: "nat \<Rightarrow> nat \<Rightarrow> bool \<Rightarrow> cg \<Rightarrow> cg" where
  "move_l_reg dn g_src skip_flags g =
     (let dst = dst_of (G_D dn) 8 g;
          g = commit_g (G_D dn) 8 (emit_read_g g_src dst g);
          g = (if \<not> skip_flags then emit_logic_flags dst g else g)
      in emit_advance 2 8 g)"

definition emit_move_l_dd :: "nat \<Rightarrow> nat \<Rightarrow> bool \<Rightarrow> cg \<Rightarrow> cg" where
  "emit_move_l_dd dn dm = move_l_reg dn (G_D dm)"

definition g_reg :: "bool \<Rightarrow> nat \<Rightarrow> nat" where "g_reg is_an n = (if is_an then G_A n else G_D n)"

definition emit_movea_l_reg :: "nat \<Rightarrow> nat \<Rightarrow> bool \<Rightarrow> cg \<Rightarrow> cg" where
  "emit_movea_l_reg an src src_is_an g =
     (let g_src = g_reg src_is_an src; g_dst = G_A an;
          g = (case cache_lookup (cg_rc g) g_dst of
                 Some xt_dst \<Rightarrow>
                   (case cache_lookup (cg_rc g) g_src of
                      Some xt_src \<Rightarrow> mark_dirty g_dst (if xt_src \<noteq> xt_dst then put (I_mov xt_dst xt_src) g else g)
                    | None \<Rightarrow> mark_dirty g_dst (put (I_l32i xt_dst R_CPU (g_off g_src)) g))
               | None \<Rightarrow> put (I_s32i 8 R_CPU (g_off g_dst)) (emit_read_g g_src 8 g))
      in emit_advance 2 8 g)"

text \<open>Put the sign-extended low word of a guest register into a13, unless it is there.\<close>

definition sext_to_a13 :: "nat \<Rightarrow> cg \<Rightarrow> cg" where
  "sext_to_a13 gi g =
     (if \<not> g_sext_valid g \<or> g_sext_src_reg g \<noteq> int gi
      then (puts [I_slli 13 13 16, I_srai 13 13 16] (emit_read_g gi 13 g))\<lparr>g_sext_src_reg := int gi, g_sext_valid := True\<rparr>
      else g)"

definition emit_lea_adda_fused :: "nat \<Rightarrow> nat \<Rightarrow> nat \<Rightarrow> bool \<Rightarrow> int \<Rightarrow> cg \<Rightarrow> cg" where
  "emit_lea_adda_fused dst_am lea_an idx_reg idx_is_an d8 g =
     (let g = sext_to_a13 (g_reg idx_is_an idx_reg) g;
          (src_reg, g) = emit_read_g_in (G_A lea_an) 8 g;
          dst = dst_of (G_A dst_am) 9 g;
          g = put (I_addx2 dst 13 src_reg) g;
          g = (if d8 \<noteq> 0 then put (I_addi dst dst d8) g else g)
      in emit_advance 6 20 (commit_g (G_A dst_am) 9 g))"

definition emit_movea_adda_fused :: "nat \<Rightarrow> nat \<Rightarrow> bool \<Rightarrow> nat \<Rightarrow> bool \<Rightarrow> bool \<Rightarrow> cg \<Rightarrow> cg" where
  "emit_movea_adda_fused an movea_src movea_src_is_an adda_src adda_src_is_an triple g =
     (let g_dst = G_A an;
          g = sext_to_a13 (g_reg adda_src_is_an adda_src) g;
          (src_reg, g) = emit_read_g_in (g_reg movea_src_is_an movea_src) 8 g;
          dst = dst_of g_dst 9 g;
          g = put (if triple then I_addx2 dst 13 src_reg else I_add dst src_reg 13) g;
          g = commit_g g_dst 9 g
      in if triple then emit_advance 6 32 g else emit_advance 4 20 g)"

definition emit_adda_w_imm :: "nat \<Rightarrow> u16 \<Rightarrow> bool \<Rightarrow> cg \<Rightarrow> cg" where
  "emit_adda_w_imm an imm is_sub g =
     (let sext = (if is_sub then - sint imm else sint imm);
          g = (case cache_lookup (cg_rc g) (G_A an) of
                 Some dst \<Rightarrow> mark_dirty (G_A an) (add_const dst 9 10 sext g)
               | None \<Rightarrow> put (I_s32i 8 R_CPU (g_off (G_A an))) (add_const 8 9 10 sext (put (I_l32i 8 R_CPU (g_off (G_A an))) g)))
      in emit_advance 4 12 g)"

definition emit_adda_w_reg :: "nat \<Rightarrow> nat \<Rightarrow> bool \<Rightarrow> cg \<Rightarrow> cg" where
  "emit_adda_w_reg an src src_is_an g =
     (let g_dst = G_A an; g = sext_to_a13 (g_reg src_is_an src) g;
          g = (case cache_lookup (cg_rc g) g_dst of
                 Some dst \<Rightarrow> mark_dirty g_dst (put (I_add dst dst 13) g)
               | None \<Rightarrow> puts [I_l32i 9 R_CPU (g_off g_dst), I_add 9 9 13, I_s32i 9 R_CPU (g_off g_dst)] g)
      in emit_advance 2 12 g)"

text \<open>ADDA.L and SUBA.L from a register.\<close>

definition emit_adda_l :: "bool \<Rightarrow> nat \<Rightarrow> nat \<Rightarrow> bool \<Rightarrow> cg \<Rightarrow> cg" where
  "emit_adda_l is_sub an src src_is_an g =
     (let g_src = g_reg src_is_an src; g_dst = G_A an; op = (if is_sub then I_sub else I_add);
          g = (case cache_lookup (cg_rc g) g_dst of
                 Some dst \<Rightarrow> (let (src_xt, g) = emit_read_g_in g_src 8 g in mark_dirty g_dst (put (op dst dst src_xt) g))
               | None \<Rightarrow> puts [op 10 9 8, I_s32i 10 R_CPU (g_off g_dst)] (emit_read_g g_dst 9 (emit_read_g g_src 8 g)))
      in emit_advance 2 12 g)"

definition emit_lea :: "nat \<Rightarrow> nat \<Rightarrow> nat \<Rightarrow> u16 \<Rightarrow> u32 \<Rightarrow> cg \<Rightarrow> cg" where
  "emit_lea an srcmode srcreg ext ext32 g =
     (let (len, g) =
        (if srcmode = 2 then (2, emit_read_g (G_A srcreg) 8 g)
         else if srcmode = 5 then (4, add_const 8 9 10 (sint ext) (emit_read_g (G_A srcreg) 8 g))
         else if srcmode = 6 then
           (let ireg = opf ext 12 7; g = emit_read_g (G_A srcreg) 8 g; g_index = g_reg (ext AND 0x8000 \<noteq> 0) ireg;
                g = (if ext AND 0x0800 = 0 then put (I_add 8 8 13) (sext_to_a13 g_index g)
                     else put (I_add 8 8 9) (emit_read_g g_index 9 g))
            in (4, put (I_addi 8 8 (sint (ucast (ext AND 0xFF) :: u8))) g))
         else if srcmode = 7 \<and> srcreg = 0 then (4, emit_load_imm 8 9 (scast ext) g)
         else (6, emit_load_imm 8 9 ext32 g))
      in emit_advance len 8 (emit_write_g (G_A an) 8 g))"

text \<open>The low word of a register becomes that of another one or a constant.\<close>

definition emit_move_w_dd :: "nat \<Rightarrow> nat \<Rightarrow> bool \<Rightarrow> cg \<Rightarrow> cg" where
  "emit_move_w_dd dn dm dead g =
     (if dead then
        (let (src_reg, g) = emit_read_g_in (G_D dm) 9 g;
             g = (case cache_lookup (cg_rc g) (G_D dn) of
                    Some d \<Rightarrow> mark_dirty (G_D dn) (puts [I_extui 12 src_reg 0 15, I_extui 11 d 16 15, I_slli 11 11 16, I_or d 11 12] g)
                  | None \<Rightarrow> puts [I_l32i 11 R_CPU (g_off (G_D dn)), I_extui 12 src_reg 0 15, I_extui 11 11 16 15, I_slli 11 11 16,
                                I_or 11 11 12, I_s32i 11 R_CPU (g_off (G_D dn))] g)
         in emit_advance 2 8 g)
      else
        (let g = emit_read_g (G_D dn) 11 (emit_read_g (G_D dm) 9 g);
             g = puts [I_srli 11 11 16, I_slli 11 11 16, I_extui 12 9 0 15, I_or 11 11 12] g;
             g = put (I_slli 8 9 16) (emit_write_g (G_D dn) 11 g)
         in emit_advance 2 8 (emit_logic_flags 8 g)))"

definition emit_move_w_imm :: "nat \<Rightarrow> u16 \<Rightarrow> bool \<Rightarrow> cg \<Rightarrow> cg" where
  "emit_move_w_imm dn imm dead g =
     (let g = puts [I_srli 11 11 16, I_slli 11 11 16] (emit_read_g (G_D dn) 11 g);
          g = emit_write_g (G_D dn) 11 (put (I_or 11 11 10) (emit_load_imm 10 12 (ucast imm) g));
          g = (if \<not> dead then emit_logic_flags_const (push_bit 16 (ucast imm)) g else g)
      in emit_advance 4 8 g)"

definition emit_move_w_an_dn :: "nat \<Rightarrow> nat \<Rightarrow> bool \<Rightarrow> cg \<Rightarrow> cg" where
  "emit_move_w_an_dn dn am dead g =
     (let g = put (I_extui 9 8 0 15) (emit_read_g (G_A am) 8 g);
          dn_xt = cache_lookup (cg_rc g) (G_D dn); dn_reg = dst_of (G_D dn) 10 g;
          g = (if dn_xt = None then emit_read_g (G_D dn) 10 g else g);
          g = puts [I_srli dn_reg dn_reg 16, I_slli dn_reg dn_reg 16, I_or dn_reg dn_reg 9] g;
          g = (if dn_xt \<noteq> None then mark_dirty (G_D dn) g else emit_write_g (G_D dn) 10 g);
          g = (if \<not> dead then emit_logic_flags 8 (put (I_slli 8 9 16) g) else g)
      in emit_advance 2 8 g)"

definition emit_move_b_dd :: "nat \<Rightarrow> nat \<Rightarrow> bool \<Rightarrow> cg \<Rightarrow> cg" where
  "emit_move_b_dd dn dm dead g =
     (let (src_reg, g) = emit_read_g_in (G_D dm) 8 g;
          dst_xt = cache_lookup (cg_rc g) (G_D dn); dst_slot = dst_of (G_D dn) 9 g;
          g = (if dst_xt = None then emit_read_g (G_D dn) 9 g else g);
          g = puts [I_extui 12 src_reg 0 7, I_srli 11 dst_slot 8, I_slli 11 11 8, I_or dst_slot 11 12] g;
          g = (if dst_xt \<noteq> None then mark_dirty (G_D dn) g else emit_write_g (G_D dn) 9 g);
          g = (if \<not> dead then emit_logic_flags 8 (put (I_slli 8 12 24) g) else g)
      in emit_advance 2 8 g)"

definition emit_movea_w_dn :: "nat \<Rightarrow> nat \<Rightarrow> cg \<Rightarrow> cg" where
  "emit_movea_w_dn an dn g =
     emit_advance 2 8 (emit_write_g (G_A an) 9 (puts [I_slli 9 8 16, I_srai 9 9 16] (emit_read_g (G_D dn) 8 g)))"

subsection \<open>Arithmetic and logic\<close>

definition emit_addsub_l_dd :: "bool \<Rightarrow> nat \<Rightarrow> nat \<Rightarrow> bool \<Rightarrow> bool \<Rightarrow> cg \<Rightarrow> cg" where
  "emit_addsub_l_dd is_sub dn dm src_is_an skip_flags g =
     (let g_src = g_reg src_is_an dm; op = (if is_sub then I_sub else I_add) in
      case (cache_lookup (cg_rc g) g_src, cache_lookup (cg_rc g) (G_D dn), src_is_an \<or> dn \<noteq> dm) of
        (Some dm_reg, Some dn_reg, True) \<Rightarrow>
          (let g = (if \<not> skip_flags then put (I_mov 9 dn_reg) g else g);
               g = mark_dirty (G_D dn) (put (op dn_reg dn_reg dm_reg) g);
               g = (if \<not> skip_flags then emit_addsub_flags_long_ex is_sub False dm_reg 9 dn_reg g else g)
           in emit_advance 2 8 g)
      | _ \<Rightarrow>
          (let g = emit_read_g (G_D dn) 9 (emit_read_g g_src 8 g);
               g = put (if is_sub then I_sub 10 9 8 else I_add 10 8 9) g;
               g = emit_write_g (G_D dn) 10 g;
               g = (if \<not> skip_flags then emit_addsub_flags_long is_sub False g else g)
           in emit_advance 2 8 g))"

definition emit_add_l_dd :: "nat \<Rightarrow> nat \<Rightarrow> bool \<Rightarrow> bool \<Rightarrow> cg \<Rightarrow> cg" where "emit_add_l_dd = emit_addsub_l_dd False"

definition emit_sub_l_dd :: "nat \<Rightarrow> nat \<Rightarrow> bool \<Rightarrow> bool \<Rightarrow> cg \<Rightarrow> cg" where "emit_sub_l_dd = emit_addsub_l_dd True"

definition emit_add_l_imm :: "nat \<Rightarrow> u32 \<Rightarrow> bool \<Rightarrow> cg \<Rightarrow> cg" where
  "emit_add_l_imm dn imm dead g =
     (let g = emit_read_g (G_D dn) 9 (emit_load_imm 8 11 imm g);
          g = emit_write_g (G_D dn) 10 (put (I_add 10 8 9) g);
          g = (if \<not> dead then emit_addsub_flags_long False False g else g)
      in emit_advance 6 8 g)"

definition emit_addx_l :: "bool \<Rightarrow> nat \<Rightarrow> nat \<Rightarrow> bool \<Rightarrow> cg \<Rightarrow> cg" where
  "emit_addx_l is_sub d s dead g =
     (let g = put (I_extui 12 R_SR 4 0) (emit_read_g (G_D d) 9 (emit_read_g (G_D s) 8 g));
          g = puts (if is_sub then [I_sub 10 9 8, I_sub 10 10 12] else [I_add 10 8 9, I_add 10 10 12]) g;
          g = emit_write_g (G_D d) 10 g;
          g = (if \<not> dead then
                 (let g = emit_addsub_flags_long_masked is_sub False 8 9 10 0xB g;
                      g = puts [I_movi 12 (-5), I_beqz 10 6, I_and R_SR R_SR 12] g
                  in sext_memo_invalidate (g\<lparr>g_sr_dirty := True\<rparr>)) else g)
      in emit_advance 2 12 g)"

definition emit_addq_l_dd :: "nat \<Rightarrow> nat \<Rightarrow> bool \<Rightarrow> bool \<Rightarrow> cg \<Rightarrow> cg" where
  "emit_addq_l_dd dn imm is_sub skip_flags g =
     (let g = emit_read_g (G_D dn) 9 (put (I_movi 8 (int imm)) g);
          g = put (if is_sub then I_sub 10 9 8 else I_add 10 8 9) g;
          g = emit_write_g (G_D dn) 10 g;
          g = (if \<not> skip_flags then emit_addsub_flags_long is_sub False g else g)
      in emit_advance 2 8 g)"

definition emit_addq_an :: "nat \<Rightarrow> int \<Rightarrow> cg \<Rightarrow> cg" where
  "emit_addq_an an delta g =
     emit_advance 2 8
       (case cache_lookup (cg_rc g) (G_A an) of
          Some dst \<Rightarrow> mark_dirty (G_A an) (put (I_addi dst dst delta) g)
        | None \<Rightarrow> puts [I_l32i 8 R_CPU (g_off (G_A an)), I_addi 8 8 delta, I_s32i 8 R_CPU (g_off (G_A an))] g)"

definition emit_addq_w_dn :: "nat \<Rightarrow> nat \<Rightarrow> bool \<Rightarrow> bool \<Rightarrow> cg \<Rightarrow> cg" where
  "emit_addq_w_dn dn imm is_sub skip_flags g =
     (if skip_flags then
        (let (src_reg, g) = emit_read_g_in (G_D dn) 8 g; dst_reg = dst_of (G_D dn) 8 g;
             g = puts [I_extui 9 src_reg 0 15, I_addi 9 9 (if is_sub then - int imm else int imm), I_extui 9 9 0 15,
                       I_extui 10 src_reg 16 15, I_slli 10 10 16, I_or dst_reg 10 9] g
         in emit_advance 2 8 (commit_g (G_D dn) dst_reg g))
      else
        (let g = puts [I_slli 9 11 16, I_movi 8 (int imm), I_slli 8 8 16, if is_sub then I_sub 10 9 8 else I_add 10 9 8,
                       I_srli 11 11 16, I_slli 11 11 16, I_extui 12 10 16 15, I_or 11 11 12] (emit_read_g (G_D dn) 11 g)
         in emit_advance 2 8 (emit_addsub_flags_long is_sub False (emit_write_g (G_D dn) 11 g))))"

definition emit_addq_b_dn :: "nat \<Rightarrow> nat \<Rightarrow> bool \<Rightarrow> bool \<Rightarrow> cg \<Rightarrow> cg" where
  "emit_addq_b_dn dn imm is_sub skip_flags g =
     (if skip_flags then
        (let (src_reg, g) = emit_read_g_in (G_D dn) 8 g; dst_reg = dst_of (G_D dn) 8 g;
             g = puts [I_extui 9 src_reg 0 7, I_addi 9 9 (if is_sub then - int imm else int imm), I_extui 9 9 0 7,
                       I_srli 10 src_reg 8, I_slli 10 10 8, I_or dst_reg 10 9] g
         in emit_advance 2 8 (commit_g (G_D dn) dst_reg g))
      else
        (let g = puts [I_slli 9 11 24, I_movi 8 (int imm), I_slli 8 8 24, if is_sub then I_sub 10 9 8 else I_add 10 9 8,
                       I_srli 12 10 24, I_srli 11 11 8, I_slli 11 11 8, I_or 11 11 12] (emit_read_g (G_D dn) 11 g)
         in emit_advance 2 8 (emit_addsub_flags_long is_sub False (emit_write_g (G_D dn) 11 g))))"

text \<open>ADD and SUB of bytes or words: the operands are moved up to bit 31.\<close>

definition emit_addsub_bw_dd :: "bool \<Rightarrow> nat \<Rightarrow> nat \<Rightarrow> u8 \<Rightarrow> bool \<Rightarrow> cg \<Rightarrow> cg" where
  "emit_addsub_bw_dd is_sub dn dm size_bits dead g =
     (let up = 32 - size_bits;
          g = emit_read_g (G_D dn) 11 (emit_read_g (G_D dm) 8 g);
          g = puts [I_slli 8 8 up, I_slli 9 11 up, if is_sub then I_sub 10 9 8 else I_add 10 9 8,
                    I_srli 11 11 size_bits, I_slli 11 11 size_bits, I_extui 12 10 up (size_bits - 1), I_or 11 11 12] g;
          g = emit_write_g (G_D dn) 11 g;
          g = (if \<not> dead then emit_addsub_flags_long is_sub False g else g)
      in emit_advance 2 8 g)"

definition emit_neg_l :: "nat \<Rightarrow> bool \<Rightarrow> cg \<Rightarrow> cg" where
  "emit_neg_l dn dead g =
     (let g = emit_write_g (G_D dn) 10 (puts [I_movi 9 0, I_sub 10 9 8] (emit_read_g (G_D dn) 8 g));
          g = (if \<not> dead then emit_addsub_flags_long True False g else g)
      in emit_advance 2 8 g)"

definition emit_cmp_w_dd :: "nat \<Rightarrow> nat \<Rightarrow> u8 \<Rightarrow> cg \<Rightarrow> cg" where
  "emit_cmp_w_dd dn dm cc_mask g =
     (let g = puts [I_slli 8 8 16, I_slli 9 9 16, I_sub 10 9 8] (emit_read_g (G_D dn) 9 (emit_read_g (G_D dm) 8 g))
      in emit_advance 2 8 (emit_addsub_flags_long_masked True True 8 9 10 cc_mask g))"

definition emit_cmp_l_dd :: "nat \<Rightarrow> nat \<Rightarrow> u8 \<Rightarrow> cg \<Rightarrow> cg" where
  "emit_cmp_l_dd dn dm cc_mask g =
     (let (dm_reg, g) = emit_read_g_in (G_D dm) 8 g; (dn_reg, g) = emit_read_g_in (G_D dn) 9 g;
          g = put (I_sub 10 dn_reg dm_reg) g
      in emit_advance 2 8 (emit_addsub_flags_long_masked True True dm_reg dn_reg 10 cc_mask g))"

text \<open>\<open>kind\<close> 0 is OR, 1 AND, 2 EOR.\<close>

definition logic_insn :: "nat \<Rightarrow> u8 \<Rightarrow> u8 \<Rightarrow> u8 \<Rightarrow> xt_insn" where
  "logic_insn kind = (if kind = 0 then I_or else if kind = 1 then I_and else I_xor)"

definition emit_logic_l_dd_kind :: "nat \<Rightarrow> nat \<Rightarrow> nat \<Rightarrow> nat \<Rightarrow> bool \<Rightarrow> cg \<Rightarrow> cg" where
  "emit_logic_l_dd_kind ra rb dst kind skip_flags g =
     (let g = put (logic_insn kind 8 8 9) (emit_read_g (G_D rb) 9 (emit_read_g (G_D ra) 8 g));
          g = emit_write_g (G_D dst) 8 g;
          g = (if \<not> skip_flags then emit_logic_flags 8 g else g)
      in emit_advance 2 8 g)"

definition emit_logic_l_dd :: "nat \<Rightarrow> nat \<Rightarrow> nat \<Rightarrow> bool \<Rightarrow> cg \<Rightarrow> cg" where
  "emit_logic_l_dd ra rb dst is_eor = emit_logic_l_dd_kind ra rb dst (if is_eor then 2 else 1) False"

definition emit_logic_bw_dd_kind :: "nat \<Rightarrow> nat \<Rightarrow> nat \<Rightarrow> nat \<Rightarrow> u8 \<Rightarrow> bool \<Rightarrow> cg \<Rightarrow> cg" where
  "emit_logic_bw_dd_kind ra rb dst kind size_bits skip_flags g =
     (let (src_reg, g) = emit_read_g_in (G_D ra) 8 g;
          dst_xt = cache_lookup (cg_rc g) (G_D dst); dst_slot = dst_of (G_D dst) 9 g;
          g = (if dst_xt = None then emit_read_g (G_D dst) 9 g else g);
          g = puts [I_extui 10 src_reg 0 (size_bits - 1), I_extui 11 dst_slot 0 (size_bits - 1), logic_insn kind 10 10 11,
                    I_srli 11 dst_slot size_bits, I_slli 11 11 size_bits, I_or dst_slot 11 10] g;
          g = (if dst_xt \<noteq> None then mark_dirty (G_D dst) g else emit_write_g (G_D dst) 9 g);
          g = (if \<not> skip_flags then emit_logic_flags 8 (put (I_slli 8 10 (32 - size_bits)) g) else g)
      in emit_advance 2 8 g)"

definition emit_immalu_l_dn :: "nat \<Rightarrow> u32 \<Rightarrow> nat \<Rightarrow> cg \<Rightarrow> cg" where
  "emit_immalu_l_dn dn imm kind g =
     (let g = emit_read_g (G_D dn) 9 (emit_load_imm 8 10 imm g);
          g = (if kind = 3 then emit_addsub_flags_long False False (emit_write_g (G_D dn) 10 (put (I_add 10 8 9) g))
               else if kind = 2 then emit_addsub_flags_long True False (emit_write_g (G_D dn) 10 (put (I_sub 10 9 8) g))
               else if kind = 6 then emit_addsub_flags_long True True (put (I_sub 10 9 8) g)
               else emit_logic_flags 8 (emit_write_g (G_D dn) 8 (put (logic_insn kind 8 8 9) g)))
      in emit_advance 6 8 g)"

definition emit_immarith_bw_dn :: "nat \<Rightarrow> u32 \<Rightarrow> nat \<Rightarrow> nat \<Rightarrow> cg \<Rightarrow> cg" where
  "emit_immarith_bw_dn dn imm sz kind g =
     (let sext_imm = (if sz = 1 then sx8 (ucast imm) else sx16 (ucast imm));
          g = emit_read_g (G_D dn) 9 (emit_load_imm 8 10 sext_imm g);
          g = put (if kind = 3 then I_add 12 9 8 else I_sub 12 9 8) g;
          g = (if kind \<noteq> 6 then
                 emit_write_g (G_D dn) 13
                   (puts ((if sz = 1 then [I_movi 11 (-256)] else [I_movi 11 (-1), I_slli 11 11 16])
                      @ [I_and 13 9 11, I_extui 11 12 0 (if sz = 1 then 7 else 15), I_or 13 13 11]) g)
               else g);
          shift = (if sz = 1 then 24 else 16);
          g = puts [I_slli 8 8 shift, I_slli 9 9 shift, I_slli 10 12 shift] g
      in emit_advance 4 8 (emit_addsub_flags_long_ex (kind = 2 \<or> kind = 6) (kind = 6) 8 9 10 g))"

definition emit_immlogic_bw_dn :: "nat \<Rightarrow> u32 \<Rightarrow> nat \<Rightarrow> nat \<Rightarrow> cg \<Rightarrow> cg" where
  "emit_immlogic_bw_dn dn imm sz kind g =
     (let size_mask = (if sz = 1 then 0xFF else 0xFFFF);
          imm_op = (if kind = 1 then (imm AND size_mask) OR NOT size_mask else imm AND size_mask);
          g = emit_read_g (G_D dn) 9 (emit_load_imm 8 10 imm_op g);
          g = emit_write_g (G_D dn) 10 (put (logic_insn kind 10 9 8) g);
          g = put (I_slli 11 10 (if sz = 1 then 24 else 16)) g
      in emit_advance 4 8 (emit_logic_flags 11 g))"

text \<open>TST: the byte or word goes up to bit 31; a longword is read where it is.\<close>

definition emit_tst_bw :: "nat \<Rightarrow> u8 \<Rightarrow> bool \<Rightarrow> cg \<Rightarrow> cg" where
  "emit_tst_bw dn up dead g =
     (let (dn_reg, g) = emit_read_g_in (G_D dn) 9 g;
          g = (if \<not> dead then emit_logic_flags 8 (put (I_slli 8 dn_reg up) g) else g)
      in emit_advance 2 4 g)"

definition emit_tst_l :: "nat \<Rightarrow> bool \<Rightarrow> cg \<Rightarrow> cg" where
  "emit_tst_l dn dead g =
     (let (dn_reg, g) = emit_read_g_in (G_D dn) 9 g; g = (if \<not> dead then emit_logic_flags dn_reg g else g) in emit_advance 2 4 g)"

definition emit_clr :: "nat \<Rightarrow> u8 \<Rightarrow> bool \<Rightarrow> cg \<Rightarrow> cg" where
  "emit_clr dn size_bits dead g =
     (let dn_xt = cache_lookup (cg_rc g) (G_D dn);
          g = (if size_bits = 32 then
                 (case dn_xt of
                    Some xr \<Rightarrow> mark_dirty (G_D dn) (put (I_movi xr 0) g)
                  | None \<Rightarrow> emit_write_g (G_D dn) 8 (put (I_movi 8 0) g))
               else
                 (let reg = dst_of (G_D dn) 8 g;
                      g = (if dn_xt = None then emit_read_g (G_D dn) 8 g else g);
                      g = puts [I_srli 9 reg size_bits, I_slli 9 9 size_bits] g;
                      g = (if reg \<noteq> 9 then put (I_mov reg 9) g else g)
                  in if dn_xt \<noteq> None then mark_dirty (G_D dn) g else emit_write_g (G_D dn) 9 g));
          g = (if \<not> dead then
                 sext_memo_invalidate
                   ((puts [I_movi 12 (-16), I_and R_SR R_SR 12, I_movi 12 0x04, I_or R_SR R_SR 12] g)\<lparr>g_sr_dirty := True\<rparr>)
               else g)
      in emit_advance 2 8 g)"

definition emit_not :: "nat \<Rightarrow> u8 \<Rightarrow> bool \<Rightarrow> cg \<Rightarrow> cg" where
  "emit_not dn size_bits dead g =
     (let dn_xt = cache_lookup (cg_rc g) (G_D dn); reg = dst_of (G_D dn) 8 g;
          g = (if dn_xt = None then emit_read_g (G_D dn) 8 g else g);
          g = (if size_bits = 32 then puts [I_movi 9 (-1), I_xor reg reg 9] g
               else puts [I_extui 9 reg 0 (size_bits - 1), I_movi 10 (-1), I_xor 9 9 10, I_extui 9 9 0 (size_bits - 1),
                          I_srli 10 reg size_bits, I_slli 10 10 size_bits, I_or reg 10 9] g);
          g = (if dn_xt \<noteq> None then mark_dirty (G_D dn) g else emit_write_g (G_D dn) reg g);
          sz_reg = (if size_bits = 32 then reg else 9);
          g = (if \<not> dead then
                 sext_memo_invalidate
                   ((puts [I_movi 12 (-16), I_and R_SR R_SR 12, I_extui 12 sz_reg (size_bits - 1) 0, I_slli 12 12 3, I_or R_SR R_SR 12,
                           I_movi 12 0x04, I_bnez sz_reg 6, I_or R_SR R_SR 12] g)\<lparr>g_sr_dirty := True\<rparr>)
               else g)
      in emit_advance 2 8 g)"

definition emit_swap :: "nat \<Rightarrow> bool \<Rightarrow> cg \<Rightarrow> cg" where
  "emit_swap dn dead g =
     (let g = puts [I_extui 9 8 16 15, I_slli 10 8 16, I_or 8 10 9] (emit_read_g (G_D dn) 8 g);
          g = emit_write_g (G_D dn) 8 g;
          g = (if \<not> dead then emit_logic_flags 8 g else g)
      in emit_advance 2 4 g)"

definition emit_ext_l :: "nat \<Rightarrow> bool \<Rightarrow> cg \<Rightarrow> cg" where
  "emit_ext_l dn dead g =
     (let dn_xt = cache_lookup (cg_rc g) (G_D dn); reg = dst_of (G_D dn) 8 g;
          g = (if dn_xt = None then emit_read_g (G_D dn) 8 g else g);
          g = puts [I_slli reg reg 16, I_srai reg reg 16] g;
          g = (if dn_xt \<noteq> None then mark_dirty (G_D dn) g else emit_write_g (G_D dn) 8 g);
          g = (if \<not> dead then emit_logic_flags reg g else g)
      in emit_advance 2 4 g)"

definition emit_ext_w :: "nat \<Rightarrow> bool \<Rightarrow> cg \<Rightarrow> cg" where
  "emit_ext_w dn dead g =
     (let dn_xt = cache_lookup (cg_rc g) (G_D dn); reg = dst_of (G_D dn) 8 g;
          g = (if dn_xt = None then emit_read_g (G_D dn) 8 g else g);
          g = puts [I_slli 9 reg 24, I_srai 9 9 24, I_extui 9 9 0 15, I_extui 11 reg 16 15, I_slli 11 11 16, I_or reg 11 9] g;
          g = (if dn_xt \<noteq> None then mark_dirty (G_D dn) g else emit_write_g (G_D dn) 8 g);
          g = (if \<not> dead then emit_logic_flags 8 (put (I_slli 8 9 16) g) else g)
      in emit_advance 2 4 g)"

subsection \<open>Conditions and branches\<close>

definition emit_cond :: "nat \<Rightarrow> cg \<Rightarrow> cg" where
  "emit_cond cc g =
     (let g = sext_memo_invalidate g;
          need_c = (cc = 2 \<or> cc = 3 \<or> cc = 4 \<or> cc = 5);
          need_v = (cc = 8 \<or> cc = 9 \<or> cc = 12 \<or> cc = 13 \<or> cc = 14 \<or> cc = 15);
          need_z = (cc = 2 \<or> cc = 3 \<or> cc = 6 \<or> cc = 7 \<or> cc = 14 \<or> cc = 15);
          need_n = (cc = 10 \<or> cc = 11 \<or> cc = 12 \<or> cc = 13 \<or> cc = 14 \<or> cc = 15);
          g = puts ((if need_c then [I_extui 10 R_SR 0 0] else []) @ (if need_v then [I_extui 11 R_SR 1 0] else [])
                  @ (if need_z then [I_extui 12 R_SR 2 0] else []) @ (if need_n then [I_extui 13 R_SR 3 0] else [])) g
      in puts (if cc = 2 then [I_or 8 10 12, I_movi 9 1, I_xor 8 8 9] else if cc = 3 then [I_or 8 10 12]
               else if cc = 4 then [I_movi 9 1, I_xor 8 10 9] else if cc = 5 then [I_mov 8 10]
               else if cc = 6 then [I_movi 9 1, I_xor 8 12 9] else if cc = 7 then [I_mov 8 12]
               else if cc = 8 then [I_movi 9 1, I_xor 8 11 9] else if cc = 9 then [I_mov 8 11]
               else if cc = 10 then [I_movi 9 1, I_xor 8 13 9] else if cc = 11 then [I_mov 8 13]
               else if cc = 12 then [I_xor 8 13 11, I_movi 9 1, I_xor 8 8 9] else if cc = 13 then [I_xor 8 13 11]
               else if cc = 14 then [I_xor 8 13 11, I_or 8 8 12, I_movi 9 1, I_xor 8 8 9]
               else if cc = 15 then [I_xor 8 13 11, I_or 8 8 12] else [I_movi 8 0]) g)"

text \<open>A constant program counter: from the literal of the block when it is the one stored there.\<close>

definition load_pc_const :: "u8 \<Rightarrow> u8 \<Rightarrow> u32 \<Rightarrow> cg \<Rightarrow> cg" where
  "load_pc_const dst tmp val g =
     (if g_pc_lit_valid g \<and> val = g_pc_lit_val g
      then emit_l32r_at dst (g_pc_lit_off g) (g_pc_lit_entry_off g + xe_len (cg_e g)) g
      else emit_load_imm32 dst tmp val g)"

definition emit_bcc_branchless_tail :: "u32 \<Rightarrow> int \<Rightarrow> int \<Rightarrow> cg \<Rightarrow> cg" where
  "emit_bcc_branchless_tail ft disp base_cyc g =
     (let g = load_pc_const 10 11 ft (puts [I_movi 10 0, I_sub 9 10 8] g);
          g = (if disp \<ge> -128 \<and> disp \<le> 127 then put (I_addi 12 10 disp) g
               else emit_load_imm32 12 11 (ft + word_of_int disp) g);
          g = puts [I_xor 13 10 12, I_and 13 13 9, I_xor 10 10 13, I_s32i 10 R_CPU OFF_PC, I_l32i 11 R_CPU OFF_CYCLES] g;
          g = (if base_cyc \<ge> -128 \<and> base_cyc \<le> 127 then put (I_addi 11 11 base_cyc) g
               else put (I_add 11 11 10) (emit_load_imm 10 12 (word_of_int base_cyc) g))
      in puts [I_addx2 11 8 11, I_s32i 11 R_CPU OFF_CYCLES] g)"

text \<open>BRA: to a constant target.\<close>

definition emit_bra :: "u32 \<Rightarrow> int \<Rightarrow> cg \<Rightarrow> cg" where
  "emit_bra taken extra_cyc g =
     (let g = puts [I_s32i 8 R_CPU OFF_PC, I_l32i 8 R_CPU OFF_CYCLES] (load_pc_const 8 9 taken g)
      in put (I_s32i 8 R_CPU OFF_CYCLES) (add_const 8 9 10 (14 + extra_cyc) g))"

definition emit_branch :: "u32 \<Rightarrow> u16 \<Rightarrow> cg \<Rightarrow> cg" where
  "emit_branch op_pc w g =
     (let cc = opf w 8 0xF; disp = sint (ucast (w AND 0xFF) :: u8); ft = op_pc + 2; taken = op_pc + 2 + word_of_int disp;
          extra_cyc = g_cyc_acc g; g = g\<lparr>g_pc_acc := 0, g_cyc_acc := 0\<rparr>
      in if cc = 0 then emit_bra taken extra_cyc g
         else emit_bcc_branchless_tail ft disp (12 + extra_cyc) (emit_cond cc g))"

definition emit_branch_w :: "u32 \<Rightarrow> u16 \<Rightarrow> u16 \<Rightarrow> cg \<Rightarrow> cg" where
  "emit_branch_w op_pc w ext g =
     (let cc = opf w 8 0xF; disp = sint ext; ft = op_pc + 4; taken = op_pc + 2 + word_of_int disp;
          extra_cyc = g_cyc_acc g; g = g\<lparr>g_pc_acc := 0, g_cyc_acc := 0\<rparr>
      in sext_memo_invalidate
           (if cc = 0 then emit_bra taken extra_cyc g
            else emit_bcc_branchless_tail ft (disp - 2) (12 + extra_cyc) (emit_cond cc g)))"

text \<open>A compare or test fused with the branch after it.\<close>

definition emit_cmp_cond_fused :: "nat \<Rightarrow> u8 \<Rightarrow> u8 \<Rightarrow> u8 \<Rightarrow> cg \<Rightarrow> cg" where
  "emit_cmp_cond_fused cc s d r g =
     (let g = (if s = d \<and> d = r then
                 puts [I_movi 11 (-16), I_and R_SR R_SR 11, I_extui 11 r 31 1, I_slli 11 11 3, I_or R_SR R_SR 11,
                       I_movi 11 0x04, I_bnez r 6, I_or R_SR R_SR 11] g
               else
                 puts [I_movi 15 (-1), I_xor 15 d 15, I_and 11 15 s, I_or 15 15 s, I_and 15 15 r, I_or 11 11 15, I_extui 11 11 31 1,
                       I_xor 15 s d, I_xor 12 d r, I_and 15 15 12, I_extui 12 15 31 1, I_extui 13 r 31 1, I_slli 12 12 1, I_or 15 11 12,
                       I_slli 13 13 3, I_or 15 15 13, I_movi 11 0x04, I_bnez r 6, I_or 15 15 11, I_movi 12 (-16),
                       I_and R_SR R_SR 12, I_or R_SR R_SR 15] g);
          g = g\<lparr>g_sr_dirty := True\<rparr>;
          g = puts (if cc = 6 then [I_movi 8 1, I_bnez r 6, I_movi 8 0]
                    else if cc = 7 then [I_movi 8 0, I_bnez r 6, I_movi 8 1]
                    else [I_xor 11 s d, I_xor 12 d r, I_and 11 11 12, I_xor 11 11 r, I_extui 8 11 31 0]
                       @ (if cc = 15 then [I_bnez r 6, I_movi 8 1] else [])) g
      in sext_memo_invalidate g)"

definition emit_scc :: "nat \<Rightarrow> nat \<Rightarrow> cg \<Rightarrow> cg" where
  "emit_scc cc reg g =
     (let g = (if cc = 0 then put (I_movi 8 0xFF) g else if cc = 1 then put (I_movi 8 0) g
               else puts [I_movi 9 0, I_sub 8 9 8, I_extui 8 8 0 7] (emit_cond cc g));
          dn_xt = cache_lookup (cg_rc g) (G_D reg);
          (src_reg, g) = (case dn_xt of Some xr \<Rightarrow> (xr, g) | None \<Rightarrow> (9, emit_read_g (G_D reg) 9 g));
          g = puts [I_srli 10 src_reg 8, I_slli 10 10 8, I_or (dst_of (G_D reg) 8 g) 10 8] g;
          g = (if dn_xt \<noteq> None then mark_dirty (G_D reg) g else emit_write_g (G_D reg) 8 g)
      in emit_advance 2 8 g)"

end
