(* ===== verification/CodegenRun.thy ===== *)
theory CodegenRun
  imports Codegen
begin

text \<open>
  What the code emitted by Codegen does. \<open>run_code\<close> executes a list of instructions, forward branches as skips; \<open>emits\<close> is a
  triple for the code between two states of the compiler; \<open>holds\<close> relates the bookkeeping of the compiler and the state of the
  simulator to the guest machine they stand for, with the registers in their slots, the status register in a14 and the
  program counter and cycles still to be added; \<open>goes\<close> is a step of the compiler seen on that machine.
\<close>

subsection \<open>Lists of instructions\<close>

type_synonym sim = "host xt_sim"

text \<open>How many instructions a branch skips.\<close>

fun skips :: "xt_insn \<Rightarrow> sim \<Rightarrow> nat" where
  "skips (I_bnez r n) s = (if reg_of s r \<noteq> 0 then nat (n div 3) - 1 else 0)"
| "skips (I_beqz r n) s = (if reg_of s r = 0 then nat (n div 3) - 1 else 0)"
| "skips (I_j n) s = nat (n div 3) - 1"
| "skips _ s = 0"

fun exec1 :: "xt_insn \<Rightarrow> nat \<times> sim \<Rightarrow> nat \<times> sim" where
  "exec1 i (k, s) = (if k = 0 then (skips i s, insn_sem host_env i s) else (k - 1, s))"

definition run_code :: "xt_insn list \<Rightarrow> nat \<times> sim \<Rightarrow> nat \<times> sim" where "run_code is = fold exec1 is"

lemma run_code_simps [simp]: "run_code [] p = p" "run_code (i # is) p = run_code is (exec1 i p)"
  "run_code (is @ js) p = run_code js (run_code is p)"
  by (simp_all add: run_code_def)

subsection \<open>Triples\<close>

text \<open>An instruction the encoder accepts that goes on to a later one in the same list.\<close>

fun straight :: "xt_insn \<Rightarrow> bool" where
  "straight (I_bnez r n) = (n mod 3 = 0 \<and> 3 \<le> n)"
| "straight (I_beqz r n) = (n mod 3 = 0 \<and> 3 \<le> n)"
| "straight (I_j n) = (n mod 3 = 0 \<and> 3 \<le> n)"
| "straight (I_jx r) = False" | "straight (I_call0 n) = False" | "straight I_ret = False"
| "straight _ = True"

text \<open>The code emitted between two states of the compiler, at most n instructions, takes a state of the simulator to one with Q.\<close>

definition emits :: "nat \<Rightarrow> cg \<Rightarrow> cg \<Rightarrow> sim \<Rightarrow> (sim \<Rightarrow> bool) \<Rightarrow> bool" where
  "emits n g g' s Q \<longleftrightarrow> (\<exists>is s'. cg_code g' = cg_code g @ is \<and> cg_e g' = emit_all is (cg_e g) \<and>
     (\<forall>i\<in>set is. valid_insn i \<and> straight i) \<and> length is \<le> n \<and> run_code is (0, s) = (0, s') \<and> Q s')"

lemma emits_nothing: "cg_code g' = cg_code g \<Longrightarrow> cg_e g' = cg_e g \<Longrightarrow> Q s \<Longrightarrow> emits n g g' s Q"
  unfolding emits_def by (intro exI [of _ "[]"] exI [of _ s]) simp

lemma emit_all_append [simp]: "emit_all (is @ js) e = emit_all js (emit_all is e)"
  by (induction "is" arbitrary: e) simp_all

lemma emits_seq: "emits k g g1 s P \<Longrightarrow> (\<And>s1. P s1 \<Longrightarrow> emits l g1 g2 s1 Q) \<Longrightarrow> k + l \<le> n \<Longrightarrow> emits n g g2 s Q"
proof -
  assume "emits k g g1 s P" and n: "\<And>s1. P s1 \<Longrightarrow> emits l g1 g2 s1 Q" and k: "k + l \<le> n"
  then obtain "is" s1 where 1: "cg_code g1 = cg_code g @ is" "cg_e g1 = emit_all is (cg_e g)" "run_code is (0, s) = (0, s1)" "P s1"
    "\<forall>i\<in>set is. valid_insn i \<and> straight i" "length is \<le> k" unfolding emits_def by blast
  then obtain js s2 where 2: "cg_code g2 = cg_code g1 @ js" "cg_e g2 = emit_all js (cg_e g1)" "run_code js (0, s1) = (0, s2)" "Q s2"
    "\<forall>i\<in>set js. valid_insn i \<and> straight i" "length js \<le> l" using n unfolding emits_def by blast
  show ?thesis unfolding emits_def using 1 2 k by (intro exI [of _ "is @ js"] exI [of _ s2]) auto
qed

lemma emits_mono: "emits k g g' s P \<Longrightarrow> (\<And>s'. P s' \<Longrightarrow> Q s') \<Longrightarrow> k \<le> n \<Longrightarrow> emits n g g' s Q"
  unfolding emits_def by (meson order_trans)

lemma put_fields [simp]:
  "cg_code (put i g) = cg_code g @ [i]" "cg_rc (put i g) = cg_rc g" "cg_mach (put i g) = cg_mach g"
  "g_helper_touched_mask (put i g) = g_helper_touched_mask g" "g_pc_acc (put i g) = g_pc_acc g" "g_cyc_acc (put i g) = g_cyc_acc g"
  "g_sr_dirty (put i g) = g_sr_dirty g" "g_block_emitted_callx0 (put i g) = g_block_emitted_callx0 g"
  "g_sext_src_reg (put i g) = g_sext_src_reg g" "g_sext_valid (put i g) = g_sext_valid g"
  "g_pc_lit_valid (put i g) = g_pc_lit_valid g" "g_pc_lit_val (put i g) = g_pc_lit_val g" "g_pc_lit_off (put i g) = g_pc_lit_off g"
  "g_pc_lit_entry_off (put i g) = g_pc_lit_entry_off g"
  by (simp_all add: put_def)

lemma puts_simps [simp]: "puts [] g = g" "puts (i # is) g = puts is (put i g)"
  by (simp_all add: puts_def)

lemma puts_fields [simp]:
  "cg_code (puts is g) = cg_code g @ is" "cg_rc (puts is g) = cg_rc g" "cg_mach (puts is g) = cg_mach g"
  "g_helper_touched_mask (puts is g) = g_helper_touched_mask g" "g_pc_acc (puts is g) = g_pc_acc g" "g_cyc_acc (puts is g) = g_cyc_acc g"
  "g_sr_dirty (puts is g) = g_sr_dirty g" "g_block_emitted_callx0 (puts is g) = g_block_emitted_callx0 g"
  "g_sext_src_reg (puts is g) = g_sext_src_reg g" "g_sext_valid (puts is g) = g_sext_valid g"
  "g_pc_lit_valid (puts is g) = g_pc_lit_valid g" "g_pc_lit_val (puts is g) = g_pc_lit_val g" "g_pc_lit_off (puts is g) = g_pc_lit_off g"
  "g_pc_lit_entry_off (puts is g) = g_pc_lit_entry_off g"
  by (induction "is" arbitrary: g) simp_all

lemma puts_encoder: "cg_e (puts is g) = emit_all is (cg_e g)"
  by (induction "is" arbitrary: g) (simp_all add: put_def)

lemma put_encoder: "cg_e (put i g) = emit_all [i] (cg_e g)"
  by (simp add: put_def)

lemma emits_puts: "run_code is (0, s) = (0, s') \<Longrightarrow> \<forall>i\<in>set is. valid_insn i \<and> straight i \<Longrightarrow> length is \<le> n \<Longrightarrow> Q s' \<Longrightarrow>
    emits n g (puts is g) s Q"
  unfolding emits_def by (intro exI [of _ "is"] exI [of _ s']) (simp add: puts_encoder)

lemma emits_put: "skips i s = 0 \<Longrightarrow> valid_insn i \<Longrightarrow> straight i \<Longrightarrow> 1 \<le> n \<Longrightarrow> Q (insn_sem host_env i s) \<Longrightarrow> emits n g (put i g) s Q"
  unfolding emits_def by (intro exI [of _ "[i]"] exI [of _ "insn_sem host_env i s"]) (simp add: put_encoder)

subsection \<open>The guest machine behind the code\<close>

text \<open>The value of a guest register.\<close>

definition greg :: "m68k_cpu \<Rightarrow> nat \<Rightarrow> u32" where "greg c gi = (if gi < 8 then dreg c gi else areg c (gi - 8))"

definition rc_ok :: "regcache \<Rightarrow> bool" where
  "rc_ok rc \<longleftrightarrow> rc_active rc \<le> 4 \<and> inj_on (rc_guest rc) {..<rc_active rc} \<and> (\<forall>i<rc_active rc. rc_guest rc i < 16) \<and>
     (\<forall>gi xr. rc_xt rc gi = Some xr \<longleftrightarrow> (\<exists>i<rc_active rc. rc_guest rc i = gi \<and> xr = cache_xt_slot i))"

definition cur :: "regcache \<Rightarrow> sim \<Rightarrow> nat \<Rightarrow> u32" where
  "cur rc s gi = (case rc_xt rc gi of Some xr \<Rightarrow> reg_of s xr | None \<Rightarrow> greg (hcpu s) gi)"

text \<open>The processor: registers from the cache, the status register from a14 when the block keeps it there, the program
  counter and the cycles with what the compiler has still to add.\<close>

definition vcpu :: "bool \<Rightarrow> cg \<Rightarrow> sim \<Rightarrow> m68k_cpu" where
  "vcpu live g s = (hcpu s)\<lparr>
     dreg := (\<lambda>n. if n < 8 then cur (cg_rc g) s n else dreg (hcpu s) n),
     areg := (\<lambda>n. if n < 8 then cur (cg_rc g) s (8 + n) else areg (hcpu s) n),
     pc := pc (hcpu s) + word_of_int (g_pc_acc g),
     cycles := cycles (hcpu s) + word_of_int (g_cyc_acc g),
     sr := (if live then ucast (reg_of s R_SR) else sr (hcpu s))\<rparr>"

definition vmach :: "bool \<Rightarrow> cg \<Rightarrow> sim \<Rightarrow> machine" where
  "vmach live g s = upd_cpu (\<lambda>_. vcpu live g s) (h_mach (xs_user s))"

text \<open>Where the next instruction goes: behind the literals and the code emitted so far.\<close>

definition loc :: "cg \<Rightarrow> u32" where "loc g = of_nat (172 + 3 * length (cg_code g))"

text \<open>What does not change while the block runs: whether a14 holds the status register, the upper half of the cycle counter,
  the code and its literals.\<close>

record blk =
  b_live :: bool
  b_hi :: u64
  b_codemem :: "nat \<Rightarrow> u8"
  b_codelen :: u32
  b_start :: xt_emit

definition holds :: "blk \<Rightarrow> cg \<Rightarrow> sim \<Rightarrow> machine \<Rightarrow> bool" where
  "holds b g s m \<longleftrightarrow>
     xs_status s = XT_SIM_RUN \<and> xs_pc s = loc g \<and> reg_of s R_CPU = HOST_CPU_BASE \<and>
     h_code (xs_user s) = b_codemem b \<and> h_code_size (xs_user s) = b_codelen b \<and> xs_code_size s = b_codelen b \<and>
     cg_e g = emit_all (cg_code g) (b_start b) \<and>
     rc_ok (cg_rc g) \<and> m = vmach (b_live b) g s \<and>
     (\<forall>i<rc_active (cg_rc g). \<not> bit (rc_dirty (cg_rc g)) i \<longrightarrow> reg_of s (cache_xt_slot i) = greg (hcpu s) (rc_guest (cg_rc g) i)) \<and>
     (if b_live b then reg_of s R_SR AND NOT 0xFFFF = 0 \<and> (\<not> g_sr_dirty g \<longrightarrow> sr (hcpu s) = ucast (reg_of s R_SR))
      else \<not> g_sr_dirty g) \<and>
     drop_bit 32 (cycles (hcpu s)) = b_hi b"

text \<open>What a13 holds while the compiler remembers a sign-extended register in it.\<close>

definition memo :: "cg \<Rightarrow> sim \<Rightarrow> machine \<Rightarrow> bool" where
  "memo g s m \<longleftrightarrow> (g_sext_valid g \<longrightarrow>
     (\<exists>gi < 16. g_sext_src_reg g = int gi \<and> reg_of s 13 = scast (ucast (greg (m_cpu m) gi) :: u16)))"

subsection \<open>Register code\<close>

text \<open>What an instruction on registers does to them.\<close>

fun alu :: "xt_insn \<Rightarrow> (nat \<Rightarrow> u32) \<Rightarrow> (nat \<Rightarrow> u32)" where
  "alu (I_and r x y) f = f(unat r := f (unat x) AND f (unat y))"
| "alu (I_or r x y) f = f(unat r := f (unat x) OR f (unat y))"
| "alu (I_xor r x y) f = f(unat r := f (unat x) XOR f (unat y))"
| "alu (I_add r x y) f = f(unat r := f (unat x) + f (unat y))"
| "alu (I_addx2 r x y) f = f(unat r := 2 * f (unat x) + f (unat y))"
| "alu (I_sub r x y) f = f(unat r := f (unat x) - f (unat y))"
| "alu (I_mov r x) f = f(unat r := f (unat x))"
| "alu (I_addi r x i) f = f(unat r := f (unat x) + word_of_int i)"
| "alu (I_movi r i) f = f(unat r := word_of_int i)"
| "alu (I_slli r x n) f = f(unat r := push_bit (unat n) (f (unat x)))"
| "alu (I_srli r x n) f = f(unat r := drop_bit (unat n) (f (unat x)))"
| "alu (I_srai r x n) f = f(unat r := signed_drop_bit (unat n) (f (unat x)))"
| "alu (I_extui r x n k) f = f(unat r := take_bit (unat k + 1) (drop_bit (unat n) (f (unat x))))"
| "alu _ f = f"

fun is_alu :: "xt_insn \<Rightarrow> bool" where
  "is_alu (I_and r x y) = True" | "is_alu (I_or r x y) = True" | "is_alu (I_xor r x y) = True" | "is_alu (I_add r x y) = True"
| "is_alu (I_addx2 r x y) = True" | "is_alu (I_sub r x y) = True" | "is_alu (I_mov r x) = True" | "is_alu (I_addi r x i) = True"
| "is_alu (I_movi r i) = True" | "is_alu (I_slli r x n) = True" | "is_alu (I_srli r x n) = True" | "is_alu (I_srai r x n) = True"
| "is_alu (I_extui r x n k) = True" | "is_alu _ = False"

lemma alu_sem:
  "is_alu i \<Longrightarrow> exec1 i (0, s) = (0, s\<lparr>xs_a := alu i (xs_a s), xs_pc := xs_pc s + 3\<rparr>)"
  by (cases i) (simp_all add: put_reg_def reg_of_def)

text \<open>A list of these, in which a branch skips one instruction.\<close>

fun regs_after :: "xt_insn list \<Rightarrow> (nat \<Rightarrow> u32) \<Rightarrow> (nat \<Rightarrow> u32)" where
  "regs_after [] f = f"
| "regs_after (I_bnez r n # i # is) f = regs_after is (if f (unat r) \<noteq> 0 then f else alu i f)"
| "regs_after (I_beqz r n # i # is) f = regs_after is (if f (unat r) = 0 then f else alu i f)"
| "regs_after (i # is) f = regs_after is (alu i f)"

fun alu_list :: "xt_insn list \<Rightarrow> bool" where
  "alu_list [] = True"
| "alu_list (I_bnez r n # i # is) = (n = 6 \<and> is_alu i \<and> alu_list is)"
| "alu_list (I_beqz r n # i # is) = (n = 6 \<and> is_alu i \<and> alu_list is)"
| "alu_list (i # is) = (is_alu i \<and> alu_list is)"

definition after :: "xt_insn list \<Rightarrow> sim \<Rightarrow> sim" where
  "after is s = s\<lparr>xs_a := regs_after is (xs_a s), xs_pc := xs_pc s + of_nat (3 * length is)\<rparr>"

lemma run_alu: "alu_list is \<Longrightarrow> run_code is (0, s) = (0, after is s)"
proof (induction "is" arbitrary: s rule: alu_list.induct)
  case (2 r n i "is")
  hence i: "is_alu i" "n = 6" "alu_list is" by simp_all
  show ?case
  proof (cases "reg_of s r = 0")
    case True
    have "run_code is (0, s\<lparr>xs_a := alu i (xs_a s), xs_pc := xs_pc s + 6\<rparr>) = (0, after is (s\<lparr>xs_a := alu i (xs_a s), xs_pc := xs_pc s + 6\<rparr>))"
      by (rule 2(1)) (rule i(3))
    thus ?thesis using True i alu_sem [OF i(1), of "next_insn s"]
      by (simp add: after_def reg_of_def next_insn_def add.assoc)
  next
    case False
    have "run_code is (0, s\<lparr>xs_pc := xs_pc s + 6\<rparr>) = (0, after is (s\<lparr>xs_pc := xs_pc s + 6\<rparr>))"
      by (rule 2(1)) (rule i(3))
    thus ?thesis using False i by (simp add: after_def reg_of_def goto_def add.assoc)
  qed
next
  case (3 r n i "is")
  hence i: "is_alu i" "n = 6" "alu_list is" by simp_all
  show ?case
  proof (cases "reg_of s r = 0")
    case False
    have "run_code is (0, s\<lparr>xs_a := alu i (xs_a s), xs_pc := xs_pc s + 6\<rparr>) = (0, after is (s\<lparr>xs_a := alu i (xs_a s), xs_pc := xs_pc s + 6\<rparr>))"
      by (rule 3(1)) (rule i(3))
    thus ?thesis using False i alu_sem [OF i(1), of "next_insn s"]
      by (simp add: after_def reg_of_def next_insn_def add.assoc)
  next
    case True
    have "run_code is (0, s\<lparr>xs_pc := xs_pc s + 6\<rparr>) = (0, after is (s\<lparr>xs_pc := xs_pc s + 6\<rparr>))"
      by (rule 3(1)) (rule i(3))
    thus ?thesis using True i by (simp add: after_def reg_of_def goto_def add.assoc)
  qed
qed (simp_all add: after_def alu_sem add.assoc del: exec1.simps)


lemma alu_straight: "is_alu i \<Longrightarrow> straight i"
  by (cases i) simp_all

lemma alu_list_straight: "alu_list is \<Longrightarrow> i \<in> set is \<Longrightarrow> straight i"
  by (induction "is" rule: alu_list.induct) (auto simp: alu_straight)

subsection \<open>Steps of the compiler\<close>

text \<open>The code between two states of the compiler takes a guest machine and registers to others.\<close>

definition goes :: "nat \<Rightarrow> blk \<Rightarrow> cg \<Rightarrow> machine \<times> (nat \<Rightarrow> u32) \<Rightarrow> cg \<Rightarrow> machine \<times> (nat \<Rightarrow> u32) \<Rightarrow> bool" where
  "goes n b g mf g' mf' \<longleftrightarrow>
     (\<forall>s. holds b g s (fst mf) \<and> xs_a s = snd mf \<longrightarrow> emits n g g' s (\<lambda>s'. holds b g' s' (fst mf') \<and> xs_a s' = snd mf'))"

lemma goesI: "(\<And>s. holds b g s m \<Longrightarrow> xs_a s = f \<Longrightarrow> emits n g g' s (\<lambda>s'. holds b g' s' m' \<and> xs_a s' = f')) \<Longrightarrow>
    goes n b g (m, f) g' (m', f')"
  by (simp add: goes_def)

lemma goes_seq: "goes k b g A g1 B \<Longrightarrow> goes l b g1 B g2 C \<Longrightarrow> goes (k + l) b g A g2 C"
  unfolding goes_def by (blast intro: emits_seq [OF _ _ order_refl])

lemma goes_eq: "goes k b g A g' (m', f') \<Longrightarrow> m' = m'' \<Longrightarrow> f' = f'' \<Longrightarrow> k \<le> n \<Longrightarrow> goes n b g A g' (m'', f'')"
  unfolding goes_def by (blast intro: emits_mono)

lemma goes_refl: "goes 0 b g A g A"
  unfolding goes_def by (blast intro: emits_nothing)

text \<open>The cached registers have the values of the guest.\<close>

definition coh :: "cg \<Rightarrow> machine \<Rightarrow> (nat \<Rightarrow> u32) \<Rightarrow> bool" where
  "coh g m f \<longleftrightarrow> rc_ok (cg_rc g) \<and> (\<forall>gi < 16. \<forall>xr. rc_xt (cg_rc g) gi = Some xr \<longrightarrow> f (unat xr) = greg (m_cpu m) gi)"

lemma greg_view: "holds b g s m \<Longrightarrow> gi < 16 \<Longrightarrow> greg (m_cpu m) gi = cur (cg_rc g) s gi"
  by (auto simp: holds_def vmach_def vcpu_def greg_def)

lemma holds_coh: "holds b g s m \<Longrightarrow> coh g m (xs_a s)"
  using greg_view [of b g s m] by (auto simp: coh_def cur_def reg_of_def holds_def)

lemma goes_coh: "(coh g m f \<Longrightarrow> goes n b g (m, f) g' A) \<Longrightarrow> goes n b g (m, f) g' A"
  using holds_coh by (fastforce simp: goes_def)

lemma slot_number: "i < 4 \<Longrightarrow> unat (cache_xt_slot i) = 4 + i"
  by (simp add: cache_xt_slot_def R_CACHE0_def unat_word_ariths unat_of_nat)

lemma rc_SomeD: "rc_ok rc \<Longrightarrow> rc_xt rc gi = Some xr \<Longrightarrow> \<exists>i<rc_active rc. i < 4 \<and> rc_guest rc i = gi \<and> xr = cache_xt_slot i \<and> gi < 16"
proof -
  assume k: "rc_ok rc" "rc_xt rc gi = Some xr"
  then obtain i where i: "i < rc_active rc" "rc_guest rc i = gi" "xr = cache_xt_slot i" by (auto simp: rc_ok_def)
  moreover have "rc_active rc \<le> 4" "rc_guest rc i < 16" using k i by (auto simp: rc_ok_def)
  ultimately show ?thesis by (intro exI [of _ i]) auto
qed

lemma rc_slot: "rc_ok rc \<Longrightarrow> rc_xt rc gi = Some xr \<Longrightarrow> 4 \<le> unat xr \<and> unat xr < 8 \<and> xr < 16 \<and> gi < 16"
proof -
  assume "rc_ok rc" "rc_xt rc gi = Some xr"
  then obtain i where "i < 4" "xr = cache_xt_slot i" "gi < 16" by (blast dest: rc_SomeD)
  thus ?thesis by (simp add: slot_number word_less_nat_alt)
qed

lemma rc_distinct: "rc_ok rc \<Longrightarrow> rc_xt rc gi = Some xr \<Longrightarrow> rc_xt rc gj = Some xr \<Longrightarrow> gi = gj"
proof -
  assume k: "rc_ok rc" "rc_xt rc gi = Some xr" "rc_xt rc gj = Some xr"
  then obtain i j where "i < rc_active rc" "xr = cache_xt_slot i" "rc_guest rc i = gi" "j < rc_active rc" "xr = cache_xt_slot j" "rc_guest rc j = gj"
    unfolding rc_ok_def by metis
  moreover have "rc_active rc \<le> 4" using k by (simp add: rc_ok_def)
  ultimately show ?thesis using slot_number [of i] slot_number [of j] by simp
qed

text \<open>Code that leaves the fixed registers alone.\<close>

abbreviation fixed :: "nat set" where "fixed \<equiv> {3, 4, 5, 6, 7, 14}"

lemma slots_fixed: "i < 4 \<Longrightarrow> unat (cache_xt_slot i) \<in> fixed"
  by (auto simp: slot_number)

lemma fixed_numbers [simp]: "unat R_CPU = 3" "unat R_SR = 14" "unat R_ARG = 2" "unat R_HELP = 13"
  by (simp_all add: R_CPU_def R_SR_def R_ARG_def R_HELP_def)

lemma holds_regs:
  assumes "holds b g s m" "xs_user s' = xs_user s" "xs_status s' = xs_status s" "xs_code_size s' = xs_code_size s"
    and "xs_pc s' = loc g'" "\<And>r. r \<in> fixed \<Longrightarrow> xs_a s' r = xs_a s r"
    and "cg_rc g' = cg_rc g" "g_pc_acc g' = g_pc_acc g" "g_cyc_acc g' = g_cyc_acc g" "g_sr_dirty g' = g_sr_dirty g"
    and "cg_e g' = emit_all (cg_code g') (b_start b)"
  shows "holds b g' s' m"
proof -
  have rc: "rc_ok (cg_rc g)" using assms(1) by (simp add: holds_def)
  hence slot: "i < rc_active (cg_rc g) \<Longrightarrow> reg_of s' (cache_xt_slot i) = reg_of s (cache_xt_slot i)" for i
    using slots_fixed [of i] assms(6) by (auto simp: reg_of_def rc_ok_def)
  have c: "cur (cg_rc g) s' = cur (cg_rc g) s"
    using rc_SomeD [OF rc] slot assms(2) by (fastforce simp: cur_def split: option.split)
  have r: "reg_of s' R_SR = reg_of s R_SR" using assms(6) by (simp add: reg_of_def)
  have v: "vmach (b_live b) g' s' = vmach (b_live b) g s"
    unfolding vmach_def vcpu_def assms(2,7-9) c r by (rule refl)
  show ?thesis using assms(1) unfolding holds_def v assms(7) using assms slot by (auto simp: reg_of_def)
qed

lemma holds_code: "holds b g s m \<Longrightarrow> cg_e g = emit_all (cg_code g) (b_start b)"
  by (simp add: holds_def)

lemma holds_loc: "holds b g s m \<Longrightarrow> xs_pc s = loc g"
  by (simp add: holds_def)

lemma loc_puts: "loc (puts is g) = loc g + of_nat (3 * length is)"
  by (simp add: loc_def algebra_simps)

lemma H_puts [intro]:
  assumes "alu_list is" "\<forall>i\<in>set is. valid_insn i" "\<And>r. r \<in> fixed \<Longrightarrow> regs_after is f r = f r"
  shows "goes (length is) b g (m, f) (puts is g) (m, regs_after is f)"
proof (rule goesI)
  fix s assume h: "holds b g s m" and f: "xs_a s = f"
  show "emits (length is) g (puts is g) s (\<lambda>s'. holds b (puts is g) s' m \<and> xs_a s' = regs_after is f)"
  proof (rule emits_puts [OF run_alu [OF assms(1)]])
    show "\<forall>i\<in>set is. valid_insn i \<and> straight i" using assms(1,2) alu_list_straight by blast
    have "holds b (puts is g) (after is s) m"
      by (rule holds_regs [OF h]) (use assms(3) f holds_loc [OF h] holds_code [OF h] in \<open>simp_all add: after_def loc_puts puts_encoder\<close>)
    thus "holds b (puts is g) (after is s) m \<and> xs_a (after is s) = regs_after is f" using f by (simp add: after_def)
  qed simp
qed

lemma H_put: "is_alu i \<Longrightarrow> valid_insn i \<Longrightarrow> (\<And>r. r \<in> fixed \<Longrightarrow> alu i f r = f r) \<Longrightarrow> goes 1 b g (m, f) (put i g) (m, alu i f)"
  using H_puts [of "[i]" f b g m] by (cases i) simp_all


subsection \<open>Guest registers\<close>

definition set_g :: "nat \<Rightarrow> u32 \<Rightarrow> machine \<Rightarrow> machine" where
  "set_g gi v m = (if gi < 8 then set_dreg gi v m else set_areg (gi - 8) v m)"

lemma mark_slot_fields [simp]: "rc_xt (mark_slot gi rc) = rc_xt rc" "rc_guest (mark_slot gi rc) = rc_guest rc"
  "rc_active (mark_slot gi rc) = rc_active rc"
  by (simp_all add: mark_slot_def split: option.split)

lemma rc_ok_mark [simp]: "rc_ok (mark_slot gi rc) = rc_ok rc"
  by (simp add: rc_ok_def)

lemma bit_flag: "i < 4 \<Longrightarrow> j < 4 \<Longrightarrow> bit (push_bit i (1 :: u16)) j \<longleftrightarrow> i = j"
  by (auto simp: bit_push_bit_iff bit_1_iff bit_exp_iff)

lemma find_upt: "find P [0..<n] = Some i \<Longrightarrow> i < n \<and> P i" "find P [0..<n] = None \<Longrightarrow> j < n \<Longrightarrow> \<not> P j"
  by (auto simp: find_Some_iff find_None_iff)

lemma mark_slot_dirty:
  assumes "rc_ok rc" "j < rc_active rc"
  shows "bit (rc_dirty (mark_slot gi rc)) j \<longleftrightarrow> bit (rc_dirty rc) j \<or> rc_guest rc j = gi"
proof (cases "find (\<lambda>i. rc_guest rc i = gi) [0..<rc_active rc]")
  case None
  thus ?thesis using find_upt(2) [OF None assms(2)] by (simp add: mark_slot_def)
next
  case (Some i)
  have i: "i < rc_active rc" "rc_guest rc i = gi" using find_upt(1) [OF Some] by simp_all
  have a: "rc_active rc \<le> 4" using assms(1) by (simp add: rc_ok_def)
  have "inj_on (rc_guest rc) {..<rc_active rc}" using assms(1) by (simp add: rc_ok_def)
  hence "i = j \<longleftrightarrow> rc_guest rc j = gi" using i assms(2) by (auto dest: inj_onD)
  moreover have "bit (push_bit i (1 :: u16)) j \<longleftrightarrow> i = j" using i(1) assms(2) a by (intro bit_flag) simp_all
  ultimately show ?thesis by (simp add: mark_slot_def Some bit_or_iff)
qed

lemma vcpu_set:
  assumes "gi < 16" "\<And>gj. gj < 16 \<Longrightarrow> cur (cg_rc g') s' gj = (if gj = gi then v else cur (cg_rc g) s gj)"
    and "hcpu s' = (if gi < 8 then (hcpu s)\<lparr>dreg := D\<rparr> else (hcpu s)\<lparr>areg := A\<rparr>)" "reg_of s' R_SR = reg_of s R_SR"
    and "\<And>n. \<not> n < 8 \<Longrightarrow> D n = dreg (hcpu s) n" "\<And>n. \<not> n < 8 \<Longrightarrow> A n = areg (hcpu s) n"
    and "g_pc_acc g' = g_pc_acc g" "g_cyc_acc g' = g_cyc_acc g" "upd_cpu c (h_mach (xs_user s')) = upd_cpu c (h_mach (xs_user s))"
  shows "upd_cpu (\<lambda>_. vcpu live g' s') (h_mach (xs_user s')) = set_g gi v (vmach live g s)"
proof -
  let ?d = "\<lambda>n. if n < 8 then cur (cg_rc g) s n else dreg (hcpu s) n"
  let ?a = "\<lambda>n. if n < 8 then cur (cg_rc g) s (8 + n) else areg (hcpu s) n"
  have "vcpu live g' s' = (if gi < 8 then (vcpu live g s)\<lparr>dreg := (dreg (vcpu live g s))(gi := v)\<rparr>
      else (vcpu live g s)\<lparr>areg := (areg (vcpu live g s))(gi - 8 := v)\<rparr>)"
  proof (cases "gi < 8")
    case True
    hence h: "hcpu s' = (hcpu s)\<lparr>dreg := D\<rparr>" using assms(3) by simp
    have d: "(\<lambda>n. if n < 8 then cur (cg_rc g') s' n else dreg (hcpu s') n) = ?d(gi := v)"
      using True assms(2,5) by (auto simp: h)
    have a: "(\<lambda>n. if n < 8 then cur (cg_rc g') s' (8 + n) else areg (hcpu s') n) = ?a"
      using True assms(2) by (auto simp: h)
    have "vcpu live g' s' = (vcpu live g s)\<lparr>dreg := (dreg (vcpu live g s))(gi := v)\<rparr>"
    proof (rule m68k_cpu.equality)
      show "dreg (vcpu live g' s') = dreg ((vcpu live g s)\<lparr>dreg := (dreg (vcpu live g s))(gi := v)\<rparr>)" using d by (simp add: vcpu_def)
      show "areg (vcpu live g' s') = areg ((vcpu live g s)\<lparr>dreg := (dreg (vcpu live g s))(gi := v)\<rparr>)" using a by (simp add: vcpu_def)
    qed (simp_all add: vcpu_def assms(4,7,8) h)
    thus ?thesis using True by simp
  next
    case False
    hence h: "hcpu s' = (hcpu s)\<lparr>areg := A\<rparr>" using assms(3) by simp
    have d: "(\<lambda>n. if n < 8 then cur (cg_rc g') s' n else dreg (hcpu s') n) = ?d"
      using False assms(2) by (auto simp: h)
    have a: "(\<lambda>n. if n < 8 then cur (cg_rc g') s' (8 + n) else areg (hcpu s') n) = ?a(gi - 8 := v)"
      using False assms(1,2,6) by (auto simp: h fun_eq_iff)
    have "vcpu live g' s' = (vcpu live g s)\<lparr>areg := (areg (vcpu live g s))(gi - 8 := v)\<rparr>"
    proof (rule m68k_cpu.equality)
      show "dreg (vcpu live g' s') = dreg ((vcpu live g s)\<lparr>areg := (areg (vcpu live g s))(gi - 8 := v)\<rparr>)" using d by (simp add: vcpu_def)
      show "areg (vcpu live g' s') = areg ((vcpu live g s)\<lparr>areg := (areg (vcpu live g s))(gi - 8 := v)\<rparr>)" using a by (simp add: vcpu_def)
    qed (simp_all add: vcpu_def assms(4,7,8) h)
    thus ?thesis using False by simp
  qed
  moreover have "h_mach (xs_user s')\<lparr>m_cpu := c'\<rparr> = h_mach (xs_user s)\<lparr>m_cpu := c'\<rparr>" for c'
    using arg_cong [OF assms(9), of "upd_cpu (\<lambda>_. c')"] by simp
  ultimately show ?thesis by (simp add: vmach_def set_g_def set_dreg_def set_areg_def)
qed

lemma holds_slot:
  assumes "holds b g s m" "rc_xt (cg_rc g) gi = Some xr" "xs_user s' = xs_user s" "xs_status s' = xs_status s" "xs_code_size s' = xs_code_size s"
    and "xs_pc s' = loc g'" "\<And>r. r \<in> fixed \<Longrightarrow> r \<noteq> unat xr \<Longrightarrow> xs_a s' r = xs_a s r"
    and "cg_rc g' = mark_slot gi (cg_rc g)" "g_pc_acc g' = g_pc_acc g" "g_cyc_acc g' = g_cyc_acc g" "g_sr_dirty g' = g_sr_dirty g"
    and "cg_e g' = emit_all (cg_code g') (b_start b)"
  shows "holds b g' s' (set_g gi (xs_a s' (unat xr)) m)"
proof -
  have rc: "rc_ok (cg_rc g)" using assms(1) by (simp add: holds_def)
  note x = rc_slot [OF rc assms(2)]
  have slot: "reg_of s' (cache_xt_slot i) = reg_of s (cache_xt_slot i)" if "i < rc_active (cg_rc g)" "rc_guest (cg_rc g) i \<noteq> gi" for i
  proof -
    have "i < 4" using rc that by (simp add: rc_ok_def)
    moreover have "cache_xt_slot i \<noteq> xr"
    proof
      assume "cache_xt_slot i = xr"
      hence "rc_xt (cg_rc g) (rc_guest (cg_rc g) i) = Some xr" using rc that by (auto simp: rc_ok_def)
      thus False using rc_distinct [OF rc _ assms(2)] that by blast
    qed
    ultimately show ?thesis using slots_fixed [of i] assms(7) [of "unat (cache_xt_slot i)"] by (simp add: reg_of_def word_unat_eq_iff)
  qed
  have "cur (cg_rc g') s' gj = (if gj = gi then xs_a s' (unat xr) else cur (cg_rc g) s gj)" if "gj < 16" for gj
    using rc_SomeD [OF rc, of gj] slot assms(2,3,8) by (auto simp: cur_def reg_of_def split: option.split)
  moreover have sr: "reg_of s' R_SR = reg_of s R_SR" using assms(7) x by (simp add: reg_of_def)
  ultimately have v: "vmach (b_live b) g' s' = set_g gi (xs_a s' (unat xr)) (vmach (b_live b) g s)"
    unfolding vmach_def [of _ g'] using assms x
    by (intro vcpu_set [where D = "dreg (hcpu s)" and A = "areg (hcpu s)"]) simp_all
  have r3: "reg_of s' R_CPU = reg_of s R_CPU" using assms(7) x by (simp add: reg_of_def)
  have "reg_of s' (cache_xt_slot i) = greg (hcpu s) (rc_guest (cg_rc g) i)"
    if "i < rc_active (cg_rc g)" "\<not> bit (rc_dirty (cg_rc g')) i" for i
    using that slot [of i] assms(1,8) mark_slot_dirty [OF rc, of i gi] by (auto simp: holds_def)
  thus ?thesis using assms rc sr r3 by (auto simp: holds_def v)
qed

end
