(* ===== verification/CodegenMoves.thy ===== *)
theory CodegenMoves
  imports CodegenRun
begin

text \<open>
  The building blocks of the emitters as steps on the guest machine: reading a guest register into a scratch register,
  writing one back to its slot or to memory, and the condition codes of the logic instructions.
\<close>

subsection \<open>Scratch registers\<close>

abbreviation scratch :: "u8 \<Rightarrow> bool" where "scratch k \<equiv> 8 \<le> k \<and> k < 16 \<and> k \<noteq> 14"

lemma scratch_free: "scratch k \<Longrightarrow> r \<in> fixed \<Longrightarrow> r \<noteq> unat k"
  by (auto simp: word_le_nat_alt word_unat_eq_iff)

lemma valid_off: "gi < 16 \<Longrightarrow> g_off gi \<le> 1020 \<and> g_off gi AND 3 = 0 \<and> unat (g_off gi) = 4 * gi"
proof -
  assume "gi < 16"
  hence "gi \<in> set [0..<16]" by simp
  moreover have "\<forall>gi \<in> set [0..<16]. g_off gi \<le> 1020 \<and> g_off gi AND 3 = 0 \<and> unat (g_off gi) = 4 * gi"
    by (simp add: upt_rec g_off_def OFF_D_def OFF_A_def)
  ultimately show ?thesis by blast
qed

lemma load_g: "gi < 16 \<Longrightarrow> sim_load host_env 4 (HOST_CPU_BASE + g_off gi) s = greg (hcpu s) gi"
  by (simp add: g_off_def greg_def load_D load_A)

lemma holds_reg3: "holds b g s m \<Longrightarrow> reg_of s R_CPU = HOST_CPU_BASE"
  by (simp add: holds_def)

lemma holds_rc: "holds b g s m \<Longrightarrow> rc_ok (cg_rc g)"
  by (simp add: holds_def)

lemma small_regs: "R_CPU < 16" "R_SR < 16"
  by (simp_all add: R_CPU_def R_SR_def)

lemma emits_load:
  assumes h: "holds b g s m" and "gi < 16" "r < 16"
    and Q: "Q (s\<lparr>xs_a := (xs_a s)(unat r := greg (hcpu s) gi), xs_pc := xs_pc s + 3\<rparr>)"
  shows "emits 1 g (put (I_l32i r R_CPU (g_off gi)) g) s Q"
  using assms valid_off [of gi] load_g [of gi s] holds_reg3 [OF h] Q
  by (intro emits_put) (simp_all add: small_regs put_reg_def)

lemma H_load:
  assumes "scratch dst" "gi < 16" "rc_xt (cg_rc g) gi = None"
  shows "goes 1 b g (m, f) (put (I_l32i dst R_CPU (g_off gi)) g) (m, f(unat dst := greg (m_cpu m) gi))"
proof (rule goesI)
  fix s assume h: "holds b g s m" and f: "xs_a s = f"
  have v: "greg (hcpu s) gi = greg (m_cpu m) gi" using greg_view [OF h assms(2)] assms(3) by (simp add: cur_def)
  show "emits 1 g (put (I_l32i dst R_CPU (g_off gi)) g) s
      (\<lambda>s'. holds b (put (I_l32i dst R_CPU (g_off gi)) g) s' m \<and> xs_a s' = f(unat dst := greg (m_cpu m) gi))"
  proof (rule emits_load [OF h assms(2)])
    let ?s = "s\<lparr>xs_a := (xs_a s)(unat dst := greg (hcpu s) gi), xs_pc := xs_pc s + 3\<rparr>"
    have "holds b (put (I_l32i dst R_CPU (g_off gi)) g) ?s m"
      by (rule holds_regs [OF h]) (use holds_loc [OF h] holds_code [OF h] assms(1) scratch_free [of dst] in \<open>auto simp: loc_def put_encoder algebra_simps\<close>)
    thus "holds b (put (I_l32i dst R_CPU (g_off gi)) g) ?s m \<and> xs_a ?s = f(unat dst := greg (m_cpu m) gi)" using f v by simp
  qed (use assms in simp)
qed

lemma H_read:
  assumes "scratch dst" "gi < 16"
  shows "goes 1 b g (m, f) (emit_read_g gi dst g) (m, f(unat dst := greg (m_cpu m) gi))"
proof (cases "rc_xt (cg_rc g) gi")
  case None
  thus ?thesis using H_load [OF assms] by (simp add: emit_read_g_def cache_lookup_def)
next
  case (Some xr)
  show ?thesis
  proof (rule goes_coh)
    assume c: "coh g m f"
    have x: "xr < 16" "unat xr < 8" "f (unat xr) = greg (m_cpu m) gi" using c Some assms rc_slot [of "cg_rc g" gi xr] by (auto simp: coh_def)
    hence "xr \<noteq> dst" using assms(1) by (auto simp: word_le_nat_alt)
    moreover have "goes 1 b g (m, f) (put (I_mov dst xr) g) (m, alu (I_mov dst xr) f)"
      by (rule H_put) (use x assms(1) scratch_free [of dst] in auto)
    ultimately show ?thesis using Some x by (simp add: emit_read_g_def cache_lookup_def)
  qed
qed

subsection \<open>Writing guest registers\<close>

lemma rc_mark_dirty [simp]: "rc_xt (cg_rc (mark_dirty gi g)) = rc_xt (cg_rc g)" "cg_rc (mark_dirty gi g) = mark_slot gi (cg_rc g)"
  by (simp_all add: mark_dirty_def)

lemma mark_dirty_fields [simp]: "cg_code (mark_dirty gi g) = cg_code g" "cg_e (mark_dirty gi g) = cg_e g"
  "g_pc_acc (mark_dirty gi g) = g_pc_acc g" "g_cyc_acc (mark_dirty gi g) = g_cyc_acc g" "g_sr_dirty (mark_dirty gi g) = g_sr_dirty g"
  "loc (mark_dirty gi g) = loc g"
  by (simp_all add: mark_dirty_def loc_def)

lemma slot_of: "rc_ok rc \<Longrightarrow> rc_xt rc gi = Some xr \<Longrightarrow> 4 \<le> unat xr \<and> unat xr < 8"
  using rc_slot by blast

lemma emits_mark: "emits n g g' s Q \<Longrightarrow> emits n g (mark_dirty gi g') s Q"
  by (simp add: emits_def)

lemma H_slot:
  assumes "alu_list is" "\<forall>i\<in>set is. valid_insn i" "rc_xt (cg_rc g) gi = Some xr"
    and "\<And>r. r \<in> fixed \<Longrightarrow> r \<noteq> unat xr \<Longrightarrow> regs_after is f r = f r"
  shows "goes (length is) b g (m, f) (mark_dirty gi (puts is g)) (set_g gi (regs_after is f (unat xr)) m, regs_after is f)"
proof (rule goesI)
  fix s assume h: "holds b g s m" and f: "xs_a s = f"
  have "emits (length is) g (puts is g) s (\<lambda>s'. holds b (mark_dirty gi (puts is g)) s' (set_g gi (regs_after is f (unat xr)) m)
      \<and> xs_a s' = regs_after is f)"
  proof (rule emits_puts [OF run_alu [OF assms(1)]])
    show "\<forall>i\<in>set is. valid_insn i \<and> straight i" using assms(1,2) alu_list_straight by blast
    have "holds b (mark_dirty gi (puts is g)) (after is s) (set_g gi (xs_a (after is s) (unat xr)) m)"
      by (rule holds_slot [OF h assms(3)])
        (use assms(4) f holds_loc [OF h] holds_code [OF h] in \<open>simp_all add: after_def loc_puts puts_encoder\<close>)
    thus "holds b (mark_dirty gi (puts is g)) (after is s) (set_g gi (regs_after is f (unat xr)) m) \<and> xs_a (after is s) = regs_after is f"
      using f by (simp add: after_def)
  qed simp
  thus "emits (length is) g (mark_dirty gi (puts is g)) s (\<lambda>s'. holds b (mark_dirty gi (puts is g)) s' (set_g gi (regs_after is f (unat xr)) m)
      \<and> xs_a s' = regs_after is f)" by (rule emits_mark)
qed

lemma H_load_slot:
  assumes "rc_xt (cg_rc g) gi = Some xr" "gs < 16" "rc_xt (cg_rc g) gs = None"
  shows "goes 1 b g (m, f) (mark_dirty gi (put (I_l32i xr R_CPU (g_off gs)) g)) (set_g gi (greg (m_cpu m) gs) m, f(unat xr := greg (m_cpu m) gs))"
proof (rule goesI)
  fix s assume h: "holds b g s m" and f: "xs_a s = f"
  let ?g = "mark_dirty gi (put (I_l32i xr R_CPU (g_off gs)) g)"
  have v: "greg (hcpu s) gs = greg (m_cpu m) gs" using greg_view [OF h assms(2)] assms(3) by (simp add: cur_def)
  have "emits 1 g (put (I_l32i xr R_CPU (g_off gs)) g) s
      (\<lambda>s'. holds b ?g s' (set_g gi (greg (m_cpu m) gs) m) \<and> xs_a s' = f(unat xr := greg (m_cpu m) gs))"
  proof (rule emits_load [OF h assms(2)])
    show "xr < 16" using rc_slot [OF holds_rc [OF h] assms(1)] by simp
    let ?s = "s\<lparr>xs_a := (xs_a s)(unat xr := greg (hcpu s) gs), xs_pc := xs_pc s + 3\<rparr>"
    have "holds b ?g ?s (set_g gi (xs_a ?s (unat xr)) m)"
      by (rule holds_slot [OF h assms(1)]) (use holds_loc [OF h] holds_code [OF h] in \<open>auto simp: loc_def put_encoder algebra_simps\<close>)
    thus "holds b ?g ?s (set_g gi (greg (m_cpu m) gs) m) \<and> xs_a ?s = f(unat xr := greg (m_cpu m) gs)" using f v by simp
  qed
  thus "emits 1 g ?g s (\<lambda>s'. holds b ?g s' (set_g gi (greg (m_cpu m) gs) m) \<and> xs_a s' = f(unat xr := greg (m_cpu m) gs))"
    by (rule emits_mark)
qed

lemma greg_update: "gi < 16 \<Longrightarrow> greg (if gi < 8 then c\<lparr>dreg := (dreg c)(gi := v)\<rparr> else c\<lparr>areg := (areg c)(gi - 8 := v)\<rparr>) gj =
    (if gj = gi then v else greg c gj)"
  by (auto simp: greg_def)

lemma store_g: "gi < 16 \<Longrightarrow> sim_store host_env 4 (HOST_CPU_BASE + g_off gi) x s =
    upd_hcpu (\<lambda>c. if gi < 8 then c\<lparr>dreg := (dreg c)(gi := x)\<rparr> else c\<lparr>areg := (areg c)(gi - 8 := x)\<rparr>) s"
  by (simp add: g_off_def store_D store_A)

lemma H_store:
  assumes "src < 16" "gi < 16" "rc_xt (cg_rc g) gi = None"
  shows "goes 1 b g (m, f) (put (I_s32i src R_CPU (g_off gi)) g) (set_g gi (f (unat src)) m, f)"
proof (rule goesI)
  fix s assume h: "holds b g s m" and f: "xs_a s = f"
  let ?v = "f (unat src)" and ?g = "put (I_s32i src R_CPU (g_off gi)) g"
  define u where "u = (\<lambda>c :: m68k_cpu. if gi < 8 then c\<lparr>dreg := (dreg c)(gi := ?v)\<rparr> else c\<lparr>areg := (areg c)(gi - 8 := ?v)\<rparr>)"
  have u: "greg (u c) gj = (if gj = gi then ?v else greg c gj)" "sr (u c) = sr c" "cycles (u c) = cycles c" for c gj
    using greg_update [OF assms(2)] by (simp_all add: u_def)
  define s' where "s' = upd_hcpu u (next_insn s)"
  have sem: "insn_sem host_env (I_s32i src R_CPU (g_off gi)) s = s'"
    using store_g [OF assms(2)] holds_reg3 [OF h] f by (simp add: s'_def u_def reg_of_def [of _ src])
  have s': "xs_a s' = f" "xs_pc s' = xs_pc s + 3" "hcpu s' = u (hcpu s)" "xs_status s' = xs_status s" "xs_code_size s' = xs_code_size s"
      "h_code (xs_user s') = h_code (xs_user s)" "h_code_size (xs_user s') = h_code_size (xs_user s)"
      "h_mach (xs_user s') = upd_cpu u (h_mach (xs_user s))"
    using f by (simp_all add: s'_def next_insn_def upd_hcpu_def)
  have rg: "reg_of s' = reg_of s" using s'(1) f by (simp add: reg_of_def fun_eq_iff)
  have rc: "rc_ok (cg_rc g)" by (rule holds_rc [OF h])
  have "vmach (b_live b) ?g s' = set_g gi ?v (vmach (b_live b) g s)"
    unfolding vmach_def [of _ ?g]
  proof (rule vcpu_set [OF assms(2), where D = "if gi < 8 then (dreg (hcpu s))(gi := ?v) else dreg (hcpu s)"
        and A = "if gi < 8 then areg (hcpu s) else (areg (hcpu s))(gi - 8 := ?v)"])
    show "cur (cg_rc ?g) s' gj = (if gj = gi then ?v else cur (cg_rc g) s gj)" for gj
      using assms(3) by (auto simp: cur_def rg s'(3) u(1) split: option.split)
    show "(if gi < 8 then areg (hcpu s) else (areg (hcpu s))(gi - 8 := ?v)) n = areg (hcpu s) n" if "\<not> n < 8" for n
      using that assms(2) by (cases "n = gi - 8") simp_all
    show "upd_cpu (\<lambda>c. hcpu s) (h_mach (xs_user s')) = upd_cpu (\<lambda>c. hcpu s) (h_mach (xs_user s))" by (simp add: s'(8))
  qed (use assms(2) in \<open>simp_all add: s'(3) u_def rg\<close>)
  moreover have "rc_guest (cg_rc g) i \<noteq> gi" if "i < rc_active (cg_rc g)" for i
  proof
    assume "rc_guest (cg_rc g) i = gi"
    hence "rc_xt (cg_rc g) gi = Some (cache_xt_slot i)" using rc that by (auto simp: rc_ok_def)
    thus False using assms(3) by simp
  qed
  ultimately have "holds b ?g s' (set_g gi ?v m)"
    using h s' u by (auto simp: holds_def rg loc_def put_encoder algebra_simps)
  thus "emits 1 g ?g s (\<lambda>s'. holds b ?g s' (set_g gi ?v m) \<and> xs_a s' = f)"
    using assms(1) valid_off [OF assms(2)] s'(1) by (intro emits_put) (simp_all add: sem [simplified] small_regs)
qed

subsection \<open>Registers of the emitters\<close>

text \<open>The value of a guest register in the registers after a write of it, and after it was read without a copy.\<close>

definition wr :: "regcache \<Rightarrow> nat \<Rightarrow> u32 \<Rightarrow> (nat \<Rightarrow> u32) \<Rightarrow> nat \<Rightarrow> u32" where
  "wr rc gi v f = (case rc_xt rc gi of Some xr \<Rightarrow> f(unat xr := v) | None \<Rightarrow> f)"

definition rd :: "regcache \<Rightarrow> nat \<Rightarrow> u8 \<Rightarrow> u32 \<Rightarrow> (nat \<Rightarrow> u32) \<Rightarrow> nat \<Rightarrow> u32" where
  "rd rc gi k v f = (case rc_xt rc gi of Some xr \<Rightarrow> f | None \<Rightarrow> f(unat k := v))"

definition read_in :: "nat \<Rightarrow> u8 \<Rightarrow> cg \<Rightarrow> cg" where
  "read_in gi k g = (if rc_xt (cg_rc g) gi = None then emit_read_g gi k g else g)"

lemma read_in_eq: "emit_read_g_in gi k g = (dst_of gi k g, read_in gi k g)"
  by (simp add: emit_read_g_in_def dst_of_def read_in_def cache_lookup_def emit_read_g_def split: option.split)

lemma wr_high: "rc_ok rc \<Longrightarrow> 8 \<le> n \<Longrightarrow> wr rc gi v f n = f n"
  using rc_slot [of rc gi] by (fastforce simp: wr_def split: option.split)

lemma rd_other: "n \<noteq> unat k \<Longrightarrow> rd rc gi k v f n = f n"
  by (auto simp: rd_def split: option.split)

lemma rc_fields [simp]: "cg_rc (emit_read_g gi k g) = cg_rc g" "cg_rc (read_in gi k g) = cg_rc g" "rc_xt (cg_rc (emit_write_g gi k g)) = rc_xt (cg_rc g)"
  "rc_xt (cg_rc (commit_g gi k g)) = rc_xt (cg_rc g)"
  by (simp_all add: emit_read_g_def read_in_def emit_write_g_def commit_g_def split: option.split)

lemma dst_of_rc: "rc_xt (cg_rc g') = rc_xt (cg_rc g) \<Longrightarrow> dst_of gi k g' = dst_of gi k g"
  by (simp add: dst_of_def cache_lookup_def)

lemma dst_fields [simp]: "dst_of gi k (put i g) = dst_of gi k g" "dst_of gi k (puts is g) = dst_of gi k g"
  "dst_of gi k (emit_read_g gj l g) = dst_of gi k g" "dst_of gi k (read_in gj l g) = dst_of gi k g"
  by (rule dst_of_rc, simp)+

lemma wr_same: "rc_xt rc' = rc_xt rc \<Longrightarrow> wr rc' gi v f = wr rc gi v f"
  by (simp add: wr_def)

lemma read_field [simp]: "rc_xt (mark_slot gi rc) = rc_xt rc" by simp

text \<open>A register the emitter may compute in: a slot or a scratch register.\<close>

lemma dst_reg:
  assumes "rc_ok (cg_rc g)" "scratch k"
  shows "dst_of gi k g < 16 \<and> 4 \<le> unat (dst_of gi k g) \<and> unat (dst_of gi k g) \<noteq> 14 \<and> (unat (dst_of gi k g) < 8 \<or> dst_of gi k g = k)"
proof (cases "rc_xt (cg_rc g) gi")
  case None
  have "8 \<le> unat k" "unat k \<noteq> 14" using assms(2) by (simp_all add: word_le_nat_alt word_unat_eq_iff)
  thus ?thesis using None assms(2) by (simp add: dst_of_def cache_lookup_def)
next
  case (Some xr)
  thus ?thesis using rc_slot [OF assms(1) Some] by (simp add: dst_of_def cache_lookup_def)
qed

lemma H_read_in: "scratch k \<Longrightarrow> gi < 16 \<Longrightarrow> goes 1 b g (m, f) (read_in gi k g) (m, rd (cg_rc g) gi k (greg (m_cpu m) gi) f)"
  using H_read [of k gi b g m f] goes_refl [of b g "(m, f)"] goes_eq [of 0 b g "(m, f)" g m f]
  by (cases "rc_xt (cg_rc g) gi") (auto simp: read_in_def rd_def)

lemma rd_dst: "coh g m f \<Longrightarrow> gi < 16 \<Longrightarrow> rd (cg_rc g) gi k (greg (m_cpu m) gi) f (unat (dst_of gi k g)) = greg (m_cpu m) gi"
  by (auto simp: rd_def dst_of_def cache_lookup_def coh_def split: option.split)

lemma H_write:
  assumes "scratch src" "gi < 16"
  shows "goes 1 b g (m, f) (emit_write_g gi src g) (set_g gi (f (unat src)) m, wr (cg_rc g) gi (f (unat src)) f)"
proof (cases "rc_xt (cg_rc g) gi")
  case None
  thus ?thesis using H_store [of src gi g b m f] assms by (simp add: emit_write_g_def cache_lookup_def wr_def)
next
  case (Some xr)
  show ?thesis
  proof (rule goes_coh)
    assume "coh g m f"
    hence x: "4 \<le> unat xr" "unat xr < 8" "xr < 16" using Some rc_slot [of "cg_rc g" gi xr] by (auto simp: coh_def)
    hence "xr \<noteq> src" using assms(1) by (auto simp: word_le_nat_alt)
    moreover have "goes (length [I_mov xr src]) b g (m, f) (mark_dirty gi (puts [I_mov xr src] g))
        (set_g gi (regs_after [I_mov xr src] f (unat xr)) m, regs_after [I_mov xr src] f)"
      by (rule H_slot) (use Some x assms in simp_all)
    ultimately show ?thesis using Some by (simp add: emit_write_g_def cache_lookup_def wr_def)
  qed
qed

lemma H_commit:
  assumes "alu_list is" "\<forall>i\<in>set is. valid_insn i" "scratch k" "gi < 16"
    and "\<And>r. r \<in> fixed \<Longrightarrow> r \<noteq> unat (dst_of gi k g) \<Longrightarrow> regs_after is f r = f r"
  shows "goes (length is + 1) b g (m, f) (commit_g gi k (puts is g)) (set_g gi (regs_after is f (unat (dst_of gi k g))) m, regs_after is f)"
proof (cases "rc_xt (cg_rc g) gi")
  case None
  hence d: "dst_of gi k g = k" by (simp add: dst_of_def cache_lookup_def)
  have "goes (length is) b g (m, f) (puts is g) (m, regs_after is f)"
    by (rule H_puts [OF assms(1,2)]) (use assms(5) [unfolded d] scratch_free [OF assms(3)] in blast)
  moreover have "goes 1 b (puts is g) (m, regs_after is f) (put (I_s32i k R_CPU (g_off gi)) (puts is g))
      (set_g gi (regs_after is f (unat k)) m, regs_after is f)"
    by (rule H_store) (use assms None in simp_all)
  ultimately show ?thesis using None d goes_seq by (fastforce simp: commit_g_def cache_lookup_def)
next
  case (Some xr)
  hence d: "dst_of gi k g = xr" by (simp add: dst_of_def cache_lookup_def)
  have "goes (length is) b g (m, f) (mark_dirty gi (puts is g)) (set_g gi (regs_after is f (unat xr)) m, regs_after is f)"
    by (rule H_slot [OF assms(1,2) Some]) (use assms(5) [unfolded d] in blast)
  thus ?thesis using Some d by (auto simp: commit_g_def cache_lookup_def elim!: goes_eq)
qed

lemma H_commit_read:
  assumes "scratch k" "gi < 16" "gs < 16"
  shows "goes 2 b g (m, f) (commit_g gi k (emit_read_g gs (dst_of gi k g) g))
      (set_g gi (greg (m_cpu m) gs) m, f(unat (dst_of gi k g) := greg (m_cpu m) gs))"
proof (rule goes_coh)
  assume c: "coh g m f"
  hence rc: "rc_ok (cg_rc g)" by (simp add: coh_def)
  let ?G = "\<lambda>is. goes (length is + 1) b g (m, f) (commit_g gi k (puts is g)) (set_g gi (regs_after is f (unat (dst_of gi k g))) m, regs_after is f)"
  note d = dst_reg [OF rc assms(1), of gi]
  show ?thesis
  proof (cases "rc_xt (cg_rc g) gs")
    case (Some xs)
    hence x: "f (unat xs) = greg (m_cpu m) gs" "xs < 16" using c assms(3) rc_slot [OF rc Some] by (auto simp: coh_def)
    show ?thesis
    proof (cases "xs = dst_of gi k g")
      case True
      have "?G []" by (rule H_commit) (use assms in simp_all)
      thus ?thesis using Some True x by (auto simp: emit_read_g_def cache_lookup_def elim!: goes_eq)
    next
      case False
      have "?G [I_mov (dst_of gi k g) xs]" by (rule H_commit) (use assms d x in auto)
      thus ?thesis using Some False x by (auto simp: emit_read_g_def cache_lookup_def elim!: goes_eq)
    qed
  next
    case n: None
    hence r: "emit_read_g gs (dst_of gi k g) g = put (I_l32i (dst_of gi k g) R_CPU (g_off gs)) g"
      by (simp add: emit_read_g_def cache_lookup_def)
    show ?thesis
    proof (cases "rc_xt (cg_rc g) gi")
      case None
      hence "dst_of gi k g = k" by (simp add: dst_of_def cache_lookup_def)
      moreover have "goes 1 b g (m, f) (emit_read_g gs k g) (m, f(unat k := greg (m_cpu m) gs))" by (rule H_read) (use assms in auto)
      moreover have "goes 1 b (emit_read_g gs k g) (m, f(unat k := greg (m_cpu m) gs)) (put (I_s32i k R_CPU (g_off gi)) (emit_read_g gs k g))
          (set_g gi ((f(unat k := greg (m_cpu m) gs)) (unat k)) m, f(unat k := greg (m_cpu m) gs))"
        by (rule H_store) (use assms None in simp_all)
      ultimately show ?thesis using None goes_seq by (fastforce simp: commit_g_def cache_lookup_def numeral_2_eq_2)
    next
      case (Some xr)
      hence "dst_of gi k g = xr" by (simp add: dst_of_def cache_lookup_def)
      thus ?thesis using H_load_slot [OF Some assms(3) n, of b m f] Some r
        by (auto simp: commit_g_def cache_lookup_def elim!: goes_eq)
    qed
  qed
qed

subsection \<open>The status register\<close>

lemma holds_sr: "holds b g s m \<Longrightarrow> b_live b \<Longrightarrow> xs_a s 14 = ucast (sr (m_cpu m))"
proof -
  assume h: "holds b g s m" and l: "b_live b"
  have "reg_of s R_SR AND NOT (mask 16) = 0" using h l by (simp add: holds_def mask_eq_exp_minus_1)
  moreover have "ucast (ucast x :: u16) = x" if "x AND NOT (mask 16) = 0" for x :: u32
  proof (rule bit_word_eqI)
    fix n show "bit (ucast (ucast x :: u16) :: u32) n = bit x n" if "n < LENGTH(32)"
      using arg_cong [OF \<open>x AND NOT (mask 16) = 0\<close>, of "\<lambda>w. bit w n"] that by (auto simp: bit_simps)
  qed
  ultimately have "reg_of s R_SR = ucast (ucast (reg_of s R_SR) :: u16)" by metis
  moreover have "sr (m_cpu m) = ucast (reg_of s R_SR)" using h l by (simp add: holds_def vmach_def vcpu_def)
  ultimately show ?thesis by (simp add: reg_of_def)
qed

lemma goes_sr: "b_live b \<Longrightarrow> (f 14 = ucast (sr (m_cpu m)) \<Longrightarrow> goes n b g (m, f) g' A) \<Longrightarrow> goes n b g (m, f) g' A"
  using holds_sr by (fastforce simp: goes_def)

lemma H_sr:
  assumes "b_live b" "alu_list is" "\<forall>i\<in>set is. valid_insn i" "\<And>r. r \<in> fixed \<Longrightarrow> r \<noteq> 14 \<Longrightarrow> regs_after is f r = f r"
    and "regs_after is f 14 = ucast (v :: u16)"
  shows "goes (length is) b g (m, f) ((puts is g)\<lparr>g_sr_dirty := True\<rparr>) (upd_cpu (\<lambda>c. c\<lparr>sr := v\<rparr>) m, regs_after is f)"
proof (rule goesI)
  fix s assume h: "holds b g s m" and f: "xs_a s = f"
  let ?g = "(puts is g)\<lparr>g_sr_dirty := True\<rparr>" and ?s = "after is s"
  have rc: "rc_ok (cg_rc g)" by (rule holds_rc [OF h])
  have s: "xs_a ?s = regs_after is f" "xs_user ?s = xs_user s" "xs_status ?s = xs_status s" "xs_code_size ?s = xs_code_size s" "xs_pc ?s = loc ?g"
    using f holds_loc [OF h] by (simp_all add: after_def loc_def algebra_simps)
  have slot: "reg_of ?s (cache_xt_slot i) = reg_of s (cache_xt_slot i)" if "i < 4" for i
  proof -
    have "4 + i \<in> fixed" using slots_fixed [OF that] by (simp only: slot_number [OF that])
    moreover have "4 + i \<noteq> 14" using that by simp
    ultimately show ?thesis using assms(4) f by (simp only: reg_of_def s(1) slot_number [OF that])
  qed
  have slots: "reg_of ?s (cache_xt_slot i) = reg_of s (cache_xt_slot i)" if "i < rc_active (cg_rc g)" for i
    using rc that by (intro slot) (simp add: rc_ok_def)
  have cur: "cur (cg_rc ?g) ?s = cur (cg_rc g) s"
    using rc_SomeD [OF rc] slot by (fastforce simp: cur_def s(2) split: option.split)
  have r14: "reg_of ?s R_SR = ucast v" using assms(5) by (simp add: reg_of_def s(1))
  have low: "ucast (ucast v :: u32) = v" "(ucast v :: u32) AND NOT 0xFFFF = 0"
  proof -
    have "(ucast v :: u32) AND NOT (mask 16) = 0" by (rule bit_word_eqI) (auto simp: bit_simps dest: bit_imp_le_length)
    thus "(ucast v :: u32) AND NOT 0xFFFF = 0" by (simp add: mask_eq_exp_minus_1)
  qed (simp add: ucast_down_ucast_id is_down)
  have m: "m = vmach True g s" using h assms(1) by (simp add: holds_def)
  have "vcpu True ?g ?s = (vcpu True g s)\<lparr>sr := v\<rparr>"
    unfolding vcpu_def cur s(2) r14 by (simp add: low)
  hence v: "vmach True ?g ?s = upd_cpu (\<lambda>c. c\<lparr>sr := v\<rparr>) m" by (simp add: vmach_def m s(2))
  have "reg_of ?s R_CPU = reg_of s R_CPU" using assms(4) f by (simp add: reg_of_def s(1))
  hence "holds b ?g ?s (upd_cpu (\<lambda>c. c\<lparr>sr := v\<rparr>) m)"
    using h assms(1) s(2-5) slots r14 low v by (auto simp: holds_def puts_encoder)
  moreover have "\<forall>i\<in>set is. valid_insn i \<and> straight i" using assms(2,3) alu_list_straight by blast
  ultimately have "emits (length is) g (puts is g) s (\<lambda>s'. holds b ?g s' (upd_cpu (\<lambda>c. c\<lparr>sr := v\<rparr>) m) \<and> xs_a s' = regs_after is f)"
    using s(1) by (intro emits_puts [OF run_alu [OF assms(2)]]) simp_all
  thus "emits (length is) g ?g s (\<lambda>s'. holds b ?g s' (upd_cpu (\<lambda>c. c\<lparr>sr := v\<rparr>) m) \<and> xs_a s' = regs_after is f)"
    by (simp add: emits_def)
qed

lemma goes_memo: "goes n b g A g' B \<Longrightarrow> goes n b g A (sext_memo_invalidate g') B"
  by (simp add: goes_def emits_def holds_def sext_memo_invalidate_def vmach_def vcpu_def loc_def cong: if_cong)

text \<open>The bits of the status register between the condition codes and the system byte are 0.\<close>

definition sr_clean :: "machine \<Rightarrow> bool" where "sr_clean m \<longleftrightarrow> sr (m_cpu m) AND 0xE0 = 0"

definition ccr_word :: "u16 \<Rightarrow> u8 \<Rightarrow> u16" where "ccr_word x v = (x AND 0xFF00) OR ucast (v AND 0x1F)"

lemma set_ccr_word: "m68k_set_ccr v c = c\<lparr>sr := ccr_word (sr c) v\<rparr>"
  by (simp add: m68k_set_ccr_def ccr_word_def)

lemma ccr_word_clean: "ccr_word x v AND 0xE0 = 0"
  by (simp add: ccr_word_def halfword_eq_bits bit_simps)

text \<open>Replacing the condition codes in a14: with X kept, and with X replaced.\<close>

lemma merge_ccr:
  assumes "x AND 0xE0 = 0" "v AND 0x0F = v"
  shows "(ucast x AND word_of_int (-16)) OR ucast v = (ucast (ccr_word x ((ucast (x AND 0x1F) AND CCR_X) OR v)) :: u32)"
proof -
  have "(x AND word_of_int (-16)) OR ucast v = ccr_word x ((ucast (x AND 0x1F) AND CCR_X) OR v)"
    using assms by (auto simp: ccr_word_def CCR_X_def halfword_eq_bits byte_eq_bits bit_simps dest: bit_imp_le_length)
  moreover have "(ucast x AND word_of_int (-16)) OR ucast v = (ucast ((x AND word_of_int (-16)) OR ucast v) :: u32)"
    by (rule bit_word_eqI) (auto simp: bit_simps dest: bit_imp_le_length)
  ultimately show ?thesis by simp
qed

definition ends :: "nat \<Rightarrow> blk \<Rightarrow> cg \<Rightarrow> machine \<times> (nat \<Rightarrow> u32) \<Rightarrow> cg \<Rightarrow> machine \<Rightarrow> bool" where
  "ends n b g A g' m' \<longleftrightarrow> (\<exists>f'. goes n b g A g' (m', f'))"

lemma ends_goes: "goes k b g A g' (m', f') \<Longrightarrow> k \<le> n \<Longrightarrow> ends n b g A g' m'"
  unfolding ends_def by (blast intro: goes_eq)

lemma goes_ends: "goes k b g A g1 B \<Longrightarrow> ends l b g1 B g' m' \<Longrightarrow> k + l \<le> n \<Longrightarrow> ends n b g A g' m'"
  unfolding ends_def by (blast intro: goes_eq goes_seq)

lemma ends_coh: "(coh g m f \<Longrightarrow> ends n b g (m, f) g' m') \<Longrightarrow> ends n b g (m, f) g' m'"
proof -
  assume h: "coh g m f \<Longrightarrow> ends n b g (m, f) g' m'"
  show ?thesis
  proof (cases "coh g m f")
    case False
    hence "goes n b g (m, f) g' (m', f)" using goes_coh by blast
    thus ?thesis unfolding ends_def by blast
  qed (rule h)
qed

lemma ends_memo: "ends n b g A g' m' \<Longrightarrow> ends n b g A (sext_memo_invalidate g') m'"
  unfolding ends_def by (blast intro: goes_memo)

lemma sign_bit: "drop_bit 31 v mod 2 = (if bit v 31 then 1 else 0)" for v :: u32
  by (simp add: bit_iff_odd_drop_bit mod_2_eq_odd)

lemma sign_bit2: "take_bit 2 (drop_bit 31 v) = (if bit v 31 then 1 else 0)" for v :: u32
proof (rule bit_word_eqI)
  fix n assume "n < LENGTH(32)"
  thus "bit (take_bit 2 (drop_bit 31 v)) n = bit (if bit v 31 then 1 else 0 :: u32) n"
    by (cases n) (auto simp: bit_take_bit_iff bit_drop_bit_eq bit_1_iff bit_iff_odd_drop_bit [of v 31] dest: bit_imp_le_length)
qed

lemma sr_scratch_ok: "\<lbrakk>rc_ok (cg_rc g); scratch k\<rbrakk> \<Longrightarrow> unat (dst_of gi k g) \<noteq> 14"
  using dst_reg by blast

lemma msb_bit: "v AND 0x80000000 = 0 \<longleftrightarrow> \<not> bit v 31" for v :: u32
  using and_exp_eq_0_iff_not_bit [of v 31] by simp

definition nz_bits :: "u32 \<Rightarrow> u8" where
  "nz_bits v = (if bit v 31 then 8 else 0) OR (if v = 0 then 4 else 0)"

lemma full_mask: "v AND 0xFFFFFFFF = v" for v :: u32
  by (simp add: and_masks take_bit_word_eq_self)

lemma logic_word: "set_flags_logic 4 v c = c\<lparr>sr := ccr_word (sr c) ((ucast (sr c AND 0x1F) AND CCR_X) OR nz_bits v)\<rparr>"
  by (simp add: set_flags_logic_def set_ccr_word m68k_get_ccr_def size_mask_def size_msb_def msb_bit Let_def CCR_Z_def CCR_N_def nz_bits_def
      full_mask or.assoc or.commute)

lemma nz_bits_low: "nz_bits v AND 0x0F = nz_bits v"
  by (simp add: nz_bits_def)

text \<open>The code of \<open>emit_logic_flags\<close> for a value in \<open>r\<close>.\<close>

definition logic_is :: "u8 \<Rightarrow> xt_insn list" where
  "logic_is r = [I_movi 10 (-16), I_and R_SR R_SR 10, I_extui 11 r 31 0, I_slli 11 11 3, I_or R_SR R_SR 11,
                 I_movi 11 0x04, I_bnez r 6, I_or R_SR R_SR 11]"

lemma logic_flags_eq: "emit_logic_flags r g =
    (if r = 10 \<or> r = 11 then sext_memo_invalidate ((puts (logic_is 9) (put (I_mov 9 r) g))\<lparr>g_sr_dirty := True\<rparr>)
     else sext_memo_invalidate ((puts (logic_is r) g)\<lparr>g_sr_dirty := True\<rparr>))"
  by (simp add: emit_logic_flags_def logic_is_def Let_def)

lemma logic_insns:
  assumes "v = f (unat r)" "r < 16" "unat r \<notin> {10, 11, 14}" "f 14 = ucast x" "x AND 0xE0 = 0"
  shows "regs_after (logic_is r) f 14 = ucast (ccr_word x ((ucast (x AND 0x1F) AND CCR_X) OR nz_bits v))"
proof -
  have "(ucast x AND word_of_int (-16)) OR (push_bit 3 (drop_bit 31 v mod 2) OR (if v = 0 then 4 else 0)) = (ucast x AND word_of_int (-16)) OR ucast (nz_bits v)"
    by (simp add: nz_bits_def sign_bit)
  thus ?thesis using assms(1-4) merge_ccr [OF assms(5) nz_bits_low, of v] by (auto simp: logic_is_def or.assoc)
qed

lemma logic_is_ok: "alu_list (logic_is r)" "length (logic_is r) = 8" "r < 16 \<Longrightarrow> \<forall>i\<in>set (logic_is r). valid_insn i"
  "n \<notin> {10, 11, 14} \<Longrightarrow> regs_after (logic_is r) f n = f n"
  using small_regs by (auto simp: logic_is_def)

lemma H_flags:
  assumes "b_live b" "\<And>c. F c = c\<lparr>sr := W (sr c)\<rparr>" "alu_list is" "\<forall>i\<in>set is. valid_insn i"
    and "\<And>r. r \<in> fixed \<Longrightarrow> r \<noteq> 14 \<Longrightarrow> regs_after is f r = f r"
    and "f 14 = ucast (sr (m_cpu m)) \<Longrightarrow> regs_after is f 14 = ucast (W (sr (m_cpu m)) :: u16)"
  shows "goes (length is) b g (m, f) ((puts is g)\<lparr>g_sr_dirty := True\<rparr>) (upd_cpu F m, regs_after is f)"
proof (rule goes_sr [OF assms(1)])
  assume s: "f 14 = ucast (sr (m_cpu m))"
  have "upd_cpu F m = upd_cpu (\<lambda>c. c\<lparr>sr := W (sr (m_cpu m))\<rparr>) m" by (simp add: assms(2))
  thus ?thesis using H_sr [OF assms(1,3-5) assms(6) [OF s], of g m] by simp
qed

lemma H_logic:
  assumes "b_live b" "sr_clean m" "vreg < 16" "unat vreg \<noteq> 14" "v = f (unat vreg)"
  shows "ends 9 b g (m, f) (emit_logic_flags vreg g) (upd_cpu (set_flags_logic 4 v) m)"
proof -
  have main: "ends 8 b g (m, f) ((puts (logic_is r) g)\<lparr>g_sr_dirty := True\<rparr>) (upd_cpu (set_flags_logic 4 v) m)"
    if r: "r < 16" "unat r \<notin> {10, 11, 14}" "v = f (unat r)" for r f g
  proof -
    have "goes (length (logic_is r)) b g (m, f) ((puts (logic_is r) g)\<lparr>g_sr_dirty := True\<rparr>) (upd_cpu (set_flags_logic 4 v) m, regs_after (logic_is r) f)"
    proof (rule H_flags [OF assms(1) logic_word])
      show "regs_after (logic_is r) f 14 = ucast (ccr_word (sr (m_cpu m)) ((ucast (sr (m_cpu m) AND 0x1F) AND CCR_X) OR nz_bits v))"
        if "f 14 = ucast (sr (m_cpu m))"
        by (rule logic_insns) (use r that assms(2) in \<open>simp_all add: sr_clean_def\<close>)
    qed (use logic_is_ok r in auto)
    thus ?thesis by (rule ends_goes) (simp add: logic_is_ok)
  qed
  show ?thesis
  proof (cases "vreg = 10 \<or> vreg = 11")
    case True
    have "goes 1 b g (m, f) (put (I_mov 9 vreg) g) (m, alu (I_mov 9 vreg) f)" by (rule H_put) (use assms(3) in auto)
    moreover have "ends 8 b (put (I_mov 9 vreg) g) (m, alu (I_mov 9 vreg) f)
        ((puts (logic_is 9) (put (I_mov 9 vreg) g))\<lparr>g_sr_dirty := True\<rparr>) (upd_cpu (set_flags_logic 4 v) m)"
      by (rule main) (use assms(5) in simp_all)
    ultimately have "ends 9 b g (m, f) ((puts (logic_is 9) (put (I_mov 9 vreg) g))\<lparr>g_sr_dirty := True\<rparr>) (upd_cpu (set_flags_logic 4 v) m)"
      by (rule goes_ends) simp
    thus ?thesis unfolding logic_flags_eq if_P [OF True] by (rule ends_memo)
  next
    case False
    hence "unat vreg \<notin> {10, 11, 14}" using assms(4) by (simp add: word_unat_eq_iff)
    from main [where r = vreg and f = f and g = g, OF assms(3) this assms(5)]
    have "ends 9 b g (m, f) ((puts (logic_is vreg) g)\<lparr>g_sr_dirty := True\<rparr>) (upd_cpu (set_flags_logic 4 v) m)"
      unfolding ends_def by (fastforce intro: goes_eq)
    thus ?thesis unfolding logic_flags_eq if_not_P [OF False] by (rule ends_memo)
  qed
qed

end
