(* ===== verification/CodegenFlags.thy ===== *)
theory CodegenFlags
  imports CodegenMoves
begin

text \<open>
  The code for the condition codes of additions, subtractions and compares makes the status register that the interpreter's
  flag functions make, also for bytes and words, whose operands are shifted up to bit 31.
\<close>

subsection \<open>Flags of additions and subtractions\<close>

abbreviation sgb :: "u32 \<Rightarrow> bool" where "sgb v \<equiv> bit v 31"

text \<open>Carry or borrow, and overflow, from the sign bits of the operands and of the result.\<close>

definition carry_bit :: "bool \<Rightarrow> u32 \<Rightarrow> u32 \<Rightarrow> u32 \<Rightarrow> bool" where
  "carry_bit is_sub s d r =
     (if is_sub then (\<not> sgb d \<and> sgb s) \<or> ((\<not> sgb d \<or> sgb s) \<and> sgb r)
      else (sgb s \<and> sgb d) \<or> ((sgb s \<or> sgb d) \<and> \<not> sgb r))"

definition overflow_bit :: "bool \<Rightarrow> u32 \<Rightarrow> u32 \<Rightarrow> u32 \<Rightarrow> bool" where
  "overflow_bit is_sub s d r = ((sgb s \<noteq> (if is_sub then sgb d else sgb r)) \<and> sgb d \<noteq> sgb r)"

definition vc_bits :: "bool \<Rightarrow> u32 \<Rightarrow> u32 \<Rightarrow> u32 \<Rightarrow> u8" where
  "vc_bits is_sub s d r = (if carry_bit is_sub s d r then 1 else 0) OR (if overflow_bit is_sub s d r then 2 else 0)"

definition nzvc_bits :: "bool \<Rightarrow> u32 \<Rightarrow> u32 \<Rightarrow> u32 \<Rightarrow> u8" where
  "nzvc_bits is_sub s d r = vc_bits is_sub s d r OR nz_bits r"

definition arith_word :: "bool \<Rightarrow> bool \<Rightarrow> u32 \<Rightarrow> u32 \<Rightarrow> u32 \<Rightarrow> u16 \<Rightarrow> u16" where
  "arith_word is_sub keep_x s d r x =
     ccr_word x ((if keep_x then ucast (x AND 0x1F) AND CCR_X else if carry_bit is_sub s d r then CCR_X else 0) OR nzvc_bits is_sub s d r)"

lemma uval4: "uval 4 v = uint v"
proof -
  have "uint v < 2 ^ 32" using uint_bounded [of v] by simp
  thus ?thesis by (simp add: uval_def)
qed

lemma sgb_uint: "sgb v \<longleftrightarrow> 2 ^ 31 \<le> uint v"
  using bit_int_ge [of "uint v" 31] uint_bounded [of v] by (simp add: bit_uint_iff)

lemma carry_int: "\<lbrakk>0 \<le> s; s < 2 * K; 0 \<le> d; d < 2 * K; r = (d + s) mod (2 * K)\<rbrakk> \<Longrightarrow>
    2 * K \<le> s + d \<longleftrightarrow> (K \<le> s \<and> K \<le> d) \<or> ((K \<le> s \<or> K \<le> d) \<and> \<not> K \<le> r)" for s d r K :: int
  by (simp add: mod_add_if_z) linarith

lemma borrow_int: "\<lbrakk>0 \<le> s; s < 2 * K; 0 \<le> d; d < 2 * K; r = (d - s) mod (2 * K)\<rbrakk> \<Longrightarrow>
    d < s \<longleftrightarrow> (\<not> K \<le> d \<and> K \<le> s) \<or> ((\<not> K \<le> d \<or> K \<le> s) \<and> K \<le> r)" for s d r K :: int
  by (simp add: mod_sub_if_z) linarith

lemma add_carry: "2 ^ 32 \<le> uint s + uint d \<longleftrightarrow> carry_bit False s d (d + s)"
  using carry_int [of "uint s" "2 ^ 31" "uint d" "uint (d + s)"] uint_bounded [of s] uint_bounded [of d]
  unfolding carry_bit_def sgb_uint by (simp add: uint_word_ariths)

lemma sub_borrow: "d < s \<longleftrightarrow> carry_bit True s d (d - s)"
  using borrow_int [of "uint s" "2 ^ 31" "uint d" "uint (d - s)"] uint_bounded [of s] uint_bounded [of d]
  unfolding carry_bit_def sgb_uint word_less_def by (simp add: uint_word_ariths)

lemma op4: "op_size 4" by (simp add: op_size_def)

lemma msb4: "v AND 0x80000000 = 0 \<longleftrightarrow> \<not> sgb v" by (rule msb_bit)

lemma size4: "size_mask 4 = 0xFFFFFFFF" "size_msb 4 = 0x80000000"
  by (simp_all add: size_mask_def size_msb_def)

lemma add_word: "set_flags_add 4 s d (d + s) c = c\<lparr>sr := arith_word False False s d (d + s) (sr c)\<rparr>"
proof -
  have C: "ucast s + ucast d > (ucast (0xFFFFFFFF :: u32) :: u64) \<longleftrightarrow> carry_bit False s d (d + s)"
    using mask_carry [OF op4, of s d] by (simp add: size4 full_mask uval4 add_carry [symmetric])
  have V: "((s XOR (d + s)) AND (d XOR (d + s))) AND 0x80000000 \<noteq> 0 \<longleftrightarrow> overflow_bit False s d (d + s)"
    by (simp add: msb4 overflow_bit_def bit_simps)
  show ?thesis unfolding set_flags_add_def Let_def size4 full_mask C V set_ccr_word arith_word_def
    by (simp add: msb4 nzvc_bits_def vc_bits_def nz_bits_def CCR_X_def CCR_C_def CCR_V_def CCR_Z_def CCR_N_def)
qed

lemma sub_word: "set_flags_sub 4 s d (d - s) c = c\<lparr>sr := arith_word True False s d (d - s) (sr c)\<rparr>"
proof -
  have V: "((s XOR d) AND (d XOR (d - s))) AND 0x80000000 \<noteq> 0 \<longleftrightarrow> overflow_bit True s d (d - s)"
    by (simp add: msb4 overflow_bit_def bit_simps)
  show ?thesis unfolding set_flags_sub_def Let_def size4 full_mask sub_borrow V set_ccr_word arith_word_def
    by (simp add: msb4 nzvc_bits_def vc_bits_def nz_bits_def CCR_X_def CCR_C_def CCR_V_def CCR_Z_def CCR_N_def)
qed

lemma cmp_ccr_word: "set_flags_cmp 4 s d (d - s) c = c\<lparr>sr := arith_word True True s d (d - s) (sr c)\<rparr>"
proof -
  have V: "((s XOR d) AND (d XOR (d - s))) AND 0x80000000 \<noteq> 0 \<longleftrightarrow> overflow_bit True s d (d - s)"
    by (simp add: msb4 overflow_bit_def bit_simps)
  show ?thesis unfolding set_flags_cmp_def Let_def size4 full_mask sub_borrow V set_ccr_word arith_word_def
    by (simp add: msb4 nzvc_bits_def vc_bits_def nz_bits_def CCR_X_def CCR_C_def CCR_V_def CCR_Z_def CCR_N_def m68k_get_ccr_def ac_simps)
qed

definition addsub_is :: "bool \<Rightarrow> bool \<Rightarrow> u8 \<Rightarrow> u8 \<Rightarrow> u8 \<Rightarrow> xt_insn list" where
  "addsub_is is_sub keep_x s d r = carry_insns is_sub s d r @ overflow_insns is_sub s d r
     @ [I_extui 13 r 31 1, I_slli 12 12 1, I_or 8 11 12, I_slli 13 13 3, I_or 8 8 13]
     @ (if \<not> keep_x then [I_slli 9 11 4, I_or 8 8 9] else [])
     @ [I_movi 9 0x04, I_bnez r 6, I_or 8 8 9, I_movi 12 (if keep_x then -16 else -32), I_and R_SR R_SR 12, I_or R_SR R_SR 8]"

lemma addsub_eq: "emit_addsub_flags_long_masked is_sub keep_x s d r cc g = (puts (addsub_is is_sub keep_x s d r) g)\<lparr>g_sr_dirty := True\<rparr>"
  by (simp only: emit_addsub_flags_long_masked_def addsub_is_def Let_def)

lemma alu_Cons: "is_alu i \<Longrightarrow> alu_list (i # is) \<longleftrightarrow> alu_list is" "is_alu i \<Longrightarrow> regs_after (i # is) f = regs_after is (alu i f)"
  by (cases i; simp)+

lemma alu_list_app: "alu_list as \<Longrightarrow> alu_list bs \<Longrightarrow> alu_list (as @ bs)"
  by (induction as rule: alu_list.induct) (auto simp: alu_Cons)

lemma regs_after_app: "alu_list as \<Longrightarrow> regs_after (as @ bs) f = regs_after bs (regs_after as f)"
  by (induction as arbitrary: f rule: alu_list.induct) (auto simp: alu_Cons)

lemma addsub_ok: "alu_list (addsub_is is_sub keep_x s d r)" "length (addsub_is is_sub keep_x s d r) \<le> 25"
  "s < 16 \<Longrightarrow> d < 16 \<Longrightarrow> r < 16 \<Longrightarrow> \<forall>i\<in>set (addsub_is is_sub keep_x s d r). valid_insn i"
  using small_regs by (auto simp: addsub_is_def carry_insns_def overflow_insns_def)

text \<open>The parts of the code, each as what it leaves in its register.\<close>

lemma carry_code:
  assumes "unat s \<notin> {11, 12, 13}" "unat d \<notin> {11, 12, 13}" "unat r \<notin> {11, 12, 13}"
  shows "regs_after (carry_insns is_sub s d r) f 11 = (if carry_bit is_sub (f (unat s)) (f (unat d)) (f (unat r)) then 1 else 0)"
    and "n \<notin> {11, 12, 13} \<Longrightarrow> regs_after (carry_insns is_sub s d r) f n = f n"
  using assms by (auto simp: carry_insns_def carry_bit_def sign_bit2 [unfolded numeral_2_eq_2] bit_simps)

lemma overflow_code:
  assumes "unat s \<notin> {11, 12, 13}" "unat d \<notin> {11, 12, 13}" "unat r \<notin> {11, 12, 13}"
  shows "regs_after (overflow_insns is_sub s d r) f 12 = (if overflow_bit is_sub (f (unat s)) (f (unat d)) (f (unat r)) then 1 else 0)"
    and "n \<notin> {12, 13} \<Longrightarrow> regs_after (overflow_insns is_sub s d r) f n = f n"
  using assms by (auto simp: overflow_insns_def overflow_bit_def sign_bit2 [unfolded numeral_2_eq_2] bit_simps)

lemma insns_alu: "alu_list (carry_insns is_sub s d r)" "alu_list (overflow_insns is_sub s d r)"
  by (simp_all add: carry_insns_def overflow_insns_def)

definition pack_is :: "bool \<Rightarrow> u8 \<Rightarrow> xt_insn list" where
  "pack_is keep_x r = [I_extui 13 r 31 1, I_slli 12 12 1, I_or 8 11 12, I_slli 13 13 3, I_or 8 8 13]
     @ (if \<not> keep_x then [I_slli 9 11 4, I_or 8 8 9] else [])
     @ [I_movi 9 0x04, I_bnez r 6, I_or 8 8 9, I_movi 12 (if keep_x then -16 else -32), I_and R_SR R_SR 12, I_or R_SR R_SR 8]"

lemma addsub_split: "addsub_is is_sub keep_x s d r = carry_insns is_sub s d r @ overflow_insns is_sub s d r @ pack_is keep_x r"
  by (simp add: addsub_is_def pack_is_def)

lemma merge_ccr_x:
  assumes "x AND 0xE0 = 0" "v AND 0x1F = v"
  shows "(ucast x AND word_of_int (-32)) OR ucast v = (ucast (ccr_word x v) :: u32)"
proof -
  have "(x AND word_of_int (-32)) OR ucast v = ccr_word x v"
    using assms by (auto simp: ccr_word_def halfword_eq_bits byte_eq_bits bit_simps dest: bit_imp_le_length)
  moreover have "(ucast x AND word_of_int (-32)) OR ucast v = (ucast ((x AND word_of_int (-32)) OR ucast v) :: u32)"
    by (rule bit_word_eqI) (auto simp: bit_simps dest: bit_imp_le_length)
  ultimately show ?thesis by simp
qed

lemma pack_code:
  assumes "unat r \<notin> {8, 9, 11, 12, 13, 14}" "f 11 = (if C then 1 else 0)" "f 12 = (if V then 1 else 0)" "v = f (unat r)"
    and b: "bs = (if C then 1 else 0) OR (if V then 2 else 0) OR nz_bits v"
    and "f 14 = ucast x" "x AND 0xE0 = 0"
  shows "regs_after (pack_is keep_x r) f 14 =
    ucast (ccr_word x ((if keep_x then ucast (x AND 0x1F) AND CCR_X else if C then CCR_X else 0) OR bs))"
proof -
  have low: "bs AND 0x0F = bs" "((if C then CCR_X else 0) OR bs) AND 0x1F = (if C then CCR_X else 0) OR bs"
    by (simp_all add: b nz_bits_def CCR_X_def)
  have v: "ucast bs = (((if C then 1 else 0) OR (if V then 2 else 0)) OR (if sgb v then 8 else 0)) OR (if v = 0 then 4 else 0 :: u32)"
    "ucast ((if C then CCR_X else 0) OR bs) = ((((if C then 1 else 0) OR (if V then 2 else 0)) OR (if sgb v then 8 else 0)) OR (if C then 16 else 0)) OR (if v = 0 then 4 else 0 :: u32)"
    by (simp_all add: b nz_bits_def CCR_X_def)
  show ?thesis
    using assms(1-4,6) merge_ccr [OF assms(7) low(1)] merge_ccr_x [OF assms(7) low(2)] unfolding v
    by (cases keep_x; cases C; cases V; cases "v = 0"; cases "sgb v") (simp_all add: pack_is_def sign_bit2 [unfolded numeral_2_eq_2])
qed

lemma pack_ok: "alu_list (pack_is keep_x r)" "n \<notin> {8, 9, 12, 13, 14} \<Longrightarrow> regs_after (pack_is keep_x r) f n = f n"
  by (auto simp: pack_is_def)

lemma addsub_regs: "unat s \<notin> {11, 12, 13} \<Longrightarrow> unat d \<notin> {11, 12, 13} \<Longrightarrow> unat r \<notin> {11, 12, 13} \<Longrightarrow> n \<notin> {8, 9, 11, 12, 13, 14} \<Longrightarrow>
    regs_after (addsub_is is_sub keep_x s d r) f n = f n"
  by (simp add: addsub_split regs_after_app insns_alu pack_ok carry_code overflow_code)

lemma addsub_code:
  assumes "unat s \<notin> {11, 12, 13, 14}" "unat d \<notin> {11, 12, 13, 14}" "unat r \<notin> {8, 9, 11, 12, 13, 14}"
    and "f 14 = ucast x" "x AND 0xE0 = 0"
  shows "regs_after (addsub_is is_sub keep_x s d r) f 14 =
    ucast (arith_word is_sub keep_x (f (unat s)) (f (unat d)) (f (unat r)) x)"
proof -
  let ?c = "regs_after (carry_insns is_sub s d r) f"
  let ?o = "regs_after (overflow_insns is_sub s d r) ?c"
  have k: "n \<notin> {11, 12, 13} \<Longrightarrow> ?c n = f n" for n using carry_code(2) assms(1-3) by simp
  have o: "?o 11 = ?c 11" "n \<notin> {11, 12, 13} \<Longrightarrow> ?o n = f n" for n
    using overflow_code(2) [of s d r _ is_sub ?c] assms(1-3) k by simp_all
  have v: "?o 12 = (if overflow_bit is_sub (f (unat s)) (f (unat d)) (f (unat r)) then 1 else 0)"
    using overflow_code(1) [of s d r is_sub ?c] assms(1-3) k by simp
  have c: "?o 11 = (if carry_bit is_sub (f (unat s)) (f (unat d)) (f (unat r)) then 1 else 0)"
    using carry_code(1) [of s d r is_sub f] assms(1-3) o(1) by simp
  have "regs_after (addsub_is is_sub keep_x s d r) f 14 = regs_after (pack_is keep_x r) ?o 14"
    by (simp add: addsub_split regs_after_app insns_alu)
  thus ?thesis
    using pack_code [OF assms(3) c v _ refl _ assms(5), of "f (unat r)" keep_x] o(2) assms
    by (simp add: arith_word_def nzvc_bits_def vc_bits_def or.assoc)
qed

text \<open>The function of the flags the interpreter applies.\<close>

definition arith_flags :: "bool \<Rightarrow> bool \<Rightarrow> nat \<Rightarrow> u32 \<Rightarrow> u32 \<Rightarrow> u32 \<Rightarrow> m68k_cpu \<Rightarrow> m68k_cpu" where
  "arith_flags is_sub keep_x = (if keep_x then set_flags_cmp else if is_sub then set_flags_sub else set_flags_add)"

lemma arith_flags_word: "is_sub \<or> \<not> keep_x \<Longrightarrow> r = (if is_sub then d - s else d + s) \<Longrightarrow>
    arith_flags is_sub keep_x 4 s d r c = c\<lparr>sr := arith_word is_sub keep_x s d r (sr c)\<rparr>"
  by (auto simp: arith_flags_def add_word sub_word cmp_ccr_word)

lemma H_addsub:
  assumes "b_live b" "sr_clean m" "s < 16" "d < 16" "r < 16"
    and "unat s \<notin> {11, 12, 13, 14}" "unat d \<notin> {11, 12, 13, 14}" "unat r \<notin> {8, 9, 11, 12, 13, 14}"
    and "is_sub \<or> \<not> keep_x" "f (unat r) = (if is_sub then f (unat d) - f (unat s) else f (unat d) + f (unat s))"
  shows "goes 25 b g (m, f) (emit_addsub_flags_long_masked is_sub keep_x s d r cc g)
    (upd_cpu (arith_flags is_sub keep_x 4 (f (unat s)) (f (unat d)) (f (unat r))) m, regs_after (addsub_is is_sub keep_x s d r) f)"
  unfolding addsub_eq
proof (rule goes_eq [OF H_flags [OF assms(1) arith_flags_word [OF assms(9,10)]] refl refl])
  show "regs_after (addsub_is is_sub keep_x s d r) f 14 = ucast (arith_word is_sub keep_x (f (unat s)) (f (unat d)) (f (unat r)) (sr (m_cpu m)))"
    if "f 14 = ucast (sr (m_cpu m))"
    by (rule addsub_code) (use assms(2,6-8) that in \<open>simp_all add: sr_clean_def\<close>)
  show "regs_after (addsub_is is_sub keep_x s d r) f n = f n" if "n \<in> fixed" "n \<noteq> 14" for n
    by (rule addsub_regs) (use assms(6-8) that in auto)
qed (use addsub_ok assms(3-5) in auto)

subsection \<open>Operands shifted up to bit 31\<close>

lemma uval_push: "op_size sz \<Longrightarrow> uval 4 (push_bit (32 - 8 * sz) v) = 2 ^ (32 - 8 * sz) * uval sz v"
proof -
  assume "op_size sz"
  moreover have "uint (push_bit n v) = 2 ^ n * (uint v mod 2 ^ (32 - n))" if "n \<le> 32" for n
  proof -
    have "uint (push_bit n v) = take_bit 32 (push_bit n (uint v))" by (simp add: unsigned_push_bit_eq)
    also have "\<dots> = push_bit n (take_bit (32 - n) (uint v))" using that by (simp add: take_bit_push_bit)
    finally show ?thesis by (simp add: push_bit_eq_mult take_bit_eq_mod)
  qed
  ultimately show ?thesis unfolding uval4 by (auto simp: op_size_def uval_def)
qed

lemma push_cmp: "op_size sz \<Longrightarrow> uval 4 (push_bit (32 - 8 * sz) s) < uval 4 (push_bit (32 - 8 * sz) d) \<longleftrightarrow> uval sz s < uval sz d"
  "op_size sz \<Longrightarrow> uval 4 (push_bit (32 - 8 * sz) s) = 0 \<longleftrightarrow> uval sz s = 0"
  "op_size sz \<Longrightarrow> 2 ^ (8 * 4 - 1) \<le> uval 4 (push_bit (32 - 8 * sz) s) \<longleftrightarrow> 2 ^ (8 * sz - 1) \<le> uval sz s"
  "op_size sz \<Longrightarrow> 2 ^ (8 * 4) \<le> uval 4 (push_bit (32 - 8 * sz) s) + uval 4 (push_bit (32 - 8 * sz) d) \<longleftrightarrow> 2 ^ (8 * sz) \<le> uval sz s + uval sz d"
  unfolding uval_push by (auto simp: op_size_def)

lemma shifted_flags:
  assumes "op_size sz"
  shows "arith_flags is_sub keep_x 4 (push_bit (32 - 8 * sz) s) (push_bit (32 - 8 * sz) d) (push_bit (32 - 8 * sz) r) c =
    arith_flags is_sub keep_x sz s d r c"
proof -
  note to_ints = mask_eq_0 [OF assms] mask_eq_0 [OF op4] mask_less [OF assms] mask_less [OF op4] mask_neg [OF assms] mask_neg [OF op4]
    mask_carry [OF assms] mask_carry [OF op4] mask_xor_msb [OF assms] mask_xor_msb [OF op4] push_cmp [OF assms]
  let ?p = "\<lambda>v. push_bit (32 - 8 * sz) v :: u32"
  have "set_flags_cmp 4 (?p s) (?p d) (?p r) c = set_flags_cmp sz s d r c"
    unfolding set_flags_cmp_def Let_def to_ints by (rule refl)
  moreover have "set_flags_sub 4 (?p s) (?p d) (?p r) c = set_flags_sub sz s d r c"
    unfolding set_flags_sub_def Let_def to_ints by (rule refl)
  moreover have "set_flags_add 4 (?p s) (?p d) (?p r) c = set_flags_add sz s d r c"
    unfolding set_flags_add_def Let_def to_ints by (rule refl)
  ultimately show ?thesis by (simp add: arith_flags_def)
qed

lemma shifted_logic: "op_size sz \<Longrightarrow> set_flags_logic 4 (push_bit (32 - 8 * sz) r) c = set_flags_logic sz r c"
  unfolding set_flags_logic_def Let_def by (simp only: mask_eq_0 mask_eq_0 [OF op4] msb_in_mask msb_in_mask [OF op4] push_cmp)

end
