(* ===== verification/CodegenRules.thy ===== *)
theory CodegenRules
  imports CodegenFlags
begin

text \<open>
  A calculus for emitters: \<open>wp\<close> is what holds of the guest machine and of the registers after the code of an emitter, its rules
  go from the piece emitted last to the first. With it the first emitters: what their code does to the guest machine.
\<close>

subsection \<open>Small facts for the emitters\<close>

lemma puts_app: "puts (is @ js) g = puts js (puts is g)"
  by (simp add: puts_def)

lemma const_eq: "emit_logic_flags_const v g = sext_memo_invalidate ((puts ([I_movi 10 (-16), I_and R_SR R_SR 10] @
    (if nz_bits v \<noteq> 0 then [I_movi 10 (uint (nz_bits v)), I_or R_SR R_SR 10] else [])) g)\<lparr>g_sr_dirty := True\<rparr>)"
  unfolding emit_logic_flags_const_def Let_def puts_app nz_bits_def
  by (cases "bit v 31"; cases "v = 0") (simp_all add: msb_bit del: puts_simps, simp_all)

lemma nz_bits_range: "- 2048 \<le> uint (nz_bits v) \<and> uint (nz_bits v) \<le> 2047"
  by (simp add: nz_bits_def)

lemma H_logic_const:
  assumes "b_live b" "sr_clean m"
  shows "ends 4 b g (m, f) (emit_logic_flags_const v g) (upd_cpu (set_flags_logic 4 v) m)"
proof -
  let ?is = "[I_movi 10 (-16), I_and R_SR R_SR 10] @ (if nz_bits v \<noteq> 0 then [I_movi 10 (uint (nz_bits v)), I_or R_SR R_SR 10] else [])"
  have w: "word_of_int (uint (nz_bits v)) = (ucast (nz_bits v) :: u32)" by (rule ucast_eq [symmetric])
  have "goes (length ?is) b g (m, f) ((puts ?is g)\<lparr>g_sr_dirty := True\<rparr>) (upd_cpu (set_flags_logic 4 v) m, regs_after ?is f)"
  proof (rule H_flags [OF assms(1) logic_word])
    show "regs_after ?is f 14 = ucast (ccr_word (sr (m_cpu m)) ((ucast (sr (m_cpu m) AND 0x1F) AND CCR_X) OR nz_bits v))"
      if "f 14 = ucast (sr (m_cpu m))"
      using merge_ccr [of "sr (m_cpu m)" "nz_bits v", OF _ nz_bits_low] assms(2) that
      by (cases "nz_bits v = 0") (auto simp: sr_clean_def w)
    show "\<forall>i\<in>set ?is. valid_insn i" using nz_bits_range [of v] small_regs by auto
  qed auto
  thus ?thesis unfolding const_eq by (intro ends_memo) (erule ends_goes, simp)
qed

definition tick :: "int \<Rightarrow> int \<Rightarrow> machine \<Rightarrow> machine" where
  "tick p c m = upd_cpu (\<lambda>x. x\<lparr>pc := pc x + word_of_int p, cycles := cycles x + word_of_int c\<rparr>) m"

lemma holds_advance: "holds b g s m \<Longrightarrow> holds b (emit_advance p c g) s (tick p c m)"
proof -
  assume h: "holds b g s m"
  hence m: "m = vmach (b_live b) g s" by (simp add: holds_def)
  have "vmach (b_live b) (emit_advance p c g) s = tick p c m"
    unfolding m vmach_def vcpu_def tick_def emit_advance_def by (simp add: algebra_simps cong: if_cong)
  thus ?thesis using h by (cases "b_live b") (simp_all add: holds_def emit_advance_def loc_def)
qed

lemma ends_advance: "ends n b g A g' m \<Longrightarrow> ends n b g A (emit_advance p c g') (tick p c m)"
proof -
  assume "ends n b g A g' m"
  then obtain f' where "goes n b g A g' (m, f')" unfolding ends_def by blast
  hence "goes n b g A (emit_advance p c g') (tick p c m, f')"
    unfolding goes_def using emits_mono holds_advance by (fastforce simp: emits_def emit_advance_def)
  thus ?thesis unfolding ends_def by blast
qed

lemma ends_goes': "ends n b g A g' m' \<Longrightarrow> m' = m'' \<Longrightarrow> n \<le> k \<Longrightarrow> ends k b g A g' m''"
  unfolding ends_def by (blast intro: goes_eq)

lemma ends_seq: "ends k b g A g1 m1 \<Longrightarrow> (\<And>f. ends l b g1 (m1, f) g2 m2) \<Longrightarrow> k + l \<le> n \<Longrightarrow> ends n b g A g2 m2"
  unfolding ends_def by (blast intro: goes_eq goes_seq)

lemma sr_set_g [simp]: "sr (m_cpu (set_g gi v m)) = sr (m_cpu m)" "sr_clean (set_g gi v m) = sr_clean m"
  by (simp_all add: set_g_def set_dreg_def set_areg_def sr_clean_def)

text \<open>Registers after an instruction, one at a time.\<close>

lemma alu_at:
  "alu (I_and r x y) f n = (if n = unat r then f (unat x) AND f (unat y) else f n)"
  "alu (I_or r x y) f n = (if n = unat r then f (unat x) OR f (unat y) else f n)"
  "alu (I_xor r x y) f n = (if n = unat r then f (unat x) XOR f (unat y) else f n)"
  "alu (I_add r x y) f n = (if n = unat r then f (unat x) + f (unat y) else f n)"
  "alu (I_addx2 r x y) f n = (if n = unat r then 2 * f (unat x) + f (unat y) else f n)"
  "alu (I_sub r x y) f n = (if n = unat r then f (unat x) - f (unat y) else f n)"
  "alu (I_mov r x) f n = (if n = unat r then f (unat x) else f n)"
  "alu (I_addi r x i) f n = (if n = unat r then f (unat x) + word_of_int i else f n)"
  "alu (I_movi r i) f n = (if n = unat r then word_of_int i else f n)"
  "alu (I_slli r x k) f n = (if n = unat r then push_bit (unat k) (f (unat x)) else f n)"
  "alu (I_srli r x k) f n = (if n = unat r then drop_bit (unat k) (f (unat x)) else f n)"
  "alu (I_srai r x k) f n = (if n = unat r then signed_drop_bit (unat k) (f (unat x)) else f n)"
  "alu (I_extui r x k l) f n = (if n = unat r then take_bit (unat l + 1) (drop_bit (unat k) (f (unat x))) else f n)"
  by simp_all

lemma regs_nil: "regs_after [] f = f" by simp

declare alu.simps [simp del] alu_at [simp]

text \<open>A register written, a guest register read in place, a slot written.\<close>

definition setr :: "nat \<Rightarrow> u32 \<Rightarrow> (nat \<Rightarrow> u32) \<Rightarrow> nat \<Rightarrow> u32" where "setr r v f = f(r := v)"

definition rdin :: "nat \<Rightarrow> regcache \<Rightarrow> nat \<Rightarrow> u8 \<Rightarrow> u32 \<Rightarrow> (nat \<Rightarrow> u32) \<Rightarrow> nat \<Rightarrow> u32" where
  "rdin d rc gi k v f = (rd rc gi k v f)(d := v)"

definition wrs :: "regcache \<Rightarrow> nat \<Rightarrow> u32 \<Rightarrow> (nat \<Rightarrow> u32) \<Rightarrow> nat \<Rightarrow> u32" where
  "wrs rc gi v f = (\<lambda>n. if 8 \<le> n then f n else wr rc gi v f n)"

lemma regs_at [simp]: "setr r v f n = (if n = r then v else f n)"
  "n \<noteq> unat k \<Longrightarrow> rdin d rc gi k v f n = (if n = d then v else f n)" "rdin d rc gi k v f d = v"
  "8 \<le> n \<Longrightarrow> wrs rc gi v f n = f n"
  by (simp_all add: setr_def rdin_def wrs_def rd_other)

subsection \<open>A calculus for emitters\<close>

text \<open>From the start of an emitter with guest machine and registers A, the compiler state \<open>g'\<close> is reached with a guest machine and registers
  satisfying Q. The rules work from the last emitted piece back to the first.\<close>

definition wp :: "blk \<Rightarrow> cg \<Rightarrow> machine \<times> (nat \<Rightarrow> u32) \<Rightarrow> cg \<Rightarrow> (machine \<Rightarrow> (nat \<Rightarrow> u32) \<Rightarrow> bool) \<Rightarrow> bool" where
  "wp b g A g' Q \<longleftrightarrow> (\<forall>s. holds b g s (fst A) \<and> xs_a s = snd A \<longrightarrow>
     (\<exists>n. emits n g g' s (\<lambda>s'. \<exists>m'. holds b g' s' m' \<and> Q m' (xs_a s'))))"

named_theorems wps \<open>rules of the calculus for emitters\<close>

lemma wp_start: "Q m f \<Longrightarrow> wp b g (m, f) g Q"
  unfolding wp_def by (fastforce intro: emits_nothing)

lemma wp_step: "wp b g A g1 P \<Longrightarrow> (\<And>m f. P m f \<Longrightarrow> wp b g1 (m, f) g2 Q) \<Longrightarrow> wp b g A g2 Q"
proof -
  assume 1: "wp b g A g1 P" and 2: "\<And>m f. P m f \<Longrightarrow> wp b g1 (m, f) g2 Q"
  show ?thesis unfolding wp_def
  proof (intro allI impI)
    fix s assume "holds b g s (fst A) \<and> xs_a s = snd A"
    then obtain n where n: "emits n g g1 s (\<lambda>s'. \<exists>m'. holds b g1 s' m' \<and> P m' (xs_a s'))" using 1 unfolding wp_def by blast
    then obtain s1 m1 where "run_code (drop (length (cg_code g)) (cg_code g1)) (0, s) = (0, s1)" "holds b g1 s1 m1" "P m1 (xs_a s1)"
      unfolding emits_def by force
    moreover from this 2 obtain l where l: "emits l g1 g2 s1 (\<lambda>s'. \<exists>m'. holds b g2 s' m' \<and> Q m' (xs_a s'))" unfolding wp_def by fastforce
    ultimately have "emits n g g1 s (\<lambda>s'. s' = s1)" using n unfolding emits_def by force
    hence "emits (n + l) g g2 s (\<lambda>s'. \<exists>m'. holds b g2 s' m' \<and> Q m' (xs_a s'))" by (rule emits_seq) (use l in auto)
    thus "\<exists>n. emits n g g2 s (\<lambda>s'. \<exists>m'. holds b g2 s' m' \<and> Q m' (xs_a s'))" by blast
  qed
qed

lemma wp_goes: "goes n b g (m, f) g' (m', f') \<Longrightarrow> Q m' f' \<Longrightarrow> wp b g (m, f) g' Q"
  unfolding wp_def goes_def by (fastforce elim: emits_mono)

lemma wp_ends: "ends n b g (m, f) g' m' \<Longrightarrow> (\<And>f'. Q m' f') \<Longrightarrow> wp b g (m, f) g' Q"
  unfolding ends_def by (blast intro: wp_goes)

lemma wp_coh: "(coh g m f \<Longrightarrow> wp b g (m, f) g' Q) \<Longrightarrow> wp b g (m, f) g' Q"
  unfolding wp_def using holds_coh by fastforce

lemma wp_put [wps]:
  assumes "is_alu i" "valid_insn i" "\<forall>f. \<forall>r\<in>fixed. alu i f r = f r" "wp b g A g1 (\<lambda>m f. Q m (alu i f))"
  shows "wp b g A (put i g1) Q"
  by (rule wp_step [OF assms(4)], rule wp_goes [OF H_put]) (use assms(1-3) in auto)

lemma wp_puts [wps]:
  assumes "alu_list is" "\<forall>i\<in>set is. valid_insn i" "\<forall>f. \<forall>r\<in>fixed. regs_after is f r = f r" "wp b g A g1 (\<lambda>m f. Q m (regs_after is f))"
  shows "wp b g A (puts is g1) Q"
  by (rule wp_step [OF assms(4)], rule wp_goes [OF H_puts]) (use assms(1-3) in auto)

lemma wp_read [wps]:
  assumes "scratch dst" "gi < 16" "wp b g A g1 (\<lambda>m f. Q m (setr (unat dst) (greg (m_cpu m) gi) f))"
  shows "wp b g A (emit_read_g gi dst g1) Q"
  by (rule wp_step [OF assms(3)], rule wp_goes [OF H_read]) (use assms(1,2) in \<open>simp_all add: setr_def\<close>)

lemma rd_frame: "rd rc gi k v f n = f n" if "n \<noteq> unat k" using that by (rule rd_other)

text \<open>After a read in place the operand is in \<open>dst_of\<close>; after a write only the slots may have changed.\<close>

lemma wp_read_in [wps]:
  assumes "scratch k" "gi < 16"
    and "wp b g A g1 (\<lambda>m f. Q m (rdin (unat (dst_of gi k g1)) (cg_rc g1) gi k (greg (m_cpu m) gi) f))"
  shows "wp b g A (read_in gi k g1) Q"
proof (rule wp_step [OF assms(3)], rule wp_coh)
  fix m f
  assume Q: "Q m (rdin (unat (dst_of gi k g1)) (cg_rc g1) gi k (greg (m_cpu m) gi) f)" and c: "coh g1 m f"
  have "rdin (unat (dst_of gi k g1)) (cg_rc g1) gi k (greg (m_cpu m) gi) f = rd (cg_rc g1) gi k (greg (m_cpu m) gi) f"
    using rd_dst [OF c assms(2), of k] by (simp add: rdin_def fun_upd_idem_iff)
  thus "wp b g1 (m, f) (read_in gi k g1) Q" using Q by (intro wp_goes [OF H_read_in [OF assms(1,2)]]) simp
qed

lemma wp_write [wps]:
  assumes "scratch src" "gi < 16"
    and "wp b g A g1 (\<lambda>m f. Q (set_g gi (f (unat src)) m) (wrs (cg_rc g1) gi (f (unat src)) f))"
  shows "wp b g A (emit_write_g gi src g1) Q"
proof (rule wp_step [OF assms(3)], rule wp_coh)
  fix m f
  assume Q: "Q (set_g gi (f (unat src)) m) (wrs (cg_rc g1) gi (f (unat src)) f)" and c: "coh g1 m f"
  have "(wrs (cg_rc g1) gi (f (unat src)) f) = wr (cg_rc g1) gi (f (unat src)) f"
    using wr_high c by (auto simp: coh_def fun_eq_iff wrs_def)
  thus "wp b g1 (m, f) (emit_write_g gi src g1) Q" using Q by (intro wp_goes [OF H_write [OF assms(1,2)]]) simp
qed

lemma wp_commit [wps]:
  assumes "alu_list is" "\<forall>i\<in>set is. valid_insn i" "scratch k" "gi < 16"
    and "\<forall>f. \<forall>r\<in>fixed. r \<noteq> unat (dst_of gi k g1) \<longrightarrow> regs_after is f r = f r"
    and "wp b g A g1 (\<lambda>m f. Q (set_g gi (regs_after is f (unat (dst_of gi k g1))) m) (regs_after is f))"
  shows "wp b g A (commit_g gi k (puts is g1)) Q"
  by (rule wp_step [OF assms(6)], rule wp_goes [OF H_commit [OF assms(1-4)]]) (use assms(5) in auto)

lemma wp_commit_read [wps]:
  assumes "scratch k" "gi < 16" "gs < 16"
    and "wp b g A g1 (\<lambda>m f. Q (set_g gi (greg (m_cpu m) gs) m) (setr (unat (dst_of gi k g1)) (greg (m_cpu m) gs) f))"
  shows "wp b g A (commit_g gi k (emit_read_g gs (dst_of gi k g1) g1)) Q"
  by (rule wp_step [OF assms(4)], rule wp_goes [OF H_commit_read [OF assms(1-3)]]) (simp add: setr_def)

lemma wp_logic [wps]:
  assumes "b_live b" "vreg < 16" "unat vreg \<noteq> 14" "wp b g A g1 (\<lambda>m f. sr_clean m \<and> (\<forall>f'. Q (upd_cpu (set_flags_logic 4 (f (unat vreg))) m) f'))"
  shows "wp b g A (emit_logic_flags vreg g1) Q"
  by (rule wp_step [OF assms(4)], rule wp_ends [OF H_logic [OF assms(1) _ assms(2,3) refl]]) auto

lemma wp_logic_const [wps]:
  assumes "b_live b" "wp b g A g1 (\<lambda>m f. sr_clean m \<and> (\<forall>f'. Q (upd_cpu (set_flags_logic 4 v) m) f'))"
  shows "wp b g A (emit_logic_flags_const v g1) Q"
  by (rule wp_step [OF assms(2)], rule wp_ends [OF H_logic_const [OF assms(1)]]) auto

lemma wp_addsub [wps]:
  assumes "b_live b" "s < 16" "d < 16" "r < 16"
    and "unat s \<notin> {11, 12, 13, 14}" "unat d \<notin> {11, 12, 13, 14}" "unat r \<notin> {8, 9, 11, 12, 13, 14}" "is_sub \<or> \<not> keep_x"
    and "wp b g A g1 (\<lambda>m f. sr_clean m \<and> f (unat r) = (if is_sub then f (unat d) - f (unat s) else f (unat d) + f (unat s)) \<and>
           (\<forall>f'. Q (upd_cpu (arith_flags is_sub keep_x 4 (f (unat s)) (f (unat d)) (f (unat r))) m) f'))"
  shows "wp b g A (emit_addsub_flags_long_masked is_sub keep_x s d r cc g1) Q"
  by (rule wp_step [OF assms(9)], rule wp_goes [OF H_addsub [OF assms(1) _ assms(2-8)]]) auto

lemma wp_advance [wps]:
  assumes "wp b g A g1 (\<lambda>m f. Q (tick p c m) f)"
  shows "wp b g A (emit_advance p c g1) Q"
proof (rule wp_step [OF assms])
  fix m f assume Q: "Q (tick p c m) f"
  show "wp b g1 (m, f) (emit_advance p c g1) Q" unfolding wp_def
  proof (intro allI impI exI [of _ 0] emits_nothing)
    fix s assume "holds b g1 s (fst (m, f)) \<and> xs_a s = snd (m, f)"
    thus "\<exists>m'. holds b (emit_advance p c g1) s m' \<and> Q m' (xs_a s)" using holds_advance Q by fastforce
  qed (simp_all add: emit_advance_def)
qed

lemma wp_memo [wps]: "wp b g A g1 Q \<Longrightarrow> wp b g A (sext_memo_invalidate g1) Q"
  by (simp add: wp_def emits_def holds_def sext_memo_invalidate_def vmach_def vcpu_def loc_def cong: if_cong)

lemma dst_dst [simp]: "dst_of gi k (commit_g gj l g) = dst_of gi k g" "dst_of gi k (emit_write_g gj l g) = dst_of gi k g"
  by (rule dst_of_rc, simp)+

lemma dst_ok:
  assumes "coh g m f"
  shows "dst_of gi 8 g < 16" "dst_of gi 9 g < 16" "dst_of gi 10 g < 16"
    "unat (dst_of gi 8 g) \<noteq> 9 \<and> unat (dst_of gi 8 g) \<noteq> 10 \<and> unat (dst_of gi 8 g) \<noteq> 11 \<and> unat (dst_of gi 8 g) \<noteq> 12 \<and>
     unat (dst_of gi 8 g) \<noteq> 13 \<and> unat (dst_of gi 8 g) \<noteq> 14"
    "unat (dst_of gi 9 g) \<noteq> 8 \<and> unat (dst_of gi 9 g) \<noteq> 10 \<and> unat (dst_of gi 9 g) \<noteq> 11 \<and> unat (dst_of gi 9 g) \<noteq> 12 \<and>
     unat (dst_of gi 9 g) \<noteq> 13 \<and> unat (dst_of gi 9 g) \<noteq> 14"
    "unat (dst_of gi 10 g) \<noteq> 8 \<and> unat (dst_of gi 10 g) \<noteq> 9 \<and> unat (dst_of gi 10 g) \<noteq> 11 \<and> unat (dst_of gi 10 g) \<noteq> 12 \<and>
     unat (dst_of gi 10 g) \<noteq> 13 \<and> unat (dst_of gi 10 g) \<noteq> 14"
proof -
  have d: "dst_of gi k g < 16 \<and> (unat (dst_of gi k g) < 8 \<or> unat (dst_of gi k g) = unat k)" if "scratch k" for k
    using dst_reg [of g k gi] assms that by (auto simp: coh_def)
  note d8 = d [of 8, simplified] note d9 = d [of 9, simplified] note d10 = d [of 10, simplified]
  show "dst_of gi 8 g < 16" "dst_of gi 9 g < 16" "dst_of gi 10 g < 16" using d8 d9 d10 by simp_all
  show "unat (dst_of gi 8 g) \<noteq> 9 \<and> unat (dst_of gi 8 g) \<noteq> 10 \<and> unat (dst_of gi 8 g) \<noteq> 11 \<and> unat (dst_of gi 8 g) \<noteq> 12 \<and>
     unat (dst_of gi 8 g) \<noteq> 13 \<and> unat (dst_of gi 8 g) \<noteq> 14" using d8 by linarith
  show "unat (dst_of gi 9 g) \<noteq> 8 \<and> unat (dst_of gi 9 g) \<noteq> 10 \<and> unat (dst_of gi 9 g) \<noteq> 11 \<and> unat (dst_of gi 9 g) \<noteq> 12 \<and>
     unat (dst_of gi 9 g) \<noteq> 13 \<and> unat (dst_of gi 9 g) \<noteq> 14" using d9 by linarith
  show "unat (dst_of gi 10 g) \<noteq> 8 \<and> unat (dst_of gi 10 g) \<noteq> 9 \<and> unat (dst_of gi 10 g) \<noteq> 11 \<and> unat (dst_of gi 10 g) \<noteq> 12 \<and>
     unat (dst_of gi 10 g) \<noteq> 13 \<and> unat (dst_of gi 10 g) \<noteq> 14" using d10 by linarith
qed

lemma dst_same:
  assumes "coh g m f" "scratch k" "scratch l" "k \<noteq> l"
  shows "unat (dst_of gi k g) = unat (dst_of gj l g) \<longleftrightarrow> gi = gj \<and> rc_xt (cg_rc g) gi \<noteq> None"
proof -
  have rc: "rc_ok (cg_rc g)" using assms(1) by (simp add: coh_def)
  have kl: "8 \<le> unat k" "8 \<le> unat l" using assms(2,3) by (simp_all add: word_le_nat_alt)
  show ?thesis
    using rc_slot [OF rc, of gi] rc_slot [OF rc, of gj] rc_distinct [OF rc, of gi _ gj] kl assms(4)
    by (cases "rc_xt (cg_rc g) gi"; cases "rc_xt (cg_rc g) gj") (auto simp: dst_of_def cache_lookup_def word_unat_eq_iff [symmetric])
qed

lemmas dst_same_pairs = dst_same [of _ _ _ 8 9, simplified] dst_same [of _ _ _ 9 8, simplified] dst_same [of _ _ _ 8 10, simplified]

lemma G_inj [simp]: "G_D n = G_D k \<longleftrightarrow> n mod 8 = k mod 8" "G_A n = G_A k \<longleftrightarrow> n mod 8 = k mod 8" "G_A n \<noteq> G_D k"
  by (auto simp: G_D_def G_A_def)

lemma guest_low [simp]: "G_D n < 16" "G_A n < 16" "G_D n < 8" "\<not> G_A n < 8" "G_D n \<noteq> G_A k" "G_A n - 8 = n mod 8"
  by (simp_all add: G_D_def G_A_def)

lemma wp_commit_put [wps]:
  assumes "is_alu i" "valid_insn i" "scratch k" "gi < 16"
    and "\<forall>f. \<forall>r\<in>fixed. r \<noteq> unat (dst_of gi k g1) \<longrightarrow> alu i f r = f r"
    and "wp b g A g1 (\<lambda>m f. Q (set_g gi (alu i f (unat (dst_of gi k g1))) m) (alu i f))"
  shows "wp b g A (commit_g gi k (put i g1)) Q"
  using wp_commit [of "[i]" k gi g1 b g A Q] assms by (simp add: alu_Cons)

lemmas plain = Let_def if_True if_False simp_thms prod.case read_in_eq G_D_def [symmetric]

lemma sint8_range: "- 128 \<le> sint x \<and> sint x \<le> 127" for x :: u8
  using sint_ge [of x] sint_lt [of x] by simp

lemma guest_regs [simp]: "greg c (G_D n) = dreg c (n mod 8)" "greg c (G_A n) = areg c (n mod 8)"
  by (simp_all add: greg_def G_D_def G_A_def)

text \<open>Reading in place and committing, as the emitters spell them.\<close>

lemma commit_if: "rc_xt (cg_rc g') = rc_xt (cg_rc g) \<Longrightarrow>
    (if cache_lookup (cg_rc g') gi \<noteq> None then mark_dirty gi g else emit_write_g gi k g) = commit_g gi k g"
  by (auto simp: commit_g_def cache_lookup_def emit_write_g_def)

lemma read_if: "rc_xt (cg_rc g') = rc_xt (cg_rc g) \<Longrightarrow> (if cache_lookup (cg_rc g') gi = None then emit_read_g gi k g else g) = read_in gi k g"
  by (simp add: read_in_def cache_lookup_def)

lemmas in_place = commit_if read_if rc_fields puts_fields put_fields dst_fields

lemmas spelled = commit_g_def read_in_def emit_write_g_def cache_lookup_def

lemma movi_byte: "- 2048 \<le> sint x \<and> sint x \<le> 2047" for x :: u8
  using sint8_range [of x] by linarith

lemma E_moveq:
  assumes "b_live b" "sr_clean m" "v = sx8 (ucast (w AND 0xFF))"
  shows "wp b g (m, f) (emit_moveq w False g) (\<lambda>m' f'. m' = tick 2 4 (upd_cpu (set_flags_logic 4 v) (set_g (G_D (opf w 9 7)) v m)))"
proof (rule wp_coh)
  assume c: "coh g m f"
  have v: "word_of_int (sint (ucast (w AND 0xFF) :: u8)) = v" unfolding assms(3) by (rule scast_eq [symmetric])
  show ?thesis unfolding emit_moveq_def plain v
    by (intro wps wp_start) (use assms v dst_ok [OF c] movi_byte [of "ucast (w AND 0xFF)"] in auto)
qed

lemma E_move_l:
  assumes "b_live b" "sr_clean m" "gs < 16"
  shows "wp b g (m, f) (move_l_reg dn gs False g) (\<lambda>m' f'. m' =
    (let v = greg (m_cpu m) gs in tick 2 8 (upd_cpu (set_flags_logic 4 v) (set_g (G_D dn) v m))))"
proof (rule wp_coh)
  assume c: "coh g m f"
  show ?thesis unfolding move_l_reg_def plain
    by (intro wps wp_start) (use assms in \<open>simp_all add: dst_ok [OF c]\<close>)
qed

lemma E_addq_l:
  assumes "b_live b" "sr_clean m" "1 \<le> k" "k \<le> 8"
  shows "wp b g (m, f) (emit_addq_l_dd dn k is_sub False g) (\<lambda>m' f'. m' =
    (let d = greg (m_cpu m) (G_D dn); s = word_of_nat k; r = (if is_sub then d - s else s + d)
     in tick 2 8 (upd_cpu (arith_flags is_sub False 4 s d r) (set_g (G_D dn) r m))))"
  unfolding emit_addq_l_dd_def emit_addsub_flags_long_def emit_addsub_flags_long_ex_def plain
  by (cases is_sub; intro wps wp_start) (use assms in simp_all)

lemma swap_word: "push_bit 16 v OR take_bit 16 (drop_bit 16 v) = drop_bit 16 v OR push_bit 16 v" for v :: u32
  by (rule bit_word_eqI) (auto simp: bit_simps dest: bit_imp_le_length)

lemma E_swap:
  assumes "b_live b" "sr_clean m"
  shows "wp b g (m, f) (emit_swap dn False g) (\<lambda>m' f'. m' =
    (let v = greg (m_cpu m) (G_D dn); v = drop_bit 16 v OR push_bit 16 v
     in tick 2 4 (upd_cpu (set_flags_logic 4 v) (set_g (G_D dn) v m))))"
  unfolding emit_swap_def plain
  by (intro wps wp_start) (use assms in \<open>simp_all add: swap_word\<close>)

lemma byte_merge: "push_bit 8 (drop_bit 8 d) OR take_bit 8 v = (d AND NOT 0xFF) OR (v AND 0xFF)" for d v :: u32
proof (rule bit_word_eqI)
  have m: "(0xFF :: u32) = mask 8" by (simp add: mask_eq_exp_minus_1)
  show "bit (push_bit 8 (drop_bit 8 d) OR take_bit 8 v) n = bit ((d AND NOT 0xFF) OR (v AND 0xFF)) n" if "n < LENGTH(32)" for n
    unfolding m using that by (auto simp: bit_simps)
qed

lemma take_push: "push_bit 24 (take_bit 8 v) = push_bit 24 v" "push_bit 16 (take_bit 16 v) = push_bit 16 v" for v :: u32
  by (rule bit_word_eqI; auto simp: bit_simps)+

lemmas shifted = shifted_logic [of 1, simplified] shifted_logic [of 2, simplified] shifted_flags [of 1, simplified] shifted_flags [of 2, simplified]

lemma op_sizes [simp]: "op_size 1" "op_size (Suc 0)" "op_size 2" "op_size 4"
  by (simp_all add: op_size_def)

lemma E_move_b:
  assumes "b_live b" "sr_clean m"
  shows "wp b g (m, f) (emit_move_b_dd dn dm False g) (\<lambda>m' f'. m' =
    (let v = greg (m_cpu m) (G_D dm)
     in tick 2 8 (upd_cpu (set_flags_logic 1 v) (set_g (G_D dn) ((greg (m_cpu m) (G_D dn) AND NOT 0xFF) OR (v AND 0xFF)) m))))"
proof (rule wp_coh)
  assume c: "coh g m f"
  show ?thesis unfolding emit_move_b_dd_def plain
    by (simp only: in_place, intro wps wp_start) (simp add: assms dst_ok [OF c] dst_same_pairs [OF c] byte_merge take_push shifted)+
qed

end
