(* ===== verification/CodegenArith.thy ===== *)
theory CodegenArith
  imports CodegenRules
begin

text \<open>
  The emitters for moves, additions, subtractions, compares and logic on registers: what their code does to the guest machine.
\<close>

lemma dst_none: "rc_xt (cg_rc g) gi = None \<Longrightarrow> dst_of gi k g = k"
  by (simp add: dst_of_def cache_lookup_def)

lemma cached: "rc_xt (cg_rc g) gi = Some xr \<Longrightarrow> dst_of gi k g = xr" "rc_xt (cg_rc g) gi = Some xr \<Longrightarrow> read_in gi k g = g"
  "rc_xt (cg_rc g) gi = Some xr \<Longrightarrow> commit_g gi k g = mark_dirty gi g"
  by (simp_all add: dst_of_def read_in_def commit_g_def cache_lookup_def)

lemma uncached: "rc_xt (cg_rc g) gi = None \<Longrightarrow> dst_of gi k g = k" "rc_xt (cg_rc g) gi = None \<Longrightarrow> read_in gi k g = emit_read_g gi k g"
  "rc_xt (cg_rc g) gi = None \<Longrightarrow> commit_g gi k g = put (I_s32i k R_CPU (g_off gi)) g"
  by (simp_all add: dst_of_def read_in_def commit_g_def cache_lookup_def)

lemma E_movea_l: "wp b g (m, f) (emit_movea_l_reg an src is_an g) (\<lambda>m' f'. m' = tick 2 8 (set_g (G_A an) (greg (m_cpu m) (g_reg is_an src)) m))"
proof -
  have e: "emit_movea_l_reg an src is_an g =
      emit_advance 2 8 (commit_g (G_A an) 8 (emit_read_g (g_reg is_an src) (dst_of (G_A an) 8 g) g))"
    unfolding emit_movea_l_reg_def Let_def
    by (cases "rc_xt (cg_rc g) (G_A an)"; cases "rc_xt (cg_rc g) (g_reg is_an src)") (simp_all add: spelled emit_read_g_def dst_of_def)
  show ?thesis unfolding e
    by (intro wps wp_start) (simp_all add: g_reg_def)
qed

lemma g_reg_low [simp]: "g_reg is_an n < 16"
  by (simp add: g_reg_def)

lemma E_adda_l:
  shows "wp b g (m, f) (emit_adda_l is_sub an src is_an g) (\<lambda>m' f'. m' = (let d = greg (m_cpu m) (G_A an); v = greg (m_cpu m) (g_reg is_an src)
     in tick 2 12 (set_g (G_A an) (if is_sub then d - v else d + v) m)))"
proof (rule wp_coh)
  assume c: "coh g m f"
  let ?gs = "g_reg is_an src" and ?op = "if is_sub then I_sub else I_add"
  show ?thesis
  proof (cases "rc_xt (cg_rc g) (G_A an)")
    case None
    have e: "emit_adda_l is_sub an src is_an g =
      emit_advance 2 12 (commit_g (G_A an) 10 (put (?op 10 9 8) (emit_read_g (G_A an) 9 (emit_read_g ?gs 8 g))))"
      unfolding emit_adda_l_def Let_def by (simp add: spelled None)
    show ?thesis unfolding e Let_def
      by (intro wps wp_start) (simp_all add: dst_none [OF None] del: guest_regs)
  next
    case (Some xr)
    let ?s = "dst_of ?gs 8 g" and ?d = "dst_of (G_A an) 9 g"
    have e: "emit_adda_l is_sub an src is_an g =
      emit_advance 2 12 (commit_g (G_A an) 9 (put (?op ?d ?d ?s) (read_in (G_A an) 9 (read_in ?gs 8 g))))"
      unfolding emit_adda_l_def Let_def by (simp add: spelled Some read_in_eq dst_of_def)
    show ?thesis unfolding e Let_def
      by (intro wps wp_start) (simp_all add: dst_ok [OF c] dst_same_pairs [OF c] del: guest_regs)
  qed
qed

lemma E_addsub_l:
  assumes "b_live b" "sr_clean m" "dn < 8" "dm < 8"
  shows "wp b g (m, f) (emit_addsub_l_dd is_sub dn dm is_an False g) (\<lambda>m' f'. m' =
    (let d = greg (m_cpu m) (G_D dn); s = greg (m_cpu m) (g_reg is_an dm); r = (if is_sub then d - s else d + s)
     in tick 2 8 (upd_cpu (arith_flags is_sub False 4 s d r) (set_g (G_D dn) r m))))"
proof (rule wp_coh)
  assume c: "coh g m f"
  let ?gs = "g_reg is_an dm" and ?op = "if is_sub then I_sub else I_add"
  show ?thesis
  proof (cases "rc_xt (cg_rc g) ?gs \<noteq> None \<and> rc_xt (cg_rc g) (G_D dn) \<noteq> None \<and> (is_an \<or> dn \<noteq> dm)")
    case False
    have e: "emit_addsub_l_dd is_sub dn dm is_an False g = emit_advance 2 8 (emit_addsub_flags_long_masked is_sub False 8 9 10 CCR_MASK_ALL
        (emit_write_g (G_D dn) 10 (put (if is_sub then I_sub 10 9 8 else I_add 10 8 9) (emit_read_g (G_D dn) 9 (emit_read_g ?gs 8 g)))))"
      using False unfolding emit_addsub_l_dd_def Let_def emit_addsub_flags_long_def emit_addsub_flags_long_ex_def
      by (auto simp: cache_lookup_def split: option.split)
    show ?thesis unfolding e Let_def
      by (cases is_sub; intro wps wp_start) (simp_all add: assms add.commute [of "greg (m_cpu m) (g_reg is_an dm)"] del: guest_regs)
  next
    case True
    let ?s = "dst_of ?gs 8 g" and ?d = "dst_of (G_D dn) 10 g"
    from True obtain xs xd where x: "rc_xt (cg_rc g) ?gs = Some xs" "rc_xt (cg_rc g) (G_D dn) = Some xd" and a: "is_an \<or> dn \<noteq> dm" by blast
    have ne: "?gs \<noteq> G_D dn" using True assms by (auto simp: g_reg_def)
    have e: "emit_addsub_l_dd is_sub dn dm is_an False g = emit_advance 2 8 (emit_addsub_flags_long_masked is_sub False ?s 9 ?d CCR_MASK_ALL
        (commit_g (G_D dn) 10 (put (?op ?d ?d ?s) (put (I_mov 9 ?d) (read_in (G_D dn) 10 (read_in ?gs 8 g))))))"
      unfolding emit_addsub_l_dd_def Let_def emit_addsub_flags_long_def emit_addsub_flags_long_ex_def cache_lookup_def x
      by (simp add: a x cached)
    show ?thesis unfolding e Let_def
      by (cases is_sub; intro wps wp_start) (simp_all add: assms ne dst_ok [OF c] dst_same_pairs [OF c] del: guest_regs)
  qed
qed


subsection \<open>Bytes and words\<close>

lemma word_merge: "push_bit 16 (drop_bit 16 d) OR take_bit 16 v = (d AND NOT 0xFFFF) OR (v AND 0xFFFF)" for d v :: u32
proof (rule bit_word_eqI)
  have m: "(0xFFFF :: u32) = mask 16" by (simp add: mask_eq_exp_minus_1)
  show "bit (push_bit 16 (drop_bit 16 d) OR take_bit 16 v) n = bit ((d AND NOT 0xFFFF) OR (v AND 0xFFFF)) n" if "n < LENGTH(32)" for n
    unfolding m using that by (auto simp: bit_simps)
qed

lemma word_merge': "push_bit 16 (take_bit 16 (drop_bit 16 d)) OR v = push_bit 16 (drop_bit 16 d) OR v" for d v :: u32
  by (rule bit_word_eqI) (auto simp: bit_simps)

text \<open>The low \<open>sz\<close> bytes of d replaced by those of v.\<close>

definition merge_low :: "nat \<Rightarrow> u32 \<Rightarrow> u32 \<Rightarrow> u32" where "merge_low sz d v = (d AND NOT (size_mask sz)) OR (v AND size_mask sz)"

lemma merge_low_code:
  "push_bit 8 (drop_bit 8 d) OR take_bit 8 v = merge_low 1 d v" "push_bit 16 (drop_bit 16 d) OR take_bit 16 v = merge_low 2 d v"
  "push_bit 16 (take_bit 16 (drop_bit 16 d)) OR take_bit 16 v = merge_low 2 d v"
  unfolding word_merge' byte_merge word_merge by (simp_all add: merge_low_def size_mask_def)

lemma top_bytes: "drop_bit 24 v = take_bit 8 (drop_bit 24 v)" "drop_bit 24 (push_bit 24 w) = take_bit 8 w"
  "take_bit 16 (drop_bit 16 (push_bit 16 w)) = take_bit 16 w" for v w :: u32
  by (rule bit_word_eqI; auto simp: bit_simps dest: bit_imp_le_length)+

lemma push_arith: "push_bit n x - push_bit n y = push_bit n (x - y)" "push_bit n x + push_bit n y = push_bit n (x + y)" for x y :: u32
  by (simp_all add: push_bit_eq_mult algebra_simps)

lemma E_move_w:
  assumes "b_live b" "sr_clean m"
  shows "wp b g (m, f) (emit_move_w_dd dn dm False g) (\<lambda>m' f'. m' = (let v = greg (m_cpu m) (G_D dm)
     in tick 2 8 (upd_cpu (set_flags_logic 2 v) (set_g (G_D dn) (merge_low 2 (greg (m_cpu m) (G_D dn)) v) m))))"
  unfolding emit_move_w_dd_def plain
  by (intro wps wp_start) (simp_all add: assms merge_low_code take_push shifted)

lemma E_move_w_an:
  assumes "b_live b" "sr_clean m"
  shows "wp b g (m, f) (emit_move_w_an_dn dn am False g) (\<lambda>m' f'. m' = (let v = greg (m_cpu m) (G_A am)
     in tick 2 8 (upd_cpu (set_flags_logic 2 v) (set_g (G_D dn) (merge_low 2 (greg (m_cpu m) (G_D dn)) v) m))))"
proof (rule wp_coh)
  assume c: "coh g m f"
  show ?thesis unfolding emit_move_w_an_dn_def plain
    by (simp only: in_place, intro wps wp_start) (simp_all add: assms dst_ok [OF c] merge_low_code take_push shifted)
qed

lemma sext_word: "signed_drop_bit 16 (push_bit 16 v) = (sx16 (ucast v))" for v :: u32
proof (rule bit_word_eqI)
  fix n assume "n < LENGTH(32)"
  thus "bit (signed_drop_bit 16 (push_bit 16 v)) n = bit (sx16 (ucast v)) n"
    by (cases "n < 15"; cases "n = 15") (auto simp: bit_simps min_def)
qed

lemma sext_byte: "signed_drop_bit 24 (push_bit 24 v) = (sx8 (ucast v))" for v :: u32
proof (rule bit_word_eqI)
  fix n assume "n < LENGTH(32)"
  thus "bit (signed_drop_bit 24 (push_bit 24 v)) n = bit (sx8 (ucast v)) n"
    by (cases "n < 7"; cases "n = 7") (auto simp: bit_simps min_def)
qed

lemma E_movea_w:
  shows "wp b g (m, f) (emit_movea_w_dn an dn g) (\<lambda>m' f'. m' = tick 2 8 (set_g (G_A an) (sx16 (ucast (greg (m_cpu m) (G_D dn)))) m))"
  unfolding emit_movea_w_dn_def plain
  by (intro wps wp_start) (simp_all add: sext_word)

lemma E_addq_an:
  assumes "- 128 \<le> k" "k \<le> 127"
  shows "wp b g (m, f) (emit_addq_an an k g) (\<lambda>m' f'. m' = tick 2 8 (set_g (G_A an) (greg (m_cpu m) (G_A an) + word_of_int k) m))"
proof (rule wp_coh)
  assume c: "coh g m f"
  let ?d = "dst_of (G_A an) 8 g"
  have e: "emit_addq_an an k g = emit_advance 2 8 (commit_g (G_A an) 8 (put (I_addi ?d ?d k) (read_in (G_A an) 8 g)))"
    unfolding emit_addq_an_def plain
    by (cases "rc_xt (cg_rc g) (G_A an)") (simp_all add: cached uncached cache_lookup_def emit_read_g_def)
  show ?thesis unfolding e
    by (intro wps wp_start) (simp_all add: assms dst_ok [OF c])
qed

lemma E_addq_w:
  assumes "b_live b" "sr_clean m" "1 \<le> k" "k \<le> 8"
  shows "wp b g (m, f) (emit_addq_w_dn dn k is_sub False g) (\<lambda>m' f'. m' =
    (let d = greg (m_cpu m) (G_D dn); s = word_of_nat k; r = (if is_sub then d - s else d + s)
     in tick 2 8 (upd_cpu (arith_flags is_sub False 2 s d r) (set_g (G_D dn) (merge_low 2 d r) m))))"
  unfolding emit_addq_w_dn_def emit_addsub_flags_long_def emit_addsub_flags_long_ex_def plain
  by (cases is_sub; intro wps wp_start) (simp_all add: assms order_trans [OF assms(4)] push_arith top_bytes merge_low_code shifted)

lemma E_addq_b:
  assumes "b_live b" "sr_clean m" "1 \<le> k" "k \<le> 8"
  shows "wp b g (m, f) (emit_addq_b_dn dn k is_sub False g) (\<lambda>m' f'. m' =
    (let d = greg (m_cpu m) (G_D dn); s = word_of_nat k; r = (if is_sub then d - s else d + s)
     in tick 2 8 (upd_cpu (arith_flags is_sub False 1 s d r) (set_g (G_D dn) (merge_low 1 d r) m))))"
  unfolding emit_addq_b_dn_def emit_addsub_flags_long_def emit_addsub_flags_long_ex_def plain
  by (cases is_sub; intro wps wp_start) (simp_all add: assms order_trans [OF assms(4)] push_arith top_bytes(2) merge_low_code shifted)


lemma E_addsub_bw:
  assumes "b_live b" "sr_clean m" "sz = 1 \<or> sz = 2"
  shows "wp b g (m, f) (emit_addsub_bw_dd is_sub dn dm (if sz = 1 then 8 else 16) False g) (\<lambda>m' f'. m' =
    (let d = greg (m_cpu m) (G_D dn); s = greg (m_cpu m) (G_D dm); r = (if is_sub then d - s else d + s)
     in tick 2 8 (upd_cpu (arith_flags is_sub False sz s d r) (set_g (G_D dn) (merge_low sz d r) m))))"
proof -
  have sz: "sz = 1 \<and> (if sz = 1 then 8 else 16) = (8 :: u8) \<or> sz = 2 \<and> (if sz = 1 then 8 else 16) = (16 :: u8)" using assms(3) by auto
  show ?thesis
    unfolding emit_addsub_bw_dd_def emit_addsub_flags_long_def emit_addsub_flags_long_ex_def plain
    by (rule disjE [OF sz]; elim conjE; simp only:; cases is_sub; intro wps wp_start)
      (simp_all add: assms push_arith top_bytes(2,3) merge_low_code shifted)
qed

lemma E_neg_l:
  assumes "b_live b" "sr_clean m"
  shows "wp b g (m, f) (emit_neg_l dn False g) (\<lambda>m' f'. m' = (let d = greg (m_cpu m) (G_D dn)
     in tick 2 8 (upd_cpu (set_flags_sub 4 d 0 (0 - d)) (set_g (G_D dn) (0 - d) m))))"
  unfolding emit_neg_l_def emit_addsub_flags_long_def emit_addsub_flags_long_ex_def plain
  by (intro wps wp_start) (simp_all add: assms arith_flags_def)

lemma E_cmp_w:
  assumes "b_live b" "sr_clean m"
  shows "wp b g (m, f) (emit_cmp_w_dd dn dm cc g) (\<lambda>m' f'. m' =
    (let d = greg (m_cpu m) (G_D dn); s = greg (m_cpu m) (G_D dm) in tick 2 8 (upd_cpu (set_flags_cmp 2 s d (d - s)) m)))"
  unfolding emit_cmp_w_dd_def plain
  by (intro wps wp_start) (simp_all add: assms push_arith shifted, simp add: arith_flags_def)

lemma E_cmp_l:
  assumes "b_live b" "sr_clean m"
  shows "wp b g (m, f) (emit_cmp_l_dd dn dm cc g) (\<lambda>m' f'. m' =
    (let d = greg (m_cpu m) (G_D dn); s = greg (m_cpu m) (G_D dm) in tick 2 8 (upd_cpu (set_flags_cmp 4 s d (d - s)) m)))"
proof (rule wp_coh)
  assume c: "coh g m f"
  show ?thesis unfolding emit_cmp_l_dd_def plain
    by (intro wps wp_start) (simp_all add: assms dst_ok [OF c] dst_same_pairs [OF c] arith_flags_def)
qed

subsection \<open>Logic\<close>

definition logic_fn :: "nat \<Rightarrow> u32 \<Rightarrow> u32 \<Rightarrow> u32" where
  "logic_fn kind = (if kind = 0 then (OR) else if kind = 1 then (AND) else (XOR))"

lemma logic_insn_alu [simp]: "is_alu (logic_insn kind r x y)" "valid_insn (logic_insn kind r x y) = (r < 16 \<and> x < 16 \<and> y < 16)"
  "alu (logic_insn kind r x y) f n = (if n = unat r then logic_fn kind (f (unat x)) (f (unat y)) else f n)"
  "alu_list (logic_insn kind r x y # is) = alu_list is" "regs_after (logic_insn kind r x y # is) f = regs_after is (alu (logic_insn kind r x y) f)"
  by (simp_all add: logic_insn_def logic_fn_def alu_Cons)

lemma E_logic_l:
  assumes "b_live b" "sr_clean m"
  shows "wp b g (m, f) (emit_logic_l_dd_kind ra rb dst kind False g) (\<lambda>m' f'. m' =
    (let r = logic_fn kind (greg (m_cpu m) (G_D ra)) (greg (m_cpu m) (G_D rb))
     in tick 2 8 (upd_cpu (set_flags_logic 4 r) (set_g (G_D dst) r m))))"
  unfolding emit_logic_l_dd_kind_def plain
  by (intro wps wp_start) (simp_all add: assms)

lemma logic_take: "logic_fn kind (take_bit n x) (take_bit n y) = take_bit n (logic_fn kind x y)"
  by (simp add: logic_fn_def)

lemma E_logic_bw:
  assumes "b_live b" "sr_clean m" "sz = 1 \<or> sz = 2"
  shows "wp b g (m, f) (emit_logic_bw_dd_kind ra rb rb kind (if sz = 1 then 8 else 16) False g) (\<lambda>m' f'. m' =
    (let r = logic_fn kind (greg (m_cpu m) (G_D ra)) (greg (m_cpu m) (G_D rb))
     in tick 2 8 (upd_cpu (set_flags_logic sz r) (set_g (G_D rb) (merge_low sz (greg (m_cpu m) (G_D rb)) r) m))))"
proof (rule wp_coh)
  assume c: "coh g m f"
  have sz: "sz = 1 \<and> (if sz = 1 then 8 else 16) = (8 :: u8) \<or> sz = 2 \<and> (if sz = 1 then 8 else 16) = (16 :: u8)" using assms(3) by auto
  show ?thesis unfolding emit_logic_bw_dd_kind_def plain
    by (rule disjE [OF sz]; elim conjE; simp only: in_place; intro wps wp_start)
      (simp_all add: assms dst_ok [OF c] dst_same_pairs [OF c] logic_take merge_low_code take_push shifted)
qed

lemma E_tst_bw:
  assumes "b_live b" "sr_clean m" "sz = 1 \<or> sz = 2"
  shows "wp b g (m, f) (emit_tst_bw dn (if sz = 1 then 24 else 16) False g) (\<lambda>m' f'. m' =
    tick 2 4 (upd_cpu (set_flags_logic sz (greg (m_cpu m) (G_D dn))) m))"
proof (rule wp_coh)
  assume c: "coh g m f"
  have sz: "sz = 1 \<and> (if sz = 1 then 24 else 16) = (24 :: u8) \<or> sz = 2 \<and> (if sz = 1 then 24 else 16) = (16 :: u8)" using assms(3) by auto
  show ?thesis unfolding emit_tst_bw_def plain
    by (rule disjE [OF sz]; elim conjE; simp only:; intro wps wp_start) (simp_all add: assms dst_ok [OF c] shifted)
qed

lemma E_tst_l:
  assumes "b_live b" "sr_clean m"
  shows "wp b g (m, f) (emit_tst_l dn False g) (\<lambda>m' f'. m' = tick 2 4 (upd_cpu (set_flags_logic 4 (greg (m_cpu m) (G_D dn))) m))"
proof (rule wp_coh)
  assume c: "coh g m f"
  show ?thesis unfolding emit_tst_l_def plain
    by (intro wps wp_start) (simp_all add: assms dst_ok [OF c])
qed

lemma E_ext_l:
  assumes "b_live b" "sr_clean m"
  shows "wp b g (m, f) (emit_ext_l dn False g) (\<lambda>m' f'. m' = (let v = sx16 (ucast (greg (m_cpu m) (G_D dn)))
     in tick 2 4 (upd_cpu (set_flags_logic 4 v) (set_g (G_D dn) v m))))"
proof (rule wp_coh)
  assume c: "coh g m f"
  show ?thesis unfolding emit_ext_l_def plain
    by (simp only: in_place, intro wps wp_start) (simp_all add: assms dst_ok [OF c] sext_word)
qed

lemma E_ext_w:
  assumes "b_live b" "sr_clean m"
  shows "wp b g (m, f) (emit_ext_w dn False g) (\<lambda>m' f'. m' = (let v = sx8 (ucast (greg (m_cpu m) (G_D dn)))
     in tick 2 4 (upd_cpu (set_flags_logic 2 v) (set_g (G_D dn) (merge_low 2 (greg (m_cpu m) (G_D dn)) v) m))))"
proof (rule wp_coh)
  assume c: "coh g m f"
  show ?thesis unfolding emit_ext_w_def plain
    by (simp only: in_place, intro wps wp_start) (simp_all add: assms dst_ok [OF c] sext_byte merge_low_code take_push shifted)
qed

end
