(* ===== verification/CodegenUnary.thy ===== *)
theory CodegenUnary
  imports CodegenArith
begin

text \<open>
  The emitters for CLR, NOT and Scc, and the code for conditions.
\<close>

subsection \<open>CLR and NOT\<close>

text \<open>Code that replaces N, Z, V and C in a14 as the logic instructions do.\<close>

lemma wp_raw:
  assumes "b_live b" "alu_list is" "\<forall>i\<in>set is. valid_insn i" "\<forall>f. \<forall>r\<in>fixed. r \<noteq> 14 \<longrightarrow> regs_after is f r = f r"
    and "wp b g A g1 (\<lambda>m f. sr_clean m \<and> regs_after is f 14 = (f 14 AND word_of_int (-16)) OR ucast (nz_bits (V f)) \<and>
           (\<forall>f'. Q (upd_cpu (set_flags_logic 4 (V f)) m) f'))"
  shows "wp b g A ((puts is g1)\<lparr>g_sr_dirty := True\<rparr>) Q"
proof (rule wp_step [OF assms(5)])
  fix m f
  assume h: "sr_clean m \<and> regs_after is f 14 = (f 14 AND word_of_int (-16)) OR ucast (nz_bits (V f)) \<and> (\<forall>f'. Q (upd_cpu (set_flags_logic 4 (V f)) m) f')"
  have "goes (length is) b g1 (m, f) ((puts is g1)\<lparr>g_sr_dirty := True\<rparr>) (upd_cpu (set_flags_logic 4 (V f)) m, regs_after is f)"
    by (rule H_flags [OF assms(1) logic_word assms(2,3)]) (use assms(4) h merge_ccr [OF _ nz_bits_low] in \<open>auto simp: sr_clean_def\<close>)
  thus "wp b g1 (m, f) ((puts is g1)\<lparr>g_sr_dirty := True\<rparr>) Q" by (rule wp_goes) (use h in blast)
qed

lemma nz_zero: "nz_bits 0 = 4"
  by (simp add: nz_bits_def)

lemma merge_zero: "push_bit 8 (drop_bit 8 d) = merge_low 1 d 0" "push_bit 16 (drop_bit 16 d) = merge_low 2 d 0" for d :: u32
  using merge_low_code(1) [of d 0] merge_low_code(2) [of d 0] by simp_all

definition size_bits_of :: "nat \<Rightarrow> u8" where "size_bits_of sz = of_nat (8 * sz)"

lemma merge_low_full: "merge_low 4 d v = v"
proof -
  have z: "NOT (0xFFFFFFFF :: u32) = 0" by (rule word_uint_eqI) simp
  show ?thesis unfolding merge_low_def size4 full_mask z by simp
qed

lemma E_clr:
  assumes "b_live b" "sr_clean m" "sz = 1 \<or> sz = 2 \<or> sz = 4"
  shows "wp b g (m, f) (emit_clr dn (size_bits_of sz) False g) (\<lambda>m' f'. m' =
    tick 2 8 (upd_cpu (set_flags_logic 4 0) (set_g (G_D dn) (merge_low sz (greg (m_cpu m) (G_D dn)) 0) m)))"
proof (rule wp_coh)
  assume c: "coh g m f"
  let ?flags = "\<lambda>g. sext_memo_invalidate ((puts [I_movi 12 (-16), I_and R_SR R_SR 12, I_movi 12 0x04, I_or R_SR R_SR 12] g)\<lparr>g_sr_dirty := True\<rparr>)"
  let ?d = "dst_of (G_D dn) 8 g"
  note r = wp_raw [where V = "\<lambda>_. 0"]
  have full: "merge_low 4 v 0 = 0" for v by (simp add: merge_low_full)
  consider "sz = 4" | "sz = 1 \<or> sz = 2" using assms(3) by blast
  thus ?thesis
  proof cases
    case 1
    have e: "emit_clr dn (size_bits_of sz) False g = emit_advance 2 8 (?flags (commit_g (G_D dn) 8 (put (I_movi ?d 0) g)))"
      unfolding emit_clr_def plain 1 size_bits_of_def
      by (cases "rc_xt (cg_rc g) (G_D dn)") (simp_all add: cached uncached cache_lookup_def emit_write_g_def)
    show ?thesis unfolding e unfolding 1
      by (intro wps r wp_start) (simp_all add: assms dst_ok [OF c] nz_zero full small_regs)
  next
    case 2
    hence n: "size_bits_of sz \<noteq> 32" and s: "sz = 1 \<and> size_bits_of sz = 8 \<or> sz = 2 \<and> size_bits_of sz = 16" by (auto simp: size_bits_of_def)
    show ?thesis
    proof (cases "rc_xt (cg_rc g) (G_D dn)")
      case None
      have e: "emit_clr dn (size_bits_of sz) False g = emit_advance 2 8 (?flags (emit_write_g (G_D dn) 9 (put (I_mov 8 9)
          (puts [I_srli 9 8 (size_bits_of sz), I_slli 9 9 (size_bits_of sz)] (emit_read_g (G_D dn) 8 g)))))"
        unfolding emit_clr_def plain using n by (simp add: uncached [OF None] cache_lookup_def None)
      show ?thesis unfolding e
        by (rule disjE [OF s]; elim conjE; simp only:; intro wps r wp_start) (simp_all add: assms nz_zero merge_zero small_regs)
    next
      case (Some xr)
      have x: "?d \<noteq> 9" using dst_ok(4) [OF c, of "G_D dn"] by auto
      have e: "emit_clr dn (size_bits_of sz) False g = emit_advance 2 8 (?flags (commit_g (G_D dn) 8
          (puts [I_srli 9 ?d (size_bits_of sz), I_slli 9 9 (size_bits_of sz), I_mov ?d 9] (read_in (G_D dn) 8 g))))"
        unfolding emit_clr_def plain using n x by (simp add: cached [OF Some] commit_g_def cache_lookup_def Some)
      show ?thesis unfolding e
        by (rule disjE [OF s]; elim conjE; simp only:; intro wps r wp_start) (simp_all add: assms dst_ok [OF c] nz_zero merge_zero small_regs)
    qed
  qed
qed


lemma commit_dst: "rc_xt (cg_rc g) = rc_xt (cg_rc g0) \<Longrightarrow> commit_g gi (dst_of gi k g0) g = commit_g gi k g"
  by (auto simp: commit_g_def dst_of_def cache_lookup_def split: option.split)

lemma push_zero: "op_size sz \<Longrightarrow> push_bit (32 - 8 * sz) v = 0 \<longleftrightarrow> v AND size_mask sz = 0" for v :: u32
  using mask_eq_0 [OF op4, of "push_bit (32 - 8 * sz) v"] by (simp add: size4 full_mask push_cmp(2) mask_eq_0)

lemma nz_shifted: "nz_bits (push_bit 24 v) = (if bit v 7 then 8 else 0) OR (if take_bit 8 v = 0 then 4 else 0)"
  "nz_bits (push_bit 16 v) = (if bit v 15 then 8 else 0) OR (if take_bit 16 v = 0 then 4 else 0)"
  using push_zero [of 1 v] push_zero [of 2 v] by (simp_all add: nz_bits_def bit_push_bit_iff size_mask_def and_masks)

lemma low_bit: "drop_bit n v mod 2 = (if bit v n then 1 else 0)" for v :: u32
  by (simp add: bit_iff_odd_drop_bit mod_2_eq_odd)

lemma xor_ones: "v XOR - 1 = NOT v" for v :: u32
  by (rule bit_word_eqI) (simp add: bit_simps)

lemma take_not: "take_bit n (NOT (take_bit n v)) = take_bit n (NOT v)" for v :: u32
  by (rule bit_word_eqI) (auto simp: bit_simps)

lemma low_nonzero: "bit v 7 \<Longrightarrow> take_bit 8 v = 0 \<longleftrightarrow> False" "bit v 15 \<Longrightarrow> take_bit 16 v = 0 \<longleftrightarrow> False" for v :: u32
  using bit_take_bit_iff [of 8 v 7] bit_take_bit_iff [of 16 v 15] by auto

lemma E_not:
  assumes "b_live b" "sr_clean m" "sz = 1 \<or> sz = 2 \<or> sz = 4"
  shows "wp b g (m, f) (emit_not dn (size_bits_of sz) False g) (\<lambda>m' f'. m' = (let r = NOT (greg (m_cpu m) (G_D dn))
     in tick 2 8 (upd_cpu (set_flags_logic sz r) (set_g (G_D dn) (merge_low sz (greg (m_cpu m) (G_D dn)) r) m))))"
proof (rule wp_coh)
  assume c: "coh g m f"
  let ?d = "dst_of (G_D dn) 8 g"
  have n: "(8 :: u8) = 32 \<longleftrightarrow> False" "(16 :: u8) = 32 \<longleftrightarrow> False" by simp_all
  consider "sz = 4" "size_bits_of sz = 32" | "sz = 1" "size_bits_of sz = 8" | "sz = 2" "size_bits_of sz = 16"
    using assms(3) by (auto simp: size_bits_of_def)
  thus ?thesis
  proof cases
    case 1
    note r = wp_raw [where V = "\<lambda>f. f (unat ?d)"]
    show ?thesis unfolding emit_not_def plain 1(2) unfolding 1(1)
      by (simp only: in_place commit_dst; intro wps r wp_start)
        (simp_all add: assms dst_ok [OF c] merge_low_full nz_bits_def low_bit xor_ones small_regs or.assoc)
  next
    case 2
    note r = wp_raw [where V = "\<lambda>f. push_bit 24 (f 9)"]
    show ?thesis unfolding emit_not_def plain 2(2) unfolding 2(1)
      by (simp only: n if_False in_place commit_dst; intro wps r wp_start)
        (simp_all add: assms dst_ok [OF c] merge_low_code nz_shifted low_bit xor_ones take_not take_push shifted small_regs or.assoc bit_take_bit_iff low_nonzero)
  next
    case 3
    note r = wp_raw [where V = "\<lambda>f. push_bit 16 (f 9)"]
    show ?thesis unfolding emit_not_def plain 3(2) unfolding 3(1)
      by (simp only: n if_False in_place commit_dst; intro wps r wp_start)
        (simp_all add: assms dst_ok [OF c] merge_low_code nz_shifted low_bit xor_ones take_not take_push shifted small_regs or.assoc bit_take_bit_iff low_nonzero)
  qed
qed


subsection \<open>Conditions\<close>

definition cond_is :: "nat \<Rightarrow> xt_insn list" where
  "cond_is cc =
     (if cc = 2 \<or> cc = 3 \<or> cc = 4 \<or> cc = 5 then [I_extui 10 R_SR 0 0] else [])
     @ (if cc = 8 \<or> cc = 9 \<or> cc = 12 \<or> cc = 13 \<or> cc = 14 \<or> cc = 15 then [I_extui 11 R_SR 1 0] else [])
     @ (if cc = 2 \<or> cc = 3 \<or> cc = 6 \<or> cc = 7 \<or> cc = 14 \<or> cc = 15 then [I_extui 12 R_SR 2 0] else [])
     @ (if cc = 10 \<or> cc = 11 \<or> cc = 12 \<or> cc = 13 \<or> cc = 14 \<or> cc = 15 then [I_extui 13 R_SR 3 0] else [])
     @ (if cc = 2 then [I_or 8 10 12, I_movi 9 1, I_xor 8 8 9] else if cc = 3 then [I_or 8 10 12]
               else if cc = 4 then [I_movi 9 1, I_xor 8 10 9] else if cc = 5 then [I_mov 8 10]
               else if cc = 6 then [I_movi 9 1, I_xor 8 12 9] else if cc = 7 then [I_mov 8 12]
               else if cc = 8 then [I_movi 9 1, I_xor 8 11 9] else if cc = 9 then [I_mov 8 11]
               else if cc = 10 then [I_movi 9 1, I_xor 8 13 9] else if cc = 11 then [I_mov 8 13]
               else if cc = 12 then [I_xor 8 13 11, I_movi 9 1, I_xor 8 8 9] else if cc = 13 then [I_xor 8 13 11]
               else if cc = 14 then [I_xor 8 13 11, I_or 8 8 12, I_movi 9 1, I_xor 8 8 9]
               else if cc = 15 then [I_xor 8 13 11, I_or 8 8 12] else [I_movi 8 0])"

lemma cond_eq: "emit_cond cc g = puts (cond_is cc) (sext_memo_invalidate g)"
  by (simp add: emit_cond_def cond_is_def Let_def puts_app del: puts_simps)

lemma sr_bit: "drop_bit n (ucast (x :: u16) :: u32) mod 2 = (if bit x n then 1 else 0)"
  by (auto simp: low_bit bit_ucast_iff dest: bit_imp_le_length)

lemma sr_bit0: "(ucast (x :: u16) :: u32) mod 2 = (if bit x 0 then 1 else 0)"
  using sr_bit [of 0 x] by simp

lemma flag_sr: "flag c CCR_C \<longleftrightarrow> bit (sr c) 0" "flag c CCR_V \<longleftrightarrow> bit (sr c) 1" "flag c CCR_Z \<longleftrightarrow> bit (sr c) 2" "flag c CCR_N \<longleftrightarrow> bit (sr c) 3"
  by (simp_all only: flag_bit) (simp_all add: m68k_get_ccr_def bit_simps)

lemma cond_cases: "2 \<le> cc \<Longrightarrow> cc < 16 \<Longrightarrow> cc = 2 \<or> cc = 3 \<or> cc = 4 \<or> cc = 5 \<or> cc = 6 \<or> cc = 7 \<or> cc = 8 \<or> cc = 9 \<or> cc = 10 \<or> cc = 11
    \<or> cc = 12 \<or> cc = 13 \<or> cc = 14 \<or> cc = 15" for cc :: nat
  by presburger

lemma cond_code:
  assumes "2 \<le> cc" "cc < 16" "f 14 = ucast (sr c)"
  shows "regs_after (cond_is cc) f 8 = (if cond_true c cc then 1 else 0)"
  using cond_cases [OF assms(1,2)] assms(3)
  by (elim disjE) (simp_all add: cond_is_def cond_true_def flag_sr sr_bit sr_bit0 Let_def del: bit_0)

lemma cond_ok: "alu_list (cond_is cc)" "\<forall>i\<in>set (cond_is cc). valid_insn i" "n \<notin> {8, 9, 10, 11, 12, 13} \<Longrightarrow> regs_after (cond_is cc) f n = f n"
  using small_regs by (simp_all add: cond_is_def)

lemma wp_cond:
  assumes "b_live b" "2 \<le> cc" "cc < 16" "wp b g A g1 (\<lambda>m f. \<forall>f'. f' 8 = (if cond_true (m_cpu m) cc then 1 else 0) \<longrightarrow> Q m f')"
  shows "wp b g A (emit_cond cc g1) Q"
  unfolding cond_eq
proof (rule wp_step [OF wp_memo [OF assms(4)]])
  fix m f assume Q: "\<forall>f'. f' 8 = (if cond_true (m_cpu m) cc then 1 else 0) \<longrightarrow> Q m f'"
  show "wp b (sext_memo_invalidate g1) (m, f) (puts (cond_is cc) (sext_memo_invalidate g1)) Q"
    unfolding wp_def
  proof (intro allI impI)
    fix s assume s: "holds b (sext_memo_invalidate g1) s (fst (m, f)) \<and> xs_a s = snd (m, f)"
    hence "f 14 = ucast (sr (m_cpu m))" using holds_sr assms(1) by fastforce
    hence "Q m (regs_after (cond_is cc) f)" using Q cond_code [OF assms(2,3)] by blast
    moreover have "goes (length (cond_is cc)) b (sext_memo_invalidate g1) (m, f) (puts (cond_is cc) (sext_memo_invalidate g1)) (m, regs_after (cond_is cc) f)"
      by (rule H_puts) (use cond_ok in auto)
    ultimately show "\<exists>n. emits n (sext_memo_invalidate g1) (puts (cond_is cc) (sext_memo_invalidate g1)) s
        (\<lambda>s'. \<exists>m'. holds b (puts (cond_is cc) (sext_memo_invalidate g1)) s' m' \<and> Q m' (xs_a s'))"
      using s unfolding goes_def by (fastforce elim: emits_mono)
  qed
qed

lemma merge_scc: "push_bit 8 (drop_bit 8 d) = merge_low (Suc 0) d 0" "merge_low (Suc 0) d 0 OR 255 = merge_low (Suc 0) d 255" for d :: u32
  using merge_low_code(1) [of d 255] merge_low_code(1) [of d 0] by simp_all

lemma E_scc:
  assumes "b_live b" "cc < 16"
  shows "wp b g (m, f) (emit_scc cc dn g) (\<lambda>m' f'. m' =
    tick 2 8 (set_g (G_D dn) (merge_low 1 (greg (m_cpu m) (G_D dn)) (if cond_true (m_cpu m) cc then 0xFF else 0)) m))"
proof (rule wp_coh)
  assume c: "coh g m f"
  let ?s = "dst_of (G_D dn) 9 g" and ?d = "dst_of (G_D dn) 8 g"
  define g1 where "g1 = (if cc = 0 then put (I_movi 8 0xFF) g else if cc = 1 then put (I_movi 8 0) g
               else puts [I_movi 9 0, I_sub 8 9 8, I_extui 8 8 0 7] (emit_cond cc g))"
  have rc: "rc_xt (cg_rc g1) = rc_xt (cg_rc g)" by (simp add: g1_def cond_eq sext_memo_invalidate_def)
  have d: "dst_of gi k g1 = dst_of gi k g" for gi k by (rule dst_of_rc [OF rc])
  have e: "emit_scc cc dn g = emit_advance 2 8 (commit_g (G_D dn) 8 (puts [I_srli 10 ?s 8, I_slli 10 10 8, I_or ?d 10 8] (read_in (G_D dn) 9 g1)))"
    unfolding emit_scc_def Let_def g1_def [symmetric]
    using cached [of g1 "G_D dn"] uncached [of g1 "G_D dn"] d [of "G_D dn"]
    by (cases "rc_xt (cg_rc g) (G_D dn)") (simp_all add: cache_lookup_def rc cached uncached commit_g_def emit_write_g_def del: puts_simps)
  have "wp b g (m, f) g1 (\<lambda>m' f'. m' = m \<and> f' 8 = (if cond_true (m_cpu m) cc then 0xFF else 0))"
  proof (cases "cc < 2")
    case True
    hence "cc = 0 \<or> cc = 1" by auto
    thus ?thesis unfolding g1_def
      by (elim disjE; simp only: if_True if_False one_neq_zero refl; intro wps wp_start) (simp_all add: cond_true_def)
  next
    case False
    hence e: "g1 = puts [I_movi 9 0, I_sub 8 9 8, I_extui 8 8 0 7] (emit_cond cc g)" by (simp add: g1_def)
    show ?thesis unfolding e
      by (intro wps wp_cond wp_start) (use assms False in \<open>simp_all add: mask_eq_exp_minus_1\<close>)
  qed
  thus ?thesis
  proof (rule wp_step)
    fix m1 and f1 :: "nat \<Rightarrow> u32" assume "m1 = m \<and> f1 8 = (if cond_true (m_cpu m) cc then 0xFF else 0)"
    thus "wp b g1 (m1, f1) (emit_scc cc dn g) (\<lambda>m' f'. m' =
        tick 2 8 (set_g (G_D dn) (merge_low 1 (greg (m_cpu m) (G_D dn)) (if cond_true (m_cpu m) cc then 0xFF else 0)) m))"
      unfolding e by (intro wps wp_start) (simp_all add: dst_ok [OF c] d merge_scc)
  qed
qed

end
