(* ===== verification/CodegenOps.thy ===== *)
theory CodegenOps
  imports CodegenUnary
begin

text \<open>
  jit/codegen.c, \<open>m68k_compile_block\<close>: the arms of its body for instructions of one word that work on registers, the
  class of an instruction, and the theorem for each arm: the code it emits does what \<open>m68k_step\<close> does after the fetch. The
  conditions are those of the source, in its order within each line of opcodes; \<open>dead\<close> and \<open>need\<close> are
  \<open>flags_dead[i]\<close> and \<open>flags_needed[i]\<close>. MOVE.L, TST.L and MOVEA.L are here as they are compiled when the instruction
  after them is not fused with them.
\<close>

subsection \<open>The choice of the arm\<close>






subsection \<open>Condition code classes\<close>



subsection \<open>Normal forms of the interpreter\<close>

lemma word_of_int_nat_8: "word_of_int (int n) = (word_of_nat n :: u64)" by simp

lemma tick_out:
  "set_dreg n v (tick p c m) = tick p c (set_dreg n v m)" "set_areg n v (tick p c m) = tick p c (set_areg n v m)"
  "merge_dreg sz n v (tick p c m) = tick p c (merge_dreg sz n v m)"
  "upd_cpu (m68k_set_ccr x) (tick p c m) = tick p c (upd_cpu (m68k_set_ccr x) m)"
  "upd_cpu (set_flags_logic sz r) (tick p c m) = tick p c (upd_cpu (set_flags_logic sz r) m)"
  "upd_cpu (arith_flags is_sub keep sz s d r) (tick p c m) = tick p c (upd_cpu (arith_flags is_sub keep sz s d r) m)"
  "add_cycles k (tick p c m) = tick p (c + uint k) m"
  "dreg (m_cpu (tick p c m)) = dreg (m_cpu m)" "areg (m_cpu (tick p c m)) = areg (m_cpu m)"
  "sr (m_cpu (tick p c m)) = sr (m_cpu m)" "m68k_get_ccr (m_cpu (tick p c m)) = m68k_get_ccr (m_cpu m)"
  "cond_true (m_cpu (tick p c m)) cc = cond_true (m_cpu m) cc"
  by (simp_all add: tick_def set_dreg_def set_areg_def merge_dreg_def add_cycles_def m68k_set_ccr_def set_flags_logic_def Let_def
      arith_flags_def set_flags_cmp_def set_flags_sub_def set_flags_add_def m68k_get_ccr_def cond_true_def flag_def algebra_simps)


text \<open>The flags and the merged registers depend only on the bits of the operand size.\<close>

lemma mask_mask [simp]: "(v AND size_mask sz) AND size_mask sz = v AND size_mask sz"
  by (simp add: and.assoc)

lemma msb_mask: "size_msb sz = size_mask sz AND size_msb sz"
  by (auto simp: size_msb_def size_mask_def)

lemma mask_cong:
  assumes "r AND size_mask sz = r' AND size_mask sz"
  shows "set_flags_logic sz r = set_flags_logic sz r'" "merge_low sz d r = merge_low sz d r'" "merge_dreg sz i r = merge_dreg sz i r'"
    "s AND size_mask sz = s' AND size_mask sz \<Longrightarrow> d AND size_mask sz = d' AND size_mask sz \<Longrightarrow>
       arith_flags is_sub keep sz s d r = arith_flags is_sub keep sz s' d' r'"
proof -
  have "r AND size_msb sz = r' AND size_msb sz" using assms by (metis msb_mask and.assoc)
  thus "set_flags_logic sz r = set_flags_logic sz r'" by (intro ext) (simp add: set_flags_logic_def assms)
qed (use assms in \<open>auto simp: merge_low_def merge_dreg_def fun_eq_iff arith_flags_def set_flags_cmp_def set_flags_sub_def set_flags_add_def\<close>)


lemma uval_mask: "op_size sz \<Longrightarrow> uval sz (x AND size_mask sz) = uval sz x"
  by (metis mask_mask uint_size_mask)

lemma mask_ops:
  assumes "op_size sz"
  shows "((x AND size_mask sz) - (y AND size_mask sz)) AND size_mask sz = (x - y) AND size_mask sz"
    "((x AND size_mask sz) + (y AND size_mask sz)) AND size_mask sz = (x + y) AND size_mask sz"
    "((x AND size_mask sz) - z) AND size_mask sz = (x - z) AND size_mask sz"
    "((x AND size_mask sz) + z) AND size_mask sz = (x + z) AND size_mask sz"
    "(0 - (x AND size_mask sz)) AND size_mask sz = (0 - x) AND size_mask sz"
  by (rule word_uint_eqI; simp add: uint_size_mask [OF assms] uval_minus [OF assms] uval_plus [OF assms] uval_mask [OF assms] del: diff_0)+

lemma mask_logic:
  "(NOT (x AND size_mask sz)) AND size_mask sz = (NOT x) AND size_mask sz"
  "logic_fn kind (x AND size_mask sz) (y AND size_mask sz) AND size_mask sz = logic_fn kind x y AND size_mask sz"
  by (rule bit_word_eqI; auto simp: logic_fn_def bit_simps)+

lemma opf_low [simp]: "opf w n 7 mod 8 = opf w n 7" "opf w n 7 < 8"
proof -
  show "opf w n 7 < 8" using take_bit_nat_less_exp [of 3 "unat (drop_bit n w)"] by (simp add: opf_def and_masks unsigned_take_bit_eq)
  thus "opf w n 7 mod 8 = opf w n 7" by simp
qed

lemma set_g_reg [simp]: "set_g (G_D (opf w n 7)) = set_dreg (opf w n 7)" "set_g (G_A (opf w n 7)) = set_areg (opf w n 7)"
  by (simp_all add: fun_eq_iff set_g_def G_D_def G_A_def)

lemma greg_reg: "greg c (g_reg is_an (opf w n 7)) = (if is_an then areg c (opf w n 7) else dreg c (opf w n 7))"
  by (simp add: g_reg_def)

lemma merge_is: "merge_dreg sz i v m = set_dreg i (merge_low sz (cdreg m i) v) m"
  by (simp add: merge_dreg_def merge_low_def)

lemma ea_reg: "ea_decode 0 r sz m = (EA_DREG r, m)" "ea_decode 1 r sz m = (EA_AREG r, m)" "ea_decode (Suc 0) r sz m = (EA_AREG r, m)"
  by (simp_all add: ea_decode_def)

lemma not_bit8: "\<not> bit w 8 \<Longrightarrow> w AND 0x01F0 = 0x0100 \<longleftrightarrow> False" "\<not> bit w 8 \<Longrightarrow> w AND 0x0130 = 0x0100 \<longleftrightarrow> False" "w AND 0x0100 = 0 \<longleftrightarrow> \<not> bit w 8" for w :: u16
  using and_exp_eq_0_iff_not_bit [of w 8] by (auto simp: halfword_eq_bits bit_simps)

lemmas flags_as_arith = arith_flags_def [of False False, simplified] arith_flags_def [of True False, simplified] arith_flags_def [of True True, simplified]

lemmas steps = dispatch_def Let_def tick_out ea_reg ea_read.simps ea_write.simps prod.case merge_is set_g_reg greg_reg guest_regs opf_low
  flags_as_arith [symmetric] merge_low_full

lemma mask_low: "set_flags_logic sz (v AND size_mask sz) = set_flags_logic sz v" "merge_low sz d (v AND size_mask sz) = merge_low sz d v"
  by (rule mask_cong; simp)+

lemma D_moveq: "opf w 12 0xF = 7 \<Longrightarrow> dispatch w p (tick 2 4 m) =
    (let v = sx8 (ucast (w AND 0xFF)) in tick 2 4 (upd_cpu (set_flags_logic 4 v) (set_dreg (opf w 9 7) v m)))"
  by (simp add: steps step_7_def)

lemma D_move:
  assumes "opf w 12 0xF = 1 \<and> sz = 1 \<or> opf w 12 0xF = 2 \<and> sz = 4 \<or> opf w 12 0xF = 3 \<and> sz = 2" "opf w 3 7 \<le> 1" "opf w 6 7 = 0"
  shows "dispatch w p (tick 2 4 m) = (let v = greg (m_cpu m) (g_reg (opf w 3 7 = 1) (opf w 0 7)) in
    tick 2 8 (upd_cpu (set_flags_logic sz v) (set_dreg (opf w 9 7) (merge_low sz (cdreg m (opf w 9 7)) v) m)))"
proof -
  have "opf w 3 7 = 0 \<or> opf w 3 7 = 1" using assms(2) by auto
  thus ?thesis using assms(1,3) by (elim disjE conjE) (simp_all add: steps step_move_def mask_low)
qed

lemma D_movea:
  assumes "opf w 12 0xF = 2 \<and> sz = 4 \<or> opf w 12 0xF = 3 \<and> sz = 2" "opf w 3 7 \<le> 1" "opf w 6 7 = 1"
  shows "dispatch w p (tick 2 4 m) = tick 2 8 (set_areg (opf w 9 7) (sext (greg (m_cpu m) (g_reg (opf w 3 7 = 1) (opf w 0 7)) AND size_mask sz) sz) m)"
proof -
  have "opf w 3 7 = 0 \<or> opf w 3 7 = 1" using assms(2) by auto
  thus ?thesis using assms(1,3) by (elim disjE conjE) (simp_all add: steps step_move_def)
qed

lemma D_addq:
  assumes "opf w 12 0xF = 5" "opf w 6 3 < 3" "opf w 3 7 = 0"
  shows "dispatch w p (tick 2 4 m) = (let sz = op_size_of (opf w 6 3); d = cdreg m (opf w 0 7); s = word_of_nat (if opf w 9 7 = 0 then 8 else opf w 9 7);
      r = (if bit w 8 then d - s else d + s) in
    tick 2 8 (upd_cpu (arith_flags (bit w 8) False sz s d r) (set_dreg (opf w 0 7) (merge_low sz d r) m)))"
proof -
  have sz: "op_size (op_size_of (opf w 6 3))" by (simp add: op_size_of_def op_size_def)
  let ?s = "word_of_nat (if opf w 9 7 = 0 then 8 else opf w 9 7) :: u32" and ?sz = "op_size_of (opf w 6 3)"
  let ?d = "cdreg m (opf w 0 7)"
  let ?r = "\<lambda>d. if bit w 8 then d - ?s else d + ?s"
  have r: "?r (?d AND size_mask ?sz) AND size_mask ?sz = ?r ?d AND size_mask ?sz" by (simp add: mask_ops [OF sz])
  have f: "arith_flags (bit w 8) False ?sz ?s (?d AND size_mask ?sz) (?r (?d AND size_mask ?sz)) = arith_flags (bit w 8) False ?sz ?s ?d (?r ?d)"
    and g: "merge_low ?sz ?d (?r (?d AND size_mask ?sz)) = merge_low ?sz ?d (?r ?d)"
    by (rule mask_cong [OF r]; simp)+
  have e: "(if bit w 8 then set_flags_sub else set_flags_add) = arith_flags (bit w 8) False" by (simp add: arith_flags_def)
  show ?thesis using assms f g by (cases "bit w 8") (simp_all add: steps step_5_def step_addq_def)
qed

lemma D_addq_an:
  assumes "opf w 12 0xF = 5" "opf w 6 3 < 3" "opf w 3 7 = 1"
  shows "dispatch w p (tick 2 4 m) = (let s = word_of_nat (if opf w 9 7 = 0 then 8 else opf w 9 7) in
    tick 2 8 (set_areg (opf w 0 7) (if bit w 8 then careg m (opf w 0 7) - s else careg m (opf w 0 7) + s) m))"
  using assms by (simp add: steps step_5_def)

lemma D_scc:
  assumes "opf w 12 0xF = 5" "opf w 6 3 = 3" "opf w 3 7 = 0"
  shows "dispatch w p (tick 2 4 m) = tick 2 8 (set_dreg (opf w 0 7)
    (merge_low 1 (cdreg m (opf w 0 7)) (if cond_true (m_cpu m) (opf w 8 0xF) then 0xFF else 0)) m)"
  using assms by (simp add: steps step_5_def)

lemma D_add:
  assumes "opf w 12 0xF = 0xD \<and> is_sub = False \<or> opf w 12 0xF = 9 \<and> is_sub = True" "opf w 6 3 < 3" "\<not> bit w 8" "opf w 3 7 \<le> 1"
  shows "dispatch w p (tick 2 4 m) = (let sz = op_size_of (opf w 6 3); d = cdreg m (opf w 9 7); s = greg (m_cpu m) (g_reg (opf w 3 7 = 1) (opf w 0 7));
      r = (if is_sub then d - s else d + s) in
    tick 2 8 (upd_cpu (arith_flags is_sub False sz s d r) (set_dreg (opf w 9 7) (merge_low sz d r) m)))"
proof -
  let ?sz = "op_size_of (opf w 6 3)" and ?d = "cdreg m (opf w 9 7)" and ?s = "greg (m_cpu m) (g_reg (opf w 3 7 = 1) (opf w 0 7))"
  have sz: "op_size ?sz" by (simp add: op_size_of_def op_size_def)
  let ?r = "\<lambda>d s. if is_sub then d - s else d + s"
  have r: "?r (?d AND size_mask ?sz) (?s AND size_mask ?sz) AND size_mask ?sz = ?r ?d ?s AND size_mask ?sz"
    by (cases is_sub) (simp_all only: if_True if_False mask_ops(1,2) [OF sz])
  have f: "arith_flags is_sub False ?sz (?s AND size_mask ?sz) (?d AND size_mask ?sz) (?r (?d AND size_mask ?sz) (?s AND size_mask ?sz))
      = arith_flags is_sub False ?sz ?s ?d (?r ?d ?s)"
    and g: "merge_low ?sz ?d (?r (?d AND size_mask ?sz) (?s AND size_mask ?sz)) = merge_low ?sz ?d (?r ?d ?s)"
    by (rule mask_cong [OF r]; simp)+
  have "opf w 3 7 = 0 \<or> opf w 3 7 = 1" using assms(4) by auto
  thus ?thesis using assms(1-3) f g by (elim disjE conjE) (simp_all add: steps step_9D_def step_add_def)
qed

lemma D_adda:
  assumes "opf w 12 0xF = 0xD \<and> is_sub = False \<or> opf w 12 0xF = 9 \<and> is_sub = True" "opf w 6 3 = 3" "bit w 8" "opf w 3 7 \<le> 1"
  shows "dispatch w p (tick 2 4 m) = (let d = careg m (opf w 9 7); v = greg (m_cpu m) (g_reg (opf w 3 7 = 1) (opf w 0 7)) in
    tick 2 12 (set_areg (opf w 9 7) (if is_sub then d - v else d + v) m))"
proof -
  have "opf w 3 7 = 0 \<or> opf w 3 7 = 1" using assms(4) by auto
  moreover have "size_mask 4 = 0xFFFFFFFF" by (simp add: size_mask_def)
  ultimately show ?thesis using assms(1-3) by (elim disjE conjE) (simp_all add: steps step_9D_def step_adda_def not_bit8 sext_def full_mask)
qed

lemma D_cmp:
  assumes "opf w 12 0xF = 0xB" "opf w 6 3 < 3" "\<not> bit w 8" "opf w 3 7 = 0"
  shows "dispatch w p (tick 2 4 m) = (let sz = op_size_of (opf w 6 3); d = cdreg m (opf w 9 7); s = cdreg m (opf w 0 7) in
    tick 2 8 (upd_cpu (set_flags_cmp sz s d (d - s)) m))"
proof -
  let ?sz = "op_size_of (opf w 6 3)" and ?d = "cdreg m (opf w 9 7)" and ?s = "cdreg m (opf w 0 7)"
  have sz: "op_size ?sz" by (simp add: op_size_of_def op_size_def)
  have f: "arith_flags True True ?sz (?s AND size_mask ?sz) (?d AND size_mask ?sz) ((?d AND size_mask ?sz) - (?s AND size_mask ?sz))
      = arith_flags True True ?sz ?s ?d (?d - ?s)"
    by (rule mask_cong [OF mask_ops(1) [OF sz]]; simp)
  show ?thesis using assms f by (simp add: steps step_B_def)
qed

lemma D_logic:
  assumes "opf w 12 0xF = 8 \<and> kind = 0 \<or> opf w 12 0xF = 0xC \<and> kind = 1" "opf w 6 3 < 3" "\<not> bit w 8" "opf w 3 7 = 0"
  shows "dispatch w p (tick 2 4 m) = (let sz = op_size_of (opf w 6 3); r = logic_fn kind (cdreg m (opf w 0 7)) (cdreg m (opf w 9 7)) in
    tick 2 8 (upd_cpu (set_flags_logic sz r) (set_dreg (opf w 9 7) (merge_low sz (cdreg m (opf w 9 7)) r) m)))"
proof -
  let ?sz = "op_size_of (opf w 6 3)" and ?d = "cdreg m (opf w 9 7)" and ?s = "cdreg m (opf w 0 7)"
  have f: "set_flags_logic ?sz (logic_fn kind (?s AND size_mask ?sz) (?d AND size_mask ?sz)) = set_flags_logic ?sz (logic_fn kind ?s ?d)"
    and g: "merge_low ?sz ?d (logic_fn kind (?s AND size_mask ?sz) (?d AND size_mask ?sz)) = merge_low ?sz ?d (logic_fn kind ?s ?d)"
    by (rule mask_cong [OF mask_logic(2)])+
  show ?thesis using assms f g
    by (elim disjE conjE) (simp_all add: steps step_8_def step_C_def step_exg_def step_logic_def not_bit8 logic_fn_def)
qed

lemma D_eor:
  assumes "opf w 12 0xF = 0xB" "opf w 6 3 < 3" "bit w 8" "opf w 3 7 = 0"
  shows "dispatch w p (tick 2 4 m) = (let sz = op_size_of (opf w 6 3); r = logic_fn 2 (cdreg m (opf w 9 7)) (cdreg m (opf w 0 7)) in
    tick 2 8 (upd_cpu (set_flags_logic sz r) (set_dreg (opf w 0 7) (merge_low sz (cdreg m (opf w 0 7)) r) m)))"
proof -
  let ?sz = "op_size_of (opf w 6 3)" and ?d = "cdreg m (opf w 0 7)" and ?s = "cdreg m (opf w 9 7)"
  have f: "set_flags_logic ?sz (logic_fn 2 (?s AND size_mask ?sz) (?d AND size_mask ?sz)) = set_flags_logic ?sz (logic_fn 2 ?s ?d)"
    and g: "merge_low ?sz ?d (logic_fn 2 (?s AND size_mask ?sz) (?d AND size_mask ?sz)) = merge_low ?sz ?d (logic_fn 2 ?s ?d)"
    by (rule mask_cong [OF mask_logic(2)])+
  have x: "?d AND size_mask ?sz XOR ?s AND size_mask ?sz = logic_fn 2 (?s AND size_mask ?sz) (?d AND size_mask ?sz)"
    by (simp add: logic_fn_def xor.commute)
  show ?thesis using assms f g by (simp add: steps step_B_def x)
qed

lemma opf_nat: "opf w k 0xF = unat w div 2 ^ k mod 16" "opf w k 7 = unat w div 2 ^ k mod 8" "opf w k 3 = unat w div 2 ^ k mod 4"
proof -
  have d: "unat (drop_bit k w) = unat w div 2 ^ k" by (simp add: unat_drop_bit_eq drop_bit_eq_div [of k "unat w"] del: drop_bit_eq_div)
  have m: "x AND 0xF = take_bit 4 x" "x AND 3 = take_bit 2 x" for x :: u16
    by (simp_all add: take_bit_eq_mask mask_eq_exp_minus_1)
  show "opf w k 0xF = unat w div 2 ^ k mod 16" "opf w k 7 = unat w div 2 ^ k mod 8" "opf w k 3 = unat w div 2 ^ k mod 4"
    unfolding opf_def and_masks m unsigned_take_bit_eq d by (simp_all add: take_bit_eq_mod)
qed

lemma mid_even: "even (opf w 8 0xF) \<Longrightarrow> opf w 6 7 = opf w 6 3"
proof -
  assume e: "even (opf w 8 0xF)"
  define q where "q = unat w div 64"
  have "unat w div 256 = q div 4" by (simp add: q_def flip: div_mult2_eq)
  hence "even (q div 4)" using e by (simp add: opf_nat even_iff_mod_2_eq_zero mod_mod_cancel)
  hence "q mod 8 = q mod 4" using mod_mult2_eq [of q 4 2] by (auto simp: even_iff_mod_2_eq_zero)
  thus ?thesis by (simp add: opf_nat q_def)
qed

lemma opf_form: "w AND M = V \<Longrightarrow> word_of_nat (opf w n k) AND drop_bit n M = drop_bit n V AND k"
  unfolding opf_def by (auto simp: ac_simps)

lemma not_form:
  "opf w 8 0xF = sel \<Longrightarrow> word_of_nat sel AND drop_bit 8 M \<noteq> drop_bit 8 V AND 0xF \<Longrightarrow> (w AND M = V) = False"
  "opf w 6 3 = szf \<Longrightarrow> word_of_nat szf AND drop_bit 6 M \<noteq> drop_bit 6 V AND 3 \<Longrightarrow> (w AND M = V) = False"
  "opf w 8 0xF = sel \<Longrightarrow> word_of_nat sel \<noteq> drop_bit 8 V AND 0xF \<Longrightarrow> (w = V) = False"
  using opf_form by (blast, blast) (auto simp: opf_def)

lemma opf_lt8: "opf w n 7 = 0 \<or> opf w n 7 = 1 \<or> opf w n 7 = 2 \<or> opf w n 7 = 3 \<or> opf w n 7 = 4 \<or> opf w n 7 = 5 \<or> opf w n 7 = 6 \<or> opf w n 7 = 7"
  using opf_low(2) [of w n] by linarith

lemma step_4_sel:
  assumes "opf w 12 0xF = 4" "opf w 8 0xF = sel" "opf w 6 3 = szf" "opf w 3 7 = 0" "sel \<in> {2, 4, 6, 0xA}" "szf < 3"
  shows "step_4 w p m = step_unary sel (op_size_of szf) (EA_DREG (opf w 0 7)) m"
proof -
  have "szf = 0 \<or> szf = 1 \<or> szf = 2" "sel = 2 \<or> sel = 4 \<or> sel = 6 \<or> sel = 0xA" using assms(5,6) by auto
  thus ?thesis using mid_even [of w] assms(1-4) not_form [of w]
    by (elim disjE) (simp_all add: step_4_def step_4_ea_def step_4_unary_def ea_reg Let_def)
qed

lemma opcode_low: "w AND 0xFFF8 = k \<Longrightarrow> w = k + word_of_nat (opf w 0 7)" for w k :: u16
proof -
  assume "w AND 0xFFF8 = k"
  moreover have "(w AND 0xFFF8) AND (w AND 7) = 0" "(w AND 0xFFF8) OR (w AND 7) = w" by (simp_all add: halfword_eq_bits bit_simps)
  hence "w = (w AND 0xFFF8) + (w AND 7)" using word_plus_and_or [of "w AND 0xFFF8" "w AND 7"] by simp
  moreover have "word_of_nat (opf w 0 7) = w AND 7" by (simp add: opf_def)
  ultimately show ?thesis by simp
qed

lemma step_4_low:
  "w AND 0xFFF8 = 0x4840 \<Longrightarrow> opf w 12 0xF = 4 \<and> step_4 w p m = step_swap (opf w 0 7) m"
  "w AND 0xFFF8 = 0x48C0 \<Longrightarrow> opf w 12 0xF = 4 \<and> step_4 w p m = step_ext w m \<and> w AND 0x40 \<noteq> 0"
  "w AND 0xFFF8 = 0x4880 \<Longrightarrow> opf w 12 0xF = 4 \<and> step_4 w p m = step_ext w m \<and> w AND 0x40 = 0"
  using opf_lt8 [of w 0] opcode_low [of w]
  by (elim disjE; simp add: step_4_def step_4_ea_def opf_def)+

lemma D_unary:
  assumes "opf w 12 0xF = 4" "opf w 8 0xF = sel" "opf w 6 3 = szf" "opf w 3 7 = 0" "sel \<in> {2, 4, 6, 0xA}" "szf < 3"
  shows "dispatch w p (tick 2 4 m) = step_unary sel (op_size_of szf) (EA_DREG (opf w 0 7)) (tick 2 4 m)"
  using assms(1) by (simp add: dispatch_def step_4_sel [OF assms])

lemma clr_flags: "m68k_set_ccr ((m68k_get_ccr c AND CCR_X) OR CCR_Z) c = set_flags_logic 4 0 c"
  by (simp add: set_flags_logic_def)

lemma D_clr: "step_unary 2 sz (EA_DREG r) (tick 2 4 m) = tick 2 8 (upd_cpu (set_flags_logic 4 0) (set_dreg r (merge_low sz (cdreg m r) 0) m))"
  by (simp add: step_unary_def steps clr_flags)

lemma D_not: "step_unary 6 sz (EA_DREG r) (tick 2 4 m) =
    (let v = NOT (cdreg m r) in tick 2 8 (upd_cpu (set_flags_logic sz v) (set_dreg r (merge_low sz (cdreg m r) v) m)))"
  using mask_cong(1,2) [OF mask_logic(1)] by (simp add: step_unary_def steps)

lemma D_tst: "step_unary 0xA sz (EA_DREG r) (tick 2 4 m) = tick 2 4 (upd_cpu (set_flags_logic sz (cdreg m r)) m)"
  by (simp add: step_unary_def steps mask_low)

lemma D_neg_l: "step_unary 4 4 (EA_DREG r) (tick 2 4 m) =
    (let d = cdreg m r in tick 2 8 (upd_cpu (set_flags_sub 4 d 0 (0 - d)) (set_dreg r (0 - d) m)))"
proof -
  have "size_mask 4 = 0xFFFFFFFF" by (simp add: size_mask_def)
  thus ?thesis by (simp add: step_unary_def steps full_mask)
qed

lemma D_swap: "w AND 0xFFF8 = 0x4840 \<Longrightarrow> dispatch w p (tick 2 4 m) = (let r = opf w 0 7; v = cdreg m r; v = drop_bit 16 v OR push_bit 16 v in
    tick 2 4 (upd_cpu (set_flags_logic 4 v) (set_dreg r v m)))"
  by (simp add: steps step_4_low step_swap_def)

lemma high_mask: "(0xFFFF0000 :: u32) = NOT 0xFFFF"
  by (rule word_uint_eqI) simp

lemma D_ext:
  "w AND 0xFFF8 = 0x48C0 \<Longrightarrow> dispatch w p (tick 2 4 m) = (let r = opf w 0 7; v = sx16 (ucast (cdreg m r)) in
    tick 2 4 (upd_cpu (set_flags_logic 4 v) (set_dreg r v m)))"
  "w AND 0xFFF8 = 0x4880 \<Longrightarrow> dispatch w p (tick 2 4 m) = (let r = opf w 0 7; v = sx8 (ucast (cdreg m r)) in
    tick 2 4 (upd_cpu (set_flags_logic 2 v) (set_dreg r (merge_low 2 (cdreg m r) v) m)))"
  by (simp_all add: steps step_4_low step_ext_def merge_low_def size_mask_def high_mask)

lemma D_nop: "dispatch 0x4E71 p (tick 2 4 m) = tick 2 4 m"
  by (simp add: dispatch_def opf_def step_4_def)

subsection \<open>The code of an instruction against the interpreter\<close>

text \<open>The interpreter counts instructions and reads of memory, the generated code does not; the code and the dispatcher
  have three fields of the register file to themselves.\<close>

definition forget_cpu :: "m68k_cpu \<Rightarrow> m68k_cpu" where
  "forget_cpu c = c\<lparr>instrs := 0, jit_ret_pc := 0, current_block := None, chain_budget := 0\<rparr>"

definition forget :: "machine \<Rightarrow> machine" where
  "forget m = (upd_cpu forget_cpu m)\<lparr>m_reads := 0\<rparr>"

definition around_cpu :: "machine \<Rightarrow> machine" where "around_cpu m = upd_cpu (\<lambda>_. cpu_zero) m"

text \<open>An instruction of two bytes that changes registers only.\<close>

definition reg_effect :: "(machine \<Rightarrow> machine) \<Rightarrow> bool" where
  "reg_effect F \<longleftrightarrow> (\<forall>m. forget (F m) = F (forget m) \<and> (sr_clean m \<longrightarrow> sr_clean (F m)) \<and>
     around_cpu (F m) = around_cpu m \<and> pc (m_cpu (F m)) = pc (m_cpu m) + 2 \<and> halted (m_cpu (F m)) = halted (m_cpu m))"

text \<open>An arm is right when its code does what \<open>m68k_step\<close> does after the fetch of the instruction.\<close>

definition arm_ok :: "bool \<Rightarrow> u16 \<Rightarrow> cg \<Rightarrow> cg \<Rightarrow> bool" where
  "arm_ok live w g g' \<longleftrightarrow> (\<exists>F. reg_effect F \<and> (\<forall>m p. dispatch w p (tick 2 4 m) = F m) \<and>
     (\<forall>b m f. (live \<longrightarrow> b_live b) \<longrightarrow> sr_clean m \<longrightarrow> wp b g (m, f) g' (\<lambda>m' f'. m' = F m)))"

named_theorems arms \<open>the arms of the compiler for instructions on registers\<close>
named_theorems free_arms \<open>those that leave the condition codes alone\<close>
named_theorems effects \<open>what the pieces of an instruction leave alone\<close>

lemma arm_of: "(\<And>b m f. b_live b \<Longrightarrow> sr_clean m \<Longrightarrow> wp b g (m, f) g' (\<lambda>m' f'. m' = F m)) \<Longrightarrow>
    (\<And>m p. dispatch w p (tick 2 4 m) = F m) \<Longrightarrow> reg_effect F \<Longrightarrow> arm_ok True w g g'"
  unfolding arm_ok_def by blast

lemma free_arm_of: "(\<And>b m f. sr_clean m \<Longrightarrow> wp b g (m, f) g' (\<lambda>m' f'. m' = F m)) \<Longrightarrow>
    (\<And>m p. dispatch w p (tick 2 4 m) = F m) \<Longrightarrow> reg_effect F \<Longrightarrow> arm_ok False w g g'"
  unfolding arm_ok_def by blast


lemma set_ccr_forget: "m68k_set_ccr v (forget_cpu c) = forget_cpu (m68k_set_ccr v c)"
  by (simp add: m68k_set_ccr_def forget_cpu_def)

lemma get_ccr_forget: "m68k_get_ccr (forget_cpu c) = m68k_get_ccr c"
  by (simp add: m68k_get_ccr_def forget_cpu_def)

lemma forget_fields [effects]:
  "dreg (m_cpu (forget m)) = dreg (m_cpu m)" "areg (m_cpu (forget m)) = areg (m_cpu m)" "pc (m_cpu (forget m)) = pc (m_cpu m)"
  "cond_true (m_cpu (forget m)) cc = cond_true (m_cpu m) cc" "greg (m_cpu (forget m)) gi = greg (m_cpu m) gi"
  by (simp_all add: forget_def cond_true_def flag_def get_ccr_forget greg_def) (simp_all add: forget_cpu_def)

lemma forget_moves [effects]:
  "forget (tick p k m) = tick p k (forget m)" "forget (set_dreg n v m) = set_dreg n v (forget m)" "forget (set_areg n v m) = set_areg n v (forget m)"
  "forget (set_g gi v m) = set_g gi v (forget m)"
  by (simp_all add: forget_def forget_cpu_def tick_def set_dreg_def set_areg_def set_g_def)

lemma flags_forget [effects]:
  "forget (upd_cpu (set_flags_logic sz r) m) = upd_cpu (set_flags_logic sz r) (forget m)"
  "forget (upd_cpu (set_flags_cmp sz s d r) m) = upd_cpu (set_flags_cmp sz s d r) (forget m)"
  "forget (upd_cpu (set_flags_sub sz s d r) m) = upd_cpu (set_flags_sub sz s d r) (forget m)"
  "forget (upd_cpu (arith_flags is_sub keep sz s d r) m) = upd_cpu (arith_flags is_sub keep sz s d r) (forget m)"
  by (simp_all add: forget_def arith_flags_def set_flags_logic_def set_flags_cmp_def set_flags_sub_def set_flags_add_def Let_def
      set_ccr_forget get_ccr_forget)

lemma set_ccr_clean: "sr (m68k_set_ccr v c) AND 0xE0 = 0"
  by (simp add: m68k_set_ccr_def halfword_eq_bits bit_simps)

lemma flags_clean [effects]:
  "sr_clean (upd_cpu (set_flags_logic sz r) m)" "sr_clean (upd_cpu (set_flags_cmp sz s d r) m)" "sr_clean (upd_cpu (set_flags_sub sz s d r) m)"
  "sr_clean (upd_cpu (arith_flags is_sub keep sz s d r) m)"
  by (simp_all add: sr_clean_def arith_flags_def set_flags_logic_def set_flags_cmp_def set_flags_sub_def set_flags_add_def Let_def set_ccr_clean)

lemma moves_frame [effects]:
  "sr_clean (tick p k m) = sr_clean m" "sr_clean (set_dreg n v m) = sr_clean m" "sr_clean (set_areg n v m) = sr_clean m"
  "around_cpu (tick p k m) = around_cpu m" "around_cpu (set_dreg n v m) = around_cpu m" "around_cpu (set_areg n v m) = around_cpu m"
  "around_cpu (set_g gi v m) = around_cpu m" "around_cpu (upd_cpu h m) = around_cpu m"
  "pc (m_cpu (tick p k m)) = pc (m_cpu m) + word_of_int p" "pc (m_cpu (set_dreg n v m)) = pc (m_cpu m)" "pc (m_cpu (set_areg n v m)) = pc (m_cpu m)"
  "pc (m_cpu (set_g gi v m)) = pc (m_cpu m)" "halted (m_cpu (tick p k m)) = halted (m_cpu m)" "halted (m_cpu (set_dreg n v m)) = halted (m_cpu m)"
  "halted (m_cpu (set_areg n v m)) = halted (m_cpu m)" "halted (m_cpu (set_g gi v m)) = halted (m_cpu m)"
  by (simp_all add: tick_def set_dreg_def set_areg_def set_g_def sr_clean_def around_cpu_def)

lemma setters_frame [effects]:
  "pc (set_flags_logic sz r c) = pc c" "pc (set_flags_cmp sz s d r c) = pc c" "pc (set_flags_sub sz s d r c) = pc c" "pc (arith_flags is_sub keep sz s d r c) = pc c"
  "halted (set_flags_logic sz r c) = halted c" "halted (set_flags_cmp sz s d r c) = halted c" "halted (set_flags_sub sz s d r c) = halted c"
  "halted (arith_flags is_sub keep sz s d r c) = halted c"
  by (simp_all add: arith_flags_def set_flags_logic_def set_flags_cmp_def set_flags_sub_def set_flags_add_def Let_def)

lemmas effect_defs [effects] = reg_effect_def Let_def

lemmas bring = set_g_reg guest_regs greg_reg opf_low Let_def op_size_of_def

lemma moveq_arm [arms]: "opf w 12 0xF = 7 \<Longrightarrow> arm_ok True w g (emit_moveq w False g)"
  by (rule arm_of, erule (1) E_moveq, rule refl) (simp add: D_moveq bring, simp add: effects)

lemma nop_arm [arms]: "w = 0x4E71 \<Longrightarrow> arm_ok True w g (emit_advance 2 4 g)"
  by (rule arm_of, intro wps wp_start, rule refl) (simp add: D_nop, simp add: effects)

lemma tst_bw_arms [arms]:
  assumes "opf w 12 0xF = 4" "opf w 8 0xF = 0xA" "opf w 3 7 = 0"
  shows "opf w 6 3 = 0 \<Longrightarrow> arm_ok True w g (emit_tst_bw (opf w 0 7) 24 False g)" "opf w 6 3 = 1 \<Longrightarrow> arm_ok True w g (emit_tst_bw (opf w 0 7) 16 False g)"
    "opf w 6 3 = 2 \<Longrightarrow> arm_ok True w g (emit_tst_l (opf w 0 7) False g)"
  by (rule arm_of, erule (1) E_tst_bw [of _ _ 1, simplified], simp add: D_unary assms D_tst bring, simp add: effects)
    (rule arm_of, erule (1) E_tst_bw [of _ _ 2, simplified], simp add: D_unary assms D_tst bring, simp add: effects,
     rule arm_of, erule (1) E_tst_l, simp add: D_unary assms D_tst bring, simp add: effects)

lemma bits_sizes: "(if szf = 0 then 8 else if szf = 1 then 16 else 32) = size_bits_of (op_size_of szf)" if "szf = 0 \<or> szf = 1 \<or> szf = 2"
  using that by (auto simp: size_bits_of_def op_size_of_def)

lemma sizes_of: "szf = 0 \<or> szf = 1 \<or> szf = 2 \<Longrightarrow> op_size_of szf = 1 \<or> op_size_of szf = 2 \<or> op_size_of szf = 4"
  by (auto simp: op_size_of_def)

lemma clr_arm [arms]:
  assumes "opf w 12 0xF = 4" "opf w 8 0xF = 2" "opf w 6 3 = 0 \<or> opf w 6 3 = 1 \<or> opf w 6 3 = 2" "opf w 3 7 = 0"
  shows "arm_ok True w g (emit_clr (opf w 0 7) (if opf w 6 3 = 0 then 8 else if opf w 6 3 = 1 then 16 else 32) False g)"
  unfolding bits_sizes [OF assms(3)]
  by (rule arm_of, erule (1) E_clr, rule sizes_of [OF assms(3)]) ((use assms(3) in \<open>auto simp: D_unary [OF assms(1,2) refl assms(4)] D_clr bring\<close>)[1], simp add: effects)

lemma not_arm [arms]:
  assumes "opf w 12 0xF = 4" "opf w 8 0xF = 6" "opf w 6 3 = 0 \<or> opf w 6 3 = 1 \<or> opf w 6 3 = 2" "opf w 3 7 = 0"
  shows "arm_ok True w g (emit_not (opf w 0 7) (if opf w 6 3 = 0 then 8 else if opf w 6 3 = 1 then 16 else 32) False g)"
  unfolding bits_sizes [OF assms(3)]
  by (rule arm_of, erule (1) E_not, rule sizes_of [OF assms(3)]) ((use assms(3) in \<open>auto simp: D_unary [OF assms(1,2) refl assms(4)] D_not bring\<close>)[1], simp add: effects)

lemma neg_arm [arms]: "opf w 12 0xF = 4 \<Longrightarrow> opf w 8 0xF = 4 \<Longrightarrow> opf w 6 3 = 2 \<Longrightarrow> opf w 3 7 = 0 \<Longrightarrow> arm_ok True w g (emit_neg_l (opf w 0 7) False g)"
  by (rule arm_of, erule (1) E_neg_l) (simp add: D_unary D_neg_l bring, simp add: effects)

lemma swap_ext_arms [arms]:
  "w AND 0xFFF8 = 0x4840 \<Longrightarrow> arm_ok True w g (emit_swap (opf w 0 7) False g)"
  "w AND 0xFFF8 = 0x48C0 \<Longrightarrow> arm_ok True w g (emit_ext_l (opf w 0 7) False g)"
  "w AND 0xFFF8 = 0x4880 \<Longrightarrow> arm_ok True w g (emit_ext_w (opf w 0 7) False g)"
  by (rule arm_of, erule (1) E_swap, simp add: D_swap bring, simp add: effects)
    (rule arm_of, erule (1) E_ext_l, simp add: D_ext bring, simp add: effects, rule arm_of, erule (1) E_ext_w, simp add: D_ext bring, simp add: effects)

lemma data_low: "(if opf w 9 7 = 0 then 8 else opf w 9 7) \<le> 8" "1 \<le> (if opf w 9 7 = 0 then 8 else opf w 9 7)"
  using opf_low(2) [of w 9] by (auto simp del: opf_low)

lemma addq_arms [arms]:
  assumes "opf w 12 0xF = 5" "opf w 3 7 = 0"
  defines "k \<equiv> (if opf w 9 7 = 0 then 8 else opf w 9 7)"
  shows "opf w 6 3 = 2 \<Longrightarrow> arm_ok True w g (emit_addq_l_dd (opf w 0 7) k (bit w 8) False g)"
    "opf w 6 3 = 1 \<Longrightarrow> arm_ok True w g (emit_addq_w_dn (opf w 0 7) k (bit w 8) False g)"
    "opf w 6 3 = 0 \<Longrightarrow> arm_ok True w g (emit_addq_b_dn (opf w 0 7) k (bit w 8) False g)"
proof -
  have k: "1 \<le> k" "k \<le> 8" using data_low [of w] by (simp_all add: k_def)
  show "opf w 6 3 = 2 \<Longrightarrow> arm_ok True w g (emit_addq_l_dd (opf w 0 7) k (bit w 8) False g)"
    by (rule arm_of, erule (1) E_addq_l [OF _ _ k]) (simp add: D_addq assms(1,2) k_def [symmetric] bring merge_low_full add.commute, simp add: effects)
  show "opf w 6 3 = 1 \<Longrightarrow> arm_ok True w g (emit_addq_w_dn (opf w 0 7) k (bit w 8) False g)"
    by (rule arm_of, erule (1) E_addq_w [OF _ _ k]) (simp add: D_addq assms(1,2) k_def [symmetric] bring, simp add: effects)
  show "opf w 6 3 = 0 \<Longrightarrow> arm_ok True w g (emit_addq_b_dn (opf w 0 7) k (bit w 8) False g)"
    by (rule arm_of, erule (1) E_addq_b [OF _ _ k]) (simp add: D_addq assms(1,2) k_def [symmetric] bring, simp add: effects)
qed

lemma opf_szf: "opf w n 3 \<noteq> 3 \<Longrightarrow> opf w n 3 < 3"
  unfolding opf_nat using mod_less_divisor [of 4 "unat w div 2 ^ n"] by linarith

lemma addq_an_arm [free_arms]:
  assumes "opf w 12 0xF = 5" "opf w 6 3 \<noteq> 3" "opf w 3 7 = 1"
  shows "arm_ok False w g (emit_addq_an (opf w 0 7) (if bit w 8 then - int (if opf w 9 7 = 0 then 8 else opf w 9 7)
    else int (if opf w 9 7 = 0 then 8 else opf w 9 7)) g)"
proof -
  define k where "k = (if opf w 9 7 = 0 then 8 else opf w 9 7)"
  have k: "- 128 \<le> (if bit w 8 then - int k else int k)" "(if bit w 8 then - int k else int k) \<le> 127"
    using data_low [of w] unfolding k_def [symmetric] by auto
  show ?thesis unfolding k_def [symmetric]
    by (rule free_arm_of, rule E_addq_an [OF k]) (simp add: D_addq_an assms(1,3) opf_szf [OF assms(2)] k_def [symmetric] bring, simp add: effects)
qed

lemma opf_cc: "opf w 8 0xF < 16"
  by (simp add: opf_nat)

lemma scc_arm [arms]: "opf w 12 0xF = 5 \<Longrightarrow> opf w 6 3 = 3 \<Longrightarrow> opf w 3 7 = 0 \<Longrightarrow> arm_ok True w g (emit_scc (opf w 8 0xF) (opf w 0 7) g)"
  by (rule arm_of, erule E_scc [OF _ opf_cc]) (simp add: D_scc bring, simp add: effects)

lemma move_l_arms [arms]:
  assumes "opf w 12 0xF = 2" "opf w 6 7 = 0"
  shows "opf w 3 7 = 0 \<Longrightarrow> arm_ok True w g (emit_move_l_dd (opf w 9 7) (opf w 0 7) False g)"
    "opf w 3 7 = 1 \<Longrightarrow> arm_ok True w g (move_l_reg (opf w 9 7) (G_A (opf w 0 7)) False g)"
  unfolding emit_move_l_dd_def
  by (rule arm_of, erule (1) E_move_l, simp, simp add: D_move [where sz = 4] assms bring merge_low_full, simp add: effects)
    (rule arm_of, erule (1) E_move_l, simp, simp add: D_move [where sz = 4] assms bring merge_low_full, simp add: effects)

lemma move_bw_arms [arms]:
  assumes "opf w 6 7 = 0"
  shows "opf w 12 0xF = 3 \<Longrightarrow> opf w 3 7 = 1 \<Longrightarrow> arm_ok True w g (emit_move_w_an_dn (opf w 9 7) (opf w 0 7) False g)"
    "opf w 12 0xF = 3 \<Longrightarrow> opf w 3 7 = 0 \<Longrightarrow> arm_ok True w g (emit_move_w_dd (opf w 9 7) (opf w 0 7) False g)"
    "opf w 12 0xF = 1 \<Longrightarrow> opf w 3 7 = 0 \<Longrightarrow> arm_ok True w g (emit_move_b_dd (opf w 9 7) (opf w 0 7) False g)"
  by (rule arm_of, erule (1) E_move_w_an, simp add: D_move [where sz = 2] assms bring, simp add: effects)
    (rule arm_of, erule (1) E_move_w, simp add: D_move [where sz = 2] assms bring, simp add: effects,
     rule arm_of, erule (1) E_move_b, simp add: D_move [where sz = 1] assms bring merge_low_def size_mask_def, simp add: effects)

lemma movea_arms [free_arms]:
  assumes "opf w 6 7 = 1"
  shows "opf w 12 0xF = 2 \<Longrightarrow> opf w 3 7 \<le> 1 \<Longrightarrow> arm_ok False w g (emit_movea_l_reg (opf w 9 7) (opf w 0 7) (opf w 3 7 = 1) g)"
    "opf w 12 0xF = 3 \<Longrightarrow> opf w 3 7 = 0 \<Longrightarrow> arm_ok False w g (emit_movea_w_dn (opf w 9 7) (opf w 0 7) g)"
proof -
  have "(ucast (take_bit 16 v) :: u16) = ucast v" for v :: u32 by (rule bit_word_eqI) (simp add: bit_simps)
  hence s: "(sext (v AND size_mask 2) 2) = sx16 (ucast v)" "sext (v AND size_mask 4) 4 = v" for v
    by (simp_all add: sext_def size_mask_def full_mask and_masks)
  show "opf w 12 0xF = 2 \<Longrightarrow> opf w 3 7 \<le> 1 \<Longrightarrow> arm_ok False w g (emit_movea_l_reg (opf w 9 7) (opf w 0 7) (opf w 3 7 = 1) g)"
    by (rule free_arm_of, rule E_movea_l) (simp add: D_movea [where sz = 4] assms bring s, simp add: effects)
  show "opf w 12 0xF = 3 \<Longrightarrow> opf w 3 7 = 0 \<Longrightarrow> arm_ok False w g (emit_movea_w_dn (opf w 9 7) (opf w 0 7) g)"
    by (rule free_arm_of, rule E_movea_w) (simp add: D_movea [where sz = 2] assms bring s, simp add: effects)
qed

lemma add_sub_arms [arms]:
  assumes "\<not> bit w 8" "opf w 6 3 = 2" "opf w 3 7 = 0 \<or> opf w 3 7 = 1"
  shows "opf w 12 0xF = 0xD \<Longrightarrow> arm_ok True w g (emit_add_l_dd (opf w 9 7) (opf w 0 7) (opf w 3 7 = 1) False g)"
    "opf w 12 0xF = 9 \<Longrightarrow> arm_ok True w g (emit_sub_l_dd (opf w 9 7) (opf w 0 7) (opf w 3 7 = 1) False g)"
proof -
  note E = E_addsub_l [OF _ _ opf_low(2) opf_low(2)]
  show "opf w 12 0xF = 0xD \<Longrightarrow> arm_ok True w g (emit_add_l_dd (opf w 9 7) (opf w 0 7) (opf w 3 7 = 1) False g)" unfolding emit_add_l_dd_def
    by (rule arm_of, erule (1) E) ((use assms in \<open>auto simp: D_add [where is_sub = False] bring merge_low_full\<close>)[1], simp add: effects)
  show "opf w 12 0xF = 9 \<Longrightarrow> arm_ok True w g (emit_sub_l_dd (opf w 9 7) (opf w 0 7) (opf w 3 7 = 1) False g)" unfolding emit_sub_l_dd_def
    by (rule arm_of, erule (1) E) ((use assms in \<open>auto simp: D_add [where is_sub = True] bring merge_low_full\<close>)[1], simp add: effects)
qed

lemma adda_arms [free_arms]:
  assumes "bit w 8" "opf w 6 3 = 3" "opf w 3 7 \<le> 1"
  shows "opf w 12 0xF = 0xD \<Longrightarrow> arm_ok False w g (emit_adda_l False (opf w 9 7) (opf w 0 7) (opf w 3 7 = 1) g)"
    "opf w 12 0xF = 9 \<Longrightarrow> arm_ok False w g (emit_adda_l True (opf w 9 7) (opf w 0 7) (opf w 3 7 = 1) g)"
  by (rule free_arm_of, rule E_adda_l, simp add: D_adda [where is_sub = False] assms bring del: One_nat_def, simp add: effects)
    (rule free_arm_of, rule E_adda_l, simp add: D_adda [where is_sub = True] assms bring del: One_nat_def, simp add: effects)

lemma bw_size: "szf = 0 \<or> szf = 1 \<Longrightarrow> (if szf = 0 then 8 else 16) = (if op_size_of szf = 1 then 8 else 16 :: u8)"
  "szf = 0 \<or> szf = 1 \<Longrightarrow> op_size_of szf = 1 \<or> op_size_of szf = 2"
  by (auto simp: op_size_of_def)

lemma addsub_bw_arm [arms]:
  assumes "opf w 12 0xF = 0xD \<or> opf w 12 0xF = 9" "opf w 6 3 = 0 \<or> opf w 6 3 = 1" "\<not> bit w 8" "opf w 3 7 = 0"
  shows "arm_ok True w g (emit_addsub_bw_dd (opf w 12 0xF = 9) (opf w 9 7) (opf w 0 7) (if opf w 6 3 = 0 then 8 else 16) False g)"
  unfolding bw_size(1) [OF assms(2)]
  by (rule arm_of, erule (1) E_addsub_bw [OF _ _ bw_size(2) [OF assms(2)]])
    ((use assms in \<open>auto simp: D_add [where is_sub = "opf w 12 0xF = 9"] bring\<close>)[1], simp add: effects)

lemma cmp_arms [arms]:
  assumes "opf w 12 0xF = 0xB" "\<not> bit w 8" "opf w 3 7 = 0"
  shows "opf w 6 3 = 2 \<Longrightarrow> arm_ok True w g (emit_cmp_l_dd (opf w 9 7) (opf w 0 7) need g)"
    "opf w 6 3 = 1 \<Longrightarrow> arm_ok True w g (emit_cmp_w_dd (opf w 9 7) (opf w 0 7) need g)"
  by (rule arm_of, erule (1) E_cmp_l, simp add: D_cmp assms bring, simp add: effects)
    (rule arm_of, erule (1) E_cmp_w, simp add: D_cmp assms bring, simp add: effects)

lemma logic_l_arms [arms]:
  assumes "opf w 6 3 = 2" "opf w 3 7 = 0"
  shows "\<not> bit w 8 \<Longrightarrow> opf w 12 0xF = 0xC \<Longrightarrow> arm_ok True w g (emit_logic_l_dd (opf w 9 7) (opf w 0 7) (opf w 9 7) False g)"
    "\<not> bit w 8 \<Longrightarrow> opf w 12 0xF = 8 \<Longrightarrow> arm_ok True w g (emit_logic_l_dd_kind (opf w 9 7) (opf w 0 7) (opf w 9 7) 0 False g)"
    "bit w 8 \<Longrightarrow> opf w 12 0xF = 0xB \<Longrightarrow> arm_ok True w g (emit_logic_l_dd (opf w 9 7) (opf w 0 7) (opf w 0 7) True g)"
proof -
  have c: "logic_fn k x y = logic_fn k y x" for k x y by (simp add: logic_fn_def ac_simps)
  show "\<not> bit w 8 \<Longrightarrow> opf w 12 0xF = 0xC \<Longrightarrow> arm_ok True w g (emit_logic_l_dd (opf w 9 7) (opf w 0 7) (opf w 9 7) False g)" unfolding emit_logic_l_dd_def
    by (rule arm_of, erule (1) E_logic_l) (simp add: D_logic [where kind = 1] c [of _ "cdreg _ (opf w 9 7)"] assms bring merge_low_full, simp add: effects)
  show "\<not> bit w 8 \<Longrightarrow> opf w 12 0xF = 8 \<Longrightarrow> arm_ok True w g (emit_logic_l_dd_kind (opf w 9 7) (opf w 0 7) (opf w 9 7) 0 False g)"
    by (rule arm_of, erule (1) E_logic_l) (simp add: D_logic [where kind = 0] c [of _ "cdreg _ (opf w 9 7)"] assms bring merge_low_full, simp add: effects)
  show "bit w 8 \<Longrightarrow> opf w 12 0xF = 0xB \<Longrightarrow> arm_ok True w g (emit_logic_l_dd (opf w 9 7) (opf w 0 7) (opf w 0 7) True g)" unfolding emit_logic_l_dd_def
    by (rule arm_of, erule (1) E_logic_l) (simp add: D_eor assms bring merge_low_full, simp add: effects)
qed

lemma logic_bw_arms [arms]:
  assumes "opf w 6 3 = 0 \<or> opf w 6 3 = 1" "opf w 3 7 = 0"
  shows "opf w 12 0xF = 0xC \<Longrightarrow> \<not> bit w 8 \<Longrightarrow> arm_ok True w g (emit_logic_bw_dd_kind (opf w 0 7) (opf w 9 7) (opf w 9 7) 1 (if opf w 6 3 = 0 then 8 else 16) False g)"
    "opf w 12 0xF = 8 \<Longrightarrow> \<not> bit w 8 \<Longrightarrow> arm_ok True w g (emit_logic_bw_dd_kind (opf w 0 7) (opf w 9 7) (opf w 9 7) 0 (if opf w 6 3 = 0 then 8 else 16) False g)"
    "opf w 12 0xF = 0xB \<Longrightarrow> bit w 8 \<Longrightarrow> arm_ok True w g (emit_logic_bw_dd_kind (opf w 9 7) (opf w 0 7) (opf w 0 7) 2 (if opf w 6 3 = 0 then 8 else 16) False g)"
proof -
  note E = E_logic_bw [OF _ _ bw_size(2) [OF assms(1)]]
  show "opf w 12 0xF = 0xC \<Longrightarrow> \<not> bit w 8 \<Longrightarrow> arm_ok True w g (emit_logic_bw_dd_kind (opf w 0 7) (opf w 9 7) (opf w 9 7) 1 (if opf w 6 3 = 0 then 8 else 16) False g)"
    unfolding bw_size(1) [OF assms(1)] by (rule arm_of, erule (1) E) ((use assms in \<open>auto simp: D_logic [where kind = 1] bring\<close>)[1], simp add: effects)
  show "opf w 12 0xF = 8 \<Longrightarrow> \<not> bit w 8 \<Longrightarrow> arm_ok True w g (emit_logic_bw_dd_kind (opf w 0 7) (opf w 9 7) (opf w 9 7) 0 (if opf w 6 3 = 0 then 8 else 16) False g)"
    unfolding bw_size(1) [OF assms(1)] by (rule arm_of, erule (1) E) ((use assms in \<open>auto simp: D_logic [where kind = 0] bring\<close>)[1], simp add: effects)
  show "opf w 12 0xF = 0xB \<Longrightarrow> bit w 8 \<Longrightarrow> arm_ok True w g (emit_logic_bw_dd_kind (opf w 9 7) (opf w 0 7) (opf w 0 7) 2 (if opf w 6 3 = 0 then 8 else 16) False g)"
    unfolding bw_size(1) [OF assms(1)] by (rule arm_of, erule (1) E) ((use assms in \<open>auto simp: D_eor bring\<close>)[1], simp add: effects)
qed

subsection \<open>Every arm\<close>









subsection \<open>The property\<close>







end
