(* ===== verification/Spec2Isabelle.thy ===== *)
theory Spec2Isabelle
  imports JitEquiv Integers DecodeLength Successors XtensaCorrect HostSimCorrect CodegenOps
begin

text \<open>
  A model of the emulator in this repository: a Macintosh Plus with a 68000 interpreter, its devices, and a just-in-time
  compiler from 68000 code to Xtensa code, which on the host runs in an Xtensa simulator. The definitions are translated from
  the C files under src/ one function at a time and keep their names; the theorems that matter most are the ones with a claim
  number in the text before them.

  \<^bold>\<open>How the program is put together.\<close> One machine state (the record \<open>machine\<close>, the C structure \<open>mac_mem\<close> with the processor in it)
  is passed through everything. The interpreter fetches and executes one instruction at a time (\<open>m68k_step\<close>); every memory
  access goes through the bus (\<open>mac_read8\<close> and so on), which finds RAM, ROM or a device window. The run loop gives time to the
  VIA, polls interrupts, serves the floppy driver and steps. The compiler cuts guest code into blocks (\<open>m68k_decode_at\<close>), emits
  Xtensa code into an arena (the code cache), and the dispatcher finds, runs and invalidates the compiled blocks. Compiled code
  works on the register file in memory and calls the interpreter or a fast helper for what it cannot do itself.

  \<^bold>\<open>Theories and the files they model.\<close>
  \<^item> Prelude: word types and the facts about words, bytes and bits that the components share.
  \<^item> M68kCpu, Alu, Bcd: core/m68k_cpu.h and the flag, shift and decimal helpers of core/m68k_interp.c.
  \<^item> Rtc, Gcr, Iwm, Scsi, Keyboard, Mouse: the devices (the clock of mac_mem.c, mac_iwm.c, mac_scsi.c, mac_input.c), each a state record with
    its register accesses; Machine puts them together with the VIA, the SCC and memory.
  \<^item> MacMem: mac_mem.c, address decoding, accesses of all widths, VIA, SCC and the periodic tick.
  \<^item> Sony: sony.c, the .Sony driver that replaces the one in ROM.
  \<^item> Ea, Step: effective addresses, exceptions and every instruction of the interpreter, and the run loop.
  \<^item> JitHelpers: the fast helpers that compiled code calls. Decode: the decoder that finds the end of a block.
  \<^item> CodeCache, Dispatcher, Successors: jit/codecache.c (three allocators), the block table, self-modifying code and eviction of
    jit/dispatcher.c, and the static successors of a block.
  \<^item> Xtensa: jit/emit_xtensa.c and jit/xtensa_sim.c, the encoder and the simulator. HostSim: the callbacks of the host build through
    which simulated code reaches the machine, and the literals of a block.
  \<^item> Codegen, CodegenOps: jit/codegen.c, the state of the block compiler, its emitters for instructions on registers, constants and
    branches, the condition code classes of the opcodes, and the arms of its main loop for one-word register instructions.

  \<^bold>\<open>What is proved.\<close>
  \<^item> M68kCpu, Alu, Bcd, Integers: flags, shifts, decimal arithmetic, division and multi-precision chains against arithmetic on
    integers; a branch after a compare decides the relation its name says.
  \<^item> Devices: round trips (clock, GCR, SCSI write then read), invariants kept by every register access, error replies, the key
    ring as a queue.
  \<^item> MacMem, Execution, BusFrame, Exceptions: decoding stays in bounds, no access or instruction changes ROM or the layout of
    memory (the locale \<open>machine_invariant\<close> lifts an invariant of the bus to every run), the devices cannot see the registers
    (locale \<open>bus_morphism\<close>), exceptions and interrupts build the frame that RTE takes apart, the run loop returns.
  \<^item> JitEquiv, DecodeLength, Successors: helpers do what the instructions they replace do; the decoder computes the length the
    interpreter consumes; static successors contain the next program counter.
  \<^item> CodeCache, Dispatcher: live blocks never overlap and lie in the arena, an allocation always returns, blocks whose code was
    written are dropped, no block predicts a freed one.
  \<^item> XtensaCorrect, HostSimCorrect: an emitted instruction, fetched from the bytes the encoder wrote, has in the simulator the
    effect it is named for; loads and stores of the register file and the bounds probe of memory fast paths are right.
  \<^item> CodegenRun to CodegenUnary: a calculus for emitted code. \<open>holds\<close> relates the bookkeeping of the compiler (registers kept in
    slots, deferred program counter and cycles, status register in a14) and the state of the simulator to the guest machine they
    stand for; \<open>wp\<close> and its rules (collection \<open>wps\<close>) compute what an emitter does to that machine; the lemmas \<open>E_...\<close>, one for
    each emitter, say that it is what the instruction does. CodegenOps closes the loop with the interpreter (\<open>D_...\<close> lemmas and
    the collection \<open>arms\<close>).

  \<^bold>\<open>Bounds and fuel.\<close> Loops of the program that may not end are partial functions into \<open>option\<close> (\<open>m68k_run_until\<close>, the
    allocators, \<open>mark_from\<close>) and their return is a theorem where it is claimed. \<open>xt_sim_run\<close> has the step limit of the source as its
    argument. The floppy driver nests at most to \<open>SONY_DEPTH\<close>, and the vertical blank loop of the tick runs for the number of turns
    that its counter leaves.

  \<^bold>\<open>Not modelled.\<close> Sound (floating point samples; the calls are counted), the GUI and the host's command line (input and output),
  the demo ROM and the test assembler, the ESP32 port, tools and tests. Of jit/codegen.c: the arms for memory operands, multiply,
  shifts, bit operations, subroutine calls and the helper bridges in their slow paths; these are about 8000 lines of
  similar arms. Of jit/dispatcher.c: the run loop and the code that compiles ahead. Diagnostics (exception log, histograms, MMIO log) are
  left out everywhere. The layout of \<open>m68k_cpu\<close> that \<open>offsetof\<close> yields is that of the usual C ABI.
\<close>

end
